(* ===== verification/Prelude.thy ===== *)
theory Prelude
  imports Main "HOL-Library.Word" "HOL-Library.AList" "HOL-Library.Sublist"
    "HOL-Library.List_Lexorder"
begin

text \<open>
  What every component of the development shares: the collections of simplification rules,
  JavaScript's insertion-ordered \<open>Set\<close> and \<open>Map\<close> as lists, byte strings, and the capped
  exponential backoff that three components of the program compute with their own constants.
\<close>

named_theorems js_eval
named_theorems engine_simps
named_theorems provider_simps
named_theorems gateway_simps
named_theorems db_simps

type_synonym bytes = "8 word list"

section \<open>JavaScript collections\<close>

text \<open>
  A \<open>Set\<close> iterates in insertion order and holds each element once: a distinct list. A
  \<open>Map\<close> is an association list with one entry per key; \<open>set\<close> keeps the position of an
  existing key, which is what \<^const>\<open>AList.update\<close> does, \<open>get\<close> is \<^const>\<open>map_of\<close> and
  \<open>delete\<close> is \<^const>\<open>AList.delete\<close>.
\<close>

definition set_add :: "'a \<Rightarrow> 'a list \<Rightarrow> 'a list" where
  "set_add x xs = (if x \<in> set xs then xs else xs @ [x])"

definition set_delete :: "'a \<Rightarrow> 'a list \<Rightarrow> 'a list" where
  "set_delete x xs = filter (\<lambda>y. y \<noteq> x) xs"

lemma set_set_add [simp]: "set (set_add x xs) = insert x (set xs)"
  by (auto simp: set_add_def)

lemma distinct_set_add [simp]: "distinct (set_add x xs) \<longleftrightarrow> distinct xs"
  by (simp add: set_add_def)

lemma set_set_delete [simp]: "set (set_delete x xs) = set xs - {x}"
  by (auto simp: set_delete_def)

lemma distinct_set_delete [simp]: "distinct xs \<Longrightarrow> distinct (set_delete x xs)"
  by (simp add: set_delete_def)

lemma set_delete_notin [simp]: "x \<notin> set xs \<Longrightarrow> set_delete x xs = xs"
  unfolding set_delete_def by (rule filter_True) blast

lemma fold_set_add: "set (fold set_add ys xs) = set ys \<union> set xs"
  by (induction ys arbitrary: xs) auto

lemma distinct_fold_set_add: "distinct xs \<Longrightarrow> distinct (fold set_add ys xs)"
  by (induction ys arbitrary: xs) auto

lemma set_fold_set_delete: "set (fold set_delete ys xs) = set xs - set ys"
  by (induction ys arbitrary: xs) auto

lemma distinct_fold_set_delete: "distinct xs \<Longrightarrow> distinct (fold set_delete ys xs)"
  by (induction ys arbitrary: xs) auto

lemma map_of_update [simp]: "map_of (AList.update k v m) = (map_of m)(k \<mapsto> v)"
  by (simp add: update_conv')

lemma map_of_delete [simp]: "map_of (AList.delete k m) = (map_of m)(k := None)"
  by (simp add: delete_conv')

lemma keys_update: "fst ` set (AList.update k v m) = insert k (fst ` set m)"
  by (induction m) auto

lemma list_all_update: "list_all P m \<Longrightarrow> P (k, v) \<Longrightarrow> list_all P (AList.update k v m)"
  by (induction m) auto

lemma list_all_delete: "list_all P m \<Longrightarrow> list_all P (AList.delete k m)"
  by (simp add: AList.delete_eq list_all_iff)

lemma length_update_new: "k \<notin> fst ` set m \<Longrightarrow> length (AList.update k v m) = Suc (length m)"
  by (induction m) auto

lemma length_delete_key:
  "distinct (map fst m) \<Longrightarrow> k \<in> fst ` set m \<Longrightarrow> length m = Suc (length (AList.delete k m))"
proof (induction m)
  case (Cons kv m)
  then show ?case
    by (cases "fst kv = k") auto
qed simp

section \<open>Capped exponential backoff\<close>

text \<open>
  \<open>Math.min(base * 2 ** n, cap)\<close>. For \<open>n\<close> beyond 1023 the double \<open>2 ** n\<close> is infinite and
  the minimum is the cap; below the cap every value is an exact integer, so the natural number
  computed here is the program's.
\<close>

definition capped_backoff :: "nat \<Rightarrow> nat \<Rightarrow> nat \<Rightarrow> nat" where
  "capped_backoff base cap n = min (base * 2 ^ n) cap"

lemma capped_backoff_le: "capped_backoff base cap n \<le> cap"
  by (simp add: capped_backoff_def)

lemma capped_backoff_pos: "0 < base \<Longrightarrow> 0 < cap \<Longrightarrow> 0 < capped_backoff base cap n"
  by (simp add: capped_backoff_def)

lemma capped_backoff_mono: "m \<le> n \<Longrightarrow> capped_backoff base cap m \<le> capped_backoff base cap n"
proof -
  assume "m \<le> n"
  then have "base * 2 ^ m \<le> base * 2 ^ n"
    by (intro mult_le_mono2 power_increasing) simp_all
  then show ?thesis
    unfolding capped_backoff_def by (rule min.mono) simp
qed

lemma capped_backoff_saturates:
  "cap \<le> base * 2 ^ m \<Longrightarrow> m \<le> n \<Longrightarrow> capped_backoff base cap n = cap"
  using capped_backoff_mono[of m n base cap] capped_backoff_le[of base cap n]
  by (simp add: capped_backoff_def min_def split: if_splits)

lemma capped_backoff_doubles:
  "base * 2 ^ Suc n \<le> cap \<Longrightarrow> capped_backoff base cap (Suc n) = 2 * capped_backoff base cap n"
  by (simp add: capped_backoff_def min_def)

text \<open>
  What the three users of the backoff rely on: a delay function that starts at \<open>base\<close>, doubles
  until the cap and stays there.
\<close>

locale retry_delay =
  fixes delay :: "nat \<Rightarrow> nat" and base :: nat and cap :: nat
  assumes delay_0: "delay 0 = base"
    and delay_Suc: "delay (Suc n) = min (2 * delay n) cap"
    and base_pos: "0 < base"
    and base_le_cap: "base \<le> cap"
begin

lemma closed_form: "delay n = capped_backoff base cap n"
proof (induction n)
  case 0
  then show ?case by (simp add: delay_0 capped_backoff_def base_le_cap)
next
  case (Suc n)
  then show ?case by (simp add: delay_Suc capped_backoff_def min_def)
qed

lemma within: "base \<le> delay n \<and> delay n \<le> cap"
  using capped_backoff_mono[of 0 n base cap] capped_backoff_le[of base cap n] delay_0
  by (simp add: closed_form)

lemma increasing: "m \<le> n \<Longrightarrow> delay m \<le> delay n"
  by (simp add: closed_form capped_backoff_mono)

lemma total_lower_bound: "n * base \<le> (\<Sum>i<n. delay i)"
proof (induction n)
  case (Suc n)
  then show ?case using within[of n] by simp
qed simp

lemma total_upper_bound: "(\<Sum>i<n. delay i) \<le> n * cap"
proof (induction n)
  case (Suc n)
  then show ?case using within[of n] by simp
qed simp

end

lemma capped_backoff_retry_delay:
  "0 < base \<Longrightarrow> base \<le> cap \<Longrightarrow> retry_delay (capped_backoff base cap) base cap"
  by unfold_locales (auto simp: capped_backoff_def min_def)

section \<open>Sums as results\<close>

text \<open>A result is \<open>Inl e\<close> for a thrown error and \<open>Inr x\<close> for a returned value.\<close>

definition bind_result :: "'e + 'a \<Rightarrow> ('a \<Rightarrow> 'e + 'b) \<Rightarrow> 'e + 'b" where
  "bind_result r f = (case r of Inl e \<Rightarrow> Inl e | Inr x \<Rightarrow> f x)"

lemma bind_result_simps [simp]:
  "bind_result (Inl e) f = Inl e"
  "bind_result (Inr x) f = f x"
  by (simp_all add: bind_result_def)

lemma bind_result_Inr: "bind_result r f = Inr y \<longleftrightarrow> (\<exists>x. r = Inr x \<and> f x = Inr y)"
  by (cases r) auto

text \<open>A result computed to be a success has a value; for witnesses.\<close>

fun succeeds :: "'e + 'a \<Rightarrow> bool" where
  "succeeds (Inl e) = False"
| "succeeds (Inr x) = True"

lemma succeeds_iff: "succeeds r \<longleftrightarrow> (\<exists>x. r = Inr x)"
  by (cases r) simp_all

section \<open>Sockets and effects\<close>

text \<open>The \<open>readyState\<close> of a WebSocket.\<close>

datatype ready_state = Connecting | Open | Closing | Closed

lemma ws_cases: obtains "w = None" | "w = Some Connecting" | "w = Some Open" | "w = Some Closing"
  | "w = Some Closed"
proof (cases w)
  case (Some r)
  with that show thesis by (cases r) auto
qed (use that in simp)

text \<open>Running one more operation after another, collecting the effects.\<close>

definition andThen :: "('s \<times> 'e list) \<Rightarrow> ('s \<Rightarrow> 's \<times> 'e list) \<Rightarrow> 's \<times> 'e list" where
  "andThen r f = (case r of (s, es) \<Rightarrow> case f s of (s', es') \<Rightarrow> (s', es @ es'))"

lemma andThen_pair [simp]: "andThen (s, es) f = (fst (f s), es @ snd (f s))"
  by (simp add: andThen_def split: prod.split)

end
