(* ===== verification/JString.thy ===== *)
theory JString
  imports Prelude
begin

text \<open>
  JavaScript strings: lists of UTF-16 code units, the unit in which \<open>length\<close>, \<open>slice\<close> and
  \<open>charCodeAt\<close> count. \<open>js\<close> embeds a literal of the source. Then the parts of the standard
  library that the program calls on strings: \<open>startsWith\<close>, \<open>trim\<close>, \<open>join\<close>, \<open>String(n)\<close>.
\<close>

section \<open>Code units and literals\<close>

type_synonym jchar = "16 word"
type_synonym jstr = "jchar list"

definition js :: "string \<Rightarrow> jstr" where
  "js s = map (\<lambda>c. word_of_nat (of_char c)) s"

declare js_def [js_eval]

lemma unat_of_char16 [simp]: "unat (word_of_nat (of_char c) :: jchar) = of_char c"
proof -
  have "(of_char c :: nat) < 65536"
    by (rule less_trans[of _ 256]) simp_all
  then show ?thesis
    by (simp add: unat_of_nat)
qed

lemma js_inj [simp]: "js a = js b \<longleftrightarrow> a = b"
proof -
  have "inj (\<lambda>c. word_of_nat (of_char c) :: jchar)"
    by (rule injI) (metis unat_of_char16 of_char_eq_iff)
  then show ?thesis
    unfolding js_def by (rule inj_map_eq_map)
qed

lemma length_js [simp]: "length (js s) = length s"
  by (simp add: js_def)

lemma js_append: "js (a @ b) = js a @ js b"
  by (simp add: js_def)

lemma js_Nil [simp]: "js [] = []" "js s = [] \<longleftrightarrow> s = []"
  by (simp_all add: js_def)

section \<open>startsWith, slice, trim, join\<close>

definition starts_with :: "jstr \<Rightarrow> jstr \<Rightarrow> bool" where
  "starts_with s p \<longleftrightarrow> take (length p) s = p"

lemma starts_with_iff: "starts_with s p \<longleftrightarrow> (\<exists>r. s = p @ r)"
  by (auto simp: starts_with_def) (metis append_take_drop_id)

lemma starts_with_append [simp]: "starts_with (p @ r) p"
  by (simp add: starts_with_def)

text \<open>White space and line terminators, which \<open>trim\<close> strips at both ends.\<close>

definition is_ws :: "jchar \<Rightarrow> bool" where
  "is_ws c \<longleftrightarrow> (9 \<le> c \<and> c \<le> 13) \<or> c = 32 \<or> c = 160 \<or> c = 0x1680
     \<or> (0x2000 \<le> c \<and> c \<le> 0x200a) \<or> c = 0x2028 \<or> c = 0x2029 \<or> c = 0x202f
     \<or> c = 0x205f \<or> c = 0x3000 \<or> c = 0xfeff"

definition trim :: "jstr \<Rightarrow> jstr" where
  "trim s = rev (dropWhile is_ws (rev (dropWhile is_ws s)))"

lemma length_trim: "length (trim s) \<le> length s"
  unfolding trim_def
  using length_dropWhile_le[of is_ws s] length_dropWhile_le[of is_ws "rev (dropWhile is_ws s)"]
  by simp

lemma trim_hd: "trim s \<noteq> [] \<Longrightarrow> \<not> is_ws (hd (trim s))"
proof -
  let ?d = "dropWhile is_ws s"
  assume ne: "trim s \<noteq> []"
  then obtain x xs where d: "?d = x # xs"
    by (cases ?d) (auto simp: trim_def)
  have x: "\<not> is_ws x"
    using hd_dropWhile[of is_ws s] d by (metis list.distinct(1) list.sel(1))
  have "dropWhile is_ws (rev ?d) = dropWhile is_ws (rev xs) @ [x]"
    using x by (auto simp: d dropWhile_append)
  then have "trim s = x # rev (dropWhile is_ws (rev xs))"
    by (simp add: trim_def)
  with x show ?thesis by simp
qed

lemma trim_last: "trim s \<noteq> [] \<Longrightarrow> \<not> is_ws (last (trim s))"
  unfolding trim_def last_rev by (rule hd_dropWhile) simp

lemma dropWhile_no: "xs \<noteq> [] \<Longrightarrow> \<not> P (hd xs) \<Longrightarrow> dropWhile P xs = xs"
  by (cases xs) auto

lemma trim_id: "s = [] \<or> (\<not> is_ws (hd s) \<and> \<not> is_ws (last s)) \<Longrightarrow> trim s = s"
  by (cases "s = []") (auto simp: trim_def dropWhile_no hd_rev)

lemma trim_trim [simp]: "trim (trim s) = trim s"
  by (rule trim_id) (use trim_hd trim_last in blast)

fun join :: "jstr \<Rightarrow> jstr list \<Rightarrow> jstr" where
  "join sep [] = []"
| "join sep [x] = x"
| "join sep (x # y # zs) = x @ sep @ join sep (y # zs)"

section \<open>Decimal numerals: \<open>String(n)\<close> and digit scanning\<close>

definition is_digit :: "jchar \<Rightarrow> bool" where
  "is_digit c \<longleftrightarrow> 48 \<le> c \<and> c \<le> 57"

definition digit_char :: "nat \<Rightarrow> jchar" where
  "digit_char n = word_of_nat (48 + n)"

definition digit_val :: "jchar \<Rightarrow> nat" where
  "digit_val c = unat c - 48"

fun dec_nat :: "nat \<Rightarrow> jstr" where
  "dec_nat n = (if n < 10 then [digit_char n] else dec_nat (n div 10) @ [digit_char (n mod 10)])"

declare dec_nat.simps [simp del]

definition dec_int :: "int \<Rightarrow> jstr" where
  "dec_int i = (if i < 0 then js ''-'' @ dec_nat (nat (- i)) else dec_nat (nat i))"

text \<open>The longest prefix of digits: its value (from \<open>acc\<close>), its length and what follows.\<close>

fun scan_digits :: "nat \<Rightarrow> nat \<Rightarrow> jstr \<Rightarrow> nat \<times> nat \<times> jstr" where
  "scan_digits acc n [] = (acc, n, [])"
| "scan_digits acc n (c # s) =
     (if is_digit c then scan_digits (10 * acc + digit_val c) (Suc n) s else (acc, n, c # s))"

lemma is_digit_unat: "is_digit c \<longleftrightarrow> 48 \<le> unat c \<and> unat c \<le> 57"
  by (simp add: is_digit_def word_le_nat_alt)

lemma unat_digit_char: "n < 10 \<Longrightarrow> unat (digit_char n) = 48 + n"
  unfolding digit_char_def by (subst unat_of_nat) simp

lemma digit_char_is_digit [simp]: "n < 10 \<Longrightarrow> is_digit (digit_char n)"
  by (simp add: is_digit_unat unat_digit_char)

lemma digit_val_char [simp]: "n < 10 \<Longrightarrow> digit_val (digit_char n) = n"
  by (simp add: digit_val_def unat_digit_char)

lemma dec_nat_digits: "c \<in> set (dec_nat n) \<Longrightarrow> is_digit c"
proof (induction n rule: dec_nat.induct)
  case (1 n)
  then show ?case
    by (cases "n < 10") (auto simp: dec_nat.simps[of n])
qed

lemma dec_nat_nonempty [simp]: "dec_nat n \<noteq> []"
  by (subst dec_nat.simps) simp

lemma scan_digits_append:
  assumes "\<forall>c \<in> set s. is_digit c"
  shows "scan_digits acc n (s @ r) =
    scan_digits (foldl (\<lambda>a c. 10 * a + digit_val c) acc s) (n + length s) r"
  using assms by (induction s arbitrary: acc n) auto

lemma dec_nat_value: "foldl (\<lambda>a c. 10 * a + digit_val c) 0 (dec_nat n) = n"
proof (induction n rule: dec_nat.induct)
  case (1 n)
  show ?case
  proof (cases "n < 10")
    case True
    then show ?thesis by (simp add: dec_nat.simps[of n])
  next
    case False
    with "1.IH" show ?thesis by (simp add: dec_nat.simps[of n])
  qed
qed

lemma scan_digits_stop:
  "r = [] \<or> \<not> is_digit (hd r) \<Longrightarrow> scan_digits acc n r = (acc, n, r)"
  by (cases r) auto

lemma scan_dec_nat:
  assumes "r = [] \<or> \<not> is_digit (hd r)"
  shows "scan_digits 0 0 (dec_nat n @ r) = (n, length (dec_nat n), r)"
  by (simp add: scan_digits_append dec_nat_digits dec_nat_value scan_digits_stop[OF assms])

lemma dec_nat_inj [simp]: "dec_nat m = dec_nat n \<longleftrightarrow> m = n"
  using dec_nat_value by metis

text \<open>A separator that is not a digit makes the numeral after it readable from the right.\<close>

lemma append_dec_nat_inj:
  assumes "\<not> is_digit c"
  shows "a @ c # dec_nat m = b @ c # dec_nat n \<longleftrightarrow> a = b \<and> m = n"
proof
  assume eq: "a @ c # dec_nat m = b @ c # dec_nat n"
  have notin: "c \<notin> set (dec_nat k)" for k
    using assms dec_nat_digits by blast
  have "takeWhile (\<lambda>x. x \<noteq> c) (rev (a @ c # dec_nat m)) = rev (dec_nat m)"
    using notin by (auto simp: takeWhile_append takeWhile_eq_all_conv)
  moreover have "takeWhile (\<lambda>x. x \<noteq> c) (rev (b @ c # dec_nat n)) = rev (dec_nat n)"
    using notin by (auto simp: takeWhile_append takeWhile_eq_all_conv)
  ultimately have "dec_nat m = dec_nat n"
    using eq by simp
  with eq show "a = b \<and> m = n" by simp
qed simp

text \<open>\<open>Number(s)\<close> on a string of decimal digits.\<close>

definition number_of_digits :: "jstr \<Rightarrow> nat option" where
  "number_of_digits s = (case scan_digits 0 0 s of (v, k, r) \<Rightarrow>
     if k > 0 \<and> r = [] then Some v else None)"

lemma number_of_dec_nat [simp]: "number_of_digits (dec_nat n) = Some n"
  using scan_dec_nat[of "[]" n] by (simp add: number_of_digits_def)

section \<open>\<open>split\<close> on one character\<close>

fun split_on :: "jchar \<Rightarrow> jstr \<Rightarrow> jstr list" where
  "split_on sep [] = [[]]"
| "split_on sep (c # s) =
     (if c = sep then [] # split_on sep s
      else (case split_on sep s of [] \<Rightarrow> [[c]] | w # ws \<Rightarrow> (c # w) # ws))"

lemma split_on_nonempty [simp]: "split_on sep s \<noteq> []"
  by (induction sep s rule: split_on.induct) (auto split: list.split)

text \<open>Splitting a concatenation: the last piece of the front goes on in what follows.\<close>

lemma split_on_append:
  "split_on sep (a @ b) = butlast (split_on sep a) @ split_on sep (last (split_on sep a) @ b)"
proof (induction sep a rule: split_on.induct)
  case (2 sep c s)
  show ?case
  proof (cases "c = sep")
    case False
    obtain w ws where s: "split_on sep s = w # ws" by (cases "split_on sep s") auto
    show ?thesis
    proof (cases ws)
      case Nil
      with 2(2) False s show ?thesis by simp
    next
      case (Cons v vs)
      with 2(2) False s show ?thesis by simp
    qed
  qed (use 2(1) in simp)
qed simp

end
