(* ===== verification/Json.thy ===== *)
theory Json
  imports JString
begin

text \<open>
  \<open>JSON.parse\<close> and \<open>JSON.stringify\<close>, the part of the standard library under the program's
  wire formats (the E2E1 envelope, the AAD, REST bodies, Redis payloads). Values carry numbers
  as exact decimals \<open>m * 10 ^ -k\<close>; rounding of long numerals to IEEE doubles is not modelled.
  The parser recurses on fuel, one unit for each nested value; \<open>json_parse\<close> gives it one more
  than the input's length, and \<open>json_roundtrip\<close> shows that printing then parsing returns the
  value.
\<close>

section \<open>Values\<close>

text \<open>\<open>Dec m k\<close> is \<open>m * 10 ^ -k\<close>, kept with \<open>k = 0\<close> or \<open>m\<close> not divisible by ten.\<close>

datatype decimal = Dec (dec_mant: int) (dec_exp: nat)

fun norm_dec :: "int \<Rightarrow> nat \<Rightarrow> decimal" where
  "norm_dec m 0 = Dec m 0"
| "norm_dec m (Suc k) = (if m mod 10 = 0 then norm_dec (m div 10) k else Dec m (Suc k))"

abbreviation dec_of_int :: "int \<Rightarrow> decimal" where
  "dec_of_int i \<equiv> Dec i 0"

datatype json =
  JNull
| JBool bool
| JNum decimal
| JStr jstr
| JArr "json list"
| JObj "(jstr \<times> json) list"

text \<open>Property access on an object: the last binding of a repeated key was kept by the parser.\<close>

fun json_get :: "json \<Rightarrow> jstr \<Rightarrow> json option" where
  "json_get (JObj kvs) k = map_of kvs k"
| "json_get _ k = None"

fun json_keys :: "json \<Rightarrow> jstr list" where
  "json_keys (JObj kvs) = map fst kvs"
| "json_keys _ = []"

section \<open>Printing\<close>

definition hex_char :: "nat \<Rightarrow> jchar" where
  "hex_char n = word_of_nat (if n < 10 then 48 + n else 87 + n)"

definition hex4 :: "jchar \<Rightarrow> jstr" where
  "hex4 c = [hex_char (unat c div 4096), hex_char (unat c div 256 mod 16),
             hex_char (unat c div 16 mod 16), hex_char (unat c mod 16)]"

definition is_high_surrogate :: "jchar \<Rightarrow> bool" where
  "is_high_surrogate c \<longleftrightarrow> 0xd800 \<le> c \<and> c \<le> 0xdbff"

definition is_low_surrogate :: "jchar \<Rightarrow> bool" where
  "is_low_surrogate c \<longleftrightarrow> 0xdc00 \<le> c \<and> c \<le> 0xdfff"

text \<open>\<open>JSON.stringify\<close> escapes quotes, backslashes, control characters and lone surrogates.\<close>

definition escape_unit :: "jchar \<Rightarrow> jstr" where
  "escape_unit c =
     (if c = 34 then [92, 34] else if c = 92 then [92, 92]
      else if c = 8 then [92, 98] else if c = 9 then [92, 116]
      else if c = 10 then [92, 110] else if c = 12 then [92, 102]
      else if c = 13 then [92, 114]
      else if c < 32 \<or> is_high_surrogate c \<or> is_low_surrogate c then [92, 117] @ hex4 c
      else [c])"

fun quote_body :: "jstr \<Rightarrow> jstr" where
  "quote_body [] = []"
| "quote_body [c] = escape_unit c"
| "quote_body (c # d # s) =
     (if is_high_surrogate c \<and> is_low_surrogate d then c # d # quote_body s
      else escape_unit c @ quote_body (d # s))"

definition quote_str :: "jstr \<Rightarrow> jstr" where
  "quote_str s = [34] @ quote_body s @ [34]"

definition print_num :: "decimal \<Rightarrow> jstr" where
  "print_num d = (case d of Dec m 0 \<Rightarrow> dec_int m
     | Dec m k \<Rightarrow>
       (if m < 0 then js ''-'' else []) @ dec_nat (nat \<bar>m\<bar> div 10 ^ k) @ js ''.''
         @ replicate (k - length (dec_nat (nat \<bar>m\<bar> mod 10 ^ k))) 48
         @ dec_nat (nat \<bar>m\<bar> mod 10 ^ k))"

fun json_stringify :: "json \<Rightarrow> jstr" where
  "json_stringify JNull = js ''null''"
| "json_stringify (JBool b) = (if b then js ''true'' else js ''false'')"
| "json_stringify (JNum d) = print_num d"
| "json_stringify (JStr s) = quote_str s"
| "json_stringify (JArr vs) = [91] @ join [44] (map json_stringify vs) @ [93]"
| "json_stringify (JObj kvs) =
     [123] @ join [44] (map (\<lambda>(k, v). quote_str k @ [58] @ json_stringify v) kvs) @ [125]"

section \<open>Parsing\<close>

definition json_ws :: "jchar \<Rightarrow> bool" where
  "json_ws c \<longleftrightarrow> c = 32 \<or> c = 9 \<or> c = 10 \<or> c = 13"

definition skip_ws :: "jstr \<Rightarrow> jstr" where
  "skip_ws s = dropWhile json_ws s"

definition hex_val :: "jchar \<Rightarrow> nat option" where
  "hex_val c = (if 48 \<le> c \<and> c \<le> 57 then Some (unat c - 48)
     else if 97 \<le> c \<and> c \<le> 102 then Some (unat c - 87)
     else if 65 \<le> c \<and> c \<le> 70 then Some (unat c - 55) else None)"

definition simple_escape :: "jchar \<Rightarrow> jchar option" where
  "simple_escape c =
     (if c = 34 then Some 34 else if c = 92 then Some 92 else if c = 47 then Some 47
      else if c = 98 then Some 8 else if c = 102 then Some 12 else if c = 110 then Some 10
      else if c = 114 then Some 13 else if c = 116 then Some 9 else None)"

text \<open>The inside of a string, after the opening quote; returns what follows the closing one.\<close>

fun parse_str :: "jstr \<Rightarrow> (jstr \<times> jstr) option" where
  "parse_str [] = None"
| "parse_str (c # s) =
     (if c = 34 then Some ([], s)
      else if c = 92 then
        (case s of
           [] \<Rightarrow> None
         | e # s1 \<Rightarrow>
             if e = 117 then
               (case s1 of
                  h1 # h2 # h3 # h4 # s2 \<Rightarrow>
                    (case (hex_val h1, hex_val h2, hex_val h3, hex_val h4) of
                       (Some a, Some b, Some x, Some y) \<Rightarrow>
                         map_option (\<lambda>(t, r). (word_of_nat (4096 * a + 256 * b + 16 * x + y) # t, r))
                           (parse_str s2)
                     | _ \<Rightarrow> None)
                | _ \<Rightarrow> None)
             else (case simple_escape e of
                     None \<Rightarrow> None
                   | Some u \<Rightarrow> map_option (\<lambda>(t, r). (u # t, r)) (parse_str s1)))
      else if c < 32 then None
      else map_option (\<lambda>(t, r). (c # t, r)) (parse_str s))"

text \<open>A number: optional minus, integer part without leading zeros, fraction, exponent.\<close>

definition shift_dec :: "int \<Rightarrow> nat \<Rightarrow> int \<Rightarrow> decimal" where
  "shift_dec m k e = (if e \<ge> int k then Dec (m * 10 ^ nat (e - int k)) 0
     else norm_dec m (nat (int k - e)))"

definition parse_exp :: "jstr \<Rightarrow> (int \<times> jstr) option" where
  "parse_exp s = (case s of
     c # s1 \<Rightarrow>
       if c = 101 \<or> c = 69 then
         (let (neg, s2) = (case s1 of d # t \<Rightarrow> if d = 45 then (True, t) else if d = 43 then (False, t)
                                     else (False, s1) | [] \<Rightarrow> (False, s1));
              (v, n, r) = scan_digits 0 0 s2
          in if n = 0 then None else Some (if neg then - int v else int v, r))
       else Some (0, s)
   | [] \<Rightarrow> Some (0, s))"

definition parse_num :: "jstr \<Rightarrow> (decimal \<times> jstr) option" where
  "parse_num s =
     (let (neg, s1) = (case s of d # t \<Rightarrow> if d = 45 then (True, t) else (False, s) | [] \<Rightarrow> (False, s));
          (ip, n, s2) = scan_digits 0 0 s1
      in if n = 0 \<or> (n > 1 \<and> hd s1 = 48) then None
         else
           (let (fp, k, s3, ok) =
              (case s2 of
                 d # t \<Rightarrow> if d = 46 then (let (v, k, r) = scan_digits ip 0 t in (v, k, r, k > 0))
                         else (ip, 0, s2, True)
               | [] \<Rightarrow> (ip, 0, s2, True))
            in if \<not> ok then None
               else (case parse_exp s3 of
                       None \<Rightarrow> None
                     | Some (e, r) \<Rightarrow>
                         Some (shift_dec (if neg then - int fp else int fp) k e, r))))"

definition put_members :: "(jstr \<times> json) list \<Rightarrow> (jstr \<times> json) list" where
  "put_members kvs = fold (\<lambda>(k, v) m. AList.update k v m) kvs []"

definition literal :: "string \<Rightarrow> json \<Rightarrow> jstr \<Rightarrow> (json \<times> jstr) option" where
  "literal w v s = (if starts_with s (js w) then Some (v, drop (length w) s) else None)"

fun parse_value :: "nat \<Rightarrow> jstr \<Rightarrow> (json \<times> jstr) option"
  and parse_elems :: "nat \<Rightarrow> jstr \<Rightarrow> (json list \<times> jstr) option"
  and parse_members :: "nat \<Rightarrow> jstr \<Rightarrow> ((jstr \<times> json) list \<times> jstr) option" where
  "parse_value 0 s = None"
| "parse_value (Suc n) s = (case skip_ws s of
     [] \<Rightarrow> None
   | c # r \<Rightarrow>
       if c = 123 then
         (case skip_ws r of
            d # r1 \<Rightarrow> if d = 125 then Some (JObj [], r1)
                      else map_option (\<lambda>(kvs, q). (JObj (put_members kvs), q)) (parse_members n r)
          | [] \<Rightarrow> None)
       else if c = 91 then
         (case skip_ws r of
            d # r1 \<Rightarrow> if d = 93 then Some (JArr [], r1)
                      else map_option (\<lambda>(vs, q). (JArr vs, q)) (parse_elems n r)
          | [] \<Rightarrow> None)
       else if c = 34 then map_option (\<lambda>(t, q). (JStr t, q)) (parse_str r)
       else if c = 116 then literal ''true'' (JBool True) (c # r)
       else if c = 102 then literal ''false'' (JBool False) (c # r)
       else if c = 110 then literal ''null'' JNull (c # r)
       else map_option (\<lambda>(d, q). (JNum d, q)) (parse_num (c # r)))"
| "parse_elems 0 s = None"
| "parse_elems (Suc n) s = (case parse_value n s of
     None \<Rightarrow> None
   | Some (v, r) \<Rightarrow> (case skip_ws r of
       [] \<Rightarrow> None
     | c # q \<Rightarrow>
         if c = 44 then map_option (\<lambda>(vs, t). (v # vs, t)) (parse_elems n q)
         else if c = 93 then Some ([v], q) else None))"
| "parse_members 0 s = None"
| "parse_members (Suc n) s = (case skip_ws s of
     [] \<Rightarrow> None
   | c # r \<Rightarrow>
       if c \<noteq> 34 then None
       else (case parse_str r of
         None \<Rightarrow> None
       | Some (k, r1) \<Rightarrow> (case skip_ws r1 of
           [] \<Rightarrow> None
         | d # r2 \<Rightarrow>
             if d \<noteq> 58 then None
             else (case parse_value n r2 of
               None \<Rightarrow> None
             | Some (v, r3) \<Rightarrow> (case skip_ws r3 of
                 [] \<Rightarrow> None
               | e # q \<Rightarrow>
                   if e = 44 then map_option (\<lambda>(kvs, t). ((k, v) # kvs, t)) (parse_members n q)
                   else if e = 125 then Some ([(k, v)], q) else None)))))"

text \<open>\<open>JSON.parse\<close>; \<open>None\<close> is the thrown \<open>SyntaxError\<close>.\<close>

definition json_parse :: "jstr \<Rightarrow> json option" where
  "json_parse s = (case parse_value (Suc (length s)) s of
     None \<Rightarrow> None
   | Some (v, r) \<Rightarrow> if skip_ws r = [] then Some v else None)"

section \<open>Strings read back\<close>

lemma skip_ws_no: "s \<noteq> [] \<Longrightarrow> \<not> json_ws (hd s) \<Longrightarrow> skip_ws s = s"
  by (simp add: skip_ws_def dropWhile_no)

lemma unat_hex_char: "n < 16 \<Longrightarrow> unat (hex_char n) = (if n < 10 then 48 + n else 87 + n)"
  unfolding hex_char_def by (subst unat_of_nat) simp

lemma hex_val_char [simp]: "n < 16 \<Longrightarrow> hex_val (hex_char n) = Some n"
  by (auto simp: hex_val_def word_le_nat_alt unat_hex_char split: if_splits)

lemma nat_hex_digits: "4096 * (n div 4096) + 256 * (n div 256 mod 16) + 16 * (n div 16 mod 16) + n mod 16 = (n :: nat)"
proof -
  have 1: "n = 16 * (n div 16) + n mod 16" by simp
  have 2: "n div 16 = 16 * (n div 256) + n div 16 mod 16"
    using mult_div_mod_eq[of 16 "n div 16"] by (simp add: div_mult2_eq[symmetric])
  have 3: "n div 256 = 16 * (n div 4096) + n div 256 mod 16"
    using mult_div_mod_eq[of 16 "n div 256"] by (simp add: div_mult2_eq[symmetric])
  show ?thesis using 1 2 3 by linarith
qed

lemma hex4_value: "word_of_nat (4096 * (unat c div 4096) + 256 * (unat c div 256 mod 16)
    + 16 * (unat c div 16 mod 16) + unat c mod 16) = (c :: jchar)"
  by (simp only: nat_hex_digits) simp

lemma unat16: "unat (c::jchar) < 65536" using unsigned_less[of c] by simp

lemma parse_str_hex:
  "parse_str ([92, 117] @ hex4 c @ r) = map_option (\<lambda>(t, q). (c # t, q)) (parse_str r)"
proof -
  have "unat c div 4096 < 16" using unat16[of c] by simp
  then show ?thesis
    using hex4_value[of c] by (simp add: hex4_def)
qed

lemma parse_str_unit:
  "parse_str (escape_unit c @ r) = map_option (\<lambda>(t, q). (c # t, q)) (parse_str r)"
  using parse_str_hex[of c r]
  by (auto simp: escape_unit_def simple_escape_def)

lemma surrogate_plain: "is_high_surrogate c \<or> is_low_surrogate c \<Longrightarrow> c \<noteq> 34 \<and> c \<noteq> 92 \<and> \<not> c < 32"
  by (auto simp: is_high_surrogate_def is_low_surrogate_def word_le_nat_alt word_less_nat_alt)

lemma parse_quote_body: "parse_str (quote_body s @ 34 # r) = Some (s, r)"
  by (induction s rule: quote_body.induct) (auto simp: parse_str_unit surrogate_plain)

lemma parse_quote_str: "parse_str (tl (quote_str s) @ r) = Some (s, r)"
  by (simp add: quote_str_def parse_quote_body)

section \<open>Numerals read back\<close>

lemma dec_nat_hd: "0 < n \<Longrightarrow> hd (dec_nat n) \<noteq> 48"
proof (induction n rule: dec_nat.induct)
  case (1 n)
  show ?case
  proof (cases "n < 10")
    case True
    then show ?thesis
      using "1.prems" unat_digit_char[of n] by (auto simp: dec_nat.simps[of n])
  next
    case False
    then show ?thesis using "1.IH" by (simp add: dec_nat.simps[of n])
  qed
qed

definition num_end :: "jstr \<Rightarrow> bool" where
  "num_end r \<longleftrightarrow> r = [] \<or> (\<not> is_digit (hd r) \<and> hd r \<noteq> 46 \<and> hd r \<noteq> 101 \<and> hd r \<noteq> 69)"

lemma parse_exp_end: "num_end r \<Longrightarrow> parse_exp r = Some (0, r)"
  by (cases r) (auto simp: parse_exp_def num_end_def)

lemma dec_nat_no_lead: "length (dec_nat n) > 1 \<Longrightarrow> hd (dec_nat n @ r) \<noteq> 48"
  using dec_nat_hd[of n] by (cases "n = 0") (auto simp: dec_nat.simps[of 0])

lemma dec_nat_no_minus: "hd (dec_nat n @ r) \<noteq> 45"
  using dec_nat_digits[of "hd (dec_nat n)" n] by (auto simp: is_digit_unat)

lemma parse_num_nat:
  assumes "num_end r"
  shows "scan_digits 0 0 (dec_nat n @ r) = (n, length (dec_nat n), r)"
  using assms by (intro scan_dec_nat) (auto simp: num_end_def)

lemma parse_print_int:
  assumes r: "num_end r"
  shows "parse_num (dec_int i @ r) = Some (Dec i 0, r)"
proof -
  obtain c s where cs: "dec_nat (nat \<bar>i\<bar>) = c # s" by (cases "dec_nat (nat \<bar>i\<bar>)") auto
  note scan = parse_num_nat[OF r, of "nat \<bar>i\<bar>"]
  have lead: "length (c # s) > 1 \<Longrightarrow> c \<noteq> 48" "c \<noteq> 45"
    using dec_nat_no_lead[of "nat \<bar>i\<bar>" r] dec_nat_no_minus[of "nat \<bar>i\<bar>" r] by (simp_all add: cs)
  show ?thesis
  proof (cases r)
    case Nil
    with scan lead cs show ?thesis
      by (auto simp: parse_num_def dec_int_def js_def parse_exp_def shift_dec_def)
  next
    case (Cons x xs)
    with r have x: "x \<noteq> 46" "x \<noteq> 101" "x \<noteq> 69" by (auto simp: num_end_def)
    from Cons scan lead cs x show ?thesis
      by (auto simp: parse_num_def dec_int_def js_def parse_exp_def shift_dec_def)
  qed
qed

section \<open>Values read back\<close>

text \<open>What \<open>JSON.stringify\<close> prints and \<open>JSON.parse\<close> reads back: integers, and objects with distinct keys.\<close>

fun printable :: "json \<Rightarrow> bool" where
  "printable (JNum d) = (dec_exp d = 0)"
| "printable (JArr vs) = (\<forall>v \<in> set vs. printable v)"
| "printable (JObj kvs) = (distinct (map fst kvs) \<and> (\<forall>kv \<in> set kvs. printable (snd kv)))"
| "printable _ = True"

definition value_head :: "jstr \<Rightarrow> bool" where
  "value_head s \<longleftrightarrow> s \<noteq> [] \<and> \<not> json_ws (hd s) \<and> hd s \<noteq> 93 \<and> hd s \<noteq> 125"

lemma dec_int_head: "\<exists>c s. dec_int i = c # s \<and> (is_digit c \<or> c = 45)"
proof -
  obtain c s where cs: "dec_nat (nat \<bar>i\<bar>) = c # s" by (cases "dec_nat (nat \<bar>i\<bar>)") auto
  then have "is_digit c" using dec_nat_digits[of c "nat \<bar>i\<bar>"] by simp
  with cs show ?thesis by (auto simp: dec_int_def js_def)
qed

lemma digit_plain: "is_digit c \<or> c = 45 \<Longrightarrow> \<not> json_ws c \<and> c \<noteq> 93 \<and> c \<noteq> 125 \<and> c \<noteq> 123 \<and> c \<noteq> 91
    \<and> c \<noteq> 34 \<and> c \<noteq> 116 \<and> c \<noteq> 102 \<and> c \<noteq> 110"
  by (auto simp: json_ws_def is_digit_unat)

lemma print_int: "dec_exp d = 0 \<Longrightarrow> print_num d = dec_int (dec_mant d)"
  by (cases d) (simp add: print_num_def)

lemma stringify_head: "printable v \<Longrightarrow> value_head (json_stringify v)"
  using dec_int_head[of "dec_mant (case v of JNum d \<Rightarrow> d)"]
  by (cases v) (auto simp: value_head_def json_ws_def js_def quote_str_def print_int is_digit_def)

lemma skip_ws_head: "value_head s \<Longrightarrow> skip_ws (s @ r) = s @ r"
  by (auto simp: value_head_def intro: skip_ws_no)

lemma skip_ws_Cons: "\<not> json_ws c \<Longrightarrow> skip_ws (c # s) = c # s"
  by (simp add: skip_ws_def)

lemma parse_print_elems:
  assumes "\<forall>v \<in> set vs. \<forall>n r. length (json_stringify v) < n \<longrightarrow> num_end r \<longrightarrow>
      parse_value n (json_stringify v @ r) = Some (v, r)"
    and "vs \<noteq> []" and "length (join [44] (map json_stringify vs)) + 1 < n"
  shows "parse_elems n (join [44] (map json_stringify vs) @ 93 # r) = Some (vs, r)"
  using assms(2,1,3)
proof (induction vs arbitrary: n rule: list_nonempty_induct)
  case (single v)
  then obtain m where "n = Suc m" by (cases n) auto
  with single show ?case by (simp add: num_end_def is_digit_def json_ws_def skip_ws_Cons)
next
  case (cons v vs)
  then obtain w ws where vs: "vs = w # ws" by (cases vs) auto
  from cons.prems obtain m where m: "n = Suc m" by (cases n) auto
  have "parse_elems m (join [44] (map json_stringify vs) @ 93 # r) = Some (vs, r)"
    using cons.prems m by (intro cons.IH) (auto simp: vs)
  with cons.prems m show ?case
    by (simp add: vs num_end_def is_digit_def json_ws_def skip_ws_Cons)
qed

abbreviation print_member :: "jstr \<times> json \<Rightarrow> jstr" where
  "print_member \<equiv> \<lambda>(k, v). quote_str k @ [58] @ json_stringify v"

lemma parse_print_members:
  assumes "\<forall>kv \<in> set kvs. \<forall>n r. length (json_stringify (snd kv)) < n \<longrightarrow> num_end r \<longrightarrow>
      parse_value n (json_stringify (snd kv) @ r) = Some (snd kv, r)"
    and "kvs \<noteq> []" and "length (join [44] (map print_member kvs)) + 1 < n"
  shows "parse_members n (join [44] (map print_member kvs) @ 125 # r) = Some (kvs, r)"
  using assms(2,1,3)
proof (induction kvs arbitrary: n rule: list_nonempty_induct)
  case (single kv)
  then obtain m where "n = Suc m" by (cases n) auto
  with single show ?case
    by (cases kv) (simp add: quote_str_def num_end_def is_digit_def json_ws_def skip_ws_Cons parse_quote_body)
next
  case (cons kv kvs)
  then obtain w ws where kvs: "kvs = w # ws" by (cases kvs) auto
  from cons.prems obtain m where m: "n = Suc m" by (cases n) auto
  have "parse_members m (join [44] (map print_member kvs) @ 125 # r) = Some (kvs, r)"
    using cons.prems m by (intro cons.IH) (auto simp: kvs)
  with cons.prems m show ?case
    by (cases kv) (simp add: kvs quote_str_def num_end_def is_digit_def json_ws_def skip_ws_Cons parse_quote_body)
qed

lemma put_members_distinct:
  assumes "distinct (map fst (acc @ kvs))"
  shows "fold (\<lambda>(k, v) m. AList.update k v m) kvs acc = acc @ kvs"
  using assms
proof (induction kvs arbitrary: acc)
  case (Cons kv kvs)
  obtain k v where kv: "kv = (k, v)" by (cases kv)
  have "k \<notin> fst ` set acc" using Cons.prems by (auto simp: kv)
  then have "AList.update k v acc = acc @ [(k, v)]" by (induction acc) auto
  with Cons show ?case by (simp add: kv)
qed simp

lemma join_members_head:
  assumes "kvs \<noteq> []"
  shows "\<exists>t. join [44] (map print_member kvs) = 34 # t"
proof -
  obtain k v kvs' where "kvs = (k, v) # kvs'" using assms by (cases kvs) auto
  then show ?thesis by (cases kvs') (auto simp: quote_str_def)
qed

lemma join_elems_head:
  assumes "vs \<noteq> []" and "\<forall>v \<in> set vs. printable v"
  shows "value_head (join [44] (map json_stringify vs))"
proof -
  obtain v vs' where vs: "vs = v # vs'" using assms by (cases vs) auto
  with assms have "value_head (json_stringify v)" by (simp add: stringify_head)
  with vs show ?thesis by (cases vs') (auto simp: value_head_def)
qed

lemma parse_print:
  "printable v \<Longrightarrow> length (json_stringify v) < n \<Longrightarrow> num_end r \<Longrightarrow>
    parse_value n (json_stringify v @ r) = Some (v, r)"
proof (induction v arbitrary: n r)
  case JNull
  then show ?case
    by (cases n) (auto simp: js_def skip_ws_Cons json_ws_def literal_def starts_with_def)
next
  case (JBool b)
  then show ?case
    by (cases n) (auto simp: js_def skip_ws_Cons json_ws_def literal_def starts_with_def)
next
  case (JNum d)
  obtain c s where cs: "dec_int (dec_mant d) = c # s" "is_digit c \<or> c = 45"
    using dec_int_head by blast
  note c = digit_plain[OF cs(2)]
  have "parse_num (c # s @ r) = Some (d, r)"
    using parse_print_int[OF JNum.prems(3), of "dec_mant d"] JNum.prems(1) cs(1) by (cases d) auto
  with JNum.prems c cs(1) show ?case
    by (cases n) (simp_all add: print_int skip_ws_Cons)
next
  case (JStr s)
  then show ?case
    by (cases n) (simp_all add: quote_str_def skip_ws_Cons json_ws_def parse_quote_body)
next
  case (JArr vs)
  obtain m where m: "n = Suc m" using JArr.prems by (cases n) auto
  show ?case
  proof (cases "vs = []")
    case True
    with m show ?thesis by (simp add: skip_ws_Cons json_ws_def)
  next
    case False
    let ?s = "join [44] (map json_stringify vs)"
    have hd: "value_head ?s" using False JArr.prems by (intro join_elems_head) auto
    then obtain c s where cs: "?s = c # s" "\<not> json_ws c" "c \<noteq> 93"
      by (cases ?s) (auto simp: value_head_def)
    have "parse_elems m (?s @ 93 # r) = Some (vs, r)"
      using JArr m False by (intro parse_print_elems) auto
    with m cs show ?thesis by (simp add: skip_ws_Cons json_ws_def)
  qed
next
  case (JObj kvs)
  obtain m where m: "n = Suc m" using JObj.prems by (cases n) auto
  show ?case
  proof (cases "kvs = []")
    case True
    with m show ?thesis by (simp add: skip_ws_Cons json_ws_def)
  next
    case False
    let ?s = "join [44] (map print_member kvs)"
    have IH: "\<forall>kv \<in> set kvs. \<forall>n r. length (json_stringify (snd kv)) < n \<longrightarrow> num_end r \<longrightarrow>
      parse_value n (json_stringify (snd kv) @ r) = Some (snd kv, r)"
      using JObj.IH JObj.prems(1) by (auto simp: snds.simps)
    have "parse_members m (?s @ 125 # r) = Some (kvs, r)"
      using JObj.prems m False IH by (intro parse_print_members) auto
    moreover obtain t where t: "?s = 34 # t"
      using join_members_head[OF False] by blast
    moreover have "put_members kvs = kvs"
      using put_members_distinct[of "[]" kvs] JObj.prems(1) by (simp add: put_members_def)
    ultimately show ?thesis using m
      by (simp add: skip_ws_Cons json_ws_def)
  qed
qed

lemma json_roundtrip: "printable v \<Longrightarrow> json_parse (json_stringify v) = Some v"
  using parse_print[of v "Suc (length (json_stringify v))" "[]"]
  by (simp add: json_parse_def num_end_def skip_ws_def)

end
