(* ===== verification/Shared_Types.thy ===== *)
theory Shared_Types
  imports Json
begin

text \<open>
  \<open>packages/shared/src/types.ts\<close> and the interface types of \<open>packages/sync-engine\<close>: the chat
  message, the additional authenticated data (AAD) of an encrypted message, the message-type
  numbers of the sync socket and the length limit. Times are the integer milliseconds of
  \<open>Date.now()\<close>.
\<close>

record message =
  m_id :: jstr
  m_roomId :: jstr
  m_userId :: jstr
  m_username :: jstr
  m_content :: jstr
  m_createdAt :: int

record aad =
  ad_id :: jstr
  ad_roomId :: jstr
  ad_userId :: jstr
  ad_username :: jstr
  ad_createdAt :: int

definition max_message_length :: nat where
  "max_message_length = 4000"

definition msg_sync :: nat where "msg_sync = 0"
definition msg_awareness :: nat where "msg_awareness = 1"
definition msg_e2ee_rejected :: nat where "msg_e2ee_rejected = 20"
definition msg_room_epoch :: nat where "msg_room_epoch = 21"

lemmas msg_type_defs = msg_sync_def msg_awareness_def msg_e2ee_rejected_def msg_room_epoch_def

text \<open>The AAD that every reader rebuilds from the fields of a stored message.\<close>

definition message_aad :: "message \<Rightarrow> aad" where
  "message_aad m = \<lparr>ad_id = m_id m, ad_roomId = m_roomId m, ad_userId = m_userId m,
     ad_username = m_username m, ad_createdAt = m_createdAt m\<rparr>"

lemma message_aad_content [simp]: "message_aad (m\<lparr>m_content := c\<rparr>) = message_aad m"
  by (simp add: message_aad_def)

end
