(* ===== verification/Yjs.thy ===== *)
theory Yjs
  imports Shared_Types
begin

text \<open>
  The parts of Yjs, y-protocols and lib0 that the program calls. They are third-party packages, so
  they are parameters of the model: records of functions that the components take as an argument,
  with the documented behaviour the program relies on as predicates on those records. A document
  state has the type variable \<open>'d\<close>, an awareness state \<open>'a\<close>; updates, state vectors and socket
  frames are byte strings.
\<close>

section \<open>Documents\<close>

text \<open>
  \<open>y_apply\<close> is \<open>Y.applyUpdate\<close> (\<open>None\<close> when it throws), \<open>y_delta\<close> the incremental update that the
  document's \<open>'update'\<close> event carries after a transaction (\<open>None\<close> when the transaction changed
  nothing and no event fires), \<open>y_messages\<close> the \<open>toArray()\<close> of the root array \<open>'messages'\<close>,
  \<open>y_push\<close> and \<open>y_delete\<close> its \<open>push\<close> and one-element \<open>delete\<close>.
\<close>

record 'd yjs =
  y_new :: 'd
  y_apply :: "bytes \<Rightarrow> 'd \<Rightarrow> 'd option"
  y_delta :: "'d \<Rightarrow> 'd \<Rightarrow> bytes option"
  y_encode :: "'d \<Rightarrow> bytes"
  y_state_vector :: "'d \<Rightarrow> bytes"
  y_diff :: "'d \<Rightarrow> bytes \<Rightarrow> bytes"
  y_messages :: "'d \<Rightarrow> message list"
  y_push :: "message list \<Rightarrow> 'd \<Rightarrow> 'd"
  y_delete :: "nat \<Rightarrow> 'd \<Rightarrow> 'd"

definition array_laws :: "'d yjs \<Rightarrow> bool" where
  "array_laws Y \<longleftrightarrow>
     (\<forall>ms d. y_messages Y (y_push Y ms d) = y_messages Y d @ ms)
     \<and> (\<forall>i d. i < length (y_messages Y d) \<longrightarrow>
          y_messages Y (y_delete Y i d) = take i (y_messages Y d) @ drop (Suc i) (y_messages Y d))"

lemma array_lawsD:
  assumes "array_laws Y"
  shows "y_messages Y (y_push Y ms d) = y_messages Y d @ ms"
    and "i < length (y_messages Y d) \<Longrightarrow>
      y_messages Y (y_delete Y i d) = take i (y_messages Y d) @ drop (Suc i) (y_messages Y d)"
  using assms by (auto simp: array_laws_def)

text \<open>
  An update applies to a replica exactly as documented: \<open>Y.encodeStateAsUpdate\<close> of any document
  applies to every document, applying it again changes nothing, and a fresh document given the
  whole state of another holds the same messages.
\<close>

definition state_laws :: "'d yjs \<Rightarrow> bool" where
  "state_laws Y \<longleftrightarrow>
     (\<forall>d e. \<exists>f. y_apply Y (y_encode Y d) e = Some f \<and> y_apply Y (y_encode Y d) f = Some f)
     \<and> (\<forall>d. \<exists>f. y_apply Y (y_encode Y d) (y_new Y) = Some f \<and> y_messages Y f = y_messages Y d)
     \<and> y_messages Y (y_new Y) = []"

section \<open>Frames: lib0 encoding and y-protocols/sync\<close>

text \<open>
  \<open>l_put_uint\<close>, \<open>l_put_bytes\<close>, \<open>l_put_string\<close> are \<open>encoding.writeVarUint\<close>, \<open>writeVarUint8Array\<close>,
  \<open>writeVarString\<close> as the bytes they append; the \<open>l_get_\<close> functions are the decoding reads, with
  \<open>None\<close> for a thrown error. \<open>l_step1\<close>, \<open>l_step2\<close>, \<open>l_update\<close> are the writers of
  \<open>y-protocols/sync\<close>. \<open>l_read_sync\<close> is \<open>readSyncMessage\<close>: the sync type it read, what it appended
  to the reply and the document afterwards, \<open>None\<close> when it throws.
\<close>

record 'd lib0 =
  l_put_uint :: "nat \<Rightarrow> bytes"
  l_put_bytes :: "bytes \<Rightarrow> bytes"
  l_put_string :: "jstr \<Rightarrow> bytes"
  l_get_uint :: "bytes \<Rightarrow> (nat \<times> bytes) option"
  l_get_bytes :: "bytes \<Rightarrow> (bytes \<times> bytes) option"
  l_get_string :: "bytes \<Rightarrow> (jstr \<times> bytes) option"
  l_step1 :: "'d \<Rightarrow> bytes"
  l_step2 :: "'d \<Rightarrow> bytes \<Rightarrow> bytes"
  l_update :: "bytes \<Rightarrow> bytes"
  l_read_sync :: "bytes \<Rightarrow> 'd \<Rightarrow> (nat \<times> bytes \<times> 'd) option"

definition lib0_laws :: "'d lib0 \<Rightarrow> bool" where
  "lib0_laws L \<longleftrightarrow>
     (\<forall>n r. l_get_uint L (l_put_uint L n @ r) = Some (n, r))
     \<and> (\<forall>b r. l_get_bytes L (l_put_bytes L b @ r) = Some (b, r))
     \<and> (\<forall>s r. l_get_string L (l_put_string L s @ r) = Some (s, r))"

lemma lib0_lawsD:
  assumes "lib0_laws L"
  shows "l_get_uint L (l_put_uint L n @ r) = Some (n, r)"
    and "l_get_bytes L (l_put_bytes L b @ r) = Some (b, r)"
    and "l_get_string L (l_put_string L s @ r) = Some (s, r)"
  using assms by (auto simp: lib0_laws_def)

text \<open>The three sync types are the protocol's, which the gateway also tests itself.\<close>

definition sync_step1 :: nat where "sync_step1 = 0"
definition sync_step2 :: nat where "sync_step2 = 1"
definition sync_update :: nat where "sync_update = 2"

lemmas sync_type_defs = sync_step1_def sync_step2_def sync_update_def

text \<open>
  \<open>readSyncMessage\<close> answers a step1 with a step2 against the state vector it carries and leaves the
  document alone; it applies the update of a step2 or an update message and replies nothing (an
  update that does not apply is logged and leaves the document as it was); it throws on any other
  type and on a truncated message.
\<close>

definition sync_laws :: "'d yjs \<Rightarrow> 'd lib0 \<Rightarrow> bool" where
  "sync_laws Y L \<longleftrightarrow> lib0_laws L
     \<and> (\<forall>s d. l_read_sync L s d =
          (case l_get_uint L s of None \<Rightarrow> None
           | Some (t, r) \<Rightarrow> (case l_get_bytes L r of
               None \<Rightarrow> None
             | Some (u, _) \<Rightarrow>
                 if t = sync_step1 then Some (t, l_step2 L d u, d)
                 else if t = sync_step2 \<or> t = sync_update
                 then Some (t, [], case y_apply Y u d of None \<Rightarrow> d | Some d' \<Rightarrow> d')
                 else None)))
     \<and> (\<forall>d. \<exists>sv. l_step1 L d = l_put_uint L sync_step1 @ l_put_bytes L sv)
     \<and> (\<forall>d sv. l_step2 L d sv = l_put_uint L sync_step2 @ l_put_bytes L (y_diff Y d sv))
     \<and> (\<forall>u. l_update L u = l_put_uint L sync_update @ l_put_bytes L u)"

lemma sync_lawsD:
  assumes "sync_laws Y L"
  shows "lib0_laws L"
    and "l_read_sync L s d =
          (case l_get_uint L s of None \<Rightarrow> None
           | Some (t, r) \<Rightarrow> (case l_get_bytes L r of
               None \<Rightarrow> None
             | Some (u, _) \<Rightarrow>
                 if t = sync_step1 then Some (t, l_step2 L d u, d)
                 else if t = sync_step2 \<or> t = sync_update
                 then Some (t, [], case y_apply Y u d of None \<Rightarrow> d | Some d' \<Rightarrow> d')
                 else None))"
    and "\<exists>sv. l_step1 L d = l_put_uint L sync_step1 @ l_put_bytes L sv"
    and "l_step2 L d sv = l_put_uint L sync_step2 @ l_put_bytes L (y_diff Y d sv)"
    and "l_update L u = l_put_uint L sync_update @ l_put_bytes L u"
  using assms unfolding sync_laws_def by blast+

section \<open>Awareness\<close>

text \<open>
  \<open>aw_apply\<close> and \<open>aw_remove\<close> return the new state and the change lists of the \<open>'update'\<close> event
  (added, updated, removed client ids); \<open>aw_apply\<close> is \<open>None\<close> when it throws. \<open>aw_set_fields\<close> sets
  fields of the local state (\<open>setLocalStateField\<close>, one call per field), \<open>aw_destroy\<close> drops the
  local state, which is a change too.
\<close>

type_synonym aw_change = "nat list \<times> nat list \<times> nat list"

record 'a awareness =
  aw_new :: 'a
  aw_apply :: "bytes \<Rightarrow> 'a \<Rightarrow> ('a \<times> aw_change) option"
  aw_remove :: "nat list \<Rightarrow> 'a \<Rightarrow> 'a \<times> aw_change"
  aw_encode :: "'a \<Rightarrow> nat list \<Rightarrow> bytes"
  aw_ids :: "'a \<Rightarrow> nat list"
  aw_set_fields :: "(jstr \<times> json) list \<Rightarrow> 'a \<Rightarrow> 'a"
  aw_destroy :: "'a \<Rightarrow> 'a \<times> aw_change"

section \<open>Concrete instances, for witnesses\<close>

text \<open>A document that is just its message list.\<close>

definition list_yjs :: "message list yjs" where
  "list_yjs = \<lparr>y_new = [], y_apply = (\<lambda>_ d. Some d), y_delta = (\<lambda>d d'. if d = d' then None else Some []),
     y_encode = (\<lambda>_. []), y_state_vector = (\<lambda>_. []), y_diff = (\<lambda>_ _. []),
     y_messages = (\<lambda>d. d), y_push = (\<lambda>ms d. d @ ms),
     y_delete = (\<lambda>i d. take i d @ drop (Suc i) d)\<rparr>"

lemma list_yjs_simps [simp]:
  "y_messages list_yjs d = d" "y_push list_yjs ms d = d @ ms" "y_new list_yjs = []"
  by (simp_all add: list_yjs_def)

lemma list_yjs_array_laws [simp]: "array_laws list_yjs"
  by (simp add: array_laws_def list_yjs_def)

text \<open>Base-128 numerals, lowest seven bits first, the high bit marking a continuation.\<close>

fun put_varuint :: "nat \<Rightarrow> bytes" where
  "put_varuint n = (if n < 128 then [word_of_nat n] else word_of_nat (128 + n mod 128) # put_varuint (n div 128))"

declare put_varuint.simps [simp del]

fun get_varuint :: "bytes \<Rightarrow> (nat \<times> bytes) option" where
  "get_varuint [] = None"
| "get_varuint (b # r) =
     (if unat b < 128 then Some (unat b, r)
      else map_option (\<lambda>(n, q). (unat b - 128 + 128 * n, q)) (get_varuint r))"

lemma get_put_varuint: "get_varuint (put_varuint n @ r) = Some (n, r)"
proof (induction n rule: put_varuint.induct)
  case (1 n)
  have u: "unat (word_of_nat k :: 8 word) = k" if "k < 256" for k
    using that by (subst unat_of_nat) simp
  show ?case
  proof (cases "n < 128")
    case True
    then show ?thesis
      by (simp add: put_varuint.simps[of n] u)
  next
    case False
    with "1.IH" show ?thesis
      by (simp add: put_varuint.simps[of n] u[of "128 + n mod 128", simplified])
  qed
qed

definition put_varbytes :: "bytes \<Rightarrow> bytes" where
  "put_varbytes b = put_varuint (length b) @ b"

definition get_varbytes :: "bytes \<Rightarrow> (bytes \<times> bytes) option" where
  "get_varbytes s = (case get_varuint s of None \<Rightarrow> None
     | Some (n, r) \<Rightarrow> if n \<le> length r then Some (take n r, drop n r) else None)"

lemma get_put_varbytes: "get_varbytes (put_varbytes b @ r) = Some (b, r)"
  by (simp add: put_varbytes_def get_varbytes_def get_put_varuint)

text \<open>A string as the sequence of its code units, after their number.\<close>

fun get_units :: "nat \<Rightarrow> bytes \<Rightarrow> (jstr \<times> bytes) option" where
  "get_units 0 s = Some ([], s)"
| "get_units (Suc n) s = (case get_varuint s of None \<Rightarrow> None
     | Some (u, r) \<Rightarrow> map_option (\<lambda>(t, q). (word_of_nat u # t, q)) (get_units n r))"

definition put_varstring :: "jstr \<Rightarrow> bytes" where
  "put_varstring s = put_varuint (length s) @ concat (map (\<lambda>c. put_varuint (unat c)) s)"

definition get_varstring :: "bytes \<Rightarrow> (jstr \<times> bytes) option" where
  "get_varstring s = (case get_varuint s of None \<Rightarrow> None | Some (n, r) \<Rightarrow> get_units n r)"

lemma get_units_put: "get_units (length s) (concat (map (\<lambda>c. put_varuint (unat c)) s) @ r) = Some (s, r)"
  by (induction s) (simp_all add: get_put_varuint)

lemma get_put_varstring: "get_varstring (put_varstring s @ r) = Some (s, r)"
  by (simp add: put_varstring_def get_varstring_def get_put_varuint get_units_put)

definition sample_lib0 :: "'d yjs \<Rightarrow> 'd lib0" where
  "sample_lib0 Y = \<lparr>l_put_uint = put_varuint, l_put_bytes = put_varbytes, l_put_string = put_varstring,
     l_get_uint = get_varuint, l_get_bytes = get_varbytes, l_get_string = get_varstring,
     l_step1 = (\<lambda>d. put_varuint sync_step1 @ put_varbytes (y_state_vector Y d)),
     l_step2 = (\<lambda>d sv. put_varuint sync_step2 @ put_varbytes (y_diff Y d sv)),
     l_update = (\<lambda>u. put_varuint sync_update @ put_varbytes u),
     l_read_sync = (\<lambda>s d. case get_varuint s of None \<Rightarrow> None
           | Some (t, r) \<Rightarrow> (case get_varbytes r of
               None \<Rightarrow> None
             | Some (u, _) \<Rightarrow>
                 if t = sync_step1 then Some (t, put_varuint sync_step2 @ put_varbytes (y_diff Y d u), d)
                 else if t = sync_step2 \<or> t = sync_update
                 then Some (t, [], case y_apply Y u d of None \<Rightarrow> d | Some d' \<Rightarrow> d')
                 else None))\<rparr>"

lemma sample_lib0_laws [simp]: "lib0_laws (sample_lib0 Y)"
  by (simp add: lib0_laws_def sample_lib0_def get_put_varuint get_put_varbytes get_put_varstring)

lemma sample_sync_laws [simp]: "sync_laws Y (sample_lib0 Y)"
  unfolding sync_laws_def
  by (intro conjI sample_lib0_laws) (auto simp: sample_lib0_def split: option.splits prod.splits)

definition list_awareness :: "nat list awareness" where
  "list_awareness = \<lparr>aw_new = [], aw_apply = (\<lambda>_ a. Some (a, [], [], [])),
     aw_remove = (\<lambda>ids a. (fold set_delete ids a, [], [], filter (\<lambda>i. i \<in> set a) ids)),
     aw_encode = (\<lambda>_ ids. map word_of_nat ids), aw_ids = (\<lambda>a. a), aw_set_fields = (\<lambda>_ a. a),
     aw_destroy = (\<lambda>a. (a, [], [], []))\<rparr>"

end
