(* ===== verification/Metrics.thy ===== *)
theory Metrics
  imports Shared_Types
begin

text \<open>
  \<open>metrics/metrics.service.ts\<close>: the gauges and counters of the sync server. The histogram of
  persist durations is the number of its observations; the exposition text is the Prometheus
  client's and not modelled.
\<close>

record metrics =
  mt_wsConnections :: int
  mt_roomsLoaded :: int
  mt_syncMessages :: nat
  mt_awarenessMessages :: nat
  mt_docFanoutBytes :: nat
  mt_awarenessFanoutBytes :: nat
  mt_e2eeRejectedUpdates :: nat
  mt_persistObservations :: nat
  mt_yjsStateBytes :: "(jstr \<times> nat) list"

definition no_metrics :: metrics where
  "no_metrics = \<lparr>mt_wsConnections = 0, mt_roomsLoaded = 0, mt_syncMessages = 0,
     mt_awarenessMessages = 0, mt_docFanoutBytes = 0, mt_awarenessFanoutBytes = 0,
     mt_e2eeRejectedUpdates = 0, mt_persistObservations = 0, mt_yjsStateBytes = []\<rparr>"

definition inc_ws_connections :: "metrics \<Rightarrow> metrics" where
  "inc_ws_connections m = m\<lparr>mt_wsConnections := mt_wsConnections m + 1\<rparr>"

definition dec_ws_connections :: "metrics \<Rightarrow> metrics" where
  "dec_ws_connections m = m\<lparr>mt_wsConnections := mt_wsConnections m - 1\<rparr>"

definition inc_rooms_loaded :: "metrics \<Rightarrow> metrics" where
  "inc_rooms_loaded m = m\<lparr>mt_roomsLoaded := mt_roomsLoaded m + 1\<rparr>"

definition dec_rooms_loaded :: "metrics \<Rightarrow> metrics" where
  "dec_rooms_loaded m = m\<lparr>mt_roomsLoaded := mt_roomsLoaded m - 1\<rparr>"

datatype message_type = MtSync | MtAwareness

definition inc_messages :: "message_type \<Rightarrow> metrics \<Rightarrow> metrics" where
  "inc_messages t m = (case t of
     MtSync \<Rightarrow> m\<lparr>mt_syncMessages := Suc (mt_syncMessages m)\<rparr>
   | MtAwareness \<Rightarrow> m\<lparr>mt_awarenessMessages := Suc (mt_awarenessMessages m)\<rparr>)"

datatype fanout_channel = FanoutDoc | FanoutAwareness

definition inc_fanout_bytes :: "nat \<Rightarrow> fanout_channel \<Rightarrow> metrics \<Rightarrow> metrics" where
  "inc_fanout_bytes n c m = (case c of
     FanoutDoc \<Rightarrow> m\<lparr>mt_docFanoutBytes := mt_docFanoutBytes m + n\<rparr>
   | FanoutAwareness \<Rightarrow> m\<lparr>mt_awarenessFanoutBytes := mt_awarenessFanoutBytes m + n\<rparr>)"

definition inc_e2ee_rejected_updates :: "metrics \<Rightarrow> metrics" where
  "inc_e2ee_rejected_updates m = m\<lparr>mt_e2eeRejectedUpdates := Suc (mt_e2eeRejectedUpdates m)\<rparr>"

definition observe_persist_duration :: "metrics \<Rightarrow> metrics" where
  "observe_persist_duration m = m\<lparr>mt_persistObservations := Suc (mt_persistObservations m)\<rparr>"

definition set_yjs_state_bytes :: "jstr \<Rightarrow> nat \<Rightarrow> metrics \<Rightarrow> metrics" where
  "set_yjs_state_bytes r n m = m\<lparr>mt_yjsStateBytes := AList.update r n (mt_yjsStateBytes m)\<rparr>"

definition remove_yjs_state_bytes :: "jstr \<Rightarrow> metrics \<Rightarrow> metrics" where
  "remove_yjs_state_bytes r m = m\<lparr>mt_yjsStateBytes := AList.delete r (mt_yjsStateBytes m)\<rparr>"

lemmas metrics_defs = inc_ws_connections_def dec_ws_connections_def inc_rooms_loaded_def
  dec_rooms_loaded_def inc_messages_def inc_fanout_bytes_def inc_e2ee_rejected_updates_def
  observe_persist_duration_def set_yjs_state_bytes_def remove_yjs_state_bytes_def

lemma metrics_ws [gateway_simps]:
  "mt_wsConnections (inc_ws_connections m) = mt_wsConnections m + 1"
  "mt_wsConnections (dec_ws_connections m) = mt_wsConnections m - 1"
  "mt_wsConnections (inc_rooms_loaded m) = mt_wsConnections m"
  "mt_wsConnections (dec_rooms_loaded m) = mt_wsConnections m"
  "mt_wsConnections (inc_messages t m) = mt_wsConnections m"
  "mt_wsConnections (inc_fanout_bytes n c m) = mt_wsConnections m"
  "mt_wsConnections (inc_e2ee_rejected_updates m) = mt_wsConnections m"
  "mt_wsConnections (observe_persist_duration m) = mt_wsConnections m"
  "mt_wsConnections (set_yjs_state_bytes r n m) = mt_wsConnections m"
  "mt_wsConnections (remove_yjs_state_bytes r m) = mt_wsConnections m"
  by (simp_all add: metrics_defs split: message_type.split fanout_channel.split)

end
