(* ===== verification/Envelope.thy ===== *)
theory Envelope
  imports Shared_Types
begin

text \<open>
  \<open>apps/mobile/src/crypto/e2eeEnvelope.ts\<close>: the E2E1 wire format,
  \<open>'E2E1' + JSON.stringify({ v: 1, keyId, nonce, ciphertext })\<close>, its builder and its parser with
  the three outcomes of the code: not an envelope, an envelope, a thrown error.
\<close>

definition e2ee_prefix :: jstr where
  "e2ee_prefix = js ''E2E1''"

record envelope =
  env_keyId :: decimal
  env_nonce :: jstr
  env_ciphertext :: jstr

datatype envelope_error = EnvelopeSyntaxError | MalformedEnvelope

definition envelope_json :: "int \<Rightarrow> jstr \<Rightarrow> jstr \<Rightarrow> json" where
  "envelope_json keyId nonce ciphertext =
     JObj [(js ''v'', JNum (dec_of_int 1)), (js ''keyId'', JNum (dec_of_int keyId)),
           (js ''nonce'', JStr nonce), (js ''ciphertext'', JStr ciphertext)]"

definition build_envelope :: "int \<Rightarrow> jstr \<Rightarrow> jstr \<Rightarrow> jstr" where
  "build_envelope keyId nonce ciphertext =
     e2ee_prefix @ json_stringify (envelope_json keyId nonce ciphertext)"

definition envelope_of_json :: "json \<Rightarrow> envelope option" where
  "envelope_of_json p =
     (case (json_get p (js ''v''), json_get p (js ''keyId''),
            json_get p (js ''nonce''), json_get p (js ''ciphertext'')) of
        (Some (JNum v), Some (JNum k), Some (JStr n), Some (JStr c)) \<Rightarrow>
          if v = dec_of_int 1
          then Some \<lparr>env_keyId = k, env_nonce = n, env_ciphertext = c\<rparr>
          else None
      | _ \<Rightarrow> None)"

definition parse_envelope :: "jstr \<Rightarrow> envelope_error + envelope option" where
  "parse_envelope content =
     (if \<not> starts_with content e2ee_prefix then Inr None
      else (case json_parse (drop (length e2ee_prefix) content) of
              None \<Rightarrow> Inl EnvelopeSyntaxError
            | Some p \<Rightarrow> (case envelope_of_json p of
                None \<Rightarrow> Inl MalformedEnvelope
              | Some e \<Rightarrow> Inr (Some e))))"

lemma envelope_json_printable [simp]: "printable (envelope_json k n c)"
  by (simp add: envelope_json_def)

lemma json_parse_envelope [simp]:
  "json_parse (json_stringify (envelope_json k n c)) = Some (envelope_json k n c)"
  by (rule json_roundtrip) simp

lemma envelope_of_envelope_json [simp]:
  "envelope_of_json (envelope_json k n c) =
     Some \<lparr>env_keyId = dec_of_int k, env_nonce = n, env_ciphertext = c\<rparr>"
  by (simp add: envelope_of_json_def envelope_json_def)

lemma build_envelope_prefix [simp]: "starts_with (build_envelope k n c) e2ee_prefix"
  by (simp add: build_envelope_def)

lemma drop_build_envelope [simp]:
  "drop (length e2ee_prefix) (build_envelope k n c) = json_stringify (envelope_json k n c)"
  by (simp add: build_envelope_def)

lemma parse_build_envelope:
  "parse_envelope (build_envelope k n c) =
     Inr (Some \<lparr>env_keyId = dec_of_int k, env_nonce = n, env_ciphertext = c\<rparr>)"
  by (simp add: parse_envelope_def)

lemma parse_envelope_None: "parse_envelope s = Inr None \<longleftrightarrow> \<not> starts_with s e2ee_prefix"
  by (auto simp: parse_envelope_def split: option.splits if_splits)

text \<open>C27. Every envelope the client builds is read back by the client's parser, field for field,
  whatever the characters of the nonce and the ciphertext, and two envelopes are the same string
  only when all three fields agree.\<close>

theorem envelope_roundtrip:
  "parse_envelope (build_envelope k n c) =
     Inr (Some \<lparr>env_keyId = dec_of_int k, env_nonce = n, env_ciphertext = c\<rparr>)
   \<and> (build_envelope k n c = build_envelope k' n' c' \<longleftrightarrow> k = k' \<and> n = n' \<and> c = c')"
proof (intro conjI iffI)
  assume "build_envelope k n c = build_envelope k' n' c'"
  then have "parse_envelope (build_envelope k n c) = parse_envelope (build_envelope k' n' c')"
    by simp
  then show "k = k'" "n = n'" "c = c'"
    by (simp_all add: parse_build_envelope)
qed (simp_all add: parse_build_envelope)

end
