(* ===== verification/Update_Gate.thy ===== *)
theory Update_Gate
  imports Envelope
begin

text \<open>
  \<open>apps/server/src/sync/e2ee-update-gate.ts\<close>: the server's check that every message a Yjs update
  inserts into an E2EE room is a well-formed E2E1 envelope. The Yjs decoder is a parameter,
  \<open>bytes \<Rightarrow> ystruct list option\<close>, with \<open>None\<close> for its thrown error; the values it yields are
  JavaScript values.
\<close>

section \<open>What \<open>Y.decodeUpdate\<close> yields\<close>

datatype jsval =
  VUndefined
| VNull
| VBool bool
| VNum decimal
| VBigInt int
| VStr jstr
| VBytes bytes
| VArr "jsval list"
| VObj "(jstr \<times> jsval) list"

datatype ycontent = ContentDeleted nat | ContentAny "jsval list" | ContentOther

datatype ystruct = YItem ycontent | YGC nat | YSkip nat

text \<open>\<open>Object.keys\<close>: the own keys of an object; a byte array has its indices as keys.\<close>

fun object_keys :: "jsval \<Rightarrow> jstr list" where
  "object_keys (VObj kvs) = map fst kvs"
| "object_keys (VBytes bs) = map dec_nat [0..<length bs]"
| "object_keys _ = []"

fun get_prop :: "jsval \<Rightarrow> jstr \<Rightarrow> jsval option" where
  "get_prop (VObj kvs) k = map_of kvs k"
| "get_prop _ k = None"

text \<open>\<open>typeof v === 'object' && v !== null && !Array.isArray(v)\<close>.\<close>

fun plain_object :: "jsval \<Rightarrow> bool" where
  "plain_object (VObj _) = True"
| "plain_object (VBytes _) = True"
| "plain_object _ = False"

section \<open>The checks\<close>

definition nonce_chars :: nat where "nonce_chars = 32"
definition min_ciphertext_chars :: nat where "min_ciphertext_chars = 23"
definition max_ciphertext_chars :: nat where "max_ciphertext_chars = 21355"

definition envelope_keys :: "jstr list" where
  "envelope_keys = [js ''ciphertext'', js ''keyId'', js ''nonce'', js ''v'']"

definition message_keys :: "jstr list" where
  "message_keys = [js ''content'', js ''createdAt'', js ''id'', js ''roomId'', js ''userId'',
                   js ''username'']"

definition has_exact_keys :: "jstr list \<Rightarrow> jstr list \<Rightarrow> bool" where
  "has_exact_keys own keys \<longleftrightarrow> sort own = keys"

definition base64url_char :: "jchar \<Rightarrow> bool" where
  "base64url_char c \<longleftrightarrow> (65 \<le> c \<and> c \<le> 90) \<or> (97 \<le> c \<and> c \<le> 122) \<or> (48 \<le> c \<and> c \<le> 57)
     \<or> c = 95 \<or> c = 45"

definition is_base64url :: "json option \<Rightarrow> nat \<Rightarrow> nat \<Rightarrow> bool" where
  "is_base64url v minChars maxChars = (case v of
     Some (JStr s) \<Rightarrow> length s \<ge> minChars \<and> length s \<le> maxChars \<and> length s mod 4 \<noteq> 1
       \<and> s \<noteq> [] \<and> list_all base64url_char s
   | _ \<Rightarrow> False)"

definition positive_integer :: "json option \<Rightarrow> bool" where
  "positive_integer v = (case v of Some (JNum d) \<Rightarrow> dec_exp d = 0 \<and> dec_mant d > 0 | _ \<Rightarrow> False)"

definition is_well_formed_envelope :: "jstr \<Rightarrow> bool" where
  "is_well_formed_envelope content =
     (if \<not> starts_with content e2ee_prefix then False
      else (case json_parse (drop (length e2ee_prefix) content) of
        Some (JObj kvs) \<Rightarrow>
          (let e = JObj kvs in
            has_exact_keys (json_keys e) envelope_keys
            \<and> json_get e (js ''v'') = Some (JNum (dec_of_int 1))
            \<and> positive_integer (json_get e (js ''keyId''))
            \<and> is_base64url (json_get e (js ''nonce'')) nonce_chars nonce_chars
            \<and> is_base64url (json_get e (js ''ciphertext'')) min_ciphertext_chars max_ciphertext_chars)
      | _ \<Rightarrow> False))"

definition is_enveloped_message :: "jsval \<Rightarrow> bool" where
  "is_enveloped_message v =
     (plain_object v \<and> has_exact_keys (object_keys v) message_keys
      \<and> (case get_prop v (js ''content'') of
           Some (VStr s) \<Rightarrow> is_well_formed_envelope s
         | _ \<Rightarrow> False))"

section \<open>The gate\<close>

datatype gate_result = GateOk | GateReject "jstr list"

text \<open>The inner loop, over the values of one item; the state is \<open>ok\<close> and the ids so far.\<close>

fun gate_values :: "jsval list \<Rightarrow> bool \<times> jstr list \<Rightarrow> bool \<times> jstr list" where
  "gate_values [] st = st"
| "gate_values (v # vs) (ok, ids) =
     (if is_enveloped_message v then gate_values vs (ok, ids)
      else gate_values vs
        (False, case get_prop v (js ''id'') of Some (VStr i) \<Rightarrow> ids @ [i] | _ \<Rightarrow> ids))"

fun gate_structs :: "ystruct list \<Rightarrow> bool \<times> jstr list \<Rightarrow> bool \<times> jstr list" where
  "gate_structs [] st = st"
| "gate_structs (YItem (ContentDeleted _) # ss) st = gate_structs ss st"
| "gate_structs (YItem (ContentAny vs) # ss) st = gate_structs ss (gate_values vs st)"
| "gate_structs (YItem ContentOther # ss) (ok, ids) = gate_structs ss (False, ids)"
| "gate_structs (_ # ss) st = gate_structs ss st"

definition check_enveloped_update :: "(bytes \<Rightarrow> ystruct list option) \<Rightarrow> bytes \<Rightarrow> gate_result" where
  "check_enveloped_update decode update =
     (case decode update of
        None \<Rightarrow> GateReject []
      | Some structs \<Rightarrow>
          (case gate_structs structs (True, []) of
             (ok, ids) \<Rightarrow> if ok then GateOk else GateReject ids))"

section \<open>What the gate lets through\<close>

text \<open>The specification: an accepted struct carries no content or enveloped messages only.\<close>

fun struct_ok :: "ystruct \<Rightarrow> bool" where
  "struct_ok (YItem (ContentDeleted _)) = True"
| "struct_ok (YItem (ContentAny vs)) = list_all is_enveloped_message vs"
| "struct_ok (YItem ContentOther) = False"
| "struct_ok _ = True"

fun struct_values :: "ystruct \<Rightarrow> jsval list" where
  "struct_values (YItem (ContentAny vs)) = vs"
| "struct_values _ = []"

fun value_id :: "jsval \<Rightarrow> jstr list" where
  "value_id v = (case get_prop v (js ''id'') of Some (VStr i) \<Rightarrow> [i] | _ \<Rightarrow> [])"

definition offending_ids :: "jsval list \<Rightarrow> jstr list" where
  "offending_ids vs = concat (map value_id (filter (\<lambda>v. \<not> is_enveloped_message v) vs))"

lemma gate_values_spec:
  "gate_values vs (ok, ids) = (ok \<and> list_all is_enveloped_message vs, ids @ offending_ids vs)"
  by (induction vs arbitrary: ok ids)
    (auto simp: offending_ids_def split: option.splits jsval.splits)

lemma offending_ids_append [simp]: "offending_ids (a @ b) = offending_ids a @ offending_ids b"
  by (simp add: offending_ids_def)

lemma offending_ids_Nil [simp]: "offending_ids [] = []"
  by (simp add: offending_ids_def)

lemma gate_structs_spec:
  "gate_structs ss (ok, ids) =
     (ok \<and> list_all struct_ok ss, ids @ offending_ids (concat (map struct_values ss)))"
  by (induction ss "(ok, ids)" arbitrary: ok ids rule: gate_structs.induct)
    (auto simp: gate_values_spec)

lemma sort_keys_set:
  assumes "distinct own" and "distinct keys" and "sorted keys"
  shows "sort own = keys \<longleftrightarrow> set own = set keys"
  using assms by (metis distinct_sort set_sort sorted_distinct_set_unique sorted_sort)

lemma message_keys_sorted: "sorted message_keys" "distinct message_keys"
  by (simp_all add: message_keys_def js_def)

lemma envelope_keys_sorted: "sorted envelope_keys" "distinct envelope_keys"
  by (simp_all add: envelope_keys_def js_def)


lemma has_exact_keys_set:
  assumes "distinct own"
  shows "has_exact_keys own message_keys \<longleftrightarrow> set own = set message_keys"
    "has_exact_keys own envelope_keys \<longleftrightarrow> set own = set envelope_keys"
  using assms message_keys_sorted envelope_keys_sorted
  by (simp_all add: has_exact_keys_def sort_keys_set)

section \<open>Envelopes the gate takes are envelopes the client reads\<close>

definition epoch_envelope :: "envelope \<Rightarrow> bool" where
  "epoch_envelope e \<longleftrightarrow> dec_exp (env_keyId e) = 0 \<and> 0 < dec_mant (env_keyId e)
     \<and> length (env_nonce e) = nonce_chars
     \<and> min_ciphertext_chars \<le> length (env_ciphertext e)
     \<and> length (env_ciphertext e) \<le> max_ciphertext_chars
     \<and> length (env_ciphertext e) mod 4 \<noteq> 1
     \<and> list_all base64url_char (env_nonce e) \<and> list_all base64url_char (env_ciphertext e)"

lemma is_base64url_Some:
  "is_base64url v a b \<longleftrightarrow> (\<exists>s. v = Some (JStr s) \<and> a \<le> length s \<and> length s \<le> b
     \<and> length s mod 4 \<noteq> 1 \<and> s \<noteq> [] \<and> list_all base64url_char s)"
  by (auto simp: is_base64url_def split: option.splits json.splits)

lemma positive_integer_Some:
  "positive_integer v \<longleftrightarrow> (\<exists>d. v = Some (JNum d) \<and> dec_exp d = 0 \<and> 0 < dec_mant d)"
  by (auto simp: positive_integer_def split: option.splits json.splits)

lemma well_formed_parses:
  assumes "is_well_formed_envelope s"
  shows "\<exists>e. parse_envelope s = Inr (Some e) \<and> epoch_envelope e"
proof -
  from assms obtain kvs where pre: "starts_with s e2ee_prefix"
    and kvs: "json_parse (drop (length e2ee_prefix) s) = Some (JObj kvs)"
    and v: "map_of kvs (js ''v'') = Some (JNum (dec_of_int 1))"
    and k: "positive_integer (map_of kvs (js ''keyId''))"
    and n: "is_base64url (map_of kvs (js ''nonce'')) nonce_chars nonce_chars"
    and c: "is_base64url (map_of kvs (js ''ciphertext'')) min_ciphertext_chars max_ciphertext_chars"
    by (auto simp: is_well_formed_envelope_def Let_def split: if_splits option.splits json.splits)
  from k obtain d where d: "map_of kvs (js ''keyId'') = Some (JNum d)" "dec_exp d = 0" "0 < dec_mant d"
    by (auto simp: positive_integer_Some)
  from n obtain ns where ns: "map_of kvs (js ''nonce'') = Some (JStr ns)"
    "length ns = nonce_chars" "list_all base64url_char ns"
    by (auto simp: is_base64url_Some)
  from c obtain cs where cs: "map_of kvs (js ''ciphertext'') = Some (JStr cs)"
    "min_ciphertext_chars \<le> length cs" "length cs \<le> max_ciphertext_chars"
    "length cs mod 4 \<noteq> 1" "list_all base64url_char cs"
    by (auto simp: is_base64url_Some)
  let ?e = "\<lparr>env_keyId = d, env_nonce = ns, env_ciphertext = cs\<rparr>"
  have "parse_envelope s = Inr (Some ?e)"
    using pre kvs v d ns cs by (simp add: parse_envelope_def envelope_of_json_def)
  moreover have "epoch_envelope ?e"
    using d ns cs by (simp add: epoch_envelope_def)
  ultimately show ?thesis by blast
qed

lemma built_envelope_well_formed:
  assumes "0 < k" and "length n = nonce_chars" and "list_all base64url_char n"
    and "min_ciphertext_chars \<le> length c" and "length c \<le> max_ciphertext_chars"
    and "length c mod 4 \<noteq> 1" and "list_all base64url_char c"
  shows "is_well_formed_envelope (build_envelope k n c)"
proof -
  have keys: "has_exact_keys (json_keys (envelope_json k n c)) envelope_keys"
    by (simp add: has_exact_keys_def envelope_json_def envelope_keys_def js_def)
  from assms have "n \<noteq> []" "c \<noteq> []"
    by (auto simp: nonce_chars_def min_ciphertext_chars_def)
  moreover have "length n mod 4 \<noteq> 1"
    using assms(2) by (simp add: nonce_chars_def)
  ultimately have fields:
    "json_get (envelope_json k n c) (js ''v'') = Some (JNum (dec_of_int 1))"
    "positive_integer (json_get (envelope_json k n c) (js ''keyId''))"
    "is_base64url (json_get (envelope_json k n c) (js ''nonce'')) nonce_chars nonce_chars"
    "is_base64url (json_get (envelope_json k n c) (js ''ciphertext''))
       min_ciphertext_chars max_ciphertext_chars"
    using assms by (simp_all add: envelope_json_def positive_integer_Some is_base64url_Some)
  obtain kvs where kvs: "envelope_json k n c = JObj kvs"
    by (simp add: envelope_json_def)
  show ?thesis
    using keys fields
    unfolding is_well_formed_envelope_def drop_build_envelope json_parse_envelope
    by (simp add: kvs Let_def)
qed

section \<open>Message objects\<close>

text \<open>The \<open>MessageDto\<close> object an item of the \<open>messages\<close> array holds.\<close>

definition message_value :: "message \<Rightarrow> jsval" where
  "message_value m = VObj [(js ''id'', VStr (m_id m)), (js ''roomId'', VStr (m_roomId m)),
     (js ''userId'', VStr (m_userId m)), (js ''username'', VStr (m_username m)),
     (js ''content'', VStr (m_content m)), (js ''createdAt'', VNum (dec_of_int (m_createdAt m)))]"

lemma message_value_enveloped:
  "is_enveloped_message (message_value m) \<longleftrightarrow> is_well_formed_envelope (m_content m)"
proof -
  have "has_exact_keys (object_keys (message_value m)) message_keys"
    by (simp add: has_exact_keys_def message_value_def message_keys_def js_def)
  then show ?thesis
    by (simp add: is_enveloped_message_def message_value_def)
qed

lemma message_value_id [simp]: "value_id (message_value m) = [m_id m]"
  by (simp add: message_value_def)

lemma offending_ids_messages:
  "offending_ids (map message_value ms) =
     map m_id (filter (\<lambda>m. \<not> is_well_formed_envelope (m_content m)) ms)"
  by (induction ms) (simp_all add: offending_ids_def message_value_enveloped del: value_id.simps)

section \<open>The gate's contract\<close>

lemma check_cases:
  "check_enveloped_update decode u =
     (case decode u of None \<Rightarrow> GateReject []
      | Some ss \<Rightarrow> if list_all struct_ok ss then GateOk
                   else GateReject (offending_ids (concat (map struct_values ss))))"
  by (simp add: check_enveloped_update_def gate_structs_spec split: option.splits)


lemma not_list_all: "\<not> list_all P xs \<longleftrightarrow> list_ex (\<lambda>x. \<not> P x) xs"
  by (induction xs) auto

text \<open>C4. The gate accepts an update exactly when Yjs decodes it and every struct it carries is
  content-free or an array of enveloped message objects; otherwise it names, in order, the ids of
  exactly the offending objects that have a string id (none when the update does not decode).\<close>

theorem gate_specification:
  "(check_enveloped_update decode u = GateOk
      \<longleftrightarrow> (\<exists>ss. decode u = Some ss \<and> list_all struct_ok ss))
   \<and> (check_enveloped_update decode u = GateReject ids
      \<longleftrightarrow> (decode u = None \<and> ids = [])
        \<or> (\<exists>ss. decode u = Some ss \<and> list_ex (\<lambda>st. \<not> struct_ok st) ss
              \<and> ids = offending_ids (concat (map struct_values ss))))"
  by (cases "decode u") (auto simp: check_cases not_list_all[symmetric])

text \<open>C5. No update the gate accepts puts readable text beside or instead of an envelope: each
  message object it inserts has the six keys of a message and a content that the client's own
  parser reads as an envelope of a positive epoch, with a 32-character nonce and a ciphertext of
  23 to 21355 base64url characters.\<close>

theorem accepted_updates_are_envelopes:
  assumes "check_enveloped_update decode u = GateOk" and "decode u = Some ss"
    and "v \<in> set (concat (map struct_values ss))"
  shows "set (object_keys v) = set message_keys
    \<and> (\<exists>s e. get_prop v (js ''content'') = Some (VStr s) \<and> parse_envelope s = Inr (Some e)
             \<and> epoch_envelope e)"
proof -
  from assms obtain st where st: "st \<in> set ss" "v \<in> set (struct_values st)" by auto
  from assms st have "struct_ok st"
    by (auto simp: check_cases list_all_iff split: if_splits)
  with st have v: "is_enveloped_message v"
    by (cases st rule: struct_ok.cases) (auto simp: list_all_iff)
  then obtain s where "get_prop v (js ''content'') = Some (VStr s)" "is_well_formed_envelope s"
    by (auto simp: is_enveloped_message_def split: option.splits jsval.splits)
  moreover from v have "set (object_keys v) = set message_keys"
    by (simp add: is_enveloped_message_def has_exact_keys_def) (metis set_sort)
  ultimately show ?thesis
    using well_formed_parses by blast
qed

text \<open>A concrete decoder for the witnesses: one update holding one enveloped message.\<close>

definition gate_sample_message :: message where
  "gate_sample_message = \<lparr>m_id = js ''m1'', m_roomId = js ''r'', m_userId = js ''u'',
     m_username = js ''ann'',
     m_content = build_envelope 1 (replicate 32 65) (replicate 23 66), m_createdAt = 5\<rparr>"

lemma sample_well_formed: "is_well_formed_envelope (m_content gate_sample_message)"
  by (simp add: gate_sample_message_def built_envelope_well_formed nonce_chars_def
      min_ciphertext_chars_def max_ciphertext_chars_def base64url_char_def list_all_iff)

theorem accepted_updates_are_envelopes_witness:
  "set (object_keys (message_value gate_sample_message)) = set message_keys
    \<and> (\<exists>s e. get_prop (message_value gate_sample_message) (js ''content'') = Some (VStr s)
        \<and> parse_envelope s = Inr (Some e) \<and> epoch_envelope e)"
  by (rule accepted_updates_are_envelopes
      [of "\<lambda>_. Some [YGC 1, YItem (ContentAny [message_value gate_sample_message])]" "[]"])
    (auto simp: check_cases message_value_enveloped sample_well_formed)

end
