(* ===== verification/Base64.thy ===== *)
theory Base64
  imports JString
begin

text \<open>
  \<open>apps/mobile/src/polyfills/base64.ts\<close>: \<open>polyBtoa\<close> and \<open>polyAtob\<close>, the implementation of
  \<open>btoa\<close>/\<open>atob\<close> the sync engine runs on when the engine has none, and the byte-array wrappers of
  \<open>packages/sync-engine/src/SQLitePersistence.ts\<close>. JavaScript's 32-bit shifts and masks are word
  operations. A read past the end of a string is \<open>NaN\<close> in the encoder and \<open>undefined\<close> in the
  decoder; both count as 0 in the shifts, and are a missing list element here.
\<close>

unbundle bit_operations_syntax

definition base64_chars :: jstr where
  "base64_chars = js ''ABCDEFGHIJKLMNOPQRSTUVWXYZabcdefghijklmnopqrstuvwxyz0123456789+/''"

text \<open>\<open>LOOKUP[c]\<close>: the index of a character in \<open>CHARS\<close>, or \<open>undefined\<close>.\<close>

definition base64_index :: "jchar \<Rightarrow> 32 word option" where
  "base64_index c = map_of (zip base64_chars (map word_of_nat [0..<64])) c"

definition sextet_char :: "32 word \<Rightarrow> jchar" where
  "sextet_char w = base64_chars ! unat (w AND 0x3f)"

datatype btoa_error = BtoaRangeError

definition btoa_triplet :: "jchar \<Rightarrow> jchar \<Rightarrow> jchar \<Rightarrow> 32 word" where
  "btoa_triplet c0 c1 c2 = push_bit 16 (ucast c0) OR push_bit 8 (ucast c1) OR ucast c2"

fun poly_btoa :: "jstr \<Rightarrow> btoa_error + jstr" where
  "poly_btoa [] = Inr []"
| "poly_btoa [c0] =
     (if c0 > 0xff then Inl BtoaRangeError
      else let t = btoa_triplet c0 0 0
           in Inr [sextet_char (drop_bit 18 t), sextet_char (drop_bit 12 t), 61, 61])"
| "poly_btoa [c0, c1] =
     (if c0 > 0xff \<or> c1 > 0xff then Inl BtoaRangeError
      else let t = btoa_triplet c0 c1 0
           in Inr [sextet_char (drop_bit 18 t), sextet_char (drop_bit 12 t),
                   sextet_char (drop_bit 6 t), 61])"
| "poly_btoa (c0 # c1 # c2 # s) =
     (if c0 > 0xff \<or> c1 > 0xff \<or> c2 > 0xff then Inl BtoaRangeError
      else let t = btoa_triplet c0 c1 c2
           in bind_result (poly_btoa s) (\<lambda>r.
                Inr ([sextet_char (drop_bit 18 t), sextet_char (drop_bit 12 t),
                      sextet_char (drop_bit 6 t), sextet_char t] @ r)))"

definition index_or_0 :: "jchar \<Rightarrow> 32 word" where
  "index_or_0 c = (case base64_index c of None \<Rightarrow> 0 | Some w \<Rightarrow> w)"

definition atob_triplet :: "32 word \<Rightarrow> 32 word \<Rightarrow> 32 word \<Rightarrow> 32 word \<Rightarrow> 32 word" where
  "atob_triplet e0 e1 e2 e3 = push_bit 18 e0 OR push_bit 12 e1 OR push_bit 6 e2 OR e3"

definition out_byte :: "32 word \<Rightarrow> jchar" where
  "out_byte w = ucast (w AND 0xff)"

fun atob_loop :: "jstr \<Rightarrow> jstr" where
  "atob_loop [] = []"
| "atob_loop [a] = [out_byte (drop_bit 16 (atob_triplet (index_or_0 a) 0 0 0))]"
| "atob_loop [a, b] = [out_byte (drop_bit 16 (atob_triplet (index_or_0 a) (index_or_0 b) 0 0))]"
| "atob_loop [a, b, c] =
     (let t = atob_triplet (index_or_0 a) (index_or_0 b) (index_or_0 c) 0
      in [out_byte (drop_bit 16 t), out_byte (drop_bit 8 t)])"
| "atob_loop (a # b # c # d # s) =
     (let t = atob_triplet (index_or_0 a) (index_or_0 b) (index_or_0 c) (index_or_0 d)
      in [out_byte (drop_bit 16 t), out_byte (drop_bit 8 t), out_byte t] @ atob_loop s)"

definition poly_atob :: "jstr \<Rightarrow> jstr" where
  "poly_atob input = atob_loop (filter (\<lambda>c. c \<in> set base64_chars) input)"

text \<open>The wrappers of the persistence layer: bytes to and from the characters 0 to 255.\<close>

definition uint8_to_base64 :: "bytes \<Rightarrow> jstr" where
  "uint8_to_base64 bs =
     (case poly_btoa (map ucast bs) of Inl _ \<Rightarrow> [] | Inr s \<Rightarrow> s)"

definition base64_to_uint8 :: "jstr \<Rightarrow> bytes" where
  "base64_to_uint8 s = map ucast (poly_atob s)"

section \<open>The round trip\<close>

lemma length_base64_chars [simp]: "length base64_chars = 64"
  by (simp add: base64_chars_def)

lemma distinct_base64_chars: "distinct base64_chars"
  by (simp add: base64_chars_def js_def)

lemma pad_not_base64: "61 \<notin> set base64_chars"
  by (simp add: base64_chars_def js_def)

lemma sextet_in_chars [simp]: "sextet_char w \<in> set base64_chars"
proof -
  have "unat (w AND 0x3f) < 64"
    using word_and_le1[of w "0x3f"] by (simp add: word_le_nat_alt)
  then show ?thesis
    by (simp add: sextet_char_def)
qed

lemma base64_index_nth: "i < 64 \<Longrightarrow> base64_index (base64_chars ! i) = Some (word_of_nat i)"
  unfolding base64_index_def
  by (subst map_of_zip_nth[OF _ distinct_base64_chars, where i = i]) simp_all

lemma index_sextet [simp]: "index_or_0 (sextet_char w) = w AND 0x3f"
proof -
  have "unat (w AND 0x3f) < 64"
    using word_and_le1[of w "0x3f"] by (simp add: word_le_nat_alt)
  then show ?thesis
    by (simp add: index_or_0_def sextet_char_def base64_index_nth)
qed

lemma mask_bits: "(0x3f :: 32 word) = mask 6" "(0xff :: 32 word) = mask 8" "(0xff :: jchar) = mask 8"
  by (simp_all add: mask_eq_exp_minus_1)

lemma regroup:
  "atob_triplet (drop_bit 18 t AND 0x3f) (drop_bit 12 t AND 0x3f) (drop_bit 6 t AND 0x3f) (t AND 0x3f)
     = t AND mask 24"
  unfolding atob_triplet_def mask_bits
proof (rule bit_word_eqI)
  fix n :: nat
  assume "n < LENGTH(32)"
  consider "n < 6" | "6 \<le> n \<and> n < 12" | "12 \<le> n \<and> n < 18" | "18 \<le> n \<and> n < 24" | "24 \<le> n"
    by linarith
  then show "bit (push_bit 18 (drop_bit 18 t AND mask 6) OR push_bit 12 (drop_bit 12 t AND mask 6)
      OR push_bit 6 (drop_bit 6 t AND mask 6) OR t AND mask 6) n = bit (t AND mask 24) n"
    by cases (auto simp: bit_simps)
qed

lemma out_byte_field:
  assumes "k \<le> 16"
  shows "out_byte (drop_bit k (t AND mask 24)) = out_byte (drop_bit k t)"
  unfolding out_byte_def mask_bits
  by (rule arg_cong[where f = ucast], rule bit_word_eqI) (use assms in \<open>auto simp: bit_simps\<close>)

lemma out_byte_quad:
  assumes "k \<le> 16"
  shows "out_byte (drop_bit k (atob_triplet (drop_bit 18 t AND 0x3f) (drop_bit 12 t AND 0x3f)
      (drop_bit 6 t AND 0x3f) (t AND 0x3f))) = out_byte (drop_bit k t)"
  unfolding regroup by (rule out_byte_field[OF assms])

lemma triplet_bytes:
  assumes "c0 \<le> 0xff" and "c1 \<le> 0xff" and "c2 \<le> 0xff"
  shows "out_byte (drop_bit 16 (btoa_triplet c0 c1 c2)) = c0"
    "out_byte (drop_bit 8 (btoa_triplet c0 c1 c2)) = c1"
    "out_byte (btoa_triplet c0 c1 c2) = c2"
proof -
  have bits: "bit c n \<Longrightarrow> n < 8" if "c \<le> 0xff" for c :: jchar and n
  proof -
    have "unat (take_bit 8 c) = unat c"
      using that by (simp add: unsigned_take_bit_eq take_bit_nat_eq_self_iff word_le_nat_alt)
    then have "take_bit 8 c = c"
      by (rule unsigned_word_eqI)
    then show "bit c n \<Longrightarrow> n < 8"
      by (metis bit_take_bit_iff)
  qed
  note b = bits[OF assms(1)] bits[OF assms(2)] bits[OF assms(3)]
  show "out_byte (drop_bit 16 (btoa_triplet c0 c1 c2)) = c0"
    unfolding out_byte_def btoa_triplet_def mask_bits
    by (rule bit_word_eqI) (use b in \<open>force simp: bit_simps\<close>)
  show "out_byte (drop_bit 8 (btoa_triplet c0 c1 c2)) = c1"
    unfolding out_byte_def btoa_triplet_def mask_bits
    by (rule bit_word_eqI) (use b in \<open>force simp: bit_simps\<close>)
  show "out_byte (btoa_triplet c0 c1 c2) = c2"
    unfolding out_byte_def btoa_triplet_def mask_bits
    by (rule bit_word_eqI) (use b in \<open>force simp: bit_simps\<close>)
qed


lemma chars_0_le: "(0 :: jchar) \<le> 0xff"
  by simp

lemma poly_btoa_valid:
  "(\<exists>b. poly_btoa s = Inr b) \<longleftrightarrow> list_all (\<lambda>c. c \<le> 0xff) s"
  by (induction s rule: poly_btoa.induct) (auto simp: Let_def bind_result_Inr not_less)

lemma poly_btoa_decodes:
  "poly_btoa s = Inr b \<Longrightarrow> atob_loop (filter (\<lambda>c. c \<in> set base64_chars) b) = s"
proof (induction s arbitrary: b rule: poly_btoa.induct)
  case (4 c0 c1 c2 s)
  then obtain r where r: "poly_btoa s = Inr r" and le: "c0 \<le> 0xff" "c1 \<le> 0xff" "c2 \<le> 0xff"
    by (auto simp: Let_def bind_result_Inr not_less split: if_splits)
  let ?t = "btoa_triplet c0 c1 c2"
  have ih: "atob_loop (filter (\<lambda>c. c \<in> set base64_chars) r) = s"
    using "4.IH"[OF _ refl r] le by (simp add: not_less)
  have b: "b = [sextet_char (drop_bit 18 ?t), sextet_char (drop_bit 12 ?t),
      sextet_char (drop_bit 6 ?t), sextet_char ?t] @ r"
    using "4.prems" r le[THEN leD] by (simp add: Let_def)
  show ?case
    using out_byte_quad[of 0 ?t] out_byte_quad[of 8 ?t] out_byte_quad[of 16 ?t]
    by (simp add: b ih Let_def triplet_bytes[OF le])
next
  case (3 c0 c1)
  then have le: "c0 \<le> 0xff" "c1 \<le> 0xff" by (auto simp: not_less split: if_splits)
  let ?t = "btoa_triplet c0 c1 0"
  have z: "?t AND 0x3f = 0"
    by (rule bit_word_eqI) (auto simp: btoa_triplet_def bit_simps mask_bits)
  have b: "b = [sextet_char (drop_bit 18 ?t), sextet_char (drop_bit 12 ?t),
      sextet_char (drop_bit 6 ?t), 61]"
    using "3.prems" le[THEN leD] by (simp add: Let_def)
  show ?case
    using out_byte_quad[of 8 ?t] out_byte_quad[of 16 ?t] triplet_bytes[OF le chars_0_le]
    by (simp add: b z Let_def pad_not_base64)
next
  case (2 c0)
  then have le: "c0 \<le> 0xff" by (auto simp: not_less split: if_splits)
  let ?t = "btoa_triplet c0 0 0"
  have z: "?t AND 0x3f = 0" "drop_bit 6 ?t AND 0x3f = 0"
    by (rule bit_word_eqI, auto simp: btoa_triplet_def bit_simps mask_bits)+
  have b: "b = [sextet_char (drop_bit 18 ?t), sextet_char (drop_bit 12 ?t), 61, 61]"
    using "2.prems" le[THEN leD] by (simp add: Let_def)
  show ?case
    using out_byte_quad[of 16 ?t] triplet_bytes[OF le chars_0_le chars_0_le]
    by (simp add: b z Let_def pad_not_base64)
qed simp


lemma length_poly_btoa: "poly_btoa s = Inr b \<Longrightarrow> length b = 4 * ((length s + 2) div 3)"
proof (induction s arbitrary: b rule: poly_btoa.induct)
  case (4 c0 c1 c2 s)
  then obtain r where "poly_btoa s = Inr r" "length b = 4 + length r" "length r = 4 * ((length s + 2) div 3)"
    by (auto simp: Let_def bind_result_Inr split: if_splits)
  moreover have "(length s + 5) div 3 = Suc ((length s + 2) div 3)"
    by presburger
  ultimately show ?case by (simp add: add.commute)
qed (auto simp: Let_def split: if_splits)

lemma ucast_byte_le: "(ucast (b :: 8 word) :: jchar) \<le> 0xff"
proof -
  have "unat b < 256"
    using unsigned_less[of b] by simp
  then show ?thesis
    by (simp add: word_le_nat_alt unsigned_ucast_eq take_bit_nat_eq_self)
qed

lemma ucast_byte_inv: "ucast (ucast (b :: 8 word) :: jchar) = b"
  by (rule bit_word_eqI) (simp add: bit_simps)

lemma uint8_base64_roundtrip [simp]: "base64_to_uint8 (uint8_to_base64 bs) = bs"
proof -
  have "list_all (\<lambda>c. c \<le> 0xff) (map (ucast :: 8 word \<Rightarrow> jchar) bs)"
    by (simp add: list_all_iff ucast_byte_le)
  then obtain b where b: "poly_btoa (map ucast bs) = Inr b"
    using poly_btoa_valid by blast
  then have "poly_atob b = map ucast bs"
    unfolding poly_atob_def by (rule poly_btoa_decodes)
  with b show ?thesis
    by (simp add: base64_to_uint8_def uint8_to_base64_def ucast_byte_inv comp_def)
qed

text \<open>C40. The base64 polyfill: encoding fails exactly on a character above 255, its output is four
  characters for each started group of three, and decoding any output returns the input; so byte
  arrays survive the storage encoding unchanged.\<close>

theorem base64_polyfill_correct:
  "((\<exists>b. poly_btoa s = Inr b) \<longleftrightarrow> list_all (\<lambda>c. c \<le> 0xff) s)
   \<and> (case poly_btoa s of Inl e \<Rightarrow> e = BtoaRangeError
      | Inr b \<Rightarrow> length b = 4 * ((length s + 2) div 3) \<and> poly_atob b = s)
   \<and> base64_to_uint8 (uint8_to_base64 bs) = bs"
proof -
  have "poly_btoa s = Inl e \<Longrightarrow> e = BtoaRangeError" for e
    by (cases e) simp
  then show ?thesis
    using poly_btoa_valid[of s]
    by (auto simp: poly_atob_def poly_btoa_decodes length_poly_btoa split: sum.splits)
qed

end
