(* ===== verification/Database.thy ===== *)
theory Database
  imports Shared_Types
begin

text \<open>
  The server's tables (\<open>apps/server/prisma/schema.prisma\<close>) and the Prisma calls the services make
  on them. A table is the list of its rows; a call is a function from a database to an error or a
  new database, atomic as the statement or transaction it stands for. Unique columns and primary
  keys are checked where the schema declares them.
\<close>

section \<open>Tables\<close>

record user_row =
  us_id :: jstr
  us_email :: jstr
  us_username :: jstr
  us_password :: jstr
  us_publicKey :: "jstr option"
  us_publicKeyFp :: "jstr option"

record room_row =
  ro_id :: jstr
  ro_name :: jstr
  ro_yjsState :: "bytes option"
  ro_currentKeyId :: nat

record grant_row =
  gr_roomId :: jstr
  gr_userId :: jstr
  gr_keyId :: nat
  gr_wrappedKey :: jstr
  gr_recipientKeyFp :: jstr

record member_row =
  mb_roomId :: jstr
  mb_userId :: jstr
  mb_role :: jstr

record db =
  db_users :: "user_row list"
  db_rooms :: "room_row list"
  db_members :: "member_row list"
  db_grants :: "grant_row list"

datatype db_error = UniqueViolation | RecordNotFound | ForeignKeyViolation

definition empty_db :: db where
  "empty_db = \<lparr>db_users = [], db_rooms = [], db_members = [], db_grants = []\<rparr>"

section \<open>Queries\<close>

definition room_by_id :: "db \<Rightarrow> jstr \<Rightarrow> room_row option" where
  "room_by_id d i = find (\<lambda>r. ro_id r = i) (db_rooms d)"

definition room_by_name :: "db \<Rightarrow> jstr \<Rightarrow> room_row option" where
  "room_by_name d n = find (\<lambda>r. ro_name r = n) (db_rooms d)"

definition user_by_id :: "db \<Rightarrow> jstr \<Rightarrow> user_row option" where
  "user_by_id d i = find (\<lambda>u. us_id u = i) (db_users d)"

definition user_by_email :: "db \<Rightarrow> jstr \<Rightarrow> user_row option" where
  "user_by_email d e = find (\<lambda>u. us_email u = e) (db_users d)"

definition find_member :: "db \<Rightarrow> jstr \<Rightarrow> jstr \<Rightarrow> member_row option" where
  "find_member d r u = find (\<lambda>m. mb_roomId m = r \<and> mb_userId m = u) (db_members d)"

definition members_of :: "db \<Rightarrow> jstr \<Rightarrow> member_row list" where
  "members_of d r = filter (\<lambda>m. mb_roomId m = r) (db_members d)"

definition grants_of :: "db \<Rightarrow> jstr \<Rightarrow> grant_row list" where
  "grants_of d r = filter (\<lambda>g. gr_roomId g = r) (db_grants d)"

definition grant_key :: "grant_row \<Rightarrow> jstr \<times> jstr \<times> nat" where
  "grant_key g = (gr_roomId g, gr_userId g, gr_keyId g)"

section \<open>Writes\<close>

definition create_user :: "user_row \<Rightarrow> db \<Rightarrow> db_error + db" where
  "create_user u d =
     (if list_ex (\<lambda>v. us_id v = us_id u \<or> us_email v = us_email u \<or> us_username v = us_username u) (db_users d)
      then Inl UniqueViolation else Inr (d\<lparr>db_users := db_users d @ [u]\<rparr>))"

definition create_room :: "jstr \<Rightarrow> jstr \<Rightarrow> db \<Rightarrow> db_error + room_row \<times> db" where
  "create_room i n d =
     (if list_ex (\<lambda>r. ro_id r = i \<or> ro_name r = n) (db_rooms d) then Inl UniqueViolation
      else let r = \<lparr>ro_id = i, ro_name = n, ro_yjsState = None, ro_currentKeyId = 0\<rparr>
           in Inr (r, d\<lparr>db_rooms := db_rooms d @ [r]\<rparr>))"

text \<open>\<open>room.upsert\<close> with an empty update: the row of that name, created when there is none.\<close>

definition upsert_room :: "jstr \<Rightarrow> jstr \<Rightarrow> db \<Rightarrow> db_error + room_row \<times> db" where
  "upsert_room fresh n d =
     (case room_by_name d n of Some r \<Rightarrow> Inr (r, d) | None \<Rightarrow> create_room fresh n d)"

definition update_room_state :: "jstr \<Rightarrow> bytes \<Rightarrow> db \<Rightarrow> db_error + db" where
  "update_room_state n b d =
     (if room_by_name d n = None then Inl RecordNotFound
      else Inr (d\<lparr>db_rooms := map (\<lambda>r. if ro_name r = n then r\<lparr>ro_yjsState := Some b\<rparr> else r) (db_rooms d)\<rparr>))"

definition create_member :: "member_row \<Rightarrow> db \<Rightarrow> db_error + db" where
  "create_member m d =
     (if find_member d (mb_roomId m) (mb_userId m) \<noteq> None then Inl UniqueViolation
      else if room_by_id d (mb_roomId m) = None \<or> user_by_id d (mb_userId m) = None
      then Inl ForeignKeyViolation
      else Inr (d\<lparr>db_members := db_members d @ [m]\<rparr>))"

text \<open>\<open>room.updateMany\<close> on id and expected epoch, incrementing: the new database and the count.\<close>

definition increment_epoch :: "jstr \<Rightarrow> nat \<Rightarrow> db \<Rightarrow> nat \<times> db" where
  "increment_epoch i expected d =
     (length (filter (\<lambda>r. ro_id r = i \<and> ro_currentKeyId r = expected) (db_rooms d)),
      d\<lparr>db_rooms := map (\<lambda>r. if ro_id r = i \<and> ro_currentKeyId r = expected
                            then r\<lparr>ro_currentKeyId := ro_currentKeyId r + 1\<rparr> else r) (db_rooms d)\<rparr>)"

definition upsert_grant :: "grant_row \<Rightarrow> db \<Rightarrow> db_error + db" where
  "upsert_grant g d =
     (if list_ex (\<lambda>h. grant_key h = grant_key g) (db_grants d)
      then Inr (d\<lparr>db_grants := map (\<lambda>h. if grant_key h = grant_key g
                then h\<lparr>gr_wrappedKey := gr_wrappedKey g, gr_recipientKeyFp := gr_recipientKeyFp g\<rparr>
                else h) (db_grants d)\<rparr>)
      else if room_by_id d (gr_roomId g) = None \<or> user_by_id d (gr_userId g) = None
      then Inl ForeignKeyViolation
      else Inr (d\<lparr>db_grants := db_grants d @ [g]\<rparr>))"

definition delete_grants_of_user :: "jstr \<Rightarrow> db \<Rightarrow> db" where
  "delete_grants_of_user u d = d\<lparr>db_grants := filter (\<lambda>g. gr_userId g \<noteq> u) (db_grants d)\<rparr>"

definition update_user_key :: "jstr \<Rightarrow> jstr \<Rightarrow> jstr \<Rightarrow> db \<Rightarrow> db_error + db" where
  "update_user_key u pk fp d =
     (if user_by_id d u = None then Inl RecordNotFound
      else Inr (d\<lparr>db_users := map (\<lambda>v. if us_id v = u
             then v\<lparr>us_publicKey := Some pk, us_publicKeyFp := Some fp\<rparr> else v) (db_users d)\<rparr>))"

section \<open>Integrity\<close>

text \<open>
  The constraints of the schema, and two of the application: a grant names an epoch the room has
  reached and a member of the room.
\<close>

definition keys_unique :: "db \<Rightarrow> bool" where
  "keys_unique d \<longleftrightarrow> distinct (map us_id (db_users d)) \<and> distinct (map us_email (db_users d))
     \<and> distinct (map us_username (db_users d))
     \<and> distinct (map ro_id (db_rooms d)) \<and> distinct (map ro_name (db_rooms d))
     \<and> distinct (map (\<lambda>m. (mb_roomId m, mb_userId m)) (db_members d))
     \<and> distinct (map grant_key (db_grants d))"

definition references_ok :: "db \<Rightarrow> bool" where
  "references_ok d \<longleftrightarrow>
     (\<forall>m \<in> set (db_members d). mb_roomId m \<in> ro_id ` set (db_rooms d) \<and> mb_userId m \<in> us_id ` set (db_users d))"

definition is_member_id :: "db \<Rightarrow> jstr \<Rightarrow> jstr \<Rightarrow> bool" where
  "is_member_id d r u \<longleftrightarrow> (r, u) \<in> (\<lambda>m. (mb_roomId m, mb_userId m)) ` set (db_members d)"

definition epoch_reached :: "db \<Rightarrow> jstr \<Rightarrow> nat \<Rightarrow> bool" where
  "epoch_reached d i k \<longleftrightarrow> list_ex (\<lambda>r. ro_id r = i \<and> k \<le> ro_currentKeyId r) (db_rooms d)"

definition grants_ok :: "db \<Rightarrow> bool" where
  "grants_ok d \<longleftrightarrow> (\<forall>g \<in> set (db_grants d).
     1 \<le> gr_keyId g \<and> epoch_reached d (gr_roomId g) (gr_keyId g) \<and> is_member_id d (gr_roomId g) (gr_userId g))"

definition db_inv :: "db \<Rightarrow> bool" where
  "db_inv d \<longleftrightarrow> keys_unique d \<and> references_ok d \<and> grants_ok d"

lemma db_inv_empty [simp]: "db_inv empty_db"
  by (simp add: db_inv_def keys_unique_def references_ok_def grants_ok_def empty_db_def)

lemma find_key_unique:
  assumes "distinct (map k xs)"
  shows "find (\<lambda>x. k x = a) xs = Some y \<longleftrightarrow> y \<in> set xs \<and> k y = a"
  using assms
proof (induction xs)
  case (Cons x xs)
  have "k y \<noteq> k x" if "y \<in> set xs"
    using Cons.prems imageI[OF that, of k] by auto
  with Cons show ?case by auto
qed simp

lemma find_append_list: "find P (xs @ ys) = (case find P xs of None \<Rightarrow> find P ys | Some x \<Rightarrow> Some x)"
  by (induction xs) simp_all

lemma find_member_iff:
  "find_member d r u \<noteq> None \<longleftrightarrow> is_member_id d r u"
  by (auto simp: find_member_def is_member_id_def find_None_iff image_iff)

lemma room_by_id_None: "room_by_id d i = None \<longleftrightarrow> i \<notin> ro_id ` set (db_rooms d)"
  by (auto simp: room_by_id_def find_None_iff)

lemma room_by_name_None: "room_by_name d n = None \<longleftrightarrow> n \<notin> ro_name ` set (db_rooms d)"
  by (auto simp: room_by_name_def find_None_iff)

lemma user_by_id_None: "user_by_id d i = None \<longleftrightarrow> i \<notin> us_id ` set (db_users d)"
  by (auto simp: user_by_id_def find_None_iff)

lemma room_by_id_Some:
  "room_by_id d i = Some r \<Longrightarrow> r \<in> set (db_rooms d) \<and> ro_id r = i"
  by (auto simp: room_by_id_def find_Some_iff)

lemma room_by_name_Some:
  "room_by_name d n = Some r \<Longrightarrow> r \<in> set (db_rooms d) \<and> ro_name r = n"
  by (auto simp: room_by_name_def find_Some_iff)

lemma user_by_email_None: "user_by_email d e = None \<longleftrightarrow> e \<notin> us_email ` set (db_users d)"
  by (auto simp: user_by_email_def find_None_iff)

text \<open>Later databases: rows stay, members stay and epochs only rise.\<close>

definition rooms_grow :: "db \<Rightarrow> db \<Rightarrow> bool" where
  "rooms_grow d e \<longleftrightarrow> (\<forall>n r. room_by_name d n = Some r \<longrightarrow> (\<exists>s. room_by_name e n = Some s
     \<and> ro_id s = ro_id r \<and> ro_currentKeyId r \<le> ro_currentKeyId s))"

lemma rooms_grow_trans:
  assumes "rooms_grow d e" and "rooms_grow e f"
  shows "rooms_grow d f"
  unfolding rooms_grow_def
proof (intro allI impI)
  fix n r assume "room_by_name d n = Some r"
  then obtain s where s: "room_by_name e n = Some s" "ro_id s = ro_id r" "ro_currentKeyId r \<le> ro_currentKeyId s"
    using assms(1) unfolding rooms_grow_def by blast
  then obtain t where "room_by_name f n = Some t" "ro_id t = ro_id s" "ro_currentKeyId s \<le> ro_currentKeyId t"
    using assms(2) unfolding rooms_grow_def by blast
  with s show "\<exists>t. room_by_name f n = Some t \<and> ro_id t = ro_id r \<and> ro_currentKeyId r \<le> ro_currentKeyId t"
    by auto
qed

lemma rooms_grow_same: "db_rooms e = db_rooms d \<Longrightarrow> rooms_grow d e"
  by (simp add: rooms_grow_def room_by_name_def)

lemma rooms_grow_refl [simp]: "rooms_grow d d"
  by (simp add: rooms_grow_same)

lemma rooms_grow_append: "rooms_grow d (d\<lparr>db_rooms := db_rooms d @ rs\<rparr>)"
  by (auto simp: rooms_grow_def room_by_name_def find_append_list split: option.split)

lemma rooms_grow_map:
  assumes "\<And>r. ro_id (f r) = ro_id r" and "\<And>r. ro_name (f r) = ro_name r"
    and "\<And>r. ro_currentKeyId r \<le> ro_currentKeyId (f r)"
  shows "rooms_grow d (d\<lparr>db_rooms := map f (db_rooms d)\<rparr>)"
proof -
  have "find (\<lambda>r. ro_name r = n) (map f rs) = map_option f (find (\<lambda>r. ro_name r = n) rs)" for n rs
    by (induction rs) (simp_all add: assms(2))
  then show ?thesis
    using assms by (auto simp: rooms_grow_def room_by_name_def)
qed

definition grows :: "db \<Rightarrow> db \<Rightarrow> bool" where
  "grows d e \<longleftrightarrow> (\<forall>i k. epoch_reached d i k \<longrightarrow> epoch_reached e i k)
     \<and> (\<forall>r u. is_member_id d r u \<longrightarrow> is_member_id e r u)
     \<and> us_id ` set (db_users d) \<subseteq> us_id ` set (db_users e)
     \<and> rooms_grow d e"

lemma grows_refl [simp]: "grows d d"
  by (simp add: grows_def)

lemma growsI:
  "(\<And>i k. epoch_reached d i k \<Longrightarrow> epoch_reached e i k) \<Longrightarrow>
   (\<And>r u. is_member_id d r u \<Longrightarrow> is_member_id e r u) \<Longrightarrow>
   us_id ` set (db_users d) \<subseteq> us_id ` set (db_users e) \<Longrightarrow> rooms_grow d e \<Longrightarrow> grows d e"
  by (simp add: grows_def)

lemma growsD:
  assumes "grows d e"
  shows "epoch_reached d i k \<Longrightarrow> epoch_reached e i k" and "is_member_id d r u \<Longrightarrow> is_member_id e r u"
    and "us_id ` set (db_users d) \<subseteq> us_id ` set (db_users e)" and "rooms_grow d e"
  using assms by (simp_all add: grows_def)

lemma grows_trans [trans]:
  assumes "grows d e" and "grows e f"
  shows "grows d f"
proof (rule growsI)
  show "us_id ` set (db_users d) \<subseteq> us_id ` set (db_users f)"
    using growsD(3)[OF assms(1)] growsD(3)[OF assms(2)] by (rule subset_trans)
  show "rooms_grow d f"
    using growsD(4)[OF assms(1)] growsD(4)[OF assms(2)] by (rule rooms_grow_trans)
qed (simp_all add: growsD(1,2)[OF assms(1)] growsD(1,2)[OF assms(2)])

lemma epoch_reached_iff: "epoch_reached d i k \<longleftrightarrow> (\<exists>r \<in> set (db_rooms d). ro_id r = i \<and> k \<le> ro_currentKeyId r)"
  by (auto simp: epoch_reached_def list_ex_iff)

lemma epoch_reachedI:
  "r \<in> set (db_rooms d) \<Longrightarrow> ro_id r = i \<Longrightarrow> k \<le> ro_currentKeyId r \<Longrightarrow> epoch_reached d i k"
  by (auto simp: epoch_reached_iff)

section \<open>Every write keeps the integrity of the database\<close>

lemma tables_independent [db_simps]:
  "epoch_reached (d\<lparr>db_users := us\<rparr>) = epoch_reached d"
  "epoch_reached (d\<lparr>db_members := ms\<rparr>) = epoch_reached d"
  "epoch_reached (d\<lparr>db_grants := gs\<rparr>) = epoch_reached d"
  "is_member_id (d\<lparr>db_users := us\<rparr>) = is_member_id d"
  "is_member_id (d\<lparr>db_rooms := rs\<rparr>) = is_member_id d"
  "is_member_id (d\<lparr>db_grants := gs\<rparr>) = is_member_id d"
  by (simp_all add: epoch_reached_def[abs_def] is_member_id_def[abs_def])

lemmas inv_defs = db_inv_def keys_unique_def references_ok_def grants_ok_def grows_def

lemma create_user_inv:
  assumes "db_inv d" and "create_user u d = Inr e"
  shows "db_inv e \<and> grows d e"
proof -
  from assms(2) have e: "e = d\<lparr>db_users := db_users d @ [u]\<rparr>"
    and "us_id u \<notin> us_id ` set (db_users d)" "us_email u \<notin> us_email ` set (db_users d)"
      "us_username u \<notin> us_username ` set (db_users d)"
    by (auto simp: create_user_def list_ex_iff split: if_splits)
  with assms(1) show ?thesis
    unfolding e by (simp add: inv_defs db_simps subset_insertI rooms_grow_same)
qed

lemma create_room_inv:
  assumes "db_inv d" and "create_room i n d = Inr (r, e)"
  shows "db_inv e \<and> grows d e \<and> r \<in> set (db_rooms e) \<and> ro_id r = i \<and> ro_name r = n \<and> ro_currentKeyId r = 0"
proof -
  from assms(2) have r: "r = \<lparr>ro_id = i, ro_name = n, ro_yjsState = None, ro_currentKeyId = 0\<rparr>"
    and e: "e = d\<lparr>db_rooms := db_rooms d @ [r]\<rparr>"
    and new: "i \<notin> ro_id ` set (db_rooms d)" "n \<notin> ro_name ` set (db_rooms d)"
    by (auto simp: create_room_def list_ex_iff Let_def split: if_splits)
  have reached: "epoch_reached d j k \<Longrightarrow> epoch_reached e j k" for j k
    by (simp add: e epoch_reached_def)
  show ?thesis
    using assms(1) new reached r rooms_grow_append[of d "[r]"]
    by (simp add: e inv_defs db_simps)
qed

lemma upsert_room_inv:
  assumes "db_inv d" and "upsert_room i n d = Inr (r, e)"
  shows "db_inv e \<and> grows d e \<and> r \<in> set (db_rooms e) \<and> ro_name r = n"
  using assms create_room_inv[of d i n r e] room_by_name_Some[of d n]
  by (auto simp: upsert_room_def split: option.splits)

lemma map_rooms_inv:
  assumes "db_inv d" and "\<And>r. ro_id (f r) = ro_id r" and "\<And>r. ro_name (f r) = ro_name r"
    and "\<And>r. ro_currentKeyId r \<le> ro_currentKeyId (f r)"
  shows "db_inv (d\<lparr>db_rooms := map f (db_rooms d)\<rparr>) \<and> grows d (d\<lparr>db_rooms := map f (db_rooms d)\<rparr>)"
proof -
  have reached: "epoch_reached d i k \<Longrightarrow> epoch_reached (d\<lparr>db_rooms := map f (db_rooms d)\<rparr>) i k" for i k
    using assms(2,4) by (auto simp: epoch_reached_iff intro: order_trans)
  have comp: "ro_id \<circ> f = ro_id" "ro_name \<circ> f = ro_name"
    using assms(2,3) by auto
  have ids: "map ro_id (map f (db_rooms d)) = map ro_id (db_rooms d)"
    "map ro_name (map f (db_rooms d)) = map ro_name (db_rooms d)"
    "ro_id ` f ` set (db_rooms d) = ro_id ` set (db_rooms d)"
    by (simp_all add: image_comp comp)
  show ?thesis
    using assms(1) reached ids(3) rooms_grow_map[of f d] assms(2-4)
    by (simp add: inv_defs db_simps comp)
qed

lemma map_grants_inv:
  assumes "db_inv d" and "\<And>g. gr_roomId (f g) = gr_roomId g" "\<And>g. gr_userId (f g) = gr_userId g"
    and "\<And>g. gr_keyId (f g) = gr_keyId g"
  shows "db_inv (d\<lparr>db_grants := map f (db_grants d)\<rparr>) \<and> grows d (d\<lparr>db_grants := map f (db_grants d)\<rparr>)"
proof -
  have comp: "grant_key \<circ> f = grant_key"
    using assms(2-4) by (auto simp: grant_key_def)
  show ?thesis
    using assms by (simp add: inv_defs db_simps comp rooms_grow_same)
qed

lemma map_users_inv:
  assumes "db_inv d" and "\<And>u. us_id (f u) = us_id u" "\<And>u. us_email (f u) = us_email u"
    and "\<And>u. us_username (f u) = us_username u"
  shows "db_inv (d\<lparr>db_users := map f (db_users d)\<rparr>) \<and> grows d (d\<lparr>db_users := map f (db_users d)\<rparr>)"
proof -
  have comp: "us_id \<circ> f = us_id" "us_email \<circ> f = us_email" "us_username \<circ> f = us_username"
    using assms(2-4) by auto
  then have "us_id ` f ` set (db_users d) = us_id ` set (db_users d)"
    by (simp add: image_comp)
  with assms(1) show ?thesis by (simp add: inv_defs db_simps comp rooms_grow_same)
qed

lemma update_room_state_inv:
  "db_inv d \<Longrightarrow> update_room_state n b d = Inr e \<Longrightarrow> db_inv e \<and> grows d e"
  using map_rooms_inv[of d "\<lambda>r. if ro_name r = n then r\<lparr>ro_yjsState := Some b\<rparr> else r"]
  by (auto simp: update_room_state_def split: if_splits)

lemma increment_epoch_inv:
  "db_inv d \<Longrightarrow> increment_epoch i k d = (c, e) \<Longrightarrow> db_inv e \<and> grows d e"
  using map_rooms_inv[of d "\<lambda>r. if ro_id r = i \<and> ro_currentKeyId r = k
      then r\<lparr>ro_currentKeyId := ro_currentKeyId r + 1\<rparr> else r"]
  by (auto simp: increment_epoch_def)

lemma create_member_inv:
  assumes "db_inv d" and "create_member m d = Inr e"
  shows "db_inv e \<and> grows d e"
proof -
  from assms(2) have e: "e = d\<lparr>db_members := db_members d @ [m]\<rparr>"
    and ok: "\<not> is_member_id d (mb_roomId m) (mb_userId m)" "mb_roomId m \<in> ro_id ` set (db_rooms d)"
      "mb_userId m \<in> us_id ` set (db_users d)"
    using find_member_iff[of d "mb_roomId m" "mb_userId m"]
    by (auto simp: create_member_def room_by_id_None user_by_id_None split: if_splits)
  show ?thesis
    using assms(1) ok unfolding e
    by (auto simp: inv_defs db_simps is_member_id_def intro: rooms_grow_same)
qed

lemma upsert_grant_inv:
  assumes "db_inv d" and "upsert_grant g d = Inr e"
    and "1 \<le> gr_keyId g" "epoch_reached d (gr_roomId g) (gr_keyId g)" "is_member_id d (gr_roomId g) (gr_userId g)"
  shows "db_inv e \<and> grows d e"
proof (cases "list_ex (\<lambda>h. grant_key h = grant_key g) (db_grants d)")
  case True
  then show ?thesis
    using assms(1,2) map_grants_inv[of d "\<lambda>h. if grant_key h = grant_key g
      then h\<lparr>gr_wrappedKey := gr_wrappedKey g, gr_recipientKeyFp := gr_recipientKeyFp g\<rparr> else h"]
    by (auto simp: upsert_grant_def)
next
  case False
  then have e: "e = d\<lparr>db_grants := db_grants d @ [g]\<rparr>"
    using assms(2) by (auto simp: upsert_grant_def split: if_splits)
  have "grant_key g \<notin> grant_key ` set (db_grants d)"
    using False by (auto simp: list_ex_iff)
  then show ?thesis
    using assms(1,3-5) unfolding e
    by (simp add: inv_defs db_simps rooms_grow_same)
qed

lemma delete_grants_inv: "db_inv d \<Longrightarrow> db_inv (delete_grants_of_user u d) \<and> grows d (delete_grants_of_user u d)"
  by (simp add: delete_grants_of_user_def inv_defs db_simps distinct_map_filter rooms_grow_same)

lemma update_user_key_inv:
  "db_inv d \<Longrightarrow> update_user_key u pk fp d = Inr e \<Longrightarrow> db_inv e \<and> grows d e"
  using map_users_inv[of d "\<lambda>v. if us_id v = u
    then v\<lparr>us_publicKey := Some pk, us_publicKeyFp := Some fp\<rparr> else v"]
  by (auto simp: update_user_key_def split: if_splits)

end
