(* ===== verification/Rooms_Service.thy ===== *)
theory Rooms_Service
  imports Database
begin

text \<open>
  \<open>rooms/rooms.service.ts\<close>: listing, creating and joining rooms, and the membership test of the
  gateway. A service call is a function of the database; ids that Prisma generates are inputs.
\<close>

datatype service_error = NotFound | Forbidden | Conflict | Unauthorized | DbFailure db_error

record room_summary =
  sm_id :: jstr
  sm_name :: jstr
  sm_role :: jstr
  sm_currentKeyId :: nat

definition default_room :: jstr where "default_room = js ''default''"
definition role_member :: jstr where "role_member = js ''member''"
definition role_admin :: jstr where "role_admin = js ''admin''"

definition db_result :: "db_error + 'a \<Rightarrow> service_error + 'a" where
  "db_result r = (case r of Inl e \<Rightarrow> Inl (DbFailure e) | Inr x \<Rightarrow> Inr x)"

lemma db_result_Inr [simp]: "db_result r = Inr x \<longleftrightarrow> r = Inr x"
  by (simp add: db_result_def split: sum.split)

section \<open>Operations\<close>

definition summary_of :: "room_row \<Rightarrow> jstr \<Rightarrow> room_summary" where
  "summary_of r role = \<lparr>sm_id = ro_id r, sm_name = ro_name r, sm_role = role, sm_currentKeyId = ro_currentKeyId r\<rparr>"

definition list_for_user :: "db \<Rightarrow> jstr \<Rightarrow> room_summary list" where
  "list_for_user d userId =
     (let memberships = filter (\<lambda>m. mb_userId m = userId) (db_members d);
          rooms = List.map_filter (\<lambda>m. map_option (\<lambda>r. summary_of r (mb_role m)) (room_by_id d (mb_roomId m))) memberships
      in if list_ex (\<lambda>r. sm_name r = default_room) rooms then rooms
         else rooms @ [\<lparr>sm_id = default_room, sm_name = default_room, sm_role = role_member, sm_currentKeyId = 0\<rparr>])"

text \<open>
  \<open>create\<close>: two writes without a transaction. When the second fails the call fails, but the room of
  the first stays.
\<close>

definition rooms_create :: "jstr \<Rightarrow> jstr \<Rightarrow> jstr \<Rightarrow> db \<Rightarrow> (service_error + room_summary) \<times> db" where
  "rooms_create fresh name userId d =
     (if room_by_name d name \<noteq> None then (Inl Conflict, d)
      else (case create_room fresh name d of
          Inl e \<Rightarrow> (Inl (DbFailure e), d)
        | Inr (room, d) \<Rightarrow> (case create_member
              \<lparr>mb_roomId = ro_id room, mb_userId = userId, mb_role = role_admin\<rparr> d of
            Inl e \<Rightarrow> (Inl (DbFailure e), d)
          | Inr d \<Rightarrow> (Inr (summary_of room role_admin), d))))"

definition rooms_join :: "jstr \<Rightarrow> jstr \<Rightarrow> db \<Rightarrow> service_error + room_summary \<times> db" where
  "rooms_join roomName userId d =
     (case room_by_name d roomName of
        None \<Rightarrow> Inl NotFound
      | Some room \<Rightarrow>
          (case find_member d (ro_id room) userId of
             Some existing \<Rightarrow> Inr (summary_of room (mb_role existing), d)
           | None \<Rightarrow> bind_result (db_result (create_member
                 \<lparr>mb_roomId = ro_id room, mb_userId = userId, mb_role = role_member\<rparr> d)) (\<lambda>d.
               Inr (summary_of room role_member, d))))"

text \<open>\<open>roomMember.findFirst\<close> through the relation: a membership whose room has the name.\<close>

definition is_member :: "db \<Rightarrow> jstr \<Rightarrow> jstr \<Rightarrow> bool" where
  "is_member d roomName userId =
     list_ex (\<lambda>m. mb_userId m = userId
       \<and> (case room_by_id d (mb_roomId m) of None \<Rightarrow> False | Some r \<Rightarrow> ro_name r = roomName)) (db_members d)"

section \<open>Lemmas\<close>

lemma room_by_id_unique:
  assumes "keys_unique d" and "r \<in> set (db_rooms d)"
  shows "room_by_id d (ro_id r) = Some r"
proof -
  obtain s where s: "room_by_id d (ro_id r) = Some s"
    using assms(2) room_by_id_None[of d "ro_id r"] by fastforce
  then have "s \<in> set (db_rooms d)" "ro_id s = ro_id r"
    using room_by_id_Some by blast+
  with assms have "s = r"
    by (auto simp: keys_unique_def distinct_map inj_on_def)
  with s show ?thesis by simp
qed

lemma room_by_name_unique:
  assumes "keys_unique d" and "r \<in> set (db_rooms d)"
  shows "room_by_name d (ro_name r) = Some r"
proof -
  obtain s where s: "room_by_name d (ro_name r) = Some s"
    using assms(2) room_by_name_None[of d "ro_name r"] by fastforce
  then have "s \<in> set (db_rooms d)" "ro_name s = ro_name r"
    using room_by_name_Some by blast+
  with assms have "s = r"
    by (auto simp: keys_unique_def distinct_map inj_on_def)
  with s show ?thesis by simp
qed

text \<open>With unique keys, membership by name is membership in the one room of that name.\<close>

lemma is_member_by_id:
  assumes "keys_unique d" and "room_by_name d name = Some r"
  shows "is_member d name u \<longleftrightarrow> is_member_id d (ro_id r) u"
proof -
  have r: "r \<in> set (db_rooms d)" "ro_name r = name"
    using room_by_name_Some[OF assms(2)] by blast+
  have "(case room_by_id d i of None \<Rightarrow> False | Some s \<Rightarrow> ro_name s = name) \<longleftrightarrow> i = ro_id r" for i
  proof
    assume "case room_by_id d i of None \<Rightarrow> False | Some s \<Rightarrow> ro_name s = name"
    then obtain s where "room_by_id d i = Some s" "ro_name s = name"
      by (auto split: option.splits)
    with assms r room_by_id_Some[of d i s] show "i = ro_id r"
      using room_by_name_unique[OF assms(1), of s] by auto
  qed (simp add: room_by_id_unique[OF assms(1) r(1)] r(2))
  then have "is_member d name u \<longleftrightarrow> (\<exists>m \<in> set (db_members d). mb_userId m = u \<and> mb_roomId m = ro_id r)"
    by (simp add: is_member_def list_ex_iff)
  then show ?thesis
    by (force simp: is_member_id_def)
qed

lemma rooms_create_Inr:
  "rooms_create i n u d = (Inr s, e) \<longleftrightarrow> room_by_name d n = None \<and> (\<exists>r f. create_room i n d = Inr (r, f)
     \<and> create_member \<lparr>mb_roomId = ro_id r, mb_userId = u, mb_role = role_admin\<rparr> f = Inr e \<and> s = summary_of r role_admin)"
  by (auto simp: rooms_create_def split: sum.splits)

lemma rooms_create_Inl:
  "rooms_create i n u d = (Inl err, e) \<Longrightarrow> e = d \<or> (\<exists>r. create_room i n d = Inr (r, e))"
  by (auto simp: rooms_create_def split: sum.splits if_splits)

lemma rooms_create_inv:
  assumes "db_inv d" and "rooms_create i n u d = (res, e)"
  shows "db_inv e \<and> grows d e"
proof (cases res)
  case (Inl err)
  with rooms_create_Inl[of i n u d err e] assms create_room_inv[OF assms(1), of i n] show ?thesis by auto
next
  case (Inr s)
  with assms(2) obtain r f where f: "create_room i n d = Inr (r, f)"
    and e: "create_member \<lparr>mb_roomId = ro_id r, mb_userId = u, mb_role = role_admin\<rparr> f = Inr e"
    by (auto simp: rooms_create_Inr)
  from create_room_inv[OF assms(1) f] create_member_inv[OF _ e] grows_trans[of d f e]
  show ?thesis by simp
qed

lemma rooms_join_inv:
  assumes "db_inv d" and "rooms_join n u d = Inr (s, e)"
  shows "db_inv e \<and> grows d e"
  using assms create_member_inv[OF assms(1), of _ e]
  by (auto simp: rooms_join_def bind_result_Inr split: option.splits)

section \<open>Properties\<close>

text \<open>Creating a room that succeeds makes its name belong to one room at epoch 0 of which the
  creator is the admin and so a member; joining by that name makes any user a member and a second
  join returns the same summary without another row.\<close>

theorem create_then_join:
  assumes "db_inv d" and "rooms_create i n u d = (Inr s, e)" and "rooms_join n v e = Inr (t, f)"
  shows "is_member e n u \<and> is_member f n u \<and> is_member f n v
    \<and> sm_role s = role_admin \<and> sm_currentKeyId s = 0 \<and> sm_id t = sm_id s
    \<and> rooms_join n v f = Inr (t, f)
    \<and> rooms_create i' n v e = (Inl Conflict, e)"
proof -
  have inv: "db_inv e" "grows d e" "db_inv f" "grows e f"
    using rooms_create_inv[OF assms(1,2)] rooms_join_inv[OF _ assms(3)] by blast+
  from assms(2) obtain r d1 where d1: "create_room i n d = Inr (r, d1)"
    and m: "create_member \<lparr>mb_roomId = ro_id r, mb_userId = u, mb_role = role_admin\<rparr> d1 = Inr e"
    and s: "s = summary_of r role_admin"
    by (auto simp: rooms_create_Inr)
  have rooms: "db_rooms e = db_rooms d1"
    using m by (auto simp: create_member_def split: if_splits)
  have r: "r \<in> set (db_rooms e)" "ro_name r = n" "ro_currentKeyId r = 0"
    using create_room_inv[OF assms(1) d1] rooms by auto
  then have by_name: "room_by_name e n = Some r"
    using room_by_name_unique[of e r] inv(1) by (simp add: db_inv_def)
  have mem_e: "is_member_id e (ro_id r) u"
    using m by (auto simp: create_member_def is_member_id_def split: if_splits)
  have frooms: "db_rooms f = db_rooms e"
    using assms(3) by (auto simp: rooms_join_def create_member_def bind_result_Inr
        split: option.splits if_splits)
  then have by_name_f: "room_by_name f n = Some r"
    using by_name by (simp add: room_by_name_def)
  have join: "is_member_id f (ro_id r) v \<and> sm_id t = ro_id r
      \<and> (\<exists>x. find_member f (ro_id r) v = Some x \<and> t = summary_of r (mb_role x))"
  proof (cases "find_member e (ro_id r) v")
    case (Some x)
    then have "is_member_id e (ro_id r) v"
      using find_member_iff[of e "ro_id r" v] by simp
    with Some assms(3) by_name show ?thesis by (auto simp: rooms_join_def summary_of_def)
  next
    case None
    with assms(3) by_name have "create_member \<lparr>mb_roomId = ro_id r, mb_userId = v, mb_role = role_member\<rparr> e = Inr f"
      and "t = summary_of r role_member"
      by (auto simp: rooms_join_def bind_result_Inr)
    with None show ?thesis
      by (auto simp: create_member_def is_member_id_def find_member_def summary_of_def find_append_list split: if_splits)
  qed
  have "is_member e n u" "is_member f n u" "is_member f n v"
    using is_member_by_id[OF _ by_name] is_member_by_id[OF _ by_name_f] inv mem_e join
    by (auto simp: db_inv_def grows_def)
  moreover have "rooms_join n v f = Inr (t, f)"
    using join by_name_f by (auto simp: rooms_join_def)
  ultimately show ?thesis
    using s r join by_name by (auto simp: summary_of_def rooms_create_def)
qed

text \<open>
  The two writes of \<open>create\<close> are no transaction: when the member row cannot be written the caller gets
  an error, and the name is taken by a room without members, which nobody can administer and which
  no later call can create again.
\<close>

theorem failed_create_strands_the_name:
  assumes "db_inv d" and "user_by_id d u = None" and "room_by_name d n = None" and "room_by_id d i = None"
  shows "\<exists>e. rooms_create i n u d = (Inl (DbFailure ForeignKeyViolation), e)
    \<and> room_by_name e n \<noteq> None \<and> members_of e i = [] \<and> (\<forall>j v. rooms_create j n v e = (Inl Conflict, e))"
proof -
  let ?r = "\<lparr>ro_id = i, ro_name = n, ro_yjsState = None, ro_currentKeyId = 0\<rparr>"
  let ?e = "d\<lparr>db_rooms := db_rooms d @ [?r]\<rparr>"
  have c: "create_room i n d = Inr (?r, ?e)"
    using assms(3,4) by (auto simp: create_room_def room_by_name_None room_by_id_None list_ex_iff Let_def)
  have none: "mb_roomId m \<noteq> i" if "m \<in> set (db_members d)" for m
    using assms(1,4) that by (auto simp: db_inv_def references_ok_def room_by_id_None)
  then have "find_member ?e i u = None" "members_of ?e i = []"
    by (auto simp: find_member_def find_None_iff members_of_def filter_empty_conv)
  moreover have "user_by_id ?e u = None" using assms(2) by (simp add: user_by_id_def)
  moreover have named: "room_by_name ?e n \<noteq> None" by (auto simp: room_by_name_None)
  ultimately show ?thesis
    using assms(3) by (auto simp: rooms_create_def c create_member_def)
qed

section \<open>Witness\<close>

definition sample_user :: "jstr \<Rightarrow> jstr option \<Rightarrow> jstr option \<Rightarrow> user_row" where
  "sample_user u pk fp = \<lparr>us_id = u, us_email = u, us_username = u, us_password = [],
     us_publicKey = pk, us_publicKeyFp = fp\<rparr>"

definition sample_db :: db where
  "sample_db = empty_db\<lparr>db_users := [sample_user (js ''u'') (Some (js ''pu'')) (Some (js ''fu'')),
     sample_user (js ''v'') (Some (js ''pv'')) (Some (js ''fv''))]\<rparr>"

lemma sample_db_inv [simp]: "db_inv sample_db"
  by (simp add: sample_db_def sample_user_def empty_db_def inv_defs)

lemma create_then_join_witness:
  "case rooms_create (js ''1'') (js ''team'') (js ''u'') sample_db of (Inl _, _) \<Rightarrow> False
   | (Inr s, e) \<Rightarrow> (case rooms_join (js ''team'') (js ''v'') e of Inl _ \<Rightarrow> False
       | Inr (t, f) \<Rightarrow> is_member f (js ''team'') (js ''u'') \<and> is_member f (js ''team'') (js ''v''))"
proof -
  have "case rooms_create (js ''1'') (js ''team'') (js ''u'') sample_db of (Inl _, _) \<Rightarrow> False
   | (Inr s, e) \<Rightarrow> succeeds (rooms_join (js ''team'') (js ''v'') e)"
    by code_simp
  then obtain s e t f where r: "rooms_create (js ''1'') (js ''team'') (js ''u'') sample_db = (Inr s, e)"
    "rooms_join (js ''team'') (js ''v'') e = Inr (t, f)"
    by (cases "rooms_create (js ''1'') (js ''team'') (js ''u'') sample_db"; cases "fst (rooms_create (js ''1'') (js ''team'') (js ''u'') sample_db)")
      (auto simp: succeeds_iff)
  with create_then_join[OF sample_db_inv r] show ?thesis by simp
qed

lemma failed_create_strands_the_name_witness:
  "room_by_name (snd (rooms_create (js ''1'') (js ''team'') (js ''gone'') sample_db)) (js ''team'') \<noteq> None"
proof -
  have "Option.is_none (user_by_id sample_db (js ''gone'')) \<and> Option.is_none (room_by_name sample_db (js ''team''))
    \<and> Option.is_none (room_by_id sample_db (js ''1''))"
    by code_simp
  then have "user_by_id sample_db (js ''gone'') = None" "room_by_name sample_db (js ''team'') = None"
    "room_by_id sample_db (js ''1'') = None"
    by (auto simp: Option.is_none_def)
  from failed_create_strands_the_name[OF sample_db_inv this] show ?thesis by auto
qed

end
