(* ===== verification/Gateway.thy ===== *)
theory Gateway
  imports Yjs Metrics Update_Gate Base64 Rooms_Service
begin

text \<open>
  \<open>apps/server/src/sync/sync.gateway.ts\<close> and \<open>room-state.ts\<close>: one server instance. \<open>RoomState\<close>
  objects live in a heap, because timers and listeners capture them by reference and outlive their
  entry in the \<open>rooms\<close> map; sockets are numbered. An async method is cut where it awaits: each
  query executes as a step of its own and its continuation is a later step, so every interleaving
  of handlers, timers, Redis messages and database writes is a sequence of steps. An operation
  returns the new state and the effects in order.
\<close>

section \<open>State\<close>

text \<open>The promise of \<open>loadRoomState\<close>, from its first query to the handlers being registered.\<close>

datatype load_state =
    Finding
  | Found "room_row option"
  | Upserting
  | Upserted "db_error + room_row"
  | Ready
  | Failed

record ('d, 'a) room_state =
  rs_roomId :: jstr
  rs_doc :: 'd
  rs_awareness :: 'a
  rs_clients :: "nat list"
  rs_dbId :: "jstr option"
  rs_currentKeyId :: nat
  rs_load :: load_state
  rs_destroyed :: bool

record rate_state =
  rt_count :: nat
  rt_windowStart :: nat

record rejection_state =
  rj_signature :: jstr
  rj_repeats :: nat
  rj_timer :: "nat option"
  rj_room :: nat

text \<open>A suspended \<open>handleConnection\<close>: in the membership query, after it, or awaiting the room.\<close>

datatype conn_phase =
    CheckingMember jstr jstr
  | MemberKnown jstr bool
  | AwaitingRoom jstr nat

text \<open>
  The fields of the gateway, then what belongs to its environment: the sockets' \<open>readyState\<close>, the
  listener each socket has for messages (the room its closure captured), the suspended
  connections, armed garbage-collection timers (name and room their closure captured), state
  writes in flight, and the database. \<open>gw_user\<close> records the \<open>userId\<close> each \<open>handleConnection\<close>
  verified; no operation reads it.
\<close>

record ('d, 'a) gateway =
  gw_heap :: "nat \<Rightarrow> ('d, 'a) room_state option"
  gw_next :: nat
  gw_rooms :: "(jstr \<times> nat) list"
  gw_roomInitMap :: "(jstr \<times> nat) list"
  gw_clientRoom :: "(nat \<times> jstr) list"
  gw_persistTimers :: "(jstr \<times> nat) list"
  gw_clientRate :: "nat \<Rightarrow> rate_state option"
  gw_lastRejection :: "nat \<Rightarrow> rejection_state option"
  gw_awarenessIds :: "nat \<Rightarrow> nat list option"
  gw_alive :: "nat \<Rightarrow> bool option"
  gw_epochByDbId :: "jstr \<Rightarrow> nat option"
  gw_metrics :: metrics
  gw_socket :: "nat \<Rightarrow> ready_state option"
  gw_listening :: "nat \<Rightarrow> nat option"
  gw_conn :: "nat \<Rightarrow> conn_phase option"
  gw_user :: "nat \<Rightarrow> jstr option"
  gw_gcTimers :: "(jstr \<times> nat) list"
  gw_writes :: "(jstr \<times> bytes) list"
  gw_db :: db

text \<open>
  The libraries: Yjs, lib0, awareness, \<open>Y.decodeUpdate\<close> as the structs it returns, SHA-256 in hex,
  the token verifier (the \<open>sub\<close> claim), and this instance's random id.
\<close>

record ('d, 'a) gateway_env =
  ge_yjs :: "'d yjs"
  ge_lib :: "'d lib0"
  ge_aw :: "'a awareness"
  ge_decode :: "bytes \<Rightarrow> ystruct list option"
  ge_sha256 :: "bytes \<Rightarrow> jstr"
  ge_jwt :: "jstr \<Rightarrow> jstr option"
  ge_instanceId :: jstr

datatype gateway_effect =
    SendTo nat bytes
  | CloseClient nat nat
  | TerminateClient nat
  | PingClient nat
  | Publish jstr jstr

definition room_gc_delay_ms :: nat where "room_gc_delay_ms = 30000"
definition gw_persist_debounce_ms :: nat where "gw_persist_debounce_ms = 5000"
definition max_ws_message_bytes :: nat where "max_ws_message_bytes = 64 * 1024"
definition rate_limit_window_ms :: nat where "rate_limit_window_ms = 1000"
definition rate_limit_max_msgs :: nat where "rate_limit_max_msgs = 60"
definition reject_resync_base_ms :: nat where "reject_resync_base_ms = 1000"
definition reject_resync_max_ms :: nat where "reject_resync_max_ms = 30000"

definition update_channel_prefix :: jstr where "update_channel_prefix = js ''room:update:''"
definition awareness_channel_prefix :: jstr where "awareness_channel_prefix = js ''room:awareness:''"
definition epoch_channel_prefix :: jstr where "epoch_channel_prefix = js ''room:epoch:''"

type_synonym ('d, 'a) g_outcome = "('d, 'a) gateway \<times> gateway_effect list"

definition empty_gateway :: "db \<Rightarrow> ('d, 'a) gateway" where
  "empty_gateway d = \<lparr>gw_heap = (\<lambda>_. None), gw_next = 0, gw_rooms = [], gw_roomInitMap = [],
     gw_clientRoom = [], gw_persistTimers = [], gw_clientRate = (\<lambda>_. None),
     gw_lastRejection = (\<lambda>_. None), gw_awarenessIds = (\<lambda>_. None), gw_alive = (\<lambda>_. None),
     gw_epochByDbId = (\<lambda>_. None), gw_metrics = no_metrics, gw_socket = (\<lambda>_. None),
     gw_listening = (\<lambda>_. None), gw_conn = (\<lambda>_. None), gw_user = (\<lambda>_. None), gw_gcTimers = [],
     gw_writes = [], gw_db = d\<rparr>"

text \<open>Reading and writing a room, and the metrics, through the heap.\<close>

definition room_at :: "('d, 'a) gateway \<Rightarrow> nat \<Rightarrow> ('d, 'a) room_state" where
  "room_at g r = the (gw_heap g r)"

definition set_room :: "nat \<Rightarrow> ('d, 'a) room_state \<Rightarrow> ('d, 'a) gateway \<Rightarrow> ('d, 'a) gateway" where
  "set_room r s g = g\<lparr>gw_heap := (gw_heap g)(r \<mapsto> s)\<rparr>"

definition count_metric :: "(metrics \<Rightarrow> metrics) \<Rightarrow> ('d, 'a) gateway \<Rightarrow> ('d, 'a) gateway" where
  "count_metric f g = g\<lparr>gw_metrics := f (gw_metrics g)\<rparr>"

definition is_open :: "('d, 'a) gateway \<Rightarrow> nat \<Rightarrow> bool" where
  "is_open g c \<longleftrightarrow> gw_socket g c = Some Open"

section \<open>Frames and payloads\<close>

definition sync_frame :: "'d lib0 \<Rightarrow> bytes \<Rightarrow> bytes" where
  "sync_frame L body = l_put_uint L msg_sync @ body"

definition awareness_frame :: "'d lib0 \<Rightarrow> bytes \<Rightarrow> bytes" where
  "awareness_frame L u = l_put_uint L msg_awareness @ l_put_bytes L u"

definition encode_room_epoch :: "'d lib0 \<Rightarrow> nat \<Rightarrow> bytes" where
  "encode_room_epoch L keyId = l_put_uint L msg_room_epoch @ l_put_uint L keyId"

definition encode_e2ee_rejected :: "'d lib0 \<Rightarrow> nat \<Rightarrow> jstr list \<Rightarrow> bytes" where
  "encode_e2ee_rejected L keyId ids = l_put_uint L msg_e2ee_rejected @ l_put_uint L keyId
     @ l_put_uint L (length ids) @ concat (map (l_put_string L) ids)"

definition redis_payload :: "jstr \<Rightarrow> bytes \<Rightarrow> jstr" where
  "redis_payload origin u = json_stringify (JObj [(js ''origin'', JStr origin), (js ''update'', JStr (uint8_to_base64 u))])"

definition epoch_payload :: "jstr \<Rightarrow> nat \<Rightarrow> jstr" where
  "epoch_payload origin keyId = json_stringify (JObj [(js ''origin'', JStr origin), (js ''keyId'', JNum (dec_of_int (int keyId)))])"

section \<open>Propagation: the document and awareness handlers\<close>

datatype origin = FromClient nat | FromRedis

definition schedule_persist :: "nat \<Rightarrow> ('d, 'a) gateway \<Rightarrow> ('d, 'a) gateway" where
  "schedule_persist r g = g\<lparr>gw_persistTimers := AList.update (rs_roomId (room_at g r)) r (gw_persistTimers g)\<rparr>"

text \<open>Every open client of the room but the origin, in the order they joined.\<close>

definition fan_out :: "('d, 'a) gateway \<Rightarrow> nat \<Rightarrow> origin \<Rightarrow> bytes \<Rightarrow> gateway_effect list" where
  "fan_out g r org frame = map (\<lambda>c. SendTo c frame)
     (filter (\<lambda>c. org \<noteq> FromClient c \<and> is_open g c) (rs_clients (room_at g r)))"

definition on_room_update :: "('d, 'a) gateway_env \<Rightarrow> nat \<Rightarrow> bytes \<Rightarrow> origin \<Rightarrow> ('d, 'a) gateway \<Rightarrow> ('d, 'a) g_outcome" where
  "on_room_update E r u org g =
     (let sent = fan_out g r org (sync_frame (ge_lib E) (l_update (ge_lib E) u))
      in if org = FromRedis then (g, sent)
         else (schedule_persist r (count_metric (inc_fanout_bytes (length u) FanoutDoc) g),
               sent @ [Publish (update_channel_prefix @ rs_roomId (room_at g r)) (redis_payload (ge_instanceId E) u)]))"

text \<open>
  A transaction takes the room's document to \<open>d\<close>; its \<open>'update'\<close> event reaches the handler when
  the room is ready (handlers registered) and not destroyed.
\<close>

definition change_doc :: "('d, 'a) gateway_env \<Rightarrow> nat \<Rightarrow> 'd \<Rightarrow> origin \<Rightarrow> ('d, 'a) gateway \<Rightarrow> ('d, 'a) g_outcome" where
  "change_doc E r d org g =
     (let rs = room_at g r; g' = set_room r (rs\<lparr>rs_doc := d\<rparr>) g
      in case y_delta (ge_yjs E) (rs_doc rs) d of
           None \<Rightarrow> (g', [])
         | Some u \<Rightarrow> if rs_load rs = Ready \<and> \<not> rs_destroyed rs then on_room_update E r u org g' else (g', []))"

definition track_awareness_ids :: "nat \<Rightarrow> aw_change \<Rightarrow> ('d, 'a) gateway \<Rightarrow> ('d, 'a) gateway" where
  "track_awareness_ids c ch g = (case ch of (added, updated, removed) \<Rightarrow>
     let ids = (case gw_awarenessIds g c of None \<Rightarrow> [] | Some s \<Rightarrow> s)
     in g\<lparr>gw_awarenessIds := (gw_awarenessIds g)
          (c \<mapsto> fold set_delete removed (fold set_add updated (fold set_add added ids)))\<rparr>)"

definition on_awareness_update ::
  "('d, 'a) gateway_env \<Rightarrow> nat \<Rightarrow> aw_change \<Rightarrow> origin option \<Rightarrow> ('d, 'a) gateway \<Rightarrow> ('d, 'a) g_outcome" where
  "on_awareness_update E r ch org g = (case ch of (added, updated, removed) \<Rightarrow>
     let changed = added @ updated @ removed
     in if changed = [] then (g, [])
        else
          let g = (case org of Some (FromClient c) \<Rightarrow>
                     if c \<in> set (rs_clients (room_at g r)) then track_awareness_ids c ch g else g
                   | _ \<Rightarrow> g);
              update = aw_encode (ge_aw E) (rs_awareness (room_at g r)) changed;
              msg = awareness_frame (ge_lib E) update;
              sent = map (\<lambda>c. SendTo c msg)
                (filter (\<lambda>c. org \<noteq> Some (FromClient c) \<and> is_open g c) (rs_clients (room_at g r)))
          in if org = Some FromRedis then (g, sent)
             else (count_metric (inc_fanout_bytes (length update) FanoutAwareness) g,
                   sent @ [Publish (awareness_channel_prefix @ rs_roomId (room_at g r))
                             (redis_payload (ge_instanceId E) update)]))"

text \<open>
  A change of the room's awareness, its event delivered like the document's. The origin \<open>None\<close> is
  the string \<open>'disconnect'\<close>.
\<close>

definition change_awareness ::
  "('d, 'a) gateway_env \<Rightarrow> nat \<Rightarrow> 'a \<times> aw_change \<Rightarrow> origin option \<Rightarrow> ('d, 'a) gateway \<Rightarrow> ('d, 'a) g_outcome" where
  "change_awareness E r ac org g =
     (let rs = room_at g r; g' = set_room r (rs\<lparr>rs_awareness := fst ac\<rparr>) g
      in if rs_load rs = Ready \<and> \<not> rs_destroyed rs then on_awareness_update E r (snd ac) org g' else (g', []))"

section \<open>Epochs\<close>

fun raise_loop :: "('d, 'a) gateway_env \<Rightarrow> jstr \<Rightarrow> nat \<Rightarrow> nat list \<Rightarrow> ('d, 'a) gateway \<Rightarrow> ('d, 'a) g_outcome" where
  "raise_loop E dbId keyId [] g = (g, [])"
| "raise_loop E dbId keyId (r # rs) g =
     (let room = room_at g r
      in if rs_dbId room \<noteq> Some dbId \<or> keyId \<le> rs_currentKeyId room then raise_loop E dbId keyId rs g
         else andThen (set_room r (room\<lparr>rs_currentKeyId := keyId\<rparr>) g,
                map (\<lambda>c. SendTo c (encode_room_epoch (ge_lib E) keyId)) (rs_clients room))
              (raise_loop E dbId keyId rs))"

definition epoch_of :: "('d, 'a) gateway \<Rightarrow> jstr \<Rightarrow> nat" where
  "epoch_of g dbId = (case gw_epochByDbId g dbId of None \<Rightarrow> 0 | Some k \<Rightarrow> k)"

definition raise_epoch :: "('d, 'a) gateway_env \<Rightarrow> jstr \<Rightarrow> nat \<Rightarrow> ('d, 'a) gateway \<Rightarrow> ('d, 'a) g_outcome" where
  "raise_epoch E dbId keyId g =
     raise_loop E dbId keyId (map snd (gw_rooms g))
       (g\<lparr>gw_epochByDbId := (gw_epochByDbId g)(dbId \<mapsto> max (epoch_of g dbId) keyId)\<rparr>)"

text \<open>An epoch claimed through this instance's REST API.\<close>

definition on_epoch_advanced :: "('d, 'a) gateway_env \<Rightarrow> jstr \<Rightarrow> nat \<Rightarrow> ('d, 'a) gateway \<Rightarrow> ('d, 'a) g_outcome" where
  "on_epoch_advanced E dbId keyId g =
     andThen (raise_epoch E dbId keyId g)
       (\<lambda>g. (g, [Publish (epoch_channel_prefix @ dbId) (epoch_payload (ge_instanceId E) keyId)]))"

text \<open>
  \<open>pmessage\<close>: a payload of another instance. Epochs published by an instance are the non-negative
  integers a claim returns; \<open>raiseEpoch\<close> drops anything that is not a number.
\<close>

definition json_nat :: "json option \<Rightarrow> nat option" where
  "json_nat v = (case v of Some (JNum d) \<Rightarrow> if dec_exp d = 0 \<and> 0 \<le> dec_mant d then Some (nat (dec_mant d)) else None
     | _ \<Rightarrow> None)"

definition json_text :: "json option \<Rightarrow> jstr option" where
  "json_text v = (case v of Some (JStr s) \<Rightarrow> Some s | _ \<Rightarrow> None)"

definition pmessage :: "('d, 'a) gateway_env \<Rightarrow> jstr \<Rightarrow> jstr \<Rightarrow> ('d, 'a) gateway \<Rightarrow> ('d, 'a) g_outcome" where
  "pmessage E channel message g = (case json_parse message of
     None \<Rightarrow> (g, [])
   | Some parsed \<Rightarrow>
       if json_get parsed (js ''origin'') = Some (JStr (ge_instanceId E)) then (g, [])
       else if starts_with channel epoch_channel_prefix then
         (case json_nat (json_get parsed (js ''keyId'')) of None \<Rightarrow> (g, [])
          | Some k \<Rightarrow> raise_epoch E (drop (length epoch_channel_prefix) channel) k g)
       else if starts_with channel update_channel_prefix then
         (case (map_of (gw_rooms g) (drop (length update_channel_prefix) channel),
                json_text (json_get parsed (js ''update''))) of
            (Some r, Some b64) \<Rightarrow> (case y_apply (ge_yjs E) (base64_to_uint8 b64) (rs_doc (room_at g r)) of
                None \<Rightarrow> (g, []) | Some d \<Rightarrow> change_doc E r d FromRedis g)
          | _ \<Rightarrow> (g, []))
       else if starts_with channel awareness_channel_prefix then
         (case (map_of (gw_rooms g) (drop (length awareness_channel_prefix) channel),
                json_text (json_get parsed (js ''update''))) of
            (Some r, Some b64) \<Rightarrow> (case aw_apply (ge_aw E) (base64_to_uint8 b64) (rs_awareness (room_at g r)) of
                None \<Rightarrow> (g, []) | Some ac \<Rightarrow> change_awareness E r ac (Some FromRedis) g)
          | _ \<Rightarrow> (g, []))
       else (g, []))"

section \<open>Loading a room\<close>

definition get_or_create_room :: "('d, 'a) gateway_env \<Rightarrow> jstr \<Rightarrow> ('d, 'a) gateway \<Rightarrow> nat \<times> ('d, 'a) gateway" where
  "get_or_create_room E name g = (case map_of (gw_roomInitMap g) name of
     Some r \<Rightarrow> (r, g)
   | None \<Rightarrow>
       let r = gw_next g
       in (r, (set_room r \<lparr>rs_roomId = name, rs_doc = y_new (ge_yjs E), rs_awareness = aw_new (ge_aw E),
                 rs_clients = [], rs_dbId = None, rs_currentKeyId = 0, rs_load = Finding,
                 rs_destroyed = False\<rparr> g)
             \<lparr>gw_next := Suc r, gw_rooms := AList.update name r (gw_rooms g),
              gw_roomInitMap := AList.update name r (gw_roomInitMap g)\<rparr>))"

definition set_load :: "nat \<Rightarrow> load_state \<Rightarrow> ('d, 'a) gateway \<Rightarrow> ('d, 'a) gateway" where
  "set_load r l g = set_room r ((room_at g r)\<lparr>rs_load := l\<rparr>) g"

text \<open>The promise resolves: the gauge rises and the handlers are registered.\<close>

definition load_ready :: "nat \<Rightarrow> ('d, 'a) gateway \<Rightarrow> ('d, 'a) gateway" where
  "load_ready r g = set_load r Ready (count_metric inc_rooms_loaded g)"

text \<open>\<open>findUnique\<close> executes; then its continuation; \<open>upsert\<close> executes; then its continuation.\<close>

definition load_find :: "nat \<Rightarrow> ('d, 'a) gateway \<Rightarrow> ('d, 'a) gateway" where
  "load_find r g = set_load r (Found (room_by_name (gw_db g) (rs_roomId (room_at g r)))) g"

definition load_found :: "('d, 'a) gateway_env \<Rightarrow> nat \<Rightarrow> room_row option \<Rightarrow> ('d, 'a) gateway \<Rightarrow> ('d, 'a) gateway" where
  "load_found E r dbRoom g =
     (let g = (case dbRoom of None \<Rightarrow> g
                | Some row \<Rightarrow> set_room r ((room_at g r)\<lparr>rs_dbId := Some (ro_id row),
                    rs_currentKeyId := max (max (rs_currentKeyId (room_at g r)) (ro_currentKeyId row))
                                           (epoch_of g (ro_id row))\<rparr>) g)
      in case Option.bind dbRoom ro_yjsState of
           Some b \<Rightarrow> (case y_apply (ge_yjs E) b (rs_doc (room_at g r)) of
               None \<Rightarrow> set_load r Failed g
             | Some d \<Rightarrow> load_ready r (set_room r ((room_at g r)\<lparr>rs_doc := d\<rparr>) g))
         | None \<Rightarrow> set_load r Upserting g)"

definition load_upsert :: "jstr \<Rightarrow> nat \<Rightarrow> ('d, 'a) gateway \<Rightarrow> ('d, 'a) gateway" where
  "load_upsert fresh r g = (case upsert_room fresh (rs_roomId (room_at g r)) (gw_db g) of
     Inl e \<Rightarrow> set_load r (Upserted (Inl e)) g
   | Inr (row, d) \<Rightarrow> set_load r (Upserted (Inr row)) (g\<lparr>gw_db := d\<rparr>))"

definition load_upserted :: "nat \<Rightarrow> db_error + room_row \<Rightarrow> ('d, 'a) gateway \<Rightarrow> ('d, 'a) gateway" where
  "load_upserted r res g = (case res of
     Inl e \<Rightarrow> set_load r Failed g
   | Inr row \<Rightarrow> load_ready r (set_room r ((room_at g r)\<lparr>rs_dbId :=
       (case rs_dbId (room_at g r) of None \<Rightarrow> Some (ro_id row) | Some i \<Rightarrow> Some i)\<rparr>) g))"

section \<open>Connections\<close>

text \<open>\<open>header.split(',').map(trim)\<close>: the bearer token of the offered subprotocols.\<close>

definition bearer_token :: "jstr option \<Rightarrow> jstr" where
  "bearer_token header =
     (let offered = map trim (split_on 44 (case header of None \<Rightarrow> [] | Some h \<Rightarrow> h))
      in case offered of
           a # b # _ \<Rightarrow> if a = js ''bearer'' then b else []
         | _ \<Rightarrow> [])"

definition await_room :: "('d, 'a) gateway_env \<Rightarrow> nat \<Rightarrow> jstr \<Rightarrow> ('d, 'a) gateway \<Rightarrow> ('d, 'a) gateway" where
  "await_room E c name g = (case get_or_create_room E name g of (r, g) \<Rightarrow>
     g\<lparr>gw_conn := (gw_conn g)(c \<mapsto> AwaitingRoom name r)\<rparr>)"

definition close_client :: "nat \<Rightarrow> nat \<Rightarrow> ('d, 'a) gateway \<Rightarrow> ('d, 'a) g_outcome" where
  "close_client c code g = (g\<lparr>gw_socket := (gw_socket g)(c :=
     (case gw_socket g c of Some Open \<Rightarrow> Some Closing | s \<Rightarrow> s))\<rparr>, [CloseClient c code])"

text \<open>\<open>handleConnection\<close> up to its first await.\<close>

definition handle_connection ::
  "('d, 'a) gateway_env \<Rightarrow> nat \<Rightarrow> jstr option \<Rightarrow> jstr option \<Rightarrow> ('d, 'a) gateway \<Rightarrow> ('d, 'a) g_outcome" where
  "handle_connection E c roomParam header g0 =
     (let g = g0\<lparr>gw_socket := (gw_socket g0)(c \<mapsto> Open)\<rparr>;
          roomId = (case roomParam of None \<Rightarrow> default_room | Some r \<Rightarrow> r)
      in case ge_jwt E (bearer_token header) of
           None \<Rightarrow> close_client c 4001 g
         | Some userId \<Rightarrow>
             let g = g\<lparr>gw_user := (gw_user g)(c \<mapsto> userId)\<rparr>
             in if roomId \<noteq> default_room
                then (g\<lparr>gw_conn := (gw_conn g)(c \<mapsto> CheckingMember roomId userId)\<rparr>, [])
                else (await_room E c roomId g, []))"

definition check_member :: "nat \<Rightarrow> jstr \<Rightarrow> jstr \<Rightarrow> ('d, 'a) gateway \<Rightarrow> ('d, 'a) gateway" where
  "check_member c roomId userId g =
     g\<lparr>gw_conn := (gw_conn g)(c \<mapsto> MemberKnown roomId (is_member (gw_db g) roomId userId))\<rparr>"

definition member_known :: "('d, 'a) gateway_env \<Rightarrow> nat \<Rightarrow> jstr \<Rightarrow> bool \<Rightarrow> ('d, 'a) gateway \<Rightarrow> ('d, 'a) g_outcome" where
  "member_known E c roomId allowed g =
     (if \<not> allowed then close_client c 4003 (g\<lparr>gw_conn := (gw_conn g)(c := None)\<rparr>)
      else (await_room E c roomId g, []))"

text \<open>The rest of \<open>handleConnection\<close>, once the room's promise has resolved.\<close>

definition join_room :: "('d, 'a) gateway_env \<Rightarrow> nat \<Rightarrow> jstr \<Rightarrow> nat \<Rightarrow> ('d, 'a) gateway \<Rightarrow> ('d, 'a) g_outcome" where
  "join_room E c roomId r g =
     (let room = room_at g r;
          L = ge_lib E;
          g = set_room r (room\<lparr>rs_clients := set_add c (rs_clients room)\<rparr>) g;
          g = count_metric inc_ws_connections (g\<lparr>gw_clientRoom := AList.update c roomId (gw_clientRoom g)\<rparr>);
          g = g\<lparr>gw_alive := (gw_alive g)(c \<mapsto> True), gw_conn := (gw_conn g)(c := None),
                gw_listening := (gw_listening g)(c \<mapsto> r)\<rparr>;
          epoch = (if rs_currentKeyId room > 0 \<and> rs_roomId room \<noteq> default_room
                   then [SendTo c (encode_room_epoch L (rs_currentKeyId room))] else []);
          states = aw_ids (ge_aw E) (rs_awareness room);
          snapshot = (if states \<noteq> [] then [SendTo c (awareness_frame L (aw_encode (ge_aw E) (rs_awareness room) states))]
                      else [])
      in (g, epoch @ [SendTo c (sync_frame L (l_step1 L (rs_doc room))),
                      SendTo c (sync_frame L (l_step2 L (rs_doc room) [0]))] @ snapshot))"

text \<open>The room's promise was rejected: so is \<open>handleConnection\<close>.\<close>

definition join_failed :: "nat \<Rightarrow> ('d, 'a) gateway \<Rightarrow> ('d, 'a) gateway" where
  "join_failed c g = g\<lparr>gw_conn := (gw_conn g)(c := None)\<rparr>"

section \<open>Messages\<close>

definition is_rate_limited :: "nat \<Rightarrow> nat \<Rightarrow> ('d, 'a) gateway \<Rightarrow> bool \<times> ('d, 'a) gateway" where
  "is_rate_limited now c g = (case gw_clientRate g c of
     None \<Rightarrow> (False, g\<lparr>gw_clientRate := (gw_clientRate g)(c \<mapsto> \<lparr>rt_count = 1, rt_windowStart = now\<rparr>)\<rparr>)
   | Some s \<Rightarrow>
       if now - rt_windowStart s \<ge> rate_limit_window_ms
       then (False, g\<lparr>gw_clientRate := (gw_clientRate g)(c \<mapsto> \<lparr>rt_count = 1, rt_windowStart = now\<rparr>)\<rparr>)
       else (rt_count s + 1 > rate_limit_max_msgs,
             g\<lparr>gw_clientRate := (gw_clientRate g)(c \<mapsto> s\<lparr>rt_count := rt_count s + 1\<rparr>)\<rparr>))"

text \<open>
  The peek of the gate: \<open>Inl ()\<close> when decoding throws, \<open>Inr None\<close> to accept, otherwise the
  offending ids.
\<close>

definition plaintext_into_e2ee_room ::
  "('d, 'a) gateway_env \<Rightarrow> ('d, 'a) room_state \<Rightarrow> bytes \<Rightarrow> unit + jstr list option" where
  "plaintext_into_e2ee_room E room s =
     (if rs_currentKeyId room = 0 \<or> rs_roomId room = default_room then Inr None
      else (case l_get_uint (ge_lib E) s of
          None \<Rightarrow> Inl ()
        | Some (syncType, r) \<Rightarrow>
            if syncType \<noteq> sync_step2 \<and> syncType \<noteq> sync_update then Inr None
            else (case l_get_bytes (ge_lib E) r of
                None \<Rightarrow> Inl ()
              | Some (update, _) \<Rightarrow> (case check_enveloped_update (ge_decode E) update of
                    GateOk \<Rightarrow> Inr None
                  | GateReject ids \<Rightarrow> Inr (Some ids)))))"

definition resync_delay :: "nat \<Rightarrow> nat" where
  "resync_delay repeats = capped_backoff reject_resync_base_ms reject_resync_max_ms (repeats - 1)"

definition send_step1 :: "('d, 'a) gateway_env \<Rightarrow> nat \<Rightarrow> nat \<Rightarrow> ('d, 'a) gateway \<Rightarrow> gateway_effect list" where
  "send_step1 E c r g =
     (if is_open g c then [SendTo c (sync_frame (ge_lib E) (l_step1 (ge_lib E) (rs_doc (room_at g r))))] else [])"

definition ask_for_resync ::
  "('d, 'a) gateway_env \<Rightarrow> nat \<Rightarrow> nat \<Rightarrow> bytes \<Rightarrow> ('d, 'a) gateway \<Rightarrow> ('d, 'a) g_outcome" where
  "ask_for_resync E c r refused g =
     (let signature = ge_sha256 E refused;
          repeats = (case gw_lastRejection g c of None \<Rightarrow> 0
            | Some p \<Rightarrow> if rj_signature p = signature then rj_repeats p + 1 else 0);
          state = \<lparr>rj_signature = signature, rj_repeats = repeats,
                   rj_timer = (if repeats = 0 then None else Some (resync_delay repeats)), rj_room = r\<rparr>
      in (g\<lparr>gw_lastRejection := (gw_lastRejection g)(c \<mapsto> state)\<rparr>,
          if repeats = 0 then send_step1 E c r g else []))"

text \<open>The delayed re-ask fires.\<close>

definition resync_fire :: "('d, 'a) gateway_env \<Rightarrow> nat \<Rightarrow> rejection_state \<Rightarrow> ('d, 'a) gateway \<Rightarrow> ('d, 'a) g_outcome" where
  "resync_fire E c st g =
     (g\<lparr>gw_lastRejection := (gw_lastRejection g)(c \<mapsto> st\<lparr>rj_timer := None\<rparr>)\<rparr>, send_step1 E c (rj_room st) g)"

definition handle_sync_message ::
  "('d, 'a) gateway_env \<Rightarrow> nat \<Rightarrow> nat \<Rightarrow> bytes \<Rightarrow> bytes \<Rightarrow> ('d, 'a) gateway \<Rightarrow> ('d, 'a) g_outcome" where
  "handle_sync_message E c r data body g0 =
     (let g = count_metric (inc_messages MtSync) g0
      in case plaintext_into_e2ee_room E (room_at g r) body of
           Inl _ \<Rightarrow> (g, [])
         | Inr (Some ids) \<Rightarrow>
             andThen (count_metric inc_e2ee_rejected_updates g,
                 [SendTo c (encode_e2ee_rejected (ge_lib E) (rs_currentKeyId (room_at g r)) ids)])
               (ask_for_resync E c r data)
         | Inr None \<Rightarrow>
             (case l_read_sync (ge_lib E) body (rs_doc (room_at g r)) of
                None \<Rightarrow> (g, [])
              | Some (_, reply, d) \<Rightarrow>
                  let out = l_put_uint (ge_lib E) msg_sync @ reply
                  in andThen (change_doc E r d (FromClient c) g)
                       (\<lambda>g. (g, if 1 < length out then [SendTo c out] else []))))"

definition handle_message ::
  "('d, 'a) gateway_env \<Rightarrow> nat \<Rightarrow> nat \<Rightarrow> nat \<Rightarrow> bytes \<Rightarrow> ('d, 'a) gateway \<Rightarrow> ('d, 'a) g_outcome" where
  "handle_message E now c r data g0 =
     (if length data > max_ws_message_bytes then close_client c 1009 g0
      else (case is_rate_limited now c g0 of (limited, g) \<Rightarrow>
        if limited then close_client c 4029 g
        else (case l_get_uint (ge_lib E) data of
            None \<Rightarrow> (g, [])
          | Some (msgType, body) \<Rightarrow>
              if msgType = msg_sync then handle_sync_message E c r data body g
              else if msgType = msg_awareness then
                (let g = count_metric (inc_messages MtAwareness) g
                 in case l_get_bytes (ge_lib E) body of None \<Rightarrow> (g, [])
                    | Some (u, _) \<Rightarrow> (case aw_apply (ge_aw E) u (rs_awareness (room_at g r)) of
                          None \<Rightarrow> (g, [])
                        | Some ac \<Rightarrow> change_awareness E r ac (Some (FromClient c)) g))
              else (g, []))))"

section \<open>Leaving, garbage collection, persistence, heartbeats\<close>

definition handle_disconnect :: "('d, 'a) gateway_env \<Rightarrow> nat \<Rightarrow> ('d, 'a) gateway \<Rightarrow> ('d, 'a) g_outcome" where
  "handle_disconnect E c g0 = (case map_of (gw_clientRoom g0) c of
     None \<Rightarrow> (g0, [])
   | Some roomId \<Rightarrow>
       if roomId = [] then (g0, [])
       else
       let g = count_metric dec_ws_connections (g0\<lparr>gw_clientRoom := AList.delete c (gw_clientRoom g0)\<rparr>)
       in case map_of (gw_rooms g) roomId of
            None \<Rightarrow> (g, [])
          | Some r \<Rightarrow>
              let room = room_at g r;
                  g = set_room r (room\<lparr>rs_clients := set_delete c (rs_clients room)\<rparr>) g
              in andThen
                   (case gw_awarenessIds g c of
                      None \<Rightarrow> (g, [])
                    | Some ids \<Rightarrow>
                        if ids = [] then (g, [])
                        else andThen (change_awareness E r (aw_remove (ge_aw E) ids (rs_awareness (room_at g r))) None g)
                          (\<lambda>g. (g\<lparr>gw_awarenessIds := (gw_awarenessIds g)(c := None)\<rparr>, [])))
                   (\<lambda>g. (if rs_clients (room_at g r) = []
                         then g\<lparr>gw_gcTimers := gw_gcTimers g @ [(roomId, r)]\<rparr> else g, [])))"

text \<open>The socket's \<open>'close'\<close> event: its message listener goes, and \<open>handleDisconnect\<close> runs.\<close>

definition socket_closed :: "('d, 'a) gateway_env \<Rightarrow> nat \<Rightarrow> ('d, 'a) gateway \<Rightarrow> ('d, 'a) g_outcome" where
  "socket_closed E c g = handle_disconnect E c
     (g\<lparr>gw_socket := (gw_socket g)(c \<mapsto> Closed), gw_listening := (gw_listening g)(c := None)\<rparr>)"

text \<open>\<open>persistRoomState\<close>: encode and measure at once, then a write in flight.\<close>

definition persist_room_state :: "('d, 'a) gateway_env \<Rightarrow> nat \<Rightarrow> ('d, 'a) gateway \<Rightarrow> ('d, 'a) gateway" where
  "persist_room_state E r g =
     (let room = room_at g r; state = y_encode (ge_yjs E) (rs_doc room)
      in (count_metric (set_yjs_state_bytes (rs_roomId room) (length state)) g)
           \<lparr>gw_writes := gw_writes g @ [(rs_roomId room, state)]\<rparr>)"

definition persist_fire :: "('d, 'a) gateway_env \<Rightarrow> jstr \<Rightarrow> nat \<Rightarrow> ('d, 'a) gateway \<Rightarrow> ('d, 'a) gateway" where
  "persist_fire E name r g =
     persist_room_state E r (g\<lparr>gw_persistTimers := AList.delete name (gw_persistTimers g)\<rparr>)"

text \<open>The \<open>i\<close>-th write in flight reaches the database; a failure is logged.\<close>

definition write_lands :: "nat \<Rightarrow> ('d, 'a) gateway \<Rightarrow> ('d, 'a) gateway" where
  "write_lands i g = (case gw_writes g ! i of (name, state) \<Rightarrow>
     let g = g\<lparr>gw_writes := take i (gw_writes g) @ drop (Suc i) (gw_writes g)\<rparr>
     in case update_room_state name state (gw_db g) of
          Inl _ \<Rightarrow> g
        | Inr d \<Rightarrow> count_metric observe_persist_duration (g\<lparr>gw_db := d\<rparr>))"

text \<open>\<open>RoomState.destroy\<close>: the awareness drops its local state (with an event), then the document goes.\<close>

definition destroy_room :: "('d, 'a) gateway_env \<Rightarrow> nat \<Rightarrow> ('d, 'a) gateway \<Rightarrow> ('d, 'a) g_outcome" where
  "destroy_room E r g =
     andThen (change_awareness E r (aw_destroy (ge_aw E) (rs_awareness (room_at g r))) None g)
       (\<lambda>g. (set_room r ((room_at g r)\<lparr>rs_destroyed := True\<rparr>) g, []))"

text \<open>A garbage-collection timer fires, with the name and the room its closure captured.\<close>

definition gc_fire :: "('d, 'a) gateway_env \<Rightarrow> jstr \<Rightarrow> nat \<Rightarrow> ('d, 'a) gateway \<Rightarrow> ('d, 'a) g_outcome" where
  "gc_fire E roomId r g =
     (if rs_clients (room_at g r) \<noteq> [] then (g, [])
      else
        let g = (case map_of (gw_persistTimers g) roomId of None \<Rightarrow> g
                  | Some _ \<Rightarrow> persist_room_state E r
                      (g\<lparr>gw_persistTimers := AList.delete roomId (gw_persistTimers g)\<rparr>))
        in andThen (destroy_room E r g)
             (\<lambda>g. let g = g\<lparr>gw_rooms := AList.delete roomId (gw_rooms g),
                          gw_roomInitMap := AList.delete roomId (gw_roomInitMap g)\<rparr>
                  in (count_metric (remove_yjs_state_bytes roomId) (count_metric dec_rooms_loaded g), [])))"

definition gc_timer :: "('d, 'a) gateway_env \<Rightarrow> nat \<Rightarrow> ('d, 'a) gateway \<Rightarrow> ('d, 'a) g_outcome" where
  "gc_timer E i g = (case gw_gcTimers g ! i of (roomId, r) \<Rightarrow>
     gc_fire E roomId r (g\<lparr>gw_gcTimers := take i (gw_gcTimers g) @ drop (Suc i) (gw_gcTimers g)\<rparr>))"

definition terminate_client :: "nat \<Rightarrow> ('d, 'a) gateway \<Rightarrow> ('d, 'a) g_outcome" where
  "terminate_client c g = (g\<lparr>gw_socket := (gw_socket g)(c :=
     (case gw_socket g c of Some Open \<Rightarrow> Some Closing | s \<Rightarrow> s))\<rparr>, [TerminateClient c])"

fun sweep_loop :: "nat list \<Rightarrow> ('d, 'a) gateway \<Rightarrow> ('d, 'a) g_outcome" where
  "sweep_loop [] g = (g, [])"
| "sweep_loop (c # cs) g =
     (if gw_alive g c = Some False then andThen (terminate_client c g) (sweep_loop cs)
      else andThen (g\<lparr>gw_alive := (gw_alive g)(c \<mapsto> False)\<rparr>, [PingClient c]) (sweep_loop cs))"

definition sweep_heartbeats :: "nat list \<Rightarrow> ('d, 'a) gateway \<Rightarrow> ('d, 'a) g_outcome" where
  "sweep_heartbeats server_clients g = sweep_loop server_clients g"

definition on_pong :: "nat \<Rightarrow> ('d, 'a) gateway \<Rightarrow> ('d, 'a) gateway" where
  "on_pong c g = g\<lparr>gw_alive := (gw_alive g)(c \<mapsto> True)\<rparr>"

section \<open>Steps\<close>

text \<open>
  What can happen next. The environment connects a socket never seen before, delivers a frame to a
  socket that has a listener, answers a ping on a socket that has one (the pong listener is added
  with the message listener, on joining), closes a socket that is not closed; a query or a continuation runs
  when its handler is suspended there; a timer fires when it is armed; another process changes the
  database in the ways its services can (\<open>grows\<close>).
\<close>

datatype g_event =
    EConnect nat "jstr option" "jstr option"
  | ECheckMember nat
  | EMemberKnown nat
  | EQueryFails nat
  | ELoadFind nat
  | ELoadFails nat
  | ELoadFound nat
  | ELoadUpsert jstr nat
  | ELoadUpserted nat
  | EJoin nat
  | EMessage nat nat bytes
  | EClosed nat
  | EPong nat
  | ESweep
  | EGcTimer nat
  | EPersistTimer jstr
  | EWriteLands nat
  | EResyncTimer nat
  | ERedis jstr jstr
  | EEpochAdvanced jstr nat

text \<open>The sockets of \<open>server.clients\<close> are those not yet closed among the numbers in use.\<close>

definition server_clients :: "('d, 'a) gateway \<Rightarrow> nat list \<Rightarrow> nat list" where
  "server_clients g known = filter (\<lambda>c. gw_socket g c \<noteq> None \<and> gw_socket g c \<noteq> Some Closed) known"

definition g_step ::
  "('d, 'a) gateway_env \<Rightarrow> nat list \<Rightarrow> g_event \<Rightarrow> ('d, 'a) gateway \<Rightarrow> ('d, 'a) g_outcome option" where
  "g_step E known e g = (case e of
     EConnect c room header \<Rightarrow> if gw_socket g c = None \<and> c \<in> set known
       then Some (handle_connection E c room header g) else None
   | ECheckMember c \<Rightarrow> (case gw_conn g c of
       Some (CheckingMember roomId userId) \<Rightarrow> Some (check_member c roomId userId g, []) | _ \<Rightarrow> None)
   | EMemberKnown c \<Rightarrow> (case gw_conn g c of
       Some (MemberKnown roomId allowed) \<Rightarrow> Some (member_known E c roomId allowed g) | _ \<Rightarrow> None)
   | EQueryFails c \<Rightarrow> (case gw_conn g c of
       Some (CheckingMember roomId userId) \<Rightarrow> Some (join_failed c g, []) | _ \<Rightarrow> None)
   | ELoadFind r \<Rightarrow> (case gw_heap g r of None \<Rightarrow> None
       | Some s \<Rightarrow> if rs_load s = Finding then Some (load_find r g, []) else None)
   | ELoadFails r \<Rightarrow> (case gw_heap g r of None \<Rightarrow> None
       | Some s \<Rightarrow> if rs_load s = Finding then Some (set_load r Failed g, []) else None)
   | ELoadFound r \<Rightarrow> (case gw_heap g r of None \<Rightarrow> None
       | Some s \<Rightarrow> (case rs_load s of Found row \<Rightarrow> Some (load_found E r row g, []) | _ \<Rightarrow> None))
   | ELoadUpsert fresh r \<Rightarrow> (case gw_heap g r of None \<Rightarrow> None
       | Some s \<Rightarrow> if rs_load s = Upserting then Some (load_upsert fresh r g, []) else None)
   | ELoadUpserted r \<Rightarrow> (case gw_heap g r of None \<Rightarrow> None
       | Some s \<Rightarrow> (case rs_load s of Upserted res \<Rightarrow> Some (load_upserted r res g, []) | _ \<Rightarrow> None))
   | EJoin c \<Rightarrow> (case gw_conn g c of
       Some (AwaitingRoom roomId r) \<Rightarrow>
         (case rs_load (room_at g r) of
            Ready \<Rightarrow> Some (join_room E c roomId r g)
          | Failed \<Rightarrow> Some (join_failed c g, [])
          | _ \<Rightarrow> None)
     | _ \<Rightarrow> None)
   | EMessage now c data \<Rightarrow> (case gw_listening g c of
       Some r \<Rightarrow> Some (handle_message E now c r data g) | None \<Rightarrow> None)
   | EClosed c \<Rightarrow> if gw_socket g c \<noteq> None \<and> gw_socket g c \<noteq> Some Closed
       then Some (socket_closed E c g) else None
   | EPong c \<Rightarrow> if gw_listening g c \<noteq> None \<and> gw_socket g c \<noteq> Some Closed then Some (on_pong c g, []) else None
   | ESweep \<Rightarrow> Some (sweep_heartbeats (server_clients g known) g)
   | EGcTimer i \<Rightarrow> if i < length (gw_gcTimers g) then Some (gc_timer E i g) else None
   | EPersistTimer name \<Rightarrow> (case map_of (gw_persistTimers g) name of
       Some r \<Rightarrow> Some (persist_fire E name r g, []) | None \<Rightarrow> None)
   | EWriteLands i \<Rightarrow> if i < length (gw_writes g) then Some (write_lands i g, []) else None
   | EResyncTimer c \<Rightarrow> (case gw_lastRejection g c of
       Some st \<Rightarrow> if rj_timer st \<noteq> None then Some (resync_fire E c st g) else None | None \<Rightarrow> None)
   | ERedis channel message \<Rightarrow> Some (pmessage E channel message g)
   | EEpochAdvanced dbId keyId \<Rightarrow> Some (on_epoch_advanced E dbId keyId g))"

inductive g_reach :: "('d, 'a) gateway_env \<Rightarrow> nat list \<Rightarrow> db \<Rightarrow> ('d, 'a) gateway \<Rightarrow> gateway_effect list \<Rightarrow> bool"
  for E known d0 where
  start: "g_reach E known d0 (empty_gateway d0) []"
| database: "g_reach E known d0 g es \<Longrightarrow> grows (gw_db g) d \<Longrightarrow> db_inv d \<Longrightarrow> g_reach E known d0 (g\<lparr>gw_db := d\<rparr>) es"
| step: "g_reach E known d0 g es \<Longrightarrow> g_step E known e g = Some (g', es') \<Longrightarrow> g_reach E known d0 g' (es @ es')"

fun g_run :: "('d, 'a) gateway_env \<Rightarrow> nat list \<Rightarrow> g_event list \<Rightarrow> ('d, 'a) gateway \<Rightarrow> ('d, 'a) g_outcome option" where
  "g_run E known [] g = Some (g, [])"
| "g_run E known (e # evs) g = (case g_step E known e g of None \<Rightarrow> None
     | Some (h, es) \<Rightarrow> map_option (\<lambda>(k, fs). (k, es @ fs)) (g_run E known evs h))"

end
