(* ===== verification/Gateway_Inv.thy ===== *)
theory Gateway_Inv
  imports Gateway
begin

text \<open>
  The invariant of the gateway over every interleaving of its steps: heap references are sound,
  every client of a room was authenticated and is a member, the connection gauge counts the
  connected clients, and no loaded room lags behind an epoch event. Most operations are quiet: they
  leave alone everything the invariant talks about.
\<close>

section \<open>Membership over time\<close>

lemma is_member_room:
  assumes "is_member d n u"
  shows "room_by_name d n \<noteq> None"
proof -
  obtain m :: member_row where "case room_by_id d (mb_roomId m) of None \<Rightarrow> False | Some r \<Rightarrow> ro_name r = n"
    using assms by (auto simp: is_member_def list_ex_iff)
  then obtain r where "room_by_id d (mb_roomId m) = Some r" "ro_name r = n"
    by (cases "room_by_id d (mb_roomId m)") simp_all
  then show ?thesis
    using room_by_id_Some[of d "mb_roomId m" r] by (auto simp: room_by_name_None)
qed

lemma is_member_grows:
  assumes "db_inv d" and "db_inv e" and "grows d e" and "is_member d n u"
  shows "is_member e n u"
proof -
  obtain r where r: "room_by_name d n = Some r"
    using is_member_room[OF assms(4)] by blast
  then obtain s where s: "room_by_name e n = Some s" "ro_id s = ro_id r"
    using growsD(4)[OF assms(3)] unfolding rooms_grow_def by blast
  have "is_member_id d (ro_id r) u"
    using is_member_by_id[OF _ r] assms(1,4) by (simp add: db_inv_def)
  with growsD(2)[OF assms(3)] s(2) have "is_member_id e (ro_id s) u"
    by simp
  with is_member_by_id[OF _ s(1)] assms(2) show ?thesis by (simp add: db_inv_def)
qed

lemma room_by_name_grows: "grows d e \<Longrightarrow> room_by_name d n \<noteq> None \<Longrightarrow> room_by_name e n \<noteq> None"
  using growsD(4) unfolding rooms_grow_def by blast

section \<open>The invariant\<close>

text \<open>
  The phases of a load, for a room other than the lobby: its row exists before the first query
  runs, so the database id is known once the query's result has been handled.
\<close>

definition load_ok :: "load_state \<Rightarrow> jstr option \<Rightarrow> bool" where
  "load_ok l i = (case l of Finding \<Rightarrow> True | Failed \<Rightarrow> True | Found row \<Rightarrow> row \<noteq> None | _ \<Rightarrow> i \<noteq> None)"

definition room_ok :: "db \<Rightarrow> ('d, 'a) room_state \<Rightarrow> bool" where
  "room_ok d s \<longleftrightarrow> distinct (rs_clients s)
     \<and> (rs_roomId s \<noteq> default_room \<longrightarrow> room_by_name d (rs_roomId s) \<noteq> None \<and> load_ok (rs_load s) (rs_dbId s))"

text \<open>Who may be in a room: anyone authenticated in the lobby, a member elsewhere.\<close>

definition allowed :: "db \<Rightarrow> jstr option \<Rightarrow> jstr \<Rightarrow> bool" where
  "allowed d usr name \<longleftrightarrow> (case usr of None \<Rightarrow> False | Some u \<Rightarrow> name = default_room \<or> is_member d name u)"

definition heap_ok :: "('d, 'a) gateway \<Rightarrow> bool" where
  "heap_ok g \<longleftrightarrow> (\<forall>r. gw_heap g r \<noteq> None \<longleftrightarrow> r < gw_next g)
     \<and> (\<forall>r < gw_next g. room_ok (gw_db g) (room_at g r))"

definition ref_ok :: "('d, 'a) gateway \<Rightarrow> jstr \<times> nat \<Rightarrow> bool" where
  "ref_ok g nr \<longleftrightarrow> snd nr < gw_next g \<and> rs_roomId (room_at g (snd nr)) = fst nr"

definition refs_ok :: "('d, 'a) gateway \<Rightarrow> bool" where
  "refs_ok g \<longleftrightarrow> list_all (ref_ok g) (gw_rooms g) \<and> list_all (ref_ok g) (gw_roomInitMap g)
     \<and> list_all (ref_ok g) (gw_persistTimers g) \<and> list_all (ref_ok g) (gw_gcTimers g)"

definition clients_ok :: "('d, 'a) gateway \<Rightarrow> bool" where
  "clients_ok g \<longleftrightarrow> (\<forall>r < gw_next g. \<forall>c \<in> set (rs_clients (room_at g r)).
     gw_socket g c \<noteq> None \<and> gw_conn g c = None \<and> allowed (gw_db g) (gw_user g c) (rs_roomId (room_at g r)))"

definition phase_ok :: "('d, 'a) gateway \<Rightarrow> nat \<Rightarrow> conn_phase \<Rightarrow> bool" where
  "phase_ok g c p = (case p of
     CheckingMember n u \<Rightarrow> gw_user g c = Some u
   | MemberKnown n ok \<Rightarrow> ok \<longrightarrow> allowed (gw_db g) (gw_user g c) n
   | AwaitingRoom n r \<Rightarrow> allowed (gw_db g) (gw_user g c) n \<and> ref_ok g (n, r))"

definition conns_ok :: "('d, 'a) gateway \<Rightarrow> bool" where
  "conns_ok g \<longleftrightarrow> (\<forall>c p. gw_conn g c = Some p \<longrightarrow>
     gw_socket g c \<noteq> None \<and> c \<notin> fst ` set (gw_clientRoom g) \<and> phase_ok g c p)"

definition gauge_ok :: "('d, 'a) gateway \<Rightarrow> bool" where
  "gauge_ok g \<longleftrightarrow> mt_wsConnections (gw_metrics g) = int (length (gw_clientRoom g))
     \<and> distinct (map fst (gw_clientRoom g))
     \<and> (\<forall>c \<in> fst ` set (gw_clientRoom g). gw_socket g c \<noteq> None)"

definition maps_ok :: "('d, 'a) gateway \<Rightarrow> bool" where
  "maps_ok g \<longleftrightarrow> distinct (map fst (gw_rooms g)) \<and> distinct (map fst (gw_roomInitMap g))
     \<and> distinct (map fst (gw_persistTimers g))"

text \<open>Every room in the map has reached the highest epoch seen for its database id.\<close>

fun covers :: "nat \<Rightarrow> jstr option \<Rightarrow> (jstr \<Rightarrow> nat) \<Rightarrow> bool" where
  "covers k None ep \<longleftrightarrow> True"
| "covers k (Some i) ep \<longleftrightarrow> ep i \<le> k"

definition epoch_ok :: "('d, 'a) gateway \<Rightarrow> jstr \<times> nat \<Rightarrow> bool" where
  "epoch_ok g nr \<longleftrightarrow> fst nr \<noteq> default_room \<longrightarrow>
     covers (rs_currentKeyId (room_at g (snd nr))) (rs_dbId (room_at g (snd nr))) (epoch_of g)"

definition epochs_ok :: "('d, 'a) gateway \<Rightarrow> bool" where
  "epochs_ok g \<longleftrightarrow> list_all (epoch_ok g) (gw_rooms g)"

text \<open>A socket with a listener is a client of the room that its listener captured.\<close>

definition listen_ok :: "('d, 'a) gateway \<Rightarrow> bool" where
  "listen_ok g \<longleftrightarrow> (\<forall>c r. gw_listening g c = Some r \<longrightarrow> r < gw_next g \<and> c \<in> set (rs_clients (room_at g r)))"

definition gw_inv :: "('d, 'a) gateway \<Rightarrow> bool" where
  "gw_inv g \<longleftrightarrow> db_inv (gw_db g) \<and> heap_ok g \<and> refs_ok g \<and> clients_ok g \<and> conns_ok g \<and> gauge_ok g
     \<and> maps_ok g \<and> epochs_ok g \<and> listen_ok g"

lemma gw_invD:
  assumes "gw_inv g"
  shows "db_inv (gw_db g)" "heap_ok g" "refs_ok g" "clients_ok g" "conns_ok g" "gauge_ok g" "maps_ok g" "epochs_ok g" "listen_ok g"
  using assms by (simp_all add: gw_inv_def)

lemma gw_inv_empty: "db_inv d \<Longrightarrow> gw_inv (empty_gateway d)"
  by (simp add: gw_inv_def heap_ok_def refs_ok_def clients_ok_def conns_ok_def gauge_ok_def maps_ok_def
      epochs_ok_def listen_ok_def empty_gateway_def no_metrics_def)

lemma allowed_grows: "db_inv d \<Longrightarrow> db_inv e \<Longrightarrow> grows d e \<Longrightarrow> allowed d u n \<Longrightarrow> allowed e u n"
  using is_member_grows by (auto simp: allowed_def split: option.splits)

lemma room_ok_grows: "grows d e \<Longrightarrow> room_ok d s \<Longrightarrow> room_ok e s"
  using room_by_name_grows by (auto simp: room_ok_def)

section \<open>Quiet steps\<close>

text \<open>
  Most operations leave alone what the invariant talks about: of a room they change the document,
  the awareness or the destroyed flag, they may arm a persist timer for a room under its own name,
  and the database grows.
\<close>

definition same_room :: "('d, 'a) room_state \<Rightarrow> ('d, 'a) room_state \<Rightarrow> bool" where
  "same_room s t \<longleftrightarrow> rs_roomId t = rs_roomId s \<and> rs_clients t = rs_clients s \<and> rs_dbId t = rs_dbId s
     \<and> rs_currentKeyId t = rs_currentKeyId s \<and> rs_load t = rs_load s"

definition quiet :: "('d, 'a) gateway \<Rightarrow> ('d, 'a) gateway \<Rightarrow> bool" where
  "quiet g h \<longleftrightarrow> gw_next h = gw_next g \<and> gw_rooms h = gw_rooms g \<and> gw_roomInitMap h = gw_roomInitMap g
     \<and> gw_clientRoom h = gw_clientRoom g \<and> gw_conn h = gw_conn g \<and> gw_user h = gw_user g
     \<and> gw_gcTimers h = gw_gcTimers g \<and> gw_epochByDbId h = gw_epochByDbId g
     \<and> mt_wsConnections (gw_metrics h) = mt_wsConnections (gw_metrics g)
     \<and> (\<forall>c. gw_socket h c = None \<longleftrightarrow> gw_socket g c = None)
     \<and> (\<forall>r. gw_heap h r = None \<longleftrightarrow> gw_heap g r = None)
     \<and> (\<forall>r < gw_next g. same_room (room_at g r) (room_at h r))
     \<and> (list_all (ref_ok g) (gw_persistTimers g) \<longrightarrow> list_all (ref_ok g) (gw_persistTimers h))
     \<and> (distinct (map fst (gw_persistTimers g)) \<longrightarrow> distinct (map fst (gw_persistTimers h)))
     \<and> (db_inv (gw_db g) \<longrightarrow> db_inv (gw_db h) \<and> grows (gw_db g) (gw_db h))
     \<and> (\<forall>c r. gw_listening h c = Some r \<longrightarrow> gw_listening g c = Some r)"

lemma room_ok_same: "same_room s t \<Longrightarrow> room_ok d t = room_ok d s"
  by (simp add: same_room_def room_ok_def)

lemma same_room_refl [simp]: "same_room s s"
  by (simp add: same_room_def)

lemma quiet_refl [simp]: "quiet g g"
  by (simp add: quiet_def)

lemma quietD:
  assumes "quiet g h"
  shows "gw_next h = gw_next g" "gw_rooms h = gw_rooms g" "gw_roomInitMap h = gw_roomInitMap g"
    "gw_clientRoom h = gw_clientRoom g" "gw_conn h = gw_conn g" "gw_user h = gw_user g"
    "gw_gcTimers h = gw_gcTimers g" "gw_epochByDbId h = gw_epochByDbId g"
    "mt_wsConnections (gw_metrics h) = mt_wsConnections (gw_metrics g)"
    "gw_socket h c = None \<longleftrightarrow> gw_socket g c = None" "gw_heap h r = None \<longleftrightarrow> gw_heap g r = None"
    "r < gw_next g \<Longrightarrow> same_room (room_at g r) (room_at h r)"
    "list_all (ref_ok g) (gw_persistTimers g) \<Longrightarrow> list_all (ref_ok g) (gw_persistTimers h)"
    "distinct (map fst (gw_persistTimers g)) \<Longrightarrow> distinct (map fst (gw_persistTimers h))"
    "db_inv (gw_db g) \<Longrightarrow> db_inv (gw_db h)" "db_inv (gw_db g) \<Longrightarrow> grows (gw_db g) (gw_db h)"
    "gw_listening h c = Some r \<Longrightarrow> gw_listening g c = Some r"
  using assms by (simp_all add: quiet_def)

lemma quiet_ref_ok: "quiet g h \<Longrightarrow> ref_ok h nr = ref_ok g nr"
  using quietD(1)[of g h] quietD(12)[of g h "snd nr"] by (auto simp: ref_ok_def same_room_def)

lemma quiet_trans:
  assumes "quiet g h" and "quiet h k"
  shows "quiet g k"
proof -
  have r: "ref_ok h = ref_ok g"
    using quiet_ref_ok[OF assms(1)] by blast
  have s: "same_room (room_at g r) (room_at k r)" if "r < gw_next g" for r
    using quietD(12)[OF assms(1) that] quietD(12)[OF assms(2), of r] quietD(1)[OF assms(1)] that
    by (simp add: same_room_def)
  show ?thesis
    unfolding quiet_def
    using quietD[OF assms(1)] quietD[OF assms(2)] r s grows_trans[of "gw_db g" "gw_db h" "gw_db k"]
    by simp
qed

lemma quiet_inv:
  assumes "quiet g h" and "gw_inv g"
  shows "gw_inv h"
proof -
  note inv = gw_invD[OF assms(2)] and q = quietD[OF assms(1)]
  have db: "db_inv (gw_db h)" "grows (gw_db g) (gw_db h)"
    using q(15,16) inv(1) by simp_all
  have ref: "ref_ok h = ref_ok g"
    using quiet_ref_ok[OF assms(1)] by blast
  have rooms: "rs_roomId (room_at h r) = rs_roomId (room_at g r)" "rs_clients (room_at h r) = rs_clients (room_at g r)"
    "rs_dbId (room_at h r) = rs_dbId (room_at g r)" "rs_currentKeyId (room_at h r) = rs_currentKeyId (room_at g r)"
    "rs_load (room_at h r) = rs_load (room_at g r)" if "r < gw_next g" for r
    using q(12)[OF that] by (simp_all add: same_room_def)
  have al: "allowed (gw_db g) u n \<Longrightarrow> allowed (gw_db h) u n" for u n
    using allowed_grows[OF inv(1) db] .
  have "heap_ok h"
    unfolding heap_ok_def
  proof (intro conjI allI impI)
    show "gw_heap h r \<noteq> None \<longleftrightarrow> r < gw_next h" for r
      using inv(2) q(1,11) by (simp add: heap_ok_def)
    show "room_ok (gw_db h) (room_at h r)" if "r < gw_next h" for r
    proof -
      have r: "r < gw_next g"
        using that q(1) by simp
      then have "room_ok (gw_db g) (room_at g r)"
        using inv(2) by (simp add: heap_ok_def)
      then show ?thesis
        unfolding room_ok_same[OF q(12)[OF r]] by (rule room_ok_grows[OF db(2)])
    qed
  qed
  moreover have "refs_ok h"
    using inv(3) q(13) by (simp add: refs_ok_def ref q(2,3,7))
  moreover have "clients_ok h"
    using inv(4) al by (auto simp: clients_ok_def q(1,5,6,10) rooms)
  moreover have "conns_ok h"
  proof -
    have "phase_ok g c p \<Longrightarrow> phase_ok h c p" for c p
      using al by (cases p) (auto simp: phase_ok_def q(6) ref)
    with inv(5) show ?thesis by (simp add: conns_ok_def q(4,5,10))
  qed
  moreover have "gauge_ok h"
    using inv(6) by (simp add: gauge_ok_def q(4,9,10))
  moreover have "maps_ok h"
    using inv(7) q(14) by (simp add: maps_ok_def q(2,3))
  moreover have "epochs_ok h"
  proof -
    have "epoch_ok h nr" if "nr \<in> set (gw_rooms g)" for nr
    proof -
      have "snd nr < gw_next g" "epoch_ok g nr"
        using that inv(3,8) by (simp_all add: refs_ok_def epochs_ok_def list_all_iff ref_ok_def)
      moreover have "epoch_of h = epoch_of g"
        by (simp add: epoch_of_def[abs_def] q(8))
      ultimately show ?thesis
        by (simp add: epoch_ok_def rooms)
    qed
    then show ?thesis by (simp add: epochs_ok_def q(2) list_all_iff)
  qed
  moreover have "listen_ok h"
    unfolding listen_ok_def
  proof (intro allI impI)
    fix c r assume "gw_listening h c = Some r"
    then have "r < gw_next g \<and> c \<in> set (rs_clients (room_at g r))"
      using inv(9) q(17) unfolding listen_ok_def by blast
    then show "r < gw_next h \<and> c \<in> set (rs_clients (room_at h r))"
      by (simp add: q(1) rooms)
  qed
  ultimately show ?thesis
    using db(1) by (simp add: gw_inv_def)
qed

text \<open>Quiet operations. \<open>alive\<close> references are those of rooms in the heap.\<close>

definition live :: "('d, 'a) gateway \<Rightarrow> nat \<Rightarrow> bool" where
  "live g r \<longleftrightarrow> gw_heap g r \<noteq> None \<and> r < gw_next g"

lemma live_quiet: "quiet g h \<Longrightarrow> live g r \<Longrightarrow> live h r"
  using quietD(1,11)[of g h] by (simp add: live_def)

lemma live_inv: "gw_inv g \<Longrightarrow> r < gw_next g \<Longrightarrow> live g r"
  by (simp add: live_def gw_inv_def heap_ok_def)

lemma room_at_set_room [gateway_simps]: "room_at (set_room r s g) q = (if q = r then s else room_at g q)"
  by (simp add: room_at_def set_room_def)

lemma quiet_set_room: "live g r \<Longrightarrow> same_room (room_at g r) s \<Longrightarrow> quiet g (set_room r s g)"
  by (auto simp: quiet_def live_def room_at_def set_room_def)

lemma room_at_count [gateway_simps]: "room_at (count_metric f g) r = room_at g r"
  by (simp add: room_at_def count_metric_def)

lemma quiet_count: "mt_wsConnections (f (gw_metrics g)) = mt_wsConnections (gw_metrics g) \<Longrightarrow> quiet g (count_metric f g)"
  by (simp add: quiet_def count_metric_def room_at_def)

lemma quiet_schedule: "live g r \<Longrightarrow> quiet g (schedule_persist r g)"
  by (simp add: quiet_def schedule_persist_def room_at_def ref_ok_def live_def distinct_update list_all_update)

lemma quiet_update_irrelevant:
  "quiet g (g\<lparr>gw_awarenessIds := x\<rparr>)" "quiet g (g\<lparr>gw_clientRate := y\<rparr>)"
  "quiet g (g\<lparr>gw_lastRejection := z\<rparr>)" "quiet g (g\<lparr>gw_alive := a\<rparr>)" "quiet g (g\<lparr>gw_writes := w\<rparr>)"
  by (simp_all add: quiet_def room_at_def)

lemma quiet_andThen:
  "quiet g (fst x) \<Longrightarrow> (\<And>h. quiet g h \<Longrightarrow> quiet h (fst (f h))) \<Longrightarrow> quiet g (fst (andThen x f))"
  by (cases x) (auto intro: quiet_trans)

lemma quiet_on_room_update: "live g r \<Longrightarrow> quiet g (fst (on_room_update E r u org g))"
proof -
  assume l: "live g r"
  have q: "quiet g (count_metric (inc_fanout_bytes (length u) FanoutDoc) g)"
    by (rule quiet_count) (simp add: gateway_simps)
  from quiet_trans[OF q quiet_schedule[OF live_quiet[OF q l]]] show ?thesis
    by (simp add: on_room_update_def Let_def)
qed

lemma quiet_change_doc: "live g r \<Longrightarrow> quiet g (fst (change_doc E r d org g))"
proof -
  assume l: "live g r"
  have q: "quiet g (set_room r ((room_at g r)\<lparr>rs_doc := d\<rparr>) g)"
    using l by (rule quiet_set_room) (simp add: same_room_def)
  show ?thesis
    using q quiet_trans[OF q quiet_on_room_update[OF live_quiet[OF q l]]]
    by (simp add: change_doc_def Let_def split: option.split)
qed

lemma quiet_on_awareness: "live g r \<Longrightarrow> quiet g (fst (on_awareness_update E r ch org g))"
  by (auto simp: on_awareness_update_def track_awareness_ids_def Let_def gateway_simps
      intro: quiet_update_irrelevant quiet_count quiet_trans[OF quiet_update_irrelevant(1) quiet_count]
      split: prod.split option.split origin.split)

lemma quiet_change_awareness: "live g r \<Longrightarrow> quiet g (fst (change_awareness E r ac org g))"
proof -
  assume l: "live g r"
  have q: "quiet g (set_room r ((room_at g r)\<lparr>rs_awareness := fst ac\<rparr>) g)"
    using l by (rule quiet_set_room) (simp add: same_room_def)
  show ?thesis
    using q quiet_trans[OF q quiet_on_awareness[OF live_quiet[OF q l]]]
    by (simp add: change_awareness_def Let_def)
qed

lemma quiet_ask: "quiet g (fst (ask_for_resync E c r b g))"
  by (simp add: ask_for_resync_def Let_def quiet_update_irrelevant)

lemma quiet_rate: "quiet g (snd (is_rate_limited now c g))"
  by (simp add: is_rate_limited_def quiet_update_irrelevant split: option.split)

lemma quiet_close: "quiet g (fst (close_client c code g))"
  by (auto simp: close_client_def quiet_def room_at_def split: option.split ready_state.split)

lemma quiet_terminate: "quiet g (fst (terminate_client c g))"
  by (auto simp: terminate_client_def quiet_def room_at_def split: option.split ready_state.split)

lemma quiet_sync_message: "live g r \<Longrightarrow> quiet g (fst (handle_sync_message E c r data body g))"
proof -
  assume l: "live g r"
  let ?g = "count_metric (inc_messages MtSync) g"
  have q: "quiet g ?g"
    by (rule quiet_count) (simp add: gateway_simps)
  have "quiet ?g (fst (change_doc E r d (FromClient c) ?g))" for d
    using quiet_change_doc[OF live_quiet[OF q l]] .
  moreover have "quiet ?g (fst (ask_for_resync E c r data (count_metric inc_e2ee_rejected_updates ?g)))"
    by (rule quiet_trans[OF quiet_count quiet_ask]) (simp add: gateway_simps)
  ultimately show ?thesis
    using q quiet_trans[OF q] unfolding handle_sync_message_def Let_def
    by (auto simp: andThen_def split_beta split: sum.split option.split)
qed

lemma quiet_message: "live g r \<Longrightarrow> quiet g (fst (handle_message E now c r data g))"
proof -
  assume l: "live g r"
  obtain lim h where h: "is_rate_limited now c g = (lim, h)"
    by (cases "is_rate_limited now c g")
  have q: "quiet g h"
    using quiet_rate[of g now c] h by simp
  note lh = live_quiet[OF q l]
  have qa: "quiet h (count_metric (inc_messages MtAwareness) h)"
    by (rule quiet_count) (simp add: gateway_simps)
  note steps = quiet_close quiet_trans[OF q quiet_close] quiet_trans[OF q quiet_sync_message[OF lh]]
    quiet_trans[OF q quiet_trans[OF qa quiet_change_awareness[OF live_quiet[OF qa lh]]]]
    quiet_trans[OF q qa] q
  show ?thesis
    unfolding handle_message_def h Let_def
    by (auto intro: steps split: option.split)
qed

lemma quiet_persist: "quiet g (persist_room_state E r g)"
  unfolding persist_room_state_def Let_def
  by (rule quiet_trans[OF quiet_count quiet_update_irrelevant(5)]) (simp add: gateway_simps)

lemma quiet_drop_timer: "quiet g (g\<lparr>gw_persistTimers := AList.delete n (gw_persistTimers g)\<rparr>)"
  by (simp add: quiet_def room_at_def list_all_delete distinct_delete)

lemma quiet_persist_fire: "quiet g (persist_fire E n r g)"
  unfolding persist_fire_def by (rule quiet_trans[OF quiet_drop_timer quiet_persist])

lemma quiet_db: "db_inv d \<Longrightarrow> grows (gw_db g) d \<Longrightarrow> quiet g (g\<lparr>gw_db := d\<rparr>)"
  by (simp add: quiet_def room_at_def)

lemma quiet_write: "gw_inv g \<Longrightarrow> quiet g (write_lands i g)"
proof -
  assume inv: "gw_inv g"
  obtain n b where nb: "gw_writes g ! i = (n, b)"
    by (cases "gw_writes g ! i")
  let ?g = "g\<lparr>gw_writes := take i (gw_writes g) @ drop (Suc i) (gw_writes g)\<rparr>"
  have q: "quiet g ?g"
    by (rule quiet_update_irrelevant)
  show ?thesis
  proof (cases "update_room_state n b (gw_db g)")
    case (Inl e)
    with nb q show ?thesis by (simp add: write_lands_def Let_def)
  next
    case (Inr d)
    then have "quiet ?g (?g\<lparr>gw_db := d\<rparr>)"
      using update_room_state_inv[OF gw_invD(1)[OF inv] Inr] by (intro quiet_db) simp_all
    then have "quiet g (count_metric observe_persist_duration (?g\<lparr>gw_db := d\<rparr>))"
      by (rule quiet_trans[OF quiet_trans[OF q] quiet_count]) (simp add: gateway_simps)
    with Inr nb show ?thesis by (simp add: write_lands_def Let_def)
  qed
qed

lemma quiet_sweep_loop: "quiet g (fst (sweep_loop cs g))"
proof (induction cs arbitrary: g)
  case (Cons c cs)
  have "quiet g (g\<lparr>gw_alive := x\<rparr>)" for x
    by (rule quiet_update_irrelevant)
  with Cons quiet_terminate[of g c] show ?case
    by (auto simp: andThen_def split_beta intro: quiet_trans)
qed simp

section \<open>The other operations keep the invariant\<close>

lemma room_at_updates [gateway_simps]:
  "room_at (g\<lparr>gw_conn := a\<rparr>) = room_at g" "room_at (g\<lparr>gw_user := b\<rparr>) = room_at g"
  "room_at (g\<lparr>gw_socket := s\<rparr>) = room_at g" "room_at (g\<lparr>gw_clientRoom := cr\<rparr>) = room_at g"
  "room_at (g\<lparr>gw_gcTimers := t\<rparr>) = room_at g" "room_at (g\<lparr>gw_rooms := rs\<rparr>) = room_at g"
  "room_at (g\<lparr>gw_roomInitMap := im\<rparr>) = room_at g" "room_at (g\<lparr>gw_epochByDbId := e\<rparr>) = room_at g"
  "room_at (g\<lparr>gw_next := x\<rparr>) = room_at g" "room_at (g\<lparr>gw_alive := al\<rparr>) = room_at g"
  "room_at (g\<lparr>gw_listening := li\<rparr>) = room_at g" "room_at (g\<lparr>gw_persistTimers := pt\<rparr>) = room_at g"
  "room_at (g\<lparr>gw_awarenessIds := ai\<rparr>) = room_at g"
  by (simp_all add: room_at_def[abs_def])

lemma set_room_fields [gateway_simps]:
  "gw_next (set_room r s g) = gw_next g" "gw_db (set_room r s g) = gw_db g"
  "gw_rooms (set_room r s g) = gw_rooms g" "gw_roomInitMap (set_room r s g) = gw_roomInitMap g"
  "gw_persistTimers (set_room r s g) = gw_persistTimers g" "gw_gcTimers (set_room r s g) = gw_gcTimers g"
  "gw_socket (set_room r s g) = gw_socket g" "gw_conn (set_room r s g) = gw_conn g"
  "gw_user (set_room r s g) = gw_user g" "gw_clientRoom (set_room r s g) = gw_clientRoom g"
  "gw_metrics (set_room r s g) = gw_metrics g" "gw_epochByDbId (set_room r s g) = gw_epochByDbId g"
  "epoch_of (set_room r s g) = epoch_of g" "gw_listening (set_room r s g) = gw_listening g"
  by (simp_all add: set_room_def epoch_of_def[abs_def])

lemma count_metric_fields [gateway_simps]:
  "gw_next (count_metric f g) = gw_next g" "gw_db (count_metric f g) = gw_db g"
  "gw_rooms (count_metric f g) = gw_rooms g" "gw_roomInitMap (count_metric f g) = gw_roomInitMap g"
  "gw_persistTimers (count_metric f g) = gw_persistTimers g" "gw_gcTimers (count_metric f g) = gw_gcTimers g"
  "gw_socket (count_metric f g) = gw_socket g" "gw_conn (count_metric f g) = gw_conn g"
  "gw_user (count_metric f g) = gw_user g" "gw_clientRoom (count_metric f g) = gw_clientRoom g"
  "gw_metrics (count_metric f g) = f (gw_metrics g)" "gw_epochByDbId (count_metric f g) = gw_epochByDbId g"
  "epoch_of (count_metric f g) = epoch_of g" "gw_listening (count_metric f g) = gw_listening g"
  by (simp_all add: count_metric_def epoch_of_def[abs_def])

lemma ref_ok_def': "ref_ok g (n, r) \<longleftrightarrow> r < gw_next g \<and> rs_roomId (room_at g r) = n"
  by (simp add: ref_ok_def)

lemma refs_in:
  assumes "gw_inv g"
  shows "(n, r) \<in> set (gw_rooms g) \<Longrightarrow> ref_ok g (n, r)" "(n, r) \<in> set (gw_roomInitMap g) \<Longrightarrow> ref_ok g (n, r)"
    "(n, r) \<in> set (gw_persistTimers g) \<Longrightarrow> ref_ok g (n, r)" "(n, r) \<in> set (gw_gcTimers g) \<Longrightarrow> ref_ok g (n, r)"
  using gw_invD(3)[OF assms] by (auto simp: refs_ok_def list_all_iff)

lemma room_ok_at: "gw_inv g \<Longrightarrow> r < gw_next g \<Longrightarrow> room_ok (gw_db g) (room_at g r)"
  by (simp add: gw_inv_def heap_ok_def)

text \<open>Replacing a room by one of the same name.\<close>

lemma inv_set_room:
  assumes "gw_inv g" and "r < gw_next g" and "rs_roomId s = rs_roomId (room_at g r)"
    and "room_ok (gw_db g) s"
    and "\<And>c. c \<in> set (rs_clients s) \<Longrightarrow>
      gw_socket g c \<noteq> None \<and> gw_conn g c = None \<and> allowed (gw_db g) (gw_user g c) (rs_roomId s)"
    and "(rs_roomId s, r) \<in> set (gw_rooms g) \<Longrightarrow> rs_roomId s \<noteq> default_room \<Longrightarrow>
      covers (rs_currentKeyId s) (rs_dbId s) (epoch_of g)"
    and "\<And>c. gw_listening g c = Some r \<Longrightarrow> c \<in> set (rs_clients s)"
  shows "gw_inv (set_room r s g)"
proof -
  note inv = gw_invD[OF assms(1)]
  have at: "room_at (set_room r s g) q = (if q = r then s else room_at g q)" for q
    by (simp add: gateway_simps)
  note f = set_room_fields[of r s g]
  have ref: "ref_ok (set_room r s g) = ref_ok g"
    by (rule ext) (simp add: ref_ok_def at f(1) assms(3))
  have "heap_ok (set_room r s g)"
    using inv(2) assms(2,4) by (auto simp: heap_ok_def at f(1,2)) (auto simp: set_room_def)
  moreover have "refs_ok (set_room r s g)"
    using inv(3) by (simp add: refs_ok_def ref f)
  moreover have "clients_ok (set_room r s g)"
    using inv(4) assms(5) by (simp add: clients_ok_def at f)
  moreover have "conns_ok (set_room r s g)"
    using inv(5) by (simp add: conns_ok_def phase_ok_def ref f split: conn_phase.splits)
  moreover have "gauge_ok (set_room r s g)" "maps_ok (set_room r s g)"
    using inv(6,7) by (simp_all add: gauge_ok_def maps_ok_def f)
  moreover have "epochs_ok (set_room r s g)"
  proof -
    have "epoch_ok (set_room r s g) (n, q)" if m: "(n, q) \<in> set (gw_rooms g)" for n q
    proof (cases "q = r")
      case True
      then have "n = rs_roomId s"
        using refs_in(1)[OF assms(1) m] assms(3) by (simp add: ref_ok_def)
      with True m assms(6) show ?thesis by (simp add: epoch_ok_def at f(13))
    next
      case False
      have "epoch_ok g (n, q)"
        using inv(8) m by (simp add: epochs_ok_def list_all_iff)
      with False show ?thesis by (simp add: epoch_ok_def at f(13))
    qed
    then show ?thesis by (auto simp: epochs_ok_def list_all_iff f(3))
  qed
  moreover have "listen_ok (set_room r s g)"
    using inv(9) assms(2,7) by (simp add: listen_ok_def at f(1,14))
  ultimately show ?thesis
    using inv(1) by (simp add: gw_inv_def f(2))
qed

lemma listener_at:
  assumes "gw_inv g" and "gw_listening g c = Some r"
  shows "r < gw_next g" and "c \<in> set (rs_clients (room_at g r))"
  using gw_invD(9)[OF assms(1)] assms(2) unfolding listen_ok_def by blast+

lemma clients_at:
  "gw_inv g \<Longrightarrow> r < gw_next g \<Longrightarrow> c \<in> set (rs_clients (room_at g r)) \<Longrightarrow>
    gw_socket g c \<noteq> None \<and> gw_conn g c = None \<and> allowed (gw_db g) (gw_user g c) (rs_roomId (room_at g r))"
  by (simp add: gw_inv_def clients_ok_def)

lemma inv_epoch_at:
  assumes "gw_inv g" and "(n, r) \<in> set (gw_rooms g)"
  shows "epoch_ok g (n, r)"
  using gw_invD(8)[OF assms(1)] assms(2) by (simp add: epochs_ok_def list_all_iff)

text \<open>Loading.\<close>

lemma inv_set_load:
  assumes "gw_inv g" and "r < gw_next g"
    and "rs_roomId (room_at g r) \<noteq> default_room \<Longrightarrow> load_ok l (rs_dbId (room_at g r))"
  shows "gw_inv (set_load r l g)"
  unfolding set_load_def
proof (rule inv_set_room[OF assms(1,2)])
  show "room_ok (gw_db g) ((room_at g r)\<lparr>rs_load := l\<rparr>)"
    using room_ok_at[OF assms(1,2)] assms(3) by (simp add: room_ok_def)
next
  fix c assume "c \<in> set (rs_clients ((room_at g r)\<lparr>rs_load := l\<rparr>))"
  then show "gw_socket g c \<noteq> None \<and> gw_conn g c = None
      \<and> allowed (gw_db g) (gw_user g c) (rs_roomId ((room_at g r)\<lparr>rs_load := l\<rparr>))"
    using clients_at[OF assms(1,2)] by simp
next
  assume "(rs_roomId ((room_at g r)\<lparr>rs_load := l\<rparr>), r) \<in> set (gw_rooms g)"
    and "rs_roomId ((room_at g r)\<lparr>rs_load := l\<rparr>) \<noteq> default_room"
  then show "covers (rs_currentKeyId ((room_at g r)\<lparr>rs_load := l\<rparr>)) (rs_dbId ((room_at g r)\<lparr>rs_load := l\<rparr>)) (epoch_of g)"
    using inv_epoch_at[OF assms(1), of _ r] by (simp add: epoch_ok_def)
qed (simp_all add: listener_at[OF assms(1)])

lemma inv_load_ready:
  assumes "gw_inv g" and "r < gw_next g"
    and "rs_roomId (room_at g r) \<noteq> default_room \<Longrightarrow> rs_dbId (room_at g r) \<noteq> None"
  shows "gw_inv (load_ready r g)"
proof -
  have q: "quiet g (count_metric inc_rooms_loaded g)"
    by (rule quiet_count) (simp add: gateway_simps)
  have "gw_inv (set_load r Ready (count_metric inc_rooms_loaded g))"
    using assms by (intro inv_set_load quiet_inv[OF q])
      (simp_all add: gateway_simps load_ok_def)
  then show ?thesis by (simp add: load_ready_def)
qed

lemma inv_load_find:
  assumes "gw_inv g" and "r < gw_next g"
  shows "gw_inv (load_find r g)"
  unfolding load_find_def using room_ok_at[OF assms]
  by (intro inv_set_load[OF assms]) (simp add: load_ok_def room_ok_def)

lemma inv_load_found:
  assumes "gw_inv g" and "r < gw_next g" and "rs_load (room_at g r) = Found row"
  shows "gw_inv (load_found E r row g)"
proof -
  define h where "h = (case row of None \<Rightarrow> g
    | Some x \<Rightarrow> set_room r ((room_at g r)\<lparr>rs_dbId := Some (ro_id x),
        rs_currentKeyId := max (max (rs_currentKeyId (room_at g r)) (ro_currentKeyId x)) (epoch_of g (ro_id x))\<rparr>) g)"
  have row: "rs_roomId (room_at g r) \<noteq> default_room \<Longrightarrow> row \<noteq> None"
    using room_ok_at[OF assms(1,2)] assms(3) by (auto simp: room_ok_def load_ok_def)
  have h: "gw_inv h" "gw_next h = gw_next g" "rs_roomId (room_at h r) = rs_roomId (room_at g r)"
    "rs_roomId (room_at h r) \<noteq> default_room \<Longrightarrow> rs_dbId (room_at h r) \<noteq> None"
  proof -
    show "gw_inv h"
    proof (cases row)
      case None
      with assms(1) show ?thesis by (simp add: h_def)
    next
      case (Some x)
      show ?thesis
        unfolding h_def Some option.case
        by (rule inv_set_room[OF assms(1,2)])
          (use room_ok_at[OF assms(1,2)] clients_at[OF assms(1,2)] listener_at[OF assms(1)] assms(3) Some in
            \<open>auto simp: room_ok_def load_ok_def\<close>)
    qed
    show "gw_next h = gw_next g" "rs_roomId (room_at h r) = rs_roomId (room_at g r)"
      "rs_roomId (room_at h r) \<noteq> default_room \<Longrightarrow> rs_dbId (room_at h r) \<noteq> None"
      using row by (auto simp: h_def gateway_simps split: option.splits)
  qed
  have lh: "live h r"
    using live_inv[OF h(1)] assms(2) h(2) by simp
  have doc: "gw_inv (load_ready r (set_room r ((room_at h r)\<lparr>rs_doc := d\<rparr>) h))" for d
  proof -
    have q: "quiet h (set_room r ((room_at h r)\<lparr>rs_doc := d\<rparr>) h)"
      using lh by (rule quiet_set_room) (simp add: same_room_def)
    show ?thesis
      using quiet_inv[OF q h(1)] h assms(2)
      by (intro inv_load_ready) (simp_all add: gateway_simps quietD(1)[OF q])
  qed
  have "gw_inv (set_load r Failed h)" "gw_inv (set_load r Upserting h)"
    using h assms(2) by (auto intro!: inv_set_load simp: load_ok_def)
  with doc show ?thesis
    unfolding load_found_def h_def[symmetric] Let_def by (simp split: option.split)
qed

lemma inv_load_upsert:
  assumes "gw_inv g" and "r < gw_next g" and "rs_load (room_at g r) = Upserting"
  shows "gw_inv (load_upsert fresh r g)"
proof -
  have l: "rs_roomId (room_at g r) \<noteq> default_room \<Longrightarrow> rs_dbId (room_at g r) \<noteq> None"
    using room_ok_at[OF assms(1,2)] assms(3) by (simp add: room_ok_def load_ok_def)
  show ?thesis
  proof (cases "upsert_room fresh (rs_roomId (room_at g r)) (gw_db g)")
    case (Inl e)
    with l show ?thesis
      by (simp add: load_upsert_def) (intro inv_set_load[OF assms(1,2)], simp add: load_ok_def)
  next
    case (Inr x)
    obtain row d where x: "x = (row, d)" by (cases x)
    then have "db_inv d \<and> grows (gw_db g) d"
      using upsert_room_inv[OF gw_invD(1)[OF assms(1)], of fresh _ row d] Inr by simp
    then have q: "quiet g (g\<lparr>gw_db := d\<rparr>)"
      by (intro quiet_db) simp_all
    have "gw_inv (set_load r (Upserted (Inr row)) (g\<lparr>gw_db := d\<rparr>))"
      using l assms(2) by (intro inv_set_load quiet_inv[OF q assms(1)]) (simp_all add: load_ok_def room_at_def)
    with Inr x show ?thesis by (simp add: load_upsert_def)
  qed
qed

lemma inv_load_upserted:
  assumes "gw_inv g" and "r < gw_next g" and "rs_load (room_at g r) = Upserted res"
  shows "gw_inv (load_upserted r res g)"
proof -
  have l: "rs_roomId (room_at g r) \<noteq> default_room \<Longrightarrow> rs_dbId (room_at g r) \<noteq> None"
    using room_ok_at[OF assms(1,2)] assms(3) by (simp add: room_ok_def load_ok_def)
  show ?thesis
  proof (cases res)
    case (Inl e)
    then show ?thesis
      by (simp add: load_upserted_def) (intro inv_set_load[OF assms(1,2)], simp add: load_ok_def)
  next
    case (Inr row)
    let ?s = "(room_at g r)\<lparr>rs_dbId := (case rs_dbId (room_at g r) of None \<Rightarrow> Some (ro_id row) | Some i \<Rightarrow> Some i)\<rparr>"
    have "gw_inv (set_room r ?s g)"
      by (rule inv_set_room[OF assms(1,2)])
        (use room_ok_at[OF assms(1,2)] clients_at[OF assms(1,2)] listener_at[OF assms(1)] inv_epoch_at[OF assms(1), of _ r] l assms(3) in
          \<open>auto simp: room_ok_def load_ok_def epoch_ok_def split: option.splits\<close>)
    then have "gw_inv (load_ready r (set_room r ?s g))"
      using assms(2) l by (intro inv_load_ready) (auto simp: gateway_simps split: option.splits)
    with Inr show ?thesis by (simp add: load_upserted_def)
  qed
qed

text \<open>Connections.\<close>

lemma conn_update [gateway_simps]:
  "ref_ok (g\<lparr>gw_conn := x\<rparr>) = ref_ok g" "epoch_ok (g\<lparr>gw_conn := x\<rparr>) = epoch_ok g"
  "phase_ok (g\<lparr>gw_conn := x\<rparr>) = phase_ok g"
  by (simp_all add: ref_ok_def[abs_def] epoch_ok_def[abs_def] phase_ok_def[abs_def] epoch_of_def[abs_def]
      room_at_def[abs_def])

lemma inv_conn_update:
  assumes "gw_inv g" and "conns_ok (g\<lparr>gw_conn := x\<rparr>)" and "clients_ok (g\<lparr>gw_conn := x\<rparr>)"
  shows "gw_inv (g\<lparr>gw_conn := x\<rparr>)"
  using assms by (simp add: gw_inv_def heap_ok_def refs_ok_def gauge_ok_def maps_ok_def epochs_ok_def listen_ok_def gateway_simps)

lemma inv_clear_conn:
  assumes "gw_inv g"
  shows "gw_inv (g\<lparr>gw_conn := (gw_conn g)(c := None)\<rparr>)"
proof (rule inv_conn_update[OF assms])
  show "conns_ok (g\<lparr>gw_conn := (gw_conn g)(c := None)\<rparr>)"
    using gw_invD(5)[OF assms] by (simp add: conns_ok_def gateway_simps)
  show "clients_ok (g\<lparr>gw_conn := (gw_conn g)(c := None)\<rparr>)"
    using gw_invD(4)[OF assms] by (simp add: clients_ok_def gateway_simps)
qed

definition outside :: "('d, 'a) gateway \<Rightarrow> nat \<Rightarrow> bool" where
  "outside g c \<longleftrightarrow> c \<notin> fst ` set (gw_clientRoom g) \<and> (\<forall>r < gw_next g. c \<notin> set (rs_clients (room_at g r)))"

lemma connecting_outside:
  assumes "gw_inv g" and "gw_conn g c = Some p"
  shows "outside g c"
  using gw_invD(4,5)[OF assms(1)] assms(2) by (auto simp: outside_def conns_ok_def clients_ok_def)

lemma fresh_outside:
  assumes "gw_inv g" and "gw_socket g c = None"
  shows "outside g c" and "gw_conn g c = None"
proof -
  show "gw_conn g c = None"
  proof (cases "gw_conn g c")
    case (Some p)
    then have "gw_socket g c \<noteq> None"
      using gw_invD(5)[OF assms(1)] unfolding conns_ok_def by blast
    with assms(2) show ?thesis by simp
  qed
  show "outside g c"
  proof -
    have "c \<notin> set (rs_clients (room_at g r))" if "r < gw_next g" for r
      using clients_at[OF assms(1) that, of c] assms(2) by blast
    moreover have "c \<notin> fst ` set (gw_clientRoom g)"
      using gw_invD(6)[OF assms(1)] assms(2) unfolding gauge_ok_def by blast
    ultimately show ?thesis by (simp add: outside_def)
  qed
qed

lemma inv_set_conn:
  assumes "gw_inv g" and "outside g c" and "gw_socket g c \<noteq> None" and "phase_ok g c p"
  shows "gw_inv (g\<lparr>gw_conn := (gw_conn g)(c \<mapsto> p)\<rparr>)"
proof (rule inv_conn_update[OF assms(1)])
  show "conns_ok (g\<lparr>gw_conn := (gw_conn g)(c \<mapsto> p)\<rparr>)"
    using gw_invD(5)[OF assms(1)] assms(2-4) by (simp add: conns_ok_def gateway_simps outside_def)
  show "clients_ok (g\<lparr>gw_conn := (gw_conn g)(c \<mapsto> p)\<rparr>)"
    using gw_invD(4)[OF assms(1)] assms(2) by (auto simp: clients_ok_def gateway_simps outside_def)
qed

text \<open>A socket never seen before gets its state and its verified user.\<close>

lemma inv_fresh_socket:
  assumes "gw_inv g" and "gw_socket g c = None"
  shows "gw_inv (g\<lparr>gw_socket := (gw_socket g)(c \<mapsto> s), gw_user := (gw_user g)(c := u)\<rparr>)" (is "gw_inv ?h")
proof -
  have o: "outside g c" "gw_conn g c = None"
    using fresh_outside[OF assms] .
  have at: "room_at ?h = room_at g" "ref_ok ?h = ref_ok g" "epoch_ok ?h = epoch_ok g"
    by (simp_all add: room_at_def[abs_def] ref_ok_def[abs_def] epoch_ok_def[abs_def] epoch_of_def[abs_def])
  have "clients_ok ?h"
    using gw_invD(4)[OF assms(1)] o(1) by (auto simp: clients_ok_def at outside_def)
  moreover have "conns_ok ?h"
    using gw_invD(5)[OF assms(1)] o(2) by (auto simp: conns_ok_def phase_ok_def at split: conn_phase.splits)
  moreover have "gauge_ok ?h"
    using gw_invD(6)[OF assms(1)] by (auto simp: gauge_ok_def)
  ultimately show ?thesis
    using assms(1) by (simp add: gw_inv_def heap_ok_def refs_ok_def maps_ok_def epochs_ok_def listen_ok_def at)
qed

lemma inv_get_or_create:
  assumes "gw_inv g" and "name \<noteq> default_room \<Longrightarrow> room_by_name (gw_db g) name \<noteq> None"
    and "get_or_create_room E name g = (r, h)"
  shows "gw_inv h" and "ref_ok h (name, r)" and "gw_socket h = gw_socket g" and "gw_user h = gw_user g"
    and "gw_conn h = gw_conn g" and "gw_db h = gw_db g" and "outside g c \<Longrightarrow> outside h c"
proof -
  have *: "gw_inv h \<and> ref_ok h (name, r) \<and> gw_socket h = gw_socket g \<and> gw_user h = gw_user g
    \<and> gw_conn h = gw_conn g \<and> gw_db h = gw_db g \<and> (outside g c \<longrightarrow> outside h c)"
  proof (cases "map_of (gw_roomInitMap g) name")
    case (Some q)
    then have "ref_ok g (name, q)"
      using refs_in(2)[OF assms(1)] map_of_SomeD by fast
    with Some assms(1,3) show ?thesis by (simp add: get_or_create_room_def)
  next
    case None
    let ?s = "\<lparr>rs_roomId = name, rs_doc = y_new (ge_yjs E), rs_awareness = aw_new (ge_aw E),
      rs_clients = [], rs_dbId = None, rs_currentKeyId = 0, rs_load = Finding, rs_destroyed = False\<rparr>"
    from None assms(3) have r: "r = gw_next g"
      and h: "h = (set_room r ?s g)\<lparr>gw_next := Suc r, gw_rooms := AList.update name r (gw_rooms g),
        gw_roomInitMap := AList.update name r (gw_roomInitMap g)\<rparr>"
      by (auto simp: get_or_create_room_def Let_def)
    have at: "room_at h q = (if q = r then ?s else room_at g q)" for q
      unfolding h by (simp add: gateway_simps)
    have f: "gw_next h = Suc (gw_next g)" "gw_db h = gw_db g" "gw_persistTimers h = gw_persistTimers g"
      "gw_gcTimers h = gw_gcTimers g" "gw_rooms h = AList.update name r (gw_rooms g)"
      "gw_roomInitMap h = AList.update name r (gw_roomInitMap g)" "gw_socket h = gw_socket g"
      "gw_user h = gw_user g" "gw_conn h = gw_conn g" "gw_clientRoom h = gw_clientRoom g"
      "gw_metrics h = gw_metrics g" "epoch_of h = epoch_of g" "gw_listening h = gw_listening g"
      unfolding h by (simp_all add: gateway_simps r epoch_of_def[abs_def])
    note inv = gw_invD[OF assms(1)]
    have new: "ref_ok h (name, r)"
      by (simp add: ref_ok_def at f r)
    have old: "ref_ok g nr \<Longrightarrow> ref_ok h nr" for nr
      by (auto simp: ref_ok_def at f r)
    have refs: "list_all (ref_ok g) m \<Longrightarrow> list_all (ref_ok h) m" for m
      using old by (auto simp: list_all_iff)
    have "heap_ok h"
      using inv(2) assms(2) by (auto simp: heap_ok_def f at r less_Suc_eq room_ok_def load_ok_def)
        (auto simp: h set_room_def r)
    moreover have "refs_ok h"
      using inv(3) new refs by (simp add: refs_ok_def f list_all_update)
    moreover have "clients_ok h"
      using inv(4) by (auto simp: clients_ok_def f at r less_Suc_eq)
    moreover have "conns_ok h"
    proof -
      have "phase_ok g d p \<Longrightarrow> phase_ok h d p" for d p
        using old by (cases p) (auto simp: phase_ok_def f)
      with inv(5) show ?thesis by (simp add: conns_ok_def f)
    qed
    moreover have "gauge_ok h" "maps_ok h"
      using inv(6,7) by (simp_all add: gauge_ok_def maps_ok_def f distinct_update)
    moreover have "epochs_ok h"
    proof -
      have "epoch_ok h nr" if "nr \<in> set (gw_rooms g)" for nr
      proof -
        obtain n q where nr: "nr = (n, q)" by (cases nr)
        have "q \<noteq> r"
          using refs_in(1)[OF assms(1), of n q] that nr by (simp add: ref_ok_def r)
        moreover have "epoch_ok g (n, q)"
          using inv_epoch_at[OF assms(1), of n q] that nr by simp
        ultimately show ?thesis
          by (simp add: nr epoch_ok_def at f)
      qed
      moreover have "epoch_ok h (name, r)"
        by (simp add: epoch_ok_def at)
      moreover from calculation(1) have "list_all (epoch_ok h) (gw_rooms g)"
        by (simp add: list_all_iff)
      ultimately show ?thesis
        by (simp add: epochs_ok_def f list_all_update)
    qed
    moreover have "listen_ok h"
      unfolding listen_ok_def
    proof (intro allI impI)
      fix d q assume "gw_listening h d = Some q"
      then show "q < gw_next h \<and> d \<in> set (rs_clients (room_at h q))"
        using listener_at[OF assms(1), of d q] by (simp add: f at r)
    qed
    moreover have "outside g c \<Longrightarrow> outside h c"
      by (auto simp: outside_def f at r less_Suc_eq)
    ultimately show ?thesis
      using inv(1) new f by (simp add: gw_inv_def)
  qed
  show "gw_inv h" and "ref_ok h (name, r)" and "gw_socket h = gw_socket g" and "gw_user h = gw_user g"
    and "gw_conn h = gw_conn g" and "gw_db h = gw_db g" and "outside g c \<Longrightarrow> outside h c"
    using * by blast+
qed

lemma inv_await_room:
  assumes "gw_inv g" and "outside g c" and "gw_socket g c \<noteq> None" and "allowed (gw_db g) (gw_user g c) name"
  shows "gw_inv (await_room E c name g)"
proof -
  obtain r h where rh: "get_or_create_room E name g = (r, h)"
    by (cases "get_or_create_room E name g")
  have "name \<noteq> default_room \<Longrightarrow> room_by_name (gw_db g) name \<noteq> None"
    using assms(4) is_member_room by (auto simp: allowed_def split: option.splits)
  note h = inv_get_or_create[OF assms(1) this rh]
  have "gw_inv (h\<lparr>gw_conn := (gw_conn h)(c \<mapsto> AwaitingRoom name r)\<rparr>)"
    using assms h by (intro inv_set_conn) (simp_all add: phase_ok_def)
  then show ?thesis by (simp add: await_room_def rh)
qed

lemma inv_close: "gw_inv g \<Longrightarrow> gw_inv (fst (close_client c code g))"
  by (rule quiet_inv[OF quiet_close])

lemma inv_handle_connection:
  assumes "gw_inv g" and "gw_socket g c = None"
  shows "gw_inv (fst (handle_connection E c room header g))"
proof -
  have o: "outside g c" "gw_conn g c = None"
    using fresh_outside[OF assms] .
  have h: "gw_inv (g\<lparr>gw_socket := (gw_socket g)(c \<mapsto> Open), gw_user := (gw_user g)(c := u)\<rparr>)" for u
    by (rule inv_fresh_socket[OF assms])
  have out: "outside (g\<lparr>gw_socket := s, gw_user := u\<rparr>) c" for s u
    using o(1) by (simp add: outside_def room_at_def)
  show ?thesis
  proof (cases "ge_jwt E (bearer_token header)")
    case None
    have "gw_inv (g\<lparr>gw_socket := (gw_socket g)(c \<mapsto> Open), gw_user := (gw_user g)(c := gw_user g c)\<rparr>)"
      by (rule h)
    then have "gw_inv (g\<lparr>gw_socket := (gw_socket g)(c \<mapsto> Open)\<rparr>)"
      by (simp add: fun_upd_triv)
    with None show ?thesis by (simp add: handle_connection_def Let_def inv_close)
  next
    case (Some u)
    let ?h = "g\<lparr>gw_socket := (gw_socket g)(c \<mapsto> Open), gw_user := (gw_user g)(c \<mapsto> u)\<rparr>"
    have "gw_inv (?h\<lparr>gw_conn := (gw_conn ?h)(c \<mapsto> CheckingMember n u)\<rparr>)" for n
      using h out by (intro inv_set_conn) (simp_all add: phase_ok_def)
    moreover have "gw_inv (await_room E c default_room ?h)"
      using h out by (intro inv_await_room) (simp_all add: allowed_def)
    ultimately show ?thesis
      using Some by (simp add: handle_connection_def Let_def)
  qed
qed

lemma conn_at:
  assumes "gw_inv g" and "gw_conn g c = Some p"
  shows "phase_ok g c p" and "gw_socket g c \<noteq> None"
  using gw_invD(5)[OF assms(1)] assms(2) unfolding conns_ok_def by blast+

lemma inv_check_member:
  assumes "gw_inv g" and "gw_conn g c = Some (CheckingMember n u)"
  shows "gw_inv (check_member c n u g)"
  unfolding check_member_def
  by (rule inv_set_conn[OF assms(1) connecting_outside[OF assms] conn_at(2)[OF assms]])
    (use conn_at(1)[OF assms] in \<open>simp add: phase_ok_def allowed_def\<close>)

lemma inv_member_known:
  assumes "gw_inv g" and "gw_conn g c = Some (MemberKnown n ok)"
  shows "gw_inv (fst (member_known E c n ok g))"
proof (cases ok)
  case True
  have "allowed (gw_db g) (gw_user g c) n"
    using conn_at(1)[OF assms] True by (simp add: phase_ok_def)
  with True inv_await_room[OF assms(1) connecting_outside[OF assms] conn_at(2)[OF assms]] show ?thesis
    by (simp add: member_known_def)
next
  case False
  then show ?thesis by (simp add: member_known_def inv_close inv_clear_conn[OF assms(1)])
qed

lemma inv_client_room:
  assumes "gw_inv g" and "conns_ok (g\<lparr>gw_clientRoom := cr\<rparr>)"
    and "gauge_ok (count_metric f (g\<lparr>gw_clientRoom := cr\<rparr>))"
  shows "gw_inv (count_metric f (g\<lparr>gw_clientRoom := cr\<rparr>))"
proof -
  let ?h = "count_metric f (g\<lparr>gw_clientRoom := cr\<rparr>)"
  have at: "room_at ?h = room_at g" "ref_ok ?h = ref_ok g" "epoch_ok ?h = epoch_ok g" "phase_ok ?h = phase_ok g"
    "phase_ok (g\<lparr>gw_clientRoom := cr\<rparr>) = phase_ok g"
    by (simp_all add: room_at_def[abs_def] ref_ok_def[abs_def] epoch_ok_def[abs_def] epoch_of_def[abs_def]
        phase_ok_def[abs_def] count_metric_def)
  have "heap_ok ?h"
    using gw_invD(2)[OF assms(1)] by (simp add: heap_ok_def at gateway_simps) (simp add: count_metric_def)
  moreover have "conns_ok ?h"
    using assms(2) by (simp add: conns_ok_def at gateway_simps)
  ultimately show ?thesis
    using assms(1,3) by (simp add: gw_inv_def refs_ok_def clients_ok_def maps_ok_def epochs_ok_def listen_ok_def at gateway_simps)
qed

lemma inv_listen:
  assumes "gw_inv g" and "r < gw_next g" and "c \<in> set (rs_clients (room_at g r))"
  shows "gw_inv (g\<lparr>gw_listening := (gw_listening g)(c \<mapsto> r)\<rparr>)"
proof -
  let ?h = "g\<lparr>gw_listening := (gw_listening g)(c \<mapsto> r)\<rparr>"
  have at: "room_at ?h = room_at g" "ref_ok ?h = ref_ok g" "epoch_ok ?h = epoch_ok g" "phase_ok ?h = phase_ok g"
    by (simp_all add: room_at_def[abs_def] ref_ok_def[abs_def] epoch_ok_def[abs_def] epoch_of_def[abs_def]
        phase_ok_def[abs_def])
  have "listen_ok ?h"
    using gw_invD(9)[OF assms(1)] assms(2,3) by (simp add: listen_ok_def at)
  with assms(1) show ?thesis
    by (simp add: gw_inv_def heap_ok_def refs_ok_def clients_ok_def conns_ok_def gauge_ok_def
        maps_ok_def epochs_ok_def at)
qed

lemma inv_join_room:
  assumes "gw_inv g" and "gw_conn g c = Some (AwaitingRoom n r)" and "rs_load (room_at g r) = Ready"
  shows "gw_inv (fst (join_room E c n r g))"
proof -
  have al: "allowed (gw_db g) (gw_user g c) n" and ref: "r < gw_next g" "rs_roomId (room_at g r) = n"
    using conn_at(1)[OF assms(1,2)] by (simp_all add: phase_ok_def ref_ok_def)
  have out: "outside g c"
    by (rule connecting_outside[OF assms(1,2)])
  define h where "h = g\<lparr>gw_conn := (gw_conn g)(c := None)\<rparr>"
  have h: "gw_inv h" "room_at h = room_at g" "gw_db h = gw_db g" "gw_user h = gw_user g" "gw_next h = gw_next g"
    "gw_socket h = gw_socket g" "gw_conn h c = None" "gw_rooms h = gw_rooms g" "epoch_of h = epoch_of g"
    "gw_clientRoom h = gw_clientRoom g"
    using inv_clear_conn[OF assms(1)] by (simp_all add: h_def gateway_simps epoch_of_def[abs_def])
  define k where "k = set_room r ((room_at g r)\<lparr>rs_clients := set_add c (rs_clients (room_at g r))\<rparr>) h"
  have k: "gw_inv k"
    unfolding k_def
  proof (rule inv_set_room[OF h(1)])
    show "room_ok (gw_db h) ((room_at g r)\<lparr>rs_clients := set_add c (rs_clients (room_at g r))\<rparr>)"
      using room_ok_at[OF assms(1) ref(1)] by (simp add: room_ok_def h)
    show "gw_socket h d \<noteq> None \<and> gw_conn h d = None
        \<and> allowed (gw_db h) (gw_user h d) (rs_roomId ((room_at g r)\<lparr>rs_clients := set_add c (rs_clients (room_at g r))\<rparr>))"
      if "d \<in> set (rs_clients ((room_at g r)\<lparr>rs_clients := set_add c (rs_clients (room_at g r))\<rparr>))" for d
      using that clients_at[OF h(1), of r d] ref al conn_at(2)[OF assms(1,2)] by (auto simp: h)
    show "covers (rs_currentKeyId ((room_at g r)\<lparr>rs_clients := set_add c (rs_clients (room_at g r))\<rparr>))
        (rs_dbId ((room_at g r)\<lparr>rs_clients := set_add c (rs_clients (room_at g r))\<rparr>)) (epoch_of h)"
      if "(rs_roomId ((room_at g r)\<lparr>rs_clients := set_add c (rs_clients (room_at g r))\<rparr>), r) \<in> set (gw_rooms h)"
        and "rs_roomId ((room_at g r)\<lparr>rs_clients := set_add c (rs_clients (room_at g r))\<rparr>) \<noteq> default_room"
      using that inv_epoch_at[OF assms(1), of n r] ref by (simp add: epoch_ok_def h)
    show "d \<in> set (rs_clients ((room_at g r)\<lparr>rs_clients := set_add c (rs_clients (room_at g r))\<rparr>))"
      if "gw_listening h d = Some r" for d
      using that listener_at[OF h(1), of d r] by (simp add: h)
  qed (simp_all add: h ref)
  define m where "m = count_metric inc_ws_connections (k\<lparr>gw_clientRoom := AList.update c n (gw_clientRoom k)\<rparr>)"
  have kf: "gw_clientRoom k = gw_clientRoom g" "gw_socket k = gw_socket g" "gw_conn k = gw_conn h" "gw_metrics k = gw_metrics g"
    by (simp_all add: k_def gateway_simps h) (simp add: h_def)
  have "gw_inv m"
    unfolding m_def
  proof (rule inv_client_room[OF k])
    have p: "phase_ok (k\<lparr>gw_clientRoom := x\<rparr>) = phase_ok k" for x
      by (simp add: phase_ok_def[abs_def] ref_ok_def[abs_def] room_at_def[abs_def])
    show "conns_ok (k\<lparr>gw_clientRoom := AList.update c n (gw_clientRoom k)\<rparr>)"
      using gw_invD(5)[OF k] h(7) by (auto simp: conns_ok_def p keys_update kf)
    show "gauge_ok (count_metric inc_ws_connections (k\<lparr>gw_clientRoom := AList.update c n (gw_clientRoom k)\<rparr>))"
      using gw_invD(6)[OF assms(1)] out conn_at(2)[OF assms(1,2)]
      by (auto simp: gauge_ok_def gateway_simps kf outside_def length_update_new distinct_update keys_update)
  qed
  then have al: "gw_inv (m\<lparr>gw_alive := (gw_alive g)(c \<mapsto> True)\<rparr>)"
    by (rule quiet_inv[OF quiet_update_irrelevant(4)])
  have "gw_listening (m\<lparr>gw_alive := (gw_alive g)(c \<mapsto> True)\<rparr>) = gw_listening g" "gw_next m = gw_next g"
    "c \<in> set (rs_clients (room_at m r))"
    by (simp_all add: m_def k_def gateway_simps h) (simp add: h_def)
  with inv_listen[OF al, of r c] ref(1)
  have "gw_inv ((m\<lparr>gw_alive := (gw_alive g)(c \<mapsto> True)\<rparr>)\<lparr>gw_listening := (gw_listening g)(c \<mapsto> r)\<rparr>)"
    by (simp add: gateway_simps)
  moreover have "fst (join_room E c n r g)
      = (m\<lparr>gw_alive := (gw_alive g)(c \<mapsto> True)\<rparr>)\<lparr>gw_listening := (gw_listening g)(c \<mapsto> r)\<rparr>"
    by (simp add: join_room_def Let_def m_def k_def h_def set_room_def count_metric_def room_at_def)
  ultimately show ?thesis by simp
qed

text \<open>Leaving and garbage collection.\<close>

lemma inv_gc_timers:
  assumes "gw_inv g" and "list_all (ref_ok g) ts"
  shows "gw_inv (g\<lparr>gw_gcTimers := ts\<rparr>)"
proof -
  have at: "room_at (g\<lparr>gw_gcTimers := ts\<rparr>) = room_at g" "ref_ok (g\<lparr>gw_gcTimers := ts\<rparr>) = ref_ok g"
    "epoch_ok (g\<lparr>gw_gcTimers := ts\<rparr>) = epoch_ok g" "phase_ok (g\<lparr>gw_gcTimers := ts\<rparr>) = phase_ok g"
    by (simp_all add: room_at_def[abs_def] ref_ok_def[abs_def] epoch_ok_def[abs_def] epoch_of_def[abs_def]
        phase_ok_def[abs_def])
  show ?thesis
    using assms by (simp add: gw_inv_def heap_ok_def refs_ok_def clients_ok_def conns_ok_def gauge_ok_def
        maps_ok_def epochs_ok_def listen_ok_def at)
qed

lemma in_keys_delete: "(k, v) \<in> set (AList.delete c m) \<Longrightarrow> (k, v) \<in> set m"
  by (simp add: AList.delete_eq)

lemma inv_handle_disconnect:
  assumes inv: "gw_inv g" and quiet_c: "gw_listening g c = None"
  shows "gw_inv (fst (handle_disconnect E c g))"
proof (cases "map_of (gw_clientRoom g) c")
  case None
  with inv show ?thesis by (simp add: handle_disconnect_def)
next
  case (Some n)
  define h where "h = count_metric dec_ws_connections (g\<lparr>gw_clientRoom := AList.delete c (gw_clientRoom g)\<rparr>)"
  have cin: "c \<in> fst ` set (gw_clientRoom g)"
    using map_of_SomeD[OF Some] by force
  have h: "gw_inv h"
    unfolding h_def
  proof (rule inv_client_room[OF inv])
    have p: "phase_ok (g\<lparr>gw_clientRoom := x\<rparr>) = phase_ok g" for x
      by (simp add: phase_ok_def[abs_def] ref_ok_def[abs_def] room_at_def[abs_def])
    show "conns_ok (g\<lparr>gw_clientRoom := AList.delete c (gw_clientRoom g)\<rparr>)"
      using gw_invD(5)[OF inv] by (auto simp: conns_ok_def p dest!: in_keys_delete)
    show "gauge_ok (count_metric dec_ws_connections (g\<lparr>gw_clientRoom := AList.delete c (gw_clientRoom g)\<rparr>))"
      using gw_invD(6)[OF inv] cin length_delete_key[of "gw_clientRoom g" c]
      by (auto simp: gauge_ok_def gateway_simps distinct_delete dest!: in_keys_delete)
  qed
  show ?thesis
  proof (cases "n = [] \<or> map_of (gw_rooms g) n = None")
    case True
    with Some h inv show ?thesis
      by (auto simp: handle_disconnect_def Let_def h_def[symmetric] split: option.split)
        (simp_all add: h_def count_metric_def)
  next
    case False
    then obtain r where r: "map_of (gw_rooms g) n = Some r" by auto
    have rooms: "map_of (gw_rooms h) n = Some r"
      using r by (simp add: h_def gateway_simps)
    then have ref: "r < gw_next h" "rs_roomId (room_at h r) = n"
      using refs_in(1)[OF h map_of_SomeD[OF rooms]] by (simp_all add: ref_ok_def)
    have quiet_h: "gw_listening h c = None"
      using quiet_c by (simp add: h_def gateway_simps)
    define k where "k = set_room r ((room_at h r)\<lparr>rs_clients := set_delete c (rs_clients (room_at h r))\<rparr>) h"
    have k: "gw_inv k"
      unfolding k_def
      by (rule inv_set_room[OF h ref(1)])
        (use room_ok_at[OF h ref(1)] clients_at[OF h ref(1)] inv_epoch_at[OF h, of _ r] listener_at[OF h] quiet_h in
          \<open>auto simp: room_ok_def epoch_ok_def\<close>)
    have lk: "live k r" "ref_ok k (n, r)"
      using live_inv[OF k, of r] ref by (simp_all add: k_def gateway_simps ref_ok_def)
    define x where "x = (case gw_awarenessIds k c of None \<Rightarrow> (k, [])
      | Some ids \<Rightarrow> if ids = [] then (k, [])
          else andThen (change_awareness E r (aw_remove (ge_aw E) ids (rs_awareness (room_at k r))) None k)
            (\<lambda>g. (g\<lparr>gw_awarenessIds := (gw_awarenessIds g)(c := None)\<rparr>, [])))"
    have qx: "quiet k (fst x)"
      unfolding x_def
      by (auto split: option.split intro!: quiet_andThen quiet_change_awareness[OF lk(1)] quiet_update_irrelevant)
    have ix: "gw_inv (fst x)" "ref_ok (fst x) (n, r)"
      using quiet_inv[OF qx k] quiet_ref_ok[OF qx] lk(2) by simp_all
    have "list_all (ref_ok (fst x)) (gw_gcTimers (fst x) @ [(n, r)])"
      using gw_invD(3)[OF ix(1)] ix(2) by (simp add: refs_ok_def)
    then have t: "gw_inv ((fst x)\<lparr>gw_gcTimers := gw_gcTimers (fst x) @ [(n, r)]\<rparr>)"
      by (rule inv_gc_timers[OF ix(1)])
    have eq: "handle_disconnect E c g = andThen x
      (\<lambda>g. (if rs_clients (room_at g r) = [] then g\<lparr>gw_gcTimers := gw_gcTimers g @ [(n, r)]\<rparr> else g, []))"
      unfolding x_def k_def using Some False rooms
      by (simp add: handle_disconnect_def Let_def h_def[symmetric])
    from ix(1) t show ?thesis
      unfolding eq by (simp add: andThen_def split_beta)
  qed
qed

lemma inv_socket_closed:
  assumes "gw_inv g" and "gw_socket g c \<noteq> None"
  shows "gw_inv (fst (socket_closed E c g))"
proof -
  have "quiet g (g\<lparr>gw_socket := (gw_socket g)(c \<mapsto> Closed), gw_listening := (gw_listening g)(c := None)\<rparr>)"
    using assms(2) by (auto simp: quiet_def room_at_def ref_ok_def[abs_def] split: if_splits)
  from inv_handle_disconnect[OF quiet_inv[OF this assms(1)]] show ?thesis
    by (simp add: socket_closed_def)
qed

lemma inv_forget_room:
  assumes "gw_inv g"
  shows "gw_inv (g\<lparr>gw_rooms := AList.delete n (gw_rooms g), gw_roomInitMap := AList.delete n (gw_roomInitMap g)\<rparr>)"
    (is "gw_inv ?h")
proof -
  have at: "room_at ?h = room_at g" "ref_ok ?h = ref_ok g" "epoch_ok ?h = epoch_ok g" "phase_ok ?h = phase_ok g"
    by (simp_all add: room_at_def[abs_def] ref_ok_def[abs_def] epoch_ok_def[abs_def] epoch_of_def[abs_def]
        phase_ok_def[abs_def])
  show ?thesis
    using assms by (simp add: gw_inv_def heap_ok_def refs_ok_def clients_ok_def conns_ok_def gauge_ok_def
        maps_ok_def epochs_ok_def listen_ok_def at list_all_delete distinct_delete)
qed

lemma quiet_destroy_room:
  assumes "live g r"
  shows "quiet g (fst (destroy_room E r g))"
  unfolding destroy_room_def
proof (rule quiet_andThen)
  show "quiet g (fst (change_awareness E r (aw_destroy (ge_aw E) (rs_awareness (room_at g r))) None g))"
    by (rule quiet_change_awareness[OF assms])
  show "quiet h (fst (set_room r ((room_at h r)\<lparr>rs_destroyed := True\<rparr>) h, []))" if "quiet g h" for h
    using quiet_set_room[OF live_quiet[OF that assms], of "(room_at h r)\<lparr>rs_destroyed := True\<rparr>"]
    by (simp add: same_room_def)
qed

lemma inv_gc_fire:
  assumes "gw_inv g" and "ref_ok g (n, r)"
  shows "gw_inv (fst (gc_fire E n r g))"
proof -
  define h where "h = (case map_of (gw_persistTimers g) n of None \<Rightarrow> g
    | Some _ \<Rightarrow> persist_room_state E r (g\<lparr>gw_persistTimers := AList.delete n (gw_persistTimers g)\<rparr>))"
  have qh: "quiet g h"
    unfolding h_def by (auto split: option.split intro: quiet_trans[OF quiet_drop_timer quiet_persist])
  have lh: "live h r"
    using live_quiet[OF qh live_inv[OF assms(1)]] assms(2) by (simp add: ref_ok_def)
  have k: "gw_inv (fst (destroy_room E r h))"
    by (rule quiet_inv[OF quiet_destroy_room[OF lh] quiet_inv[OF qh assms(1)]])
  have m: "quiet k (count_metric (remove_yjs_state_bytes n) (count_metric dec_rooms_loaded k))" for k :: "('a, 'b) gateway"
    by (rule quiet_trans[OF quiet_count quiet_count]) (simp_all add: gateway_simps)
  show ?thesis
    using assms(1) quiet_inv[OF m inv_forget_room[OF k, of n]]
    unfolding gc_fire_def h_def[symmetric] Let_def
    by (simp add: andThen_def split_beta)
qed

lemma inv_gc_timer:
  assumes "gw_inv g" and "i < length (gw_gcTimers g)"
  shows "gw_inv (fst (gc_timer E i g))"
proof -
  obtain n r where nr: "gw_gcTimers g ! i = (n, r)"
    by (cases "gw_gcTimers g ! i")
  let ?h = "g\<lparr>gw_gcTimers := take i (gw_gcTimers g) @ drop (Suc i) (gw_gcTimers g)\<rparr>"
  have ts: "list_all (ref_ok g) (gw_gcTimers g)"
    using gw_invD(3)[OF assms(1)] by (simp add: refs_ok_def)
  then have "list_all (ref_ok g) (take i (gw_gcTimers g) @ drop (Suc i) (gw_gcTimers g))"
    by (auto simp: list_all_iff dest: in_set_takeD in_set_dropD)
  then have h: "gw_inv ?h"
    by (rule inv_gc_timers[OF assms(1)])
  have "ref_ok ?h (n, r)"
    using ts assms(2) nr nth_mem[OF assms(2)] by (auto simp: list_all_iff ref_ok_def room_at_def)
  from inv_gc_fire[OF h this] show ?thesis
    by (simp add: gc_timer_def nr)
qed

text \<open>Epochs.\<close>

lemma raise_loop_fields [gateway_simps]:
  "gw_next (fst (raise_loop E i k rs g)) = gw_next g" "gw_db (fst (raise_loop E i k rs g)) = gw_db g"
  "gw_rooms (fst (raise_loop E i k rs g)) = gw_rooms g"
  "gw_roomInitMap (fst (raise_loop E i k rs g)) = gw_roomInitMap g"
  "gw_persistTimers (fst (raise_loop E i k rs g)) = gw_persistTimers g"
  "gw_gcTimers (fst (raise_loop E i k rs g)) = gw_gcTimers g"
  "gw_socket (fst (raise_loop E i k rs g)) = gw_socket g" "gw_conn (fst (raise_loop E i k rs g)) = gw_conn g"
  "gw_user (fst (raise_loop E i k rs g)) = gw_user g"
  "gw_clientRoom (fst (raise_loop E i k rs g)) = gw_clientRoom g"
  "gw_metrics (fst (raise_loop E i k rs g)) = gw_metrics g"
  "gw_epochByDbId (fst (raise_loop E i k rs g)) = gw_epochByDbId g"
  "gw_listening (fst (raise_loop E i k rs g)) = gw_listening g"
  by (induction rs arbitrary: g) (simp_all add: Let_def gateway_simps)

lemma raise_loop_room:
  "room_at (fst (raise_loop E i k rs g)) q =
    (if q \<in> set rs \<and> rs_dbId (room_at g q) = Some i \<and> rs_currentKeyId (room_at g q) < k
     then (room_at g q)\<lparr>rs_currentKeyId := k\<rparr> else room_at g q)"
  by (induction rs arbitrary: g) (auto simp: Let_def gateway_simps)

lemma raise_loop_heap:
  "\<forall>r \<in> set rs. gw_heap g r \<noteq> None \<Longrightarrow> gw_heap (fst (raise_loop E i k rs g)) q = None \<longleftrightarrow> gw_heap g q = None"
proof (induction rs arbitrary: g)
  case (Cons r rs)
  have "\<forall>r \<in> set rs. gw_heap (set_room r' s g) r \<noteq> None" for r' s
    using Cons.prems by (auto simp: set_room_def)
  with Cons show ?case
    by (auto simp: Let_def) (auto simp: set_room_def split: if_splits)
qed simp

lemma inv_raise_epoch:
  assumes "gw_inv g"
  shows "gw_inv (fst (raise_epoch E i k g))"
proof -
  define g0 where "g0 = g\<lparr>gw_epochByDbId := (gw_epochByDbId g)(i \<mapsto> max (epoch_of g i) k)\<rparr>"
  define h where "h = fst (raise_epoch E i k g)"
  have hdef: "h = fst (raise_loop E i k (map snd (gw_rooms g)) g0)"
    by (simp add: h_def raise_epoch_def g0_def)
  note inv = gw_invD[OF assms]
  have g0: "room_at g0 = room_at g" "gw_heap g0 = gw_heap g"
    by (simp_all add: g0_def room_at_def[abs_def])
  have at: "room_at h q = (if q \<in> snd ` set (gw_rooms g) \<and> rs_dbId (room_at g q) = Some i
      \<and> rs_currentKeyId (room_at g q) < k then (room_at g q)\<lparr>rs_currentKeyId := k\<rparr> else room_at g q)" for q
    unfolding hdef by (simp add: raise_loop_room g0)
  have f: "gw_next h = gw_next g" "gw_db h = gw_db g" "gw_rooms h = gw_rooms g"
    "gw_roomInitMap h = gw_roomInitMap g" "gw_persistTimers h = gw_persistTimers g"
    "gw_gcTimers h = gw_gcTimers g" "gw_socket h = gw_socket g" "gw_conn h = gw_conn g"
    "gw_user h = gw_user g" "gw_clientRoom h = gw_clientRoom g" "gw_metrics h = gw_metrics g"
    "gw_listening h = gw_listening g"
    unfolding hdef by (simp_all add: gateway_simps g0_def)
  have ep: "epoch_of h j = (if j = i then max (epoch_of g i) k else epoch_of g j)" for j
    unfolding hdef by (simp add: epoch_of_def gateway_simps g0_def)
  have same: "rs_roomId (room_at h q) = rs_roomId (room_at g q)" "rs_clients (room_at h q) = rs_clients (room_at g q)"
    "rs_dbId (room_at h q) = rs_dbId (room_at g q)" "rs_load (room_at h q) = rs_load (room_at g q)" for q
    by (simp_all add: at)
  have ref: "ref_ok h = ref_ok g"
    by (rule ext) (simp add: ref_ok_def same f)
  have heap: "gw_heap h q = None \<longleftrightarrow> gw_heap g q = None" for q
  proof -
    have "gw_heap g r \<noteq> None" if "(n, r) \<in> set (gw_rooms g)" for n r
      using refs_in(1)[OF assms that] inv(2) by (simp add: ref_ok_def heap_ok_def)
    then have "\<forall>r \<in> set (map snd (gw_rooms g)). gw_heap g0 r \<noteq> None"
      by (auto simp: g0)
    from raise_loop_heap[OF this, of E i k q] show ?thesis
      by (simp add: hdef g0)
  qed
  have "heap_ok h"
    using inv(2) heap by (simp add: heap_ok_def f room_ok_def same)
  moreover have "refs_ok h" "maps_ok h" "gauge_ok h"
    using inv(3,6,7) by (simp_all add: refs_ok_def ref f maps_ok_def gauge_ok_def)
  moreover have "clients_ok h"
    using inv(4) by (simp add: clients_ok_def f same)
  moreover have "conns_ok h"
    using inv(5) by (simp add: conns_ok_def phase_ok_def f ref split: conn_phase.splits)
  moreover have "epochs_ok h"
  proof -
    have "epoch_ok h (n, r)" if m: "(n, r) \<in> set (gw_rooms g)" for n r
    proof (cases "rs_dbId (room_at g r)")
      case None
      then show ?thesis by (simp add: epoch_ok_def same)
    next
      case (Some j)
      have r: "r \<in> snd ` set (gw_rooms g)"
        using m by force
      have "n \<noteq> default_room \<Longrightarrow> epoch_of g j \<le> rs_currentKeyId (room_at g r)"
        using inv_epoch_at[OF assms m] Some by (simp add: epoch_ok_def)
      with Some r show ?thesis
        by (simp add: epoch_ok_def same ep) (auto simp: at)
    qed
    then show ?thesis by (auto simp: epochs_ok_def f list_all_iff)
  qed
  moreover have "listen_ok h"
    using inv(9) by (simp add: listen_ok_def f same)
  ultimately show ?thesis
    using inv(1) by (simp add: gw_inv_def f h_def[symmetric])
qed

lemma inv_pmessage:
  assumes "gw_inv g"
  shows "gw_inv (fst (pmessage E channel message g))"
proof -
  have l: "live g r" if "map_of (gw_rooms g) n = Some r" for n r
    using refs_in(1)[OF assms map_of_SomeD[OF that]] live_inv[OF assms] by (simp add: ref_ok_def)
  have d: "gw_inv (fst (change_doc E r x FromRedis g))" if "map_of (gw_rooms g) n = Some r" for n r x
    by (rule quiet_inv[OF quiet_change_doc[OF l[OF that]] assms])
  have a: "gw_inv (fst (change_awareness E r x (Some FromRedis) g))" if "map_of (gw_rooms g) n = Some r" for n r x
    by (rule quiet_inv[OF quiet_change_awareness[OF l[OF that]] assms])
  show ?thesis
    unfolding pmessage_def
    by (auto simp: assms inv_raise_epoch intro: d a split: option.split)
qed

section \<open>Every step keeps the invariant\<close>

lemma heap_ref: "gw_inv g \<Longrightarrow> gw_heap g r = Some s \<Longrightarrow> r < gw_next g \<and> room_at g r = s"
  by (auto simp: gw_inv_def heap_ok_def room_at_def)

lemma load_step_inv:
  assumes "gw_inv g" and "gw_heap g r = Some s"
  shows "rs_load s = Finding \<Longrightarrow> gw_inv (load_find r g) \<and> gw_inv (set_load r Failed g)"
    and "rs_load s = Found row \<Longrightarrow> gw_inv (load_found E r row g)"
    and "rs_load s = Upserting \<Longrightarrow> gw_inv (load_upsert fresh r g)"
    and "rs_load s = Upserted res \<Longrightarrow> gw_inv (load_upserted r res g)"
  using heap_ref[OF assms] inv_load_find[OF assms(1)] inv_load_found[OF assms(1)]
    inv_load_upsert[OF assms(1)] inv_load_upserted[OF assms(1)] inv_set_load[OF assms(1), of r Failed]
  by (auto simp: load_ok_def)

lemma step_inv:
  assumes "gw_inv g" and "g_step E known e g = Some (h, es)"
  shows "gw_inv h"
proof (cases e)
  case (EConnect c room header)
  with assms inv_handle_connection[of g c E room header] show ?thesis
    by (auto simp: g_step_def split: if_splits)
next
  case (ECheckMember c)
  with assms inv_check_member[OF assms(1), of c] show ?thesis
    by (auto simp: g_step_def split: option.splits conn_phase.splits)
next
  case (EMemberKnown c)
  with assms inv_member_known[OF assms(1), of c _ _ E] show ?thesis
    by (auto simp: g_step_def split: option.splits conn_phase.splits)
next
  case (EQueryFails c)
  with assms inv_clear_conn[OF assms(1), of c] show ?thesis
    by (auto simp: g_step_def join_failed_def split: option.splits conn_phase.splits)
next
  case (ELoadFind r)
  with assms load_step_inv[OF assms(1), of r] show ?thesis
    by (auto simp: g_step_def split: option.splits if_splits)
next
  case (ELoadFails r)
  with assms load_step_inv[OF assms(1), of r] show ?thesis
    by (auto simp: g_step_def split: option.splits if_splits)
next
  case (ELoadFound r)
  with assms load_step_inv[OF assms(1), of r] show ?thesis
    by (auto simp: g_step_def split: option.splits load_state.splits)
next
  case (ELoadUpsert fresh r)
  with assms load_step_inv[OF assms(1), of r] show ?thesis
    by (auto simp: g_step_def split: option.splits if_splits)
next
  case (ELoadUpserted r)
  with assms load_step_inv[OF assms(1), of r] show ?thesis
    by (auto simp: g_step_def split: option.splits load_state.splits)
next
  case (EJoin c)
  with assms inv_join_room[OF assms(1), of c _ _ E] inv_clear_conn[OF assms(1), of c] show ?thesis
    by (auto simp: g_step_def join_failed_def split: option.splits conn_phase.splits load_state.splits)
next
  case (EMessage now c data)
  with assms(2) obtain r where r: "gw_listening g c = Some r" "h = fst (handle_message E now c r data g)"
    by (auto simp: g_step_def split: option.splits)
  with quiet_inv[OF quiet_message assms(1)] live_inv[OF assms(1) listener_at(1)[OF assms(1) r(1)]] show ?thesis
    by simp
next
  case (EClosed c)
  with assms inv_socket_closed[OF assms(1), of c E] show ?thesis
    by (auto simp: g_step_def split: if_splits)
next
  case (EPong c)
  with assms quiet_inv[OF quiet_update_irrelevant(4) assms(1)] show ?thesis
    by (auto simp: g_step_def on_pong_def split: if_splits)
next
  case ESweep
  with assms quiet_inv[OF quiet_sweep_loop[of g "server_clients g known"] assms(1)] show ?thesis
    by (auto simp: g_step_def sweep_heartbeats_def)
next
  case (EGcTimer i)
  with assms inv_gc_timer[OF assms(1), of i E] show ?thesis
    by (auto simp: g_step_def split: if_splits)
next
  case (EPersistTimer n)
  with assms quiet_inv[OF quiet_persist_fire[of g E n] assms(1)] show ?thesis
    by (auto simp: g_step_def split: option.splits)
next
  case (EWriteLands i)
  with assms quiet_inv[OF quiet_write[OF assms(1)] assms(1)] show ?thesis
    by (auto simp: g_step_def split: if_splits)
next
  case (EResyncTimer c)
  with assms quiet_inv[OF quiet_update_irrelevant(3) assms(1)] show ?thesis
    by (auto simp: g_step_def resync_fire_def split: option.splits if_splits)
next
  case (ERedis channel message)
  with assms inv_pmessage[OF assms(1), of E channel message] show ?thesis
    by (auto simp: g_step_def)
next
  case (EEpochAdvanced i k)
  with assms inv_raise_epoch[OF assms(1), of E i k] show ?thesis
    by (auto simp: g_step_def on_epoch_advanced_def andThen_def split: prod.splits)
qed

lemma g_reach_inv:
  assumes "g_reach E known d0 g es" and "db_inv d0"
  shows "gw_inv g"
  using assms(1)
proof (induction rule: g_reach.induct)
  case start
  show ?case by (rule gw_inv_empty[OF assms(2)])
next
  case (database g es d)
  then show ?case using quiet_inv[OF quiet_db] by blast
next
  case (step g es e g' es')
  then show ?case using step_inv by blast
qed

lemma g_run_reach:
  assumes "g_reach E known d0 g es" and "g_run E known evs g = Some (h, fs)"
  shows "g_reach E known d0 h (es @ fs)"
  using assms
proof (induction evs arbitrary: g es fs)
  case (Cons e evs)
  then obtain k e1 f1 where k: "g_step E known e g = Some (k, e1)" "g_run E known evs k = Some (h, f1)" "fs = e1 @ f1"
    by (auto split: option.splits)
  from Cons.IH[OF g_reach.step[OF Cons.prems(1) k(1)] k(2)] k(3) show ?case by simp
qed simp

end
