(* ===== verification/Gateway_Properties.thy ===== *)
theory Gateway_Properties
  imports Gateway_Inv
begin

text \<open>
  What the gateway promises, in every state its handlers, timers, queries and Redis messages can reach
  in any order: only members are in a room, only enveloped updates enter an encrypted one, a raised
  epoch is not lost to a room being loaded and reaches its clients, and the connection gauge counts
  the sockets in rooms. The run of two sockets at the end carries the witnesses.
\<close>

section \<open>Lemmas\<close>

interpretation resync_backoff: retry_delay "\<lambda>n. resync_delay (Suc n)" reject_resync_base_ms reject_resync_max_ms
proof -
  have "(\<lambda>n. resync_delay (Suc n)) = capped_backoff reject_resync_base_ms reject_resync_max_ms"
    by (simp add: resync_delay_def fun_eq_iff)
  then show "retry_delay (\<lambda>n. resync_delay (Suc n)) reject_resync_base_ms reject_resync_max_ms"
    using capped_backoff_retry_delay[of reject_resync_base_ms reject_resync_max_ms]
    by (simp add: reject_resync_base_ms_def reject_resync_max_ms_def)
qed

definition gated :: "('d, 'a) room_state \<Rightarrow> bool" where
  "gated s \<longleftrightarrow> 0 < rs_currentKeyId s \<and> rs_roomId s \<noteq> default_room"

lemma change_doc_same:
  assumes "y_delta (ge_yjs E) (rs_doc (room_at g r)) d = None \<or> rs_load (room_at g r) \<noteq> Ready"
  shows "change_doc E r d org g = (set_room r ((room_at g r)\<lparr>rs_doc := d\<rparr>) g, [])"
  using assms by (auto simp: change_doc_def Let_def split: option.split)

lemma change_doc_ready:
  assumes "y_delta (ge_yjs E) (rs_doc (room_at g r)) d = Some u" and "rs_load (room_at g r) = Ready"
    and "\<not> rs_destroyed (room_at g r)"
  shows "change_doc E r d org g = on_room_update E r u org (set_room r ((room_at g r)\<lparr>rs_doc := d\<rparr>) g)"
  using assms by (simp add: change_doc_def Let_def)

lemma fan_out_set_room:
  "rs_clients s = rs_clients (room_at g r) \<Longrightarrow> fan_out (set_room r s g) r org f = fan_out g r org f"
  by (simp add: fan_out_def gateway_simps is_open_def)

lemma fan_out_count: "fan_out (count_metric m g) r org f = fan_out g r org f"
  by (simp add: fan_out_def gateway_simps is_open_def)

lemma on_room_update_doc:
  "rs_doc (room_at (fst (on_room_update E r u org g)) q) = rs_doc (room_at g q)"
  by (simp add: on_room_update_def Let_def schedule_persist_def gateway_simps)

lemma change_doc_doc:
  "rs_doc (room_at (fst (change_doc E r d org g)) q) = (if q = r then d else rs_doc (room_at g q))"
  by (simp add: change_doc_def Let_def on_room_update_doc gateway_simps split: option.split)

fun is_publish :: "gateway_effect \<Rightarrow> bool" where
  "is_publish (Publish channel payload) = True"
| "is_publish _ = False"

lemma send_step1_quiet [simp]: "list_all (\<lambda>e. \<not> is_publish e) (send_step1 E c r g)"
  by (simp add: send_step1_def)

lemma ask_for_resync_room [gateway_simps]: "room_at (fst (ask_for_resync E c r b g)) q = room_at g q"
  by (simp add: ask_for_resync_def room_at_def Let_def)

lemma ask_for_resync_quiet [simp]: "list_all (\<lambda>e. \<not> is_publish e) (snd (ask_for_resync E c r b g))"
  by (simp add: ask_for_resync_def Let_def)

text \<open>The payload of a frame that carries an update, as the gate and \<open>readSyncMessage\<close> read it.\<close>

definition carried_update :: "'d lib0 \<Rightarrow> bytes \<Rightarrow> bytes option" where
  "carried_update L body = (case l_get_uint L body of None \<Rightarrow> None
     | Some (t, r) \<Rightarrow> if t = sync_step2 \<or> t = sync_update
         then map_option fst (l_get_bytes L r) else None)"

lemma gate_accepts:
  assumes "gated room" and "plaintext_into_e2ee_room E room body = Inr None"
    and "carried_update (ge_lib E) body = Some u"
  shows "check_enveloped_update (ge_decode E) u = GateOk"
  using assms
  by (auto simp: plaintext_into_e2ee_room_def gated_def carried_update_def
      split: option.splits if_splits gate_result.splits)

lemma read_sync_doc:
  assumes "sync_laws Y L" and "l_read_sync L body d = Some (t, reply, d')" and "d' \<noteq> d"
  shows "\<exists>u. carried_update L body = Some u \<and> y_apply Y u d = Some d'"
  using assms(2,3) sync_lawsD(2)[OF assms(1), of body d]
  by (auto simp: carried_update_def split: option.splits if_splits)

section \<open>Properties\<close>

text \<open>C14. In every reachable state each client of a room is an authenticated user, and in a room
  other than the lobby a member of it in the database; a frame is handled only for a client of the
  room its listener captured.\<close>

theorem only_members_in_rooms:
  assumes "g_reach E known d0 g es" and "db_inv d0" and "r < gw_next g" and "c \<in> set (rs_clients (room_at g r))"
  shows "(case gw_user g c of None \<Rightarrow> False
    | Some u \<Rightarrow> rs_roomId (room_at g r) = default_room \<or> is_member (gw_db g) (rs_roomId (room_at g r)) u)
    \<and> (case gw_listening g d of None \<Rightarrow> True | Some q \<Rightarrow> d \<in> set (rs_clients (room_at g q)))"
  using clients_at[OF g_reach_inv[OF assms(1,2)] assms(3,4)] listener_at(2)[OF g_reach_inv[OF assms(1,2)], of d]
  by (simp add: allowed_def split: option.splits)

text \<open>C16. The connection gauge counts exactly the sockets the gateway has in a room: each joined
  socket once, never negative, whatever the order of joins, closes, failed loads and collections.\<close>

theorem connection_gauge_exact:
  assumes "g_reach E known d0 g es" and "db_inv d0"
  shows "mt_wsConnections (gw_metrics g) = int (card (fst ` set (gw_clientRoom g)))
    \<and> 0 \<le> mt_wsConnections (gw_metrics g)"
proof -
  have "gauge_ok g"
    using gw_invD(6)[OF g_reach_inv[OF assms]] .
  then show ?thesis
    using distinct_card[of "map fst (gw_clientRoom g)"] by (simp add: gauge_ok_def)
qed

text \<open>C15. No epoch event is lost while a room loads: in every reachable state a room of the map
  other than the lobby, once its row is known, has at least the highest epoch the instance has
  seen for it, however the claim and the load interleave.\<close>

theorem epoch_events_not_lost:
  assumes "g_reach E known d0 g es" and "db_inv d0"
    and "map_of (gw_rooms g) name = Some r" and "name \<noteq> default_room"
  shows "(case rs_dbId (room_at g r) of None \<Rightarrow> True | Some i \<Rightarrow> epoch_of g i \<le> rs_currentKeyId (room_at g r))
    \<and> (rs_load (room_at g r) \<noteq> Ready \<or> rs_dbId (room_at g r) \<noteq> None)"
proof -
  note inv = g_reach_inv[OF assms(1,2)]
  have m: "(name, r) \<in> set (gw_rooms g)"
    using map_of_SomeD[OF assms(3)] .
  then have r: "r < gw_next g" "rs_roomId (room_at g r) = name"
    using refs_in(1)[OF inv m] by (simp_all add: ref_ok_def)
  have "rs_load (room_at g r) = Ready \<Longrightarrow> rs_dbId (room_at g r) \<noteq> None"
    using room_ok_at[OF inv r(1)] r(2) assms(4) by (simp add: room_ok_def load_ok_def)
  then show ?thesis
    using inv_epoch_at[OF inv m] assms(4) by (auto simp: epoch_ok_def split: option.split)
qed

text \<open>A claimed epoch reaches every client at once: each loaded copy of the room that was behind
  is raised to it and each of its clients is sent the epoch frame once; rooms of other ids and
  rooms already there are untouched and nobody else is sent anything.\<close>

theorem raised_epoch_reaches_clients:
  assumes "g_reach E known d0 g es" and "db_inv d0" and "raise_epoch E i k g = (h, out)"
  shows "room_at h r = (if r \<in> snd ` set (gw_rooms g) \<and> rs_dbId (room_at g r) = Some i
        \<and> rs_currentKeyId (room_at g r) < k then (room_at g r)\<lparr>rs_currentKeyId := k\<rparr> else room_at g r)
    \<and> out = concat (map (\<lambda>q. map (\<lambda>c. SendTo c (encode_room_epoch (ge_lib E) k)) (rs_clients (room_at g q)))
        (filter (\<lambda>q. rs_dbId (room_at g q) = Some i \<and> rs_currentKeyId (room_at g q) < k) (map snd (gw_rooms g))))
    \<and> epoch_of h i = max (epoch_of g i) k"
proof -
  have out: "snd (raise_loop E i k rs s) = concat (map (\<lambda>q. map (\<lambda>c. SendTo c (encode_room_epoch (ge_lib E) k))
      (rs_clients (room_at s q))) (filter (\<lambda>q. rs_dbId (room_at s q) = Some i \<and> rs_currentKeyId (room_at s q) < k) rs))"
    if "distinct rs" for rs s
    using that
  proof (induction rs arbitrary: s)
    case (Cons q rs)
    have same: "filter (\<lambda>p. rs_dbId (room_at (set_room q x s) p) = Some i \<and> rs_currentKeyId (room_at (set_room q x s) p) < k) rs
        = filter (\<lambda>p. rs_dbId (room_at s p) = Some i \<and> rs_currentKeyId (room_at s p) < k) rs" for x
      using Cons.prems by (intro filter_cong) (auto simp: gateway_simps)
    have clients: "map (\<lambda>p. map f (rs_clients (room_at (set_room q x s) p))) (filter P rs)
        = map (\<lambda>p. map f (rs_clients (room_at s p))) (filter P rs)" for x P and f :: "nat \<Rightarrow> gateway_effect"
      using Cons.prems by (intro map_cong) (auto simp: gateway_simps)
    from Cons show ?case by (simp add: Let_def same clients not_less)
  qed simp
  have dist: "distinct (map snd (gw_rooms g))"
  proof -
    note inv = g_reach_inv[OF assms(1,2)]
    have keys: "distinct (map fst (gw_rooms g))"
      using gw_invD(7)[OF inv] by (simp add: maps_ok_def)
    have name: "n = rs_roomId (room_at g q)" if "(n, q) \<in> set (gw_rooms g)" for n q
      using refs_in(1)[OF inv that] by (simp add: ref_ok_def)
    have "inj_on snd (set (gw_rooms g))"
    proof (rule inj_onI)
      fix x y
      assume xy: "x \<in> set (gw_rooms g)" "y \<in> set (gw_rooms g)" "snd x = snd y"
      then have "fst x = rs_roomId (room_at g (snd x))" "fst y = rs_roomId (room_at g (snd y))"
        using name[of "fst x" "snd x"] name[of "fst y" "snd y"] by (metis prod.collapse)+
      with xy(3) show "x = y" by (simp add: prod_eq_iff)
    qed
    with keys show ?thesis
      by (simp add: distinct_map)
  qed
  have at: "room_at (g\<lparr>gw_epochByDbId := x\<rparr>) = room_at g" for x
    by (simp add: room_at_def[abs_def])
  have h: "h = fst (raise_epoch E i k g)" "out = snd (raise_epoch E i k g)"
    using assms(3) by simp_all
  have "epoch_of h i = max (epoch_of g i) k"
    unfolding h raise_epoch_def epoch_of_def raise_loop_fields by (simp add: epoch_of_def)
  then show ?thesis
    unfolding h raise_epoch_def using out[OF dist] by (simp add: raise_loop_room at)
qed

text \<open>C3. In an E2EE room a sync frame changes the document, or makes anything be published, only
  when it carries an update and that update passed the gate; no other room's document moves.\<close>

theorem gate_is_enforced:
  assumes "sync_laws (ge_yjs E) (ge_lib E)" and "\<forall>d. y_delta (ge_yjs E) d d = None"
    and "gated (room_at g r)" and "handle_sync_message E c r data body g = (h, out)"
  shows "(case carried_update (ge_lib E) body of
      Some u \<Rightarrow> check_enveloped_update (ge_decode E) u = GateOk
        \<or> (rs_doc (room_at h r) = rs_doc (room_at g r) \<and> list_all (\<lambda>e. \<not> is_publish e) out)
    | None \<Rightarrow> rs_doc (room_at h r) = rs_doc (room_at g r) \<and> list_all (\<lambda>e. \<not> is_publish e) out)
    \<and> (\<forall>q. q \<noteq> r \<longrightarrow> rs_doc (room_at h q) = rs_doc (room_at g q))"
proof -
  let ?P = "plaintext_into_e2ee_room E (room_at g r) body"
  have eq: "handle_sync_message E c r data body g = (h, out)"
    by (rule assms(4))
  consider (refused) "?P \<noteq> Inr None" | (unread) "?P = Inr None" "l_read_sync (ge_lib E) body (rs_doc (room_at g r)) = None"
    | (read) t reply d where "?P = Inr None" "l_read_sync (ge_lib E) body (rs_doc (room_at g r)) = Some (t, reply, d)"
    by (cases "?P = Inr None"; cases "l_read_sync (ge_lib E) body (rs_doc (room_at g r))") auto
  then show ?thesis
  proof cases
    case refused
    then have "(\<forall>q. rs_doc (room_at h q) = rs_doc (room_at g q)) \<and> list_all (\<lambda>e. \<not> is_publish e) out"
      using eq by (auto simp: handle_sync_message_def Let_def gateway_simps split: sum.splits option.splits)
    then show ?thesis by (simp split: option.split)
  next
    case unread
    then have "(\<forall>q. rs_doc (room_at h q) = rs_doc (room_at g q)) \<and> list_all (\<lambda>e. \<not> is_publish e) out"
      using eq by (auto simp: handle_sync_message_def Let_def gateway_simps)
    then show ?thesis by (simp split: option.split)
  next
    case read
    let ?g = "count_metric (inc_messages MtSync) g"
    have h: "h = fst (change_doc E r d (FromClient c) ?g)"
      and out: "\<exists>es. out = snd (change_doc E r d (FromClient c) ?g) @ es \<and> list_all (\<lambda>e. \<not> is_publish e) es"
      using eq read by (auto simp: handle_sync_message_def Let_def andThen_def gateway_simps split: prod.splits)
    have docs: "rs_doc (room_at h q) = (if q = r then d else rs_doc (room_at g q))" for q
      unfolding h change_doc_doc by (simp add: gateway_simps)
    show ?thesis
    proof (cases "d = rs_doc (room_at g r)")
      case True
      then have "snd (change_doc E r d (FromClient c) ?g) = []"
        using assms(2) by (subst change_doc_same) (simp_all add: gateway_simps)
      with out True docs show ?thesis by (auto split: option.split)
    next
      case False
      from read_sync_doc[OF assms(1) read(2) False] obtain u where u: "carried_update (ge_lib E) body = Some u"
        by blast
      from gate_accepts[OF assms(3) read(1) u] u docs show ?thesis by simp
    qed
  qed
qed


section \<open>Witnesses\<close>

text \<open>A document that is the concatenation of the updates applied to it.\<close>

definition log_yjs :: "bytes yjs" where
  "log_yjs = \<lparr>y_new = [], y_apply = (\<lambda>u d. Some (d @ u)),
     y_delta = (\<lambda>d d'. if d = d' then None else Some (drop (length d) d')),
     y_encode = (\<lambda>d. d), y_state_vector = (\<lambda>_. []), y_diff = (\<lambda>d _. d),
     y_messages = (\<lambda>_. []), y_push = (\<lambda>_ d. d), y_delete = (\<lambda>_ d. d)\<rparr>"

text \<open>The update \<open>[9]\<close> decodes to one enveloped message, the update \<open>[8]\<close> to nothing the gate lets in.\<close>

definition sample_decode :: "bytes \<Rightarrow> ystruct list option" where
  "sample_decode u = (if u = [9] then Some [YItem (ContentAny [message_value gate_sample_message])] else None)"

definition sample_gateway_env :: "(bytes, nat list) gateway_env" where
  "sample_gateway_env = \<lparr>ge_yjs = log_yjs, ge_lib = sample_lib0 log_yjs, ge_aw = list_awareness,
     ge_decode = sample_decode, ge_sha256 = (\<lambda>b. map ucast b), ge_jwt = (\<lambda>t. Some t), ge_instanceId = js ''A''\<rparr>"

lemma sample_gateway_env_laws [simp]:
  "sync_laws (ge_yjs sample_gateway_env) (ge_lib sample_gateway_env)"
  "\<forall>d. y_delta (ge_yjs sample_gateway_env) d d = None"
  by (simp_all add: sample_gateway_env_def log_yjs_def)

text \<open>A run: \<open>u\<close> connects twice to the room \<open>team\<close>, which loads while the first waits.\<close>

definition sample_team_db :: db where
  "sample_team_db = snd (rooms_create (js ''1'') (js ''team'') (js ''u'') sample_db)"

definition sample_trace :: "g_event list" where
  "sample_trace = [EConnect 1 (Some (js ''team'')) (Some (js ''bearer, u'')), ECheckMember 1, EMemberKnown 1,
     ELoadFind 0, ELoadFound 0, ELoadUpsert (js ''2'') 0, ELoadUpserted 0, EJoin 1,
     EConnect 2 (Some (js ''team'')) (Some (js ''bearer,u'')), ECheckMember 2, EMemberKnown 2, EJoin 2]"

lemma sample_team_db_inv [simp]: "db_inv sample_team_db"
  using rooms_create_inv[OF sample_db_inv surjective_pairing] by (simp add: sample_team_db_def)

lemma sample_run_result:
  "case g_run sample_gateway_env [1, 2] sample_trace (empty_gateway sample_team_db) of None \<Rightarrow> False
   | Some (g, es) \<Rightarrow> gw_next g = 1 \<and> rs_clients (room_at g 0) = [1, 2] \<and> gw_user g 2 = Some (js ''u'')
      \<and> rs_roomId (room_at g 0) = js ''team'' \<and> gw_rooms g = [(js ''team'', 0)]
      \<and> gw_clientRoom g = [(1, js ''team''), (2, js ''team'')] \<and> gw_listening g 2 = Some 0
      \<and> rs_dbId (room_at g 0) = Some (js ''1'') \<and> rs_load (room_at g 0) = Ready \<and> epoch_of g (js ''1'') = 0
      \<and> mt_wsConnections (gw_metrics g) = 2 \<and> rs_currentKeyId (room_at g 0) = 0"
  by code_simp

definition sample_outcome :: "(bytes, nat list) g_outcome" where
  "sample_outcome = the (g_run sample_gateway_env [1, 2] sample_trace (empty_gateway sample_team_db))"

abbreviation "sample_gateway \<equiv> fst sample_outcome"

lemma team_not_default: "js ''team'' \<noteq> default_room"
  by (simp add: default_room_def js_def)

lemma sample_gateway_reach: "g_reach sample_gateway_env [1, 2] sample_team_db sample_gateway (snd sample_outcome)"
proof -
  have "g_run sample_gateway_env [1, 2] sample_trace (empty_gateway sample_team_db) = Some sample_outcome"
    using sample_run_result by (simp add: sample_outcome_def split: option.splits)
  from g_run_reach[OF g_reach.start, of _ _ _ _ "sample_gateway" "snd sample_outcome"] this show ?thesis
    by simp
qed

lemma sample_gateway_facts:
  "gw_next sample_gateway = 1" "rs_clients (room_at sample_gateway 0) = [1, 2]"
  "gw_user sample_gateway 2 = Some (js ''u'')" "rs_roomId (room_at sample_gateway 0) = js ''team''"
  "gw_rooms sample_gateway = [(js ''team'', 0)]" "gw_clientRoom sample_gateway = [(1, js ''team''), (2, js ''team'')]"
  "gw_listening sample_gateway 2 = Some 0" "rs_dbId (room_at sample_gateway 0) = Some (js ''1'')"
  "rs_load (room_at sample_gateway 0) = Ready" "epoch_of sample_gateway (js ''1'') = 0"
  "mt_wsConnections (gw_metrics sample_gateway) = 2" "rs_currentKeyId (room_at sample_gateway 0) = 0"
  using sample_run_result by (auto simp: sample_outcome_def split: option.splits)

lemma only_members_in_rooms_witness:
  "is_member (gw_db sample_gateway) (js ''team'') (js ''u'')"
  using only_members_in_rooms[OF sample_gateway_reach sample_team_db_inv, of 0 2 2]
  by (simp add: sample_gateway_facts team_not_default)

lemma connection_gauge_exact_witness: "0 \<le> mt_wsConnections (gw_metrics sample_gateway)"
  by (rule conjunct2[OF connection_gauge_exact[OF sample_gateway_reach sample_team_db_inv]])

lemma epoch_events_not_lost_witness: "rs_dbId (room_at sample_gateway 0) \<noteq> None"
  using epoch_events_not_lost[OF sample_gateway_reach sample_team_db_inv, of "js ''team''" 0]
  by (simp add: sample_gateway_facts) 

lemma raised_epoch_reaches_clients_witness:
  "snd (raise_epoch sample_gateway_env (js ''1'') 2 sample_gateway)
    = map (\<lambda>c. SendTo c (encode_room_epoch (sample_lib0 log_yjs) 2)) [1, 2]"
  using raised_epoch_reaches_clients[OF sample_gateway_reach sample_team_db_inv prod.collapse[symmetric],
      of "js ''1''" 2 0]
  by (simp add: sample_gateway_facts sample_gateway_env_def)

lemma gate_is_enforced_witness:
  "rs_doc (room_at (fst (handle_sync_message sample_gateway_env 2 0 [] [2, 1, 8]
      (set_room 0 ((room_at sample_gateway 0)\<lparr>rs_currentKeyId := 1\<rparr>) sample_gateway))) 0)
    = rs_doc (room_at sample_gateway 0)"
proof -
  have "carried_update (ge_lib sample_gateway_env) [2, 1, 8] = Some [8]"
    and "check_enveloped_update (ge_decode sample_gateway_env) [8] \<noteq> GateOk"
    by code_simp+
  then show ?thesis
    using gate_is_enforced[OF sample_gateway_env_laws _ prod.collapse[symmetric],
        of "set_room 0 ((room_at sample_gateway 0)\<lparr>rs_currentKeyId := 1\<rparr>) sample_gateway" 0 2 "[]" "[2, 1, 8]"]
    by (simp add: gated_def gateway_simps sample_gateway_facts team_not_default)
qed

end
