(* ===== verification/Gateway_Sync.thy ===== *)
theory Gateway_Sync
  imports Gateway_Properties
begin

text \<open>
  What every step of the gateway does for one joined socket's view of its room: the room's document
  only grows, and whatever it gains from others is sent to the socket. The operations a document
  knows are a set, as the CRDT promises; a socket is joined while it is open and listening to a room.
\<close>

section \<open>Operations of a document\<close>

text \<open>
  \<open>ops d\<close> are the operations a document has, \<open>known u\<close> those an update carries. Applying an update
  unites them; the event of a transaction carries what it added, and applies everywhere; a diff
  against a state vector carries all that the document it came from lacks, against the empty one
  everything; equal operations give equal messages. Operations are never lost: editing adds some.
  This is what Yjs documents of its updates, that they commute, associate and may be repeated, in
  terms of sets; an update that arrives before one it depends on, which Yjs keeps aside until that
  one arrives, counts as applied only then.
\<close>

definition applies :: "'d yjs \<Rightarrow> bytes \<Rightarrow> bool" where
  "applies Y u \<longleftrightarrow> (\<forall>d. y_apply Y u d \<noteq> None)"

definition crdt_laws :: "'d yjs \<Rightarrow> ('d \<Rightarrow> 'o set) \<Rightarrow> (bytes \<Rightarrow> 'o set) \<Rightarrow> bool" where
  "crdt_laws Y ops known \<longleftrightarrow>
     (\<forall>u d d'. y_apply Y u d = Some d' \<longrightarrow> ops d' = ops d \<union> known u)
   \<and> (\<forall>d d' u. y_delta Y d d' = Some u \<longrightarrow> applies Y u \<and> (ops d \<subseteq> ops d' \<longrightarrow> ops d' = ops d \<union> known u))
   \<and> (\<forall>d d'. y_delta Y d d' = None \<longrightarrow> ops d' = ops d)
   \<and> (\<forall>d e. ops d \<subseteq> ops e \<union> known (y_diff Y d (y_state_vector Y e)))
   \<and> (\<forall>d sv. applies Y (y_diff Y d sv) \<and> known (y_diff Y d sv) \<subseteq> ops d)
   \<and> (\<forall>d. known (y_diff Y d [0]) = ops d)
   \<and> (\<forall>i d. ops d \<subseteq> ops (y_delete Y i d))
   \<and> (\<forall>d e. ops d = ops e \<longrightarrow> y_messages Y d = y_messages Y e)"

lemma crdt_lawsD:
  assumes "crdt_laws Y ops known"
  shows "y_apply Y u d = Some d' \<Longrightarrow> ops d' = ops d \<union> known u"
    and "y_delta Y d d' = Some u \<Longrightarrow> applies Y u"
    and "y_delta Y d d' = Some u \<Longrightarrow> ops d \<subseteq> ops d' \<Longrightarrow> ops d' = ops d \<union> known u"
    and "y_delta Y d d' = None \<Longrightarrow> ops d' = ops d"
    and "ops d \<subseteq> ops e \<union> known (y_diff Y d (y_state_vector Y e))"
    and "applies Y (y_diff Y d sv)" and "known (y_diff Y d sv) \<subseteq> ops d"
    and "known (y_diff Y d [0]) = ops d" and "ops d \<subseteq> ops (y_delete Y i d)"
    and "ops d = ops e \<Longrightarrow> y_messages Y d = y_messages Y e"
proof -
  note laws = assms[unfolded crdt_laws_def]
  show "y_apply Y u d = Some d' \<Longrightarrow> ops d' = ops d \<union> known u"
    using laws[THEN conjunct1] by simp
  note laws = laws[THEN conjunct2]
  show "y_delta Y d d' = Some u \<Longrightarrow> applies Y u"
    and "y_delta Y d d' = Some u \<Longrightarrow> ops d \<subseteq> ops d' \<Longrightarrow> ops d' = ops d \<union> known u"
    using laws[THEN conjunct1] by simp_all
  note laws = laws[THEN conjunct2]
  show "y_delta Y d d' = None \<Longrightarrow> ops d' = ops d"
    using laws[THEN conjunct1] by simp
  note laws = laws[THEN conjunct2]
  show "ops d \<subseteq> ops e \<union> known (y_diff Y d (y_state_vector Y e))"
    using laws[THEN conjunct1] by simp
  note laws = laws[THEN conjunct2]
  show "applies Y (y_diff Y d sv)" and "known (y_diff Y d sv) \<subseteq> ops d"
    using laws[THEN conjunct1] by simp_all
  note laws = laws[THEN conjunct2]
  show "known (y_diff Y d [0]) = ops d"
    using laws[THEN conjunct1] by simp
  note laws = laws[THEN conjunct2]
  show "ops d \<subseteq> ops (y_delete Y i d)"
    using laws[THEN conjunct1] by simp
  show "ops d = ops e \<Longrightarrow> y_messages Y d = y_messages Y e"
    by (rule laws[THEN conjunct2, rule_format])
qed

text \<open>A step1 carries the state vector, and small numbers take one byte.\<close>

definition frame_laws :: "'d yjs \<Rightarrow> 'd lib0 \<Rightarrow> bool" where
  "frame_laws Y L \<longleftrightarrow> sync_laws Y L
     \<and> (\<forall>d. l_step1 L d = l_put_uint L sync_step1 @ l_put_bytes L (y_state_vector Y d))
     \<and> (\<forall>n < 128. length (l_put_uint L n) = 1)"

lemma frame_lawsD:
  assumes "frame_laws Y L"
  shows "sync_laws Y L" "lib0_laws L" "l_step1 L d = l_put_uint L sync_step1 @ l_put_bytes L (y_state_vector Y d)"
    "n < 128 \<Longrightarrow> length (l_put_uint L n) = 1"
proof -
  show s: "sync_laws Y L" and "l_step1 L d = l_put_uint L sync_step1 @ l_put_bytes L (y_state_vector Y d)"
    "n < 128 \<Longrightarrow> length (l_put_uint L n) = 1"
    using assms by (simp_all add: frame_laws_def)
  show "lib0_laws L" by (rule sync_lawsD(1)[OF s])
qed

section \<open>Frames\<close>

text \<open>The update a frame carries, as its receiver reads it.\<close>

definition frame_update_of :: "'d lib0 \<Rightarrow> bytes \<Rightarrow> bytes option" where
  "frame_update_of L b = (case l_get_uint L b of None \<Rightarrow> None
     | Some (t, body) \<Rightarrow> if t = msg_sync then carried_update L body else None)"

lemma lib0_frames:
  assumes "lib0_laws L"
  shows "t \<noteq> msg_sync \<Longrightarrow> frame_update_of L (l_put_uint L t @ r) = None"
    and "frame_update_of L (l_put_uint L msg_sync @ l_put_uint L s @ l_put_bytes L u)
       = (if s = sync_step2 \<or> s = sync_update then Some u else None)"
  using lib0_lawsD[OF assms] lib0_lawsD(2)[OF assms, of u "[]"]
  by (simp_all add: frame_update_of_def carried_update_def)

lemma frame_updates:
  assumes "frame_laws Y L"
  shows "frame_update_of L (sync_frame L (l_step1 L d)) = None"
    and "frame_update_of L (sync_frame L (l_step2 L d sv)) = Some (y_diff Y d sv)"
    and "frame_update_of L (sync_frame L (l_update L u)) = Some u"
    and "frame_update_of L (awareness_frame L a) = None"
    and "frame_update_of L (encode_room_epoch L k) = None"
    and "frame_update_of L (encode_e2ee_rejected L k ids) = None"
proof -
  note L = lib0_frames[OF frame_lawsD(2)[OF assms]] and S = sync_lawsD[OF frame_lawsD(1)[OF assms]]
  show "frame_update_of L (sync_frame L (l_step1 L d)) = None"
    by (simp add: sync_frame_def frame_lawsD(3)[OF assms] L sync_type_defs)
  show "frame_update_of L (sync_frame L (l_step2 L d sv)) = Some (y_diff Y d sv)"
    by (simp add: sync_frame_def S(4) L sync_type_defs)
  show "frame_update_of L (sync_frame L (l_update L u)) = Some u"
    by (simp add: sync_frame_def S(5) L sync_type_defs)
  show "frame_update_of L (awareness_frame L a) = None"
    "frame_update_of L (encode_room_epoch L k) = None"
    "frame_update_of L (encode_e2ee_rejected L k ids) = None"
    by (simp_all add: awareness_frame_def encode_room_epoch_def encode_e2ee_rejected_def L msg_type_defs)
qed

section \<open>Joined sockets\<close>

text \<open>
  Beside the gateway's invariant: a client of a room that is open listens to that room, and a room
  listened to is loaded.
\<close>

definition join_inv :: "('d, 'a) gateway \<Rightarrow> bool" where
  "join_inv g \<longleftrightarrow> (\<forall>c r. r < gw_next g \<longrightarrow> c \<in> set (rs_clients (room_at g r)) \<longrightarrow> is_open g c \<longrightarrow> gw_listening g c = Some r)
     \<and> (\<forall>c r. is_open g c \<longrightarrow> gw_listening g c = Some r \<longrightarrow> rs_load (room_at g r) = Ready)"

text \<open>The frames sent to a socket, and the operations they carry.\<close>

definition sent_to :: "nat \<Rightarrow> gateway_effect list \<Rightarrow> bytes list" where
  "sent_to c fx = concat (map (\<lambda>x. case x of SendTo d b \<Rightarrow> if d = c then [b] else [] | _ \<Rightarrow> []) fx)"

lemma sent_to_simps [simp]:
  "sent_to c [] = []" "sent_to c (SendTo d b # fx) = (if d = c then [b] else []) @ sent_to c fx"
  "sent_to c (CloseClient d k # fx) = sent_to c fx" "sent_to c (TerminateClient d # fx) = sent_to c fx"
  "sent_to c (PingClient d # fx) = sent_to c fx" "sent_to c (Publish ch p # fx) = sent_to c fx"
  "sent_to c (fx @ fy) = sent_to c fx @ sent_to c fy"
  by (simp_all add: sent_to_def)

lemma sent_to_fan: "sent_to c (map (\<lambda>d. SendTo d b) ds) = replicate (count_list ds c) b"
  by (induction ds) (simp_all add: replicate_append_same)

definition carried :: "(bytes \<Rightarrow> 'o set) \<Rightarrow> 'd lib0 \<Rightarrow> bytes list \<Rightarrow> 'o set" where
  "carried known L bs = (\<Union>b \<in> set bs. case frame_update_of L b of None \<Rightarrow> {} | Some u \<Rightarrow> known u)"

lemma carried_simps [simp]:
  "carried known L [] = {}"
  "carried known L (b # bs) = (case frame_update_of L b of None \<Rightarrow> {} | Some u \<Rightarrow> known u) \<union> carried known L bs"
  "carried known L (bs @ cs) = carried known L bs \<union> carried known L cs"
  by (auto simp: carried_def)

text \<open>Every update in the frames applies and is known to the document.\<close>

definition frames_ok :: "'d yjs \<Rightarrow> 'd lib0 \<Rightarrow> (bytes \<Rightarrow> 'o set) \<Rightarrow> 'o set \<Rightarrow> bytes list \<Rightarrow> bool" where
  "frames_ok Y L known D bs \<longleftrightarrow> (\<forall>b \<in> set bs. case frame_update_of L b of None \<Rightarrow> True | Some u \<Rightarrow> applies Y u \<and> known u \<subseteq> D)"

lemma frames_ok_simps [simp]:
  "frames_ok Y L known D []"
  "frames_ok Y L known D (b # bs) \<longleftrightarrow>
     (case frame_update_of L b of None \<Rightarrow> True | Some u \<Rightarrow> applies Y u \<and> known u \<subseteq> D) \<and> frames_ok Y L known D bs"
  "frames_ok Y L known D (bs @ cs) \<longleftrightarrow> frames_ok Y L known D bs \<and> frames_ok Y L known D cs"
  by (auto simp: frames_ok_def)

lemma frames_ok_mono: "frames_ok Y L known D bs \<Longrightarrow> D \<subseteq> D' \<Longrightarrow> frames_ok Y L known D' bs"
  unfolding frames_ok_def by (fastforce split: option.splits)

lemma frames_ok_carried: "frames_ok Y L known D bs \<Longrightarrow> carried known L bs \<subseteq> D"
  unfolding frames_ok_def carried_def by (fastforce split: option.splits)

section \<open>What steps leave alone\<close>

text \<open>
  A tame step does not open or move the socket, forget a rejection, revive or unload a room or add the
  socket to one; a calm one keeps the documents of the loaded rooms too.
\<close>

definition room_tame :: "nat \<Rightarrow> ('d, 'a) room_state \<Rightarrow> ('d, 'a) room_state \<Rightarrow> bool" where
  "room_tame c s t \<longleftrightarrow> (rs_destroyed s \<longrightarrow> rs_destroyed t) \<and> (rs_load s = Ready \<longrightarrow> rs_load t = Ready)
     \<and> (c \<in> set (rs_clients t) \<longrightarrow> c \<in> set (rs_clients s))"

definition tame :: "nat \<Rightarrow> ('d, 'a) gateway \<Rightarrow> ('d, 'a) gateway \<Rightarrow> bool" where
  "tame c g h \<longleftrightarrow> gw_next g \<le> gw_next h
     \<and> (is_open h c \<longrightarrow> is_open g c \<and> gw_listening h c = gw_listening g c)
     \<and> (gw_lastRejection h c = None \<longrightarrow> gw_lastRejection g c = None)
     \<and> (\<forall>r < gw_next g. room_tame c (room_at g r) (room_at h r))
     \<and> (\<forall>r. gw_next g \<le> r \<longrightarrow> r < gw_next h \<longrightarrow> c \<notin> set (rs_clients (room_at h r)))"

lemma tameD:
  assumes "tame c g h"
  shows "gw_next g \<le> gw_next h" "is_open h c \<Longrightarrow> is_open g c" "is_open h c \<Longrightarrow> gw_listening h c = gw_listening g c"
    "gw_lastRejection h c = None \<Longrightarrow> gw_lastRejection g c = None"
    "r < gw_next g \<Longrightarrow> room_tame c (room_at g r) (room_at h r)"
    "gw_next g \<le> r \<Longrightarrow> r < gw_next h \<Longrightarrow> c \<notin> set (rs_clients (room_at h r))"
  using assms by (simp_all add: tame_def)

definition docs_kept :: "('d, 'a) gateway \<Rightarrow> ('d, 'a) gateway \<Rightarrow> bool" where
  "docs_kept g h \<longleftrightarrow> (\<forall>r < gw_next g. rs_load (room_at g r) = Ready \<longrightarrow> rs_doc (room_at h r) = rs_doc (room_at g r))"

definition calm :: "nat \<Rightarrow> ('d, 'a) gateway \<Rightarrow> ('d, 'a) gateway \<Rightarrow> bool" where
  "calm c g h \<longleftrightarrow> tame c g h \<and> docs_kept g h"

lemma room_tame_refl [simp]: "room_tame c s s" and tame_refl [simp]: "tame c g g" and calm_refl [simp]: "calm c g g"
  by (simp_all add: room_tame_def tame_def calm_def docs_kept_def)

lemma room_tame_trans: "room_tame c s t \<Longrightarrow> room_tame c t u \<Longrightarrow> room_tame c s u"
  by (simp add: room_tame_def)

lemma tame_trans:
  assumes "tame c g h" and "tame c h k"
  shows "tame c g k"
proof -
  have "c \<notin> set (rs_clients (room_at k r))" if "gw_next g \<le> r" "r < gw_next k" for r
    using tameD(6)[OF assms(1) that(1)] tameD(5,6)[OF assms(2), of r] that by (cases "r < gw_next h") (auto simp: room_tame_def)
  then show ?thesis
    using tameD(1,2,3,4)[OF assms(1)] tameD(1,2,3,4)[OF assms(2)]
      room_tame_trans[OF tameD(5)[OF assms(1)] tameD(5)[OF assms(2)]]
    by (simp add: tame_def)
qed

lemma calm_trans:
  assumes "calm c g h" and "calm c h k"
  shows "calm c g k"
proof -
  have t: "tame c g h" "tame c h k" and d: "docs_kept g h" "docs_kept h k" using assms by (simp_all add: calm_def)
  have "rs_doc (room_at k r) = rs_doc (room_at g r)" if r: "r < gw_next g" "rs_load (room_at g r) = Ready" for r
    using d r tameD(1)[OF t(1)] tameD(5)[OF t(1) r(1)] by (simp add: docs_kept_def room_tame_def)
  then show ?thesis using tame_trans[OF t] by (simp add: calm_def docs_kept_def)
qed

lemma calm_tame: "calm c g h \<Longrightarrow> tame c g h"
  by (simp add: calm_def)

lemma calm_andThen:
  "calm c g (fst x) \<Longrightarrow> (\<And>h. calm c h (fst (f h))) \<Longrightarrow> calm c g (fst (andThen x f))"
  by (cases x) (auto simp: andThen_def split_beta intro: calm_trans)

lemmas calm_defs = calm_def tame_def room_tame_def docs_kept_def is_open_def

lemma calm_set_room:
  assumes "rs_destroyed (room_at g r) \<Longrightarrow> rs_destroyed s"
    and "rs_load (room_at g r) = Ready \<Longrightarrow> rs_load s = Ready \<and> rs_doc s = rs_doc (room_at g r)"
    and "set (rs_clients s) \<subseteq> set (rs_clients (room_at g r))"
  shows "calm c g (set_room r s g)"
  using assms by (auto simp: calm_defs gateway_simps) (auto simp: set_room_def)

lemma calm_set_doc_free:
  "calm c g (set_room r ((room_at g r)\<lparr>rs_awareness := a\<rparr>) g)"
  "calm c g (set_room r ((room_at g r)\<lparr>rs_currentKeyId := k\<rparr>) g)"
  "calm c g (set_room r ((room_at g r)\<lparr>rs_dbId := i\<rparr>) g)"
  "calm c g (set_room r ((room_at g r)\<lparr>rs_destroyed := True\<rparr>) g)"
  "calm c g (set_room r ((room_at g r)\<lparr>rs_clients := set_delete d (rs_clients (room_at g r))\<rparr>) g)"
  by (rule calm_set_room; auto simp: set_delete_def)+

lemma calm_fields:
  "calm c g (count_metric m g)" "calm c g (schedule_persist r g)" "calm c g (g\<lparr>gw_awarenessIds := ai\<rparr>)"
  "calm c g (g\<lparr>gw_clientRate := rt\<rparr>)" "calm c g (g\<lparr>gw_alive := al\<rparr>)" "calm c g (g\<lparr>gw_writes := w\<rparr>)"
  "calm c g (g\<lparr>gw_conn := cn\<rparr>)" "calm c g (g\<lparr>gw_user := us\<rparr>)" "calm c g (g\<lparr>gw_db := db\<rparr>)"
  "calm c g (g\<lparr>gw_clientRoom := cr\<rparr>)" "calm c g (g\<lparr>gw_rooms := rs\<rparr>)" "calm c g (g\<lparr>gw_roomInitMap := im\<rparr>)"
  "calm c g (g\<lparr>gw_gcTimers := gt\<rparr>)" "calm c g (g\<lparr>gw_persistTimers := pt\<rparr>)" "calm c g (g\<lparr>gw_epochByDbId := ep\<rparr>)"
  "calm c g (g\<lparr>gw_lastRejection := (gw_lastRejection g)(d \<mapsto> st)\<rparr>)"
  by (simp_all add: calm_defs count_metric_def schedule_persist_def room_at_def)

lemma calm_two: "calm c g (g\<lparr>gw_rooms := rs, gw_roomInitMap := im\<rparr>)"
  by (simp add: calm_defs room_at_def)

lemma calm_close: "calm c g (fst (close_client d code g))" "calm c g (fst (terminate_client d g))"
  by (auto simp: calm_defs close_client_def terminate_client_def room_at_def split: option.splits ready_state.splits if_splits)

lemma calm_track: "calm c g (track_awareness_ids d ch g)"
  by (simp add: track_awareness_ids_def Let_def calm_fields split: prod.split)

lemma calm_on_awareness: "calm c g (fst (on_awareness_update E r ch org g))"
  by (auto simp: on_awareness_update_def Let_def intro!: calm_track calm_fields calm_trans[OF calm_track calm_fields(1)]
      split: prod.split option.split origin.split)

lemma calm_change_awareness: "calm c g (fst (change_awareness E r ac org g))"
  unfolding change_awareness_def Let_def
  by (simp add: calm_set_doc_free(1) calm_trans[OF calm_set_doc_free(1) calm_on_awareness])

lemma calm_raise_loop: "calm c g (fst (raise_loop E i k rs g))"
proof (induction rs arbitrary: g)
  case (Cons r rs)
  have "calm c g (fst (raise_loop E i k rs (set_room r ((room_at g r)\<lparr>rs_currentKeyId := k\<rparr>) g)))"
    by (rule calm_trans[OF calm_set_doc_free(2) Cons.IH])
  then show ?case using Cons.IH by (simp add: Let_def andThen_def split_beta)
qed simp

lemma calm_raise: "calm c g (fst (raise_epoch E i k g))"
  unfolding raise_epoch_def by (rule calm_trans[OF calm_fields(15) calm_raise_loop])

lemma calm_set_load: "rs_load (room_at g r) \<noteq> Ready \<Longrightarrow> calm c g (set_load r l g)"
  unfolding set_load_def by (rule calm_set_room) simp_all

lemma calm_on_room_update: "calm c g (fst (on_room_update E r u org g))"
  using calm_trans[OF calm_fields(1)[of c g "inc_fanout_bytes (length u) FanoutDoc"] calm_fields(2)[of c _ r]]
  by (simp add: on_room_update_def Let_def)

lemma tame_set_doc: "tame c g (set_room r ((room_at g r)\<lparr>rs_doc := d\<rparr>) g)"
  by (auto simp: tame_def room_tame_def is_open_def gateway_simps) (auto simp: set_room_def)

lemma tame_change_doc: "tame c g (fst (change_doc E r d org g))"
proof -
  have "tame c g (fst (on_room_update E r u org (set_room r ((room_at g r)\<lparr>rs_doc := d\<rparr>) g)))" for u
    by (rule tame_trans[OF tame_set_doc[of c g r d]]) (rule calm_on_room_update[unfolded calm_def, THEN conjunct1])
  then show ?thesis by (simp add: change_doc_def Let_def tame_set_doc split: option.split)
qed

text \<open>Frames that carry no update.\<close>

definition mute :: "'d lib0 \<Rightarrow> nat \<Rightarrow> gateway_effect list \<Rightarrow> bool" where
  "mute L c fx \<longleftrightarrow> (\<forall>b \<in> set (sent_to c fx). frame_update_of L b = None)"

lemma mute_simps [simp]:
  "mute L c []" "mute L c (SendTo d b # fx) \<longleftrightarrow> (d = c \<longrightarrow> frame_update_of L b = None) \<and> mute L c fx"
  "mute L c (CloseClient d k # fx) = mute L c fx" "mute L c (TerminateClient d # fx) = mute L c fx"
  "mute L c (PingClient d # fx) = mute L c fx" "mute L c (Publish ch p # fx) = mute L c fx"
  "mute L c (fx @ fy) \<longleftrightarrow> mute L c fx \<and> mute L c fy"
  by (auto simp: mute_def)

lemma mute_fan: "frame_update_of L b = None \<Longrightarrow> mute L c (map (\<lambda>d. SendTo d b) ds)"
  by (simp add: mute_def sent_to_fan)

lemma mute_andThen: "mute L c (snd x) \<Longrightarrow> (\<And>h. mute L c (snd (f h))) \<Longrightarrow> mute L c (snd (andThen x f))"
  by (cases x) (auto simp: andThen_def split_beta)

lemma mute_ops:
  assumes "frame_laws Y (ge_lib E)"
  shows "mute (ge_lib E) c (snd (change_awareness E r ac org g))"
    and "mute (ge_lib E) c (snd (raise_loop E i k rs g))" and "mute (ge_lib E) c (send_step1 E d r g)"
proof -
  note F = frame_updates[OF assms]
  show "mute (ge_lib E) c (snd (change_awareness E r ac org g))"
    by (simp add: change_awareness_def on_awareness_update_def Let_def mute_fan F split: prod.split)
  show "mute (ge_lib E) c (snd (raise_loop E i k rs g))"
    by (induction rs arbitrary: g) (auto simp: Let_def mute_fan F intro!: mute_andThen)
  show "mute (ge_lib E) c (send_step1 E d r g)" by (simp add: send_step1_def F)
qed

section \<open>More calm operations\<close>

lemma calm_ask: "calm c g (fst (ask_for_resync E d r b g))" "calm c g (fst (resync_fire E d st g))"
  by (simp_all add: ask_for_resync_def resync_fire_def Let_def calm_fields)

lemma calm_limited: "calm c g (snd (is_rate_limited now d g))"
  by (simp add: is_rate_limited_def calm_fields split: option.split)

lemma calm_persist: "calm c g (persist_room_state E r g)" "calm c g (persist_fire E n r g)"
proof -
  show p: "calm c g (persist_room_state E r g)" for g :: "('a, 'b) gateway"
    unfolding persist_room_state_def Let_def by (rule calm_trans[OF calm_fields(1) calm_fields(6)])
  show "calm c g (persist_fire E n r g)"
    unfolding persist_fire_def by (rule calm_trans[OF calm_fields(14) p])
qed

lemma calm_write: "calm c g (write_lands i g)"
proof -
  obtain n b where nb: "gw_writes g ! i = (n, b)" by (cases "gw_writes g ! i")
  let ?g = "g\<lparr>gw_writes := take i (gw_writes g) @ drop (Suc i) (gw_writes g)\<rparr>"
  have "calm c g (count_metric observe_persist_duration (?g\<lparr>gw_db := d\<rparr>))" for d
    by (rule calm_trans[OF calm_trans[OF calm_fields(6) calm_fields(9)] calm_fields(1)])
  then show ?thesis by (simp add: write_lands_def nb Let_def calm_fields(6) split: sum.split)
qed

lemma calm_sweep: "calm c g (fst (sweep_loop cs g))"
proof (induction cs arbitrary: g)
  case (Cons d ds)
  have "calm c g (fst (sweep_loop ds (g\<lparr>gw_alive := (gw_alive g)(d \<mapsto> False)\<rparr>)))"
    by (rule calm_trans[OF calm_fields(5) Cons.IH])
  then show ?case using calm_andThen[OF calm_close(2)[of c g d] Cons.IH] by (simp add: andThen_def split_beta)
qed simp

lemma mute_sweep: "mute L c (snd (sweep_loop cs g))"
  by (induction cs arbitrary: g) (auto simp: terminate_client_def intro!: mute_andThen)

lemma calm_destroy: "calm c g (fst (destroy_room E r g))"
  unfolding destroy_room_def by (rule calm_andThen[OF calm_change_awareness]) (simp add: calm_set_doc_free)

lemma calm_gc_fire: "calm c g (fst (gc_fire E n r g))"
proof -
  define h where "h = (case map_of (gw_persistTimers g) n of None \<Rightarrow> g
    | Some _ \<Rightarrow> persist_room_state E r (g\<lparr>gw_persistTimers := AList.delete n (gw_persistTimers g)\<rparr>))"
  have "calm c g h"
    unfolding h_def using calm_trans[OF calm_fields(14) calm_persist(1), of c g] by (simp split: option.split)
  moreover have "calm c h (fst (andThen (destroy_room E r h) (\<lambda>g. (count_metric m1 (count_metric m2
      (g\<lparr>gw_rooms := AList.delete n (gw_rooms g), gw_roomInitMap := AList.delete n (gw_roomInitMap g)\<rparr>)), []))))" for m1 m2
    by (rule calm_andThen[OF calm_destroy]) (simp add: calm_trans[OF calm_two calm_trans[OF calm_fields(1) calm_fields(1)]])
  ultimately have "calm c g (fst (andThen (destroy_room E r h) (\<lambda>g. (count_metric m1 (count_metric m2
      (g\<lparr>gw_rooms := AList.delete n (gw_rooms g), gw_roomInitMap := AList.delete n (gw_roomInitMap g)\<rparr>)), []))))" for m1 m2
    by (rule calm_trans)
  then show ?thesis by (simp add: gc_fire_def Let_def h_def)
qed

lemma calm_gc: "calm c g (fst (gc_timer E i g))"
  by (simp add: gc_timer_def calm_trans[OF calm_fields(13) calm_gc_fire] split: prod.split)

lemma mute_gc: "frame_laws Y (ge_lib E) \<Longrightarrow> mute (ge_lib E) c (snd (gc_timer E i g))"
  by (auto simp: gc_timer_def gc_fire_def destroy_room_def Let_def intro!: mute_andThen mute_ops split: prod.split option.split)

lemma calm_disconnect: "calm c g (fst (handle_disconnect E d g))"
proof (cases "map_of (gw_clientRoom g) d")
  case (Some n)
  let ?h = "count_metric dec_ws_connections (g\<lparr>gw_clientRoom := AList.delete d (gw_clientRoom g)\<rparr>)"
  have h: "calm c g ?h" by (rule calm_trans[OF calm_fields(10) calm_fields(1)])
  have left: "calm c k (fst (andThen
      (case gw_awarenessIds k d of None \<Rightarrow> (k, [])
       | Some ids \<Rightarrow> if ids = [] then (k, [])
          else andThen (change_awareness E r (aw_remove (ge_aw E) ids (rs_awareness (room_at k r))) None k)
                 (\<lambda>g. (g\<lparr>gw_awarenessIds := (gw_awarenessIds g)(d := None)\<rparr>, [])))
      (\<lambda>g. (if rs_clients (room_at g r) = [] then g\<lparr>gw_gcTimers := gw_gcTimers g @ [(n, r)]\<rparr> else g, []))))"
    for k :: "('a, 'b) gateway" and r
    by (rule calm_andThen)
      (simp_all add: calm_fields calm_andThen[OF calm_change_awareness] split: option.split)
  have "calm c ?h (fst (andThen
      (case gw_awarenessIds k d of None \<Rightarrow> (k, [])
       | Some ids \<Rightarrow> if ids = [] then (k, [])
          else andThen (change_awareness E r (aw_remove (ge_aw E) ids (rs_awareness (room_at k r))) None k)
                 (\<lambda>g. (g\<lparr>gw_awarenessIds := (gw_awarenessIds g)(d := None)\<rparr>, [])))
      (\<lambda>g. (if rs_clients (room_at g r) = [] then g\<lparr>gw_gcTimers := gw_gcTimers g @ [(n, r)]\<rparr> else g, []))))"
    if "k = set_room r ((room_at ?h r)\<lparr>rs_clients := set_delete d (rs_clients (room_at ?h r))\<rparr>) ?h" for k r
    unfolding that by (rule calm_trans[OF calm_set_doc_free(5) left])
  from calm_trans[OF h this[OF refl]] h show ?thesis
    by (simp add: handle_disconnect_def Some Let_def split: option.split)
qed (simp add: handle_disconnect_def)

lemma mute_disconnect: "frame_laws Y (ge_lib E) \<Longrightarrow> mute (ge_lib E) c (snd (handle_disconnect E d g))"
  by (auto simp: handle_disconnect_def Let_def intro!: mute_andThen mute_ops split: option.split)

lemma calm_closed: "calm c g (fst (socket_closed E d g))"
proof -
  have "calm c g (g\<lparr>gw_socket := (gw_socket g)(d \<mapsto> Closed), gw_listening := (gw_listening g)(d := None)\<rparr>)"
    by (auto simp: calm_defs room_at_def)
  from calm_trans[OF this calm_disconnect] show ?thesis by (simp add: socket_closed_def)
qed

section \<open>Connections and loading\<close>

lemma calm_get_room: "calm c g (snd (get_or_create_room E n g))"
  by (auto simp: get_or_create_room_def calm_defs gateway_simps Let_def split: option.split) (auto simp: set_room_def)

lemma calm_await: "calm c g (await_room E d n g)"
  by (simp add: await_room_def split_beta calm_trans[OF calm_get_room calm_fields(7)])

lemma calm_connect:
  assumes "c \<noteq> d"
  shows "calm c g (fst (handle_connection E d room header g))"
proof -
  have s: "calm c g (g\<lparr>gw_socket := (gw_socket g)(d \<mapsto> Open)\<rparr>)"
    using assms by (simp add: calm_defs room_at_def)
  have u: "calm c g (g\<lparr>gw_socket := (gw_socket g)(d \<mapsto> Open), gw_user := us\<rparr>)" for us
    by (rule calm_trans[OF s calm_fields(8)])
  have k: "calm c g (g\<lparr>gw_socket := (gw_socket g)(d \<mapsto> Open), gw_user := us, gw_conn := cn\<rparr>)" for us cn
    by (rule calm_trans[OF u calm_fields(7)])
  show ?thesis
    by (simp add: handle_connection_def Let_def calm_trans[OF s calm_close(1)] k calm_trans[OF u calm_await] split: option.split)
qed

lemma calm_member_known: "calm c g (fst (member_known E d n b g))"
  by (simp add: member_known_def calm_await calm_trans[OF calm_fields(7) calm_close(1)])

lemma calm_join:
  assumes "c \<noteq> d"
  shows "calm c g (fst (join_room E d n r g))"
proof -
  have "calm c g (set_room r ((room_at g r)\<lparr>rs_clients := set_add d (rs_clients (room_at g r))\<rparr>) g)"
    using assms by (auto simp: calm_defs gateway_simps set_add_def) (auto simp: set_room_def)
  then have "calm c g (count_metric inc_ws_connections
      ((set_room r ((room_at g r)\<lparr>rs_clients := set_add d (rs_clients (room_at g r))\<rparr>) g)\<lparr>gw_clientRoom := cr\<rparr>))" for cr
    by (rule calm_trans[OF _ calm_trans[OF calm_fields(10) calm_fields(1)]])
  moreover have "calm c h (h\<lparr>gw_alive := al, gw_conn := cn, gw_listening := (gw_listening h)(d \<mapsto> r)\<rparr>)"
    for h :: "('a, 'b) gateway" and al cn
    using assms by (simp add: calm_defs room_at_def)
  ultimately show ?thesis
    unfolding join_room_def Let_def fst_conv by (rule calm_trans)
qed

lemma calm_load_ready: "rs_load (room_at g r) \<noteq> Ready \<Longrightarrow> calm c g (load_ready r g)"
  unfolding load_ready_def
  by (rule calm_trans[OF calm_fields(1) calm_set_load]) (simp add: gateway_simps)

lemma calm_loads:
  assumes "rs_load (room_at g r) \<noteq> Ready"
  shows "calm c g (load_find r g)" "calm c g (load_found E r row g)" "calm c g (load_upsert fresh r g)"
    "calm c g (load_upserted r res g)"
proof -
  show "calm c g (load_find r g)" unfolding load_find_def using assms by (rule calm_set_load)
  define h where "h = (case row of None \<Rightarrow> g
    | Some x \<Rightarrow> set_room r ((room_at g r)\<lparr>rs_dbId := Some (ro_id x),
        rs_currentKeyId := max (max (rs_currentKeyId (room_at g r)) (ro_currentKeyId x)) (epoch_of g (ro_id x))\<rparr>) g)"
  have h: "calm c g h" "rs_load (room_at h r) \<noteq> Ready"
    using assms by (auto simp: h_def gateway_simps intro!: calm_set_room split: option.split)
  have d: "calm c h (set_room r ((room_at h r)\<lparr>rs_doc := x\<rparr>) h)" for x
    using h(2) by (intro calm_set_room) simp_all
  have "calm c h (load_ready r (set_room r ((room_at h r)\<lparr>rs_doc := x\<rparr>) h))" for x
    using h(2) by (intro calm_trans[OF d calm_load_ready]) (simp add: gateway_simps)
  then show "calm c g (load_found E r row g)"
    using calm_trans[OF h(1)] calm_set_load[OF h(2)]
    by (simp add: load_found_def Let_def h_def[symmetric] split: option.split)
  show "calm c g (load_upsert fresh r g)"
    using assms by (auto simp: load_upsert_def calm_set_load room_at_def
        intro!: calm_trans[OF calm_fields(9) calm_set_load] split: sum.split prod.split)
  have "calm c g (load_ready r (set_room r ((room_at g r)\<lparr>rs_dbId := i\<rparr>) g))" for i
    by (rule calm_trans[OF calm_set_doc_free(3) calm_load_ready]) (simp add: gateway_simps assms)
  then show "calm c g (load_upserted r res g)"
    by (simp add: load_upserted_def calm_set_load assms split: sum.split)
qed

section \<open>The invariant of joined sockets\<close>

lemma join_invD:
  assumes "join_inv g" and "is_open g c"
  shows "r < gw_next g \<Longrightarrow> c \<in> set (rs_clients (room_at g r)) \<Longrightarrow> gw_listening g c = Some r"
    and "gw_listening g c = Some r \<Longrightarrow> rs_load (room_at g r) = Ready"
  using assms by (simp_all add: join_inv_def)

lemma tame_join_inv:
  assumes "gw_inv g" and "join_inv g"
    and "\<And>c. tame c g h \<or> gw_listening h c = None \<and> (\<forall>r < gw_next h. c \<notin> set (rs_clients (room_at h r)))"
  shows "join_inv h"
  unfolding join_inv_def
proof (intro conjI allI impI)
  fix c r assume r: "r < gw_next h" "c \<in> set (rs_clients (room_at h r))" "is_open h c"
  then have t: "tame c g h" "r < gw_next g"
    using assms(3)[of c] tameD(6)[of c g h r] by (auto intro: leI ccontr[of "r < gw_next g"])
  with r have "c \<in> set (rs_clients (room_at g r))" "is_open g c" "gw_listening h c = gw_listening g c"
    using tameD[OF t(1)] by (auto simp: room_tame_def)
  then show "gw_listening h c = Some r" using join_invD(1)[OF assms(2)] t(2) by simp
next
  fix c r assume c: "is_open h c" "gw_listening h c = Some r"
  then have t: "tame c g h" using assms(3)[of c] by auto
  with c have g: "is_open g c" "gw_listening g c = Some r" using tameD[OF t] by auto
  then show "rs_load (room_at h r) = Ready"
    using join_invD(2)[OF assms(2)] listener_at(1)[OF assms(1)] tameD(5)[OF t, of r] by (simp add: room_tame_def)
qed

lemma join_inv_empty: "join_inv (empty_gateway d)"
  by (simp add: join_inv_def empty_gateway_def is_open_def)

section \<open>What reaches a joined socket\<close>

text \<open>
  A socket is linked to a room while it is open and listens to it, the room lives, and none of its
  frames was refused. A step feeds the socket when the room's document grows by at most what the
  step sends to it, in updates that apply and that the document knows.
\<close>

definition linked :: "('d, 'a) gateway \<Rightarrow> nat \<Rightarrow> nat \<Rightarrow> bool" where
  "linked g c r \<longleftrightarrow> gw_listening g c = Some r \<and> is_open g c \<and> \<not> rs_destroyed (room_at g r) \<and> gw_lastRejection g c = None"

definition doc_ops :: "('d \<Rightarrow> 'o set) \<Rightarrow> ('d, 'a) gateway \<Rightarrow> nat \<Rightarrow> 'o set" where
  "doc_ops ops g r = ops (rs_doc (room_at g r))"

definition feeds ::
  "('d, 'a) gateway_env \<Rightarrow> ('d \<Rightarrow> 'o set) \<Rightarrow> (bytes \<Rightarrow> 'o set) \<Rightarrow> nat \<Rightarrow> ('d, 'a) gateway \<Rightarrow> ('d, 'a) g_outcome \<Rightarrow> bool" where
  "feeds E ops known c g x \<longleftrightarrow>
     (\<forall>r. linked (fst x) c r \<longrightarrow> linked g c r \<and> doc_ops ops g r \<subseteq> doc_ops ops (fst x) r
        \<and> doc_ops ops (fst x) r \<subseteq> doc_ops ops g r \<union> carried known (ge_lib E) (sent_to c (snd x))
        \<and> frames_ok (ge_yjs E) (ge_lib E) known (doc_ops ops (fst x) r) (sent_to c (snd x)))
   \<and> (gw_listening g c = None \<longrightarrow> is_open g c \<longrightarrow> mute (ge_lib E) c (snd x))"

lemma tame_linked: "gw_inv g \<Longrightarrow> tame c g h \<Longrightarrow> linked h c r \<Longrightarrow> linked g c r"
  using tameD(2,3,4)[of c g h] tameD(5)[of c g h r] listener_at(1)[of g c r]
  by (auto simp: linked_def room_tame_def)

lemma mute_ok: "mute L c fx \<Longrightarrow> frames_ok Y L known D (sent_to c fx)"
  by (simp add: mute_def frames_ok_def)

lemma calm_doc_ops:
  assumes "gw_inv g" and "join_inv g" and "calm c g h" and "linked g c r"
  shows "doc_ops ops h r = doc_ops ops g r"
  using assms join_invD(2)[OF assms(2), of c r] listener_at(1)[OF assms(1), of c r]
  by (simp add: linked_def doc_ops_def calm_def docs_kept_def)

lemma calm_feeds:
  assumes "gw_inv g" and "join_inv g" and "calm c g (fst x)" and "mute (ge_lib E) c (snd x)"
  shows "feeds E ops known c g x"
proof -
  have "linked g c r" if "linked (fst x) c r" for r
    using tame_linked[OF assms(1) _ that] assms(3) by (simp add: calm_def)
  then show ?thesis
    using assms(4) by (simp add: feeds_def calm_doc_ops[OF assms(1-3)] mute_ok[OF assms(4)])
qed

lemma feeds_after_calm:
  assumes "gw_inv g" and "join_inv g" and "calm c g k" and "feeds E ops known c k x"
    and "is_open g c \<Longrightarrow> gw_listening g c = None \<Longrightarrow> is_open k c"
  shows "feeds E ops known c g x"
proof -
  have l: "linked g c r" if "linked k c r" for r
    using tame_linked[OF assms(1) _ that] assms(3) by (simp add: calm_def)
  have same: "gw_listening k c = gw_listening g c" if "is_open k c"
    using assms(3) tameD(3)[of c g k] that by (simp add: calm_def)
  have "linked g c r \<and> doc_ops ops g r = doc_ops ops k r" if "linked (fst x) c r" for r
    using that assms(4) l[of r] calm_doc_ops[OF assms(1-3), where r = r and ops = ops] by (simp add: feeds_def)
  moreover have "mute (ge_lib E) c (snd x)" if "is_open g c" "gw_listening g c = None"
    using assms(4) assms(5)[OF that] same that by (simp add: feeds_def)
  ultimately show ?thesis using assms(4) by (simp add: feeds_def)
qed

lemma count_list_distinct: "distinct xs \<Longrightarrow> count_list xs c = (if c \<in> set xs then 1 else 0)"
  by (induction xs) auto

lemma sent_to_fan_out:
  assumes "gw_inv g" and "join_inv g" and "r < gw_next g"
  shows "sent_to c (fan_out g r org b) =
    (if org \<noteq> FromClient c \<and> is_open g c \<and> gw_listening g c = Some r then [b] else [])"
proof -
  have d: "distinct (rs_clients (room_at g r))"
    using room_ok_at[OF assms(1,3)] by (simp add: room_ok_def)
  have "is_open g c \<Longrightarrow> c \<in> set (rs_clients (room_at g r)) \<longleftrightarrow> gw_listening g c = Some r"
    using join_invD(1)[OF assms(2) _ assms(3)] listener_at(2)[OF assms(1)] by blast
  then have "count_list (filter (\<lambda>c. org \<noteq> FromClient c \<and> is_open g c) (rs_clients (room_at g r))) c =
      (if org \<noteq> FromClient c \<and> is_open g c \<and> gw_listening g c = Some r then 1 else 0)"
    using d by (auto simp: count_list_distinct)
  then show ?thesis by (simp add: fan_out_def sent_to_fan)
qed

lemma change_doc_effects:
  assumes "gw_inv g" and "join_inv g" and "r < gw_next g"
  shows "sent_to c (snd (change_doc E r d org g)) =
    (case y_delta (ge_yjs E) (rs_doc (room_at g r)) d of
       None \<Rightarrow> []
     | Some u \<Rightarrow> if rs_load (room_at g r) = Ready \<and> \<not> rs_destroyed (room_at g r) \<and> org \<noteq> FromClient c
           \<and> is_open g c \<and> gw_listening g c = Some r
         then [sync_frame (ge_lib E) (l_update (ge_lib E) u)] else [])"
proof -
  have "sent_to c (fan_out (set_room r ((room_at g r)\<lparr>rs_doc := d\<rparr>) g) r org b) = sent_to c (fan_out g r org b)" for b
    by (simp add: fan_out_set_room)
  then show ?thesis
    by (auto simp: change_doc_def on_room_update_def Let_def sent_to_fan_out[OF assms] split: option.split)
qed

lemma change_doc_next: "gw_next (fst (change_doc E r d org g)) = gw_next g"
  by (simp add: change_doc_def on_room_update_def schedule_persist_def gateway_simps Let_def split: option.split)

text \<open>How the document of a room a socket is linked to changes.\<close>

lemma change_doc_grows:
  assumes "crdt_laws (ge_yjs E) ops known" and "ops (rs_doc (room_at g r)) \<subseteq> ops d"
  shows "doc_ops ops (fst (change_doc E r d org g)) r = doc_ops ops g r \<union>
    (case y_delta (ge_yjs E) (rs_doc (room_at g r)) d of None \<Rightarrow> {} | Some u \<Rightarrow> known u)"
  using crdt_lawsD(3)[OF assms(1) _ assms(2)] crdt_lawsD(4)[OF assms(1)]
  by (auto simp: doc_ops_def change_doc_doc split: option.split)

lemma feeds_change_doc:
  assumes "gw_inv g" and "join_inv g" and "r < gw_next g" and "org \<noteq> FromClient c"
    and "crdt_laws (ge_yjs E) ops known" and "frame_laws (ge_yjs E) (ge_lib E)"
    and "ops (rs_doc (room_at g r)) \<subseteq> ops d"
  shows "feeds E ops known c g (change_doc E r d org g)"
proof -
  let ?x = "change_doc E r d org g"
  note eff = change_doc_effects[OF assms(1-3), of c E d org]
  have l: "linked g c q" if "linked (fst ?x) c q" for q
    using tame_linked[OF assms(1) tame_change_doc that] .
  have "doc_ops ops g q \<subseteq> doc_ops ops (fst ?x) q
      \<and> doc_ops ops (fst ?x) q \<subseteq> doc_ops ops g q \<union> carried known (ge_lib E) (sent_to c (snd ?x))
      \<and> frames_ok (ge_yjs E) (ge_lib E) known (doc_ops ops (fst ?x) q) (sent_to c (snd ?x))"
    if q: "linked g c q" for q
  proof (cases "q = r")
    case True
    then have ready: "rs_load (room_at g r) = Ready" "\<not> rs_destroyed (room_at g r)" "is_open g c" "gw_listening g c = Some r"
      using q join_invD(2)[OF assms(2), of c r] by (auto simp: linked_def)
    show ?thesis
      unfolding True change_doc_grows[OF assms(5,7)] eff
      using ready assms(4) crdt_lawsD(2)[OF assms(5)] by (auto simp: frame_updates(3)[OF assms(6)] split: option.split)
  next
    case False
    then have "sent_to c (snd ?x) = []" "doc_ops ops (fst ?x) q = doc_ops ops g q"
      using q by (auto simp: eff doc_ops_def change_doc_doc linked_def split: option.split)
    then show ?thesis by simp
  qed
  moreover have "mute (ge_lib E) c (snd ?x)" if "gw_listening g c = None"
    using that by (simp add: mute_def eff split: option.split)
  ultimately show ?thesis using l by (simp add: feeds_def)
qed

lemma read_sync_grows:
  assumes "sync_laws Y L" and "crdt_laws Y ops known" and "l_read_sync L s d = Some (t, reply, d')"
  shows "ops d' = ops d \<union> (case carried_update L s of None \<Rightarrow> {} | Some u \<Rightarrow> if y_apply Y u d = None then {} else known u)"
    and "reply = [] \<or> (\<exists>sv. reply = l_step2 L d sv) \<and> carried_update L s = None"
proof -
  obtain r u q where r: "l_get_uint L s = Some (t, r)" "l_get_bytes L r = Some (u, q)"
    using assms(3) by (auto simp: sync_lawsD(2)[OF assms(1)] split: option.splits if_splits)
  then have cases: "t = sync_step1 \<and> reply = l_step2 L d u \<and> d' = d
      \<or> (t = sync_step2 \<or> t = sync_update) \<and> reply = [] \<and> d' = (case y_apply Y u d of None \<Rightarrow> d | Some x \<Rightarrow> x)"
    using assms(3) by (auto simp: sync_lawsD(2)[OF assms(1)] split: if_splits)
  then show "ops d' = ops d \<union> (case carried_update L s of None \<Rightarrow> {} | Some u \<Rightarrow> if y_apply Y u d = None then {} else known u)"
    using r crdt_lawsD(1)[OF assms(2), of u d] by (auto simp: carried_update_def sync_type_defs split: option.split)
  show "reply = [] \<or> (\<exists>sv. reply = l_step2 L d sv) \<and> carried_update L s = None"
    using cases r by (auto simp: carried_update_def sync_type_defs)
qed

lemma feeds_close: "gw_inv g \<Longrightarrow> join_inv g \<Longrightarrow> feeds E ops known c g (close_client d code g)"
  by (rule calm_feeds[OF _ _ calm_close(1)]) (simp_all add: close_client_def)

lemma join_inv_calm:
  assumes "gw_inv g" and "join_inv g" and "\<And>c. calm c g h"
  shows "join_inv h"
  by (rule tame_join_inv[OF assms(1,2)]) (use assms(3) in \<open>simp add: calm_def\<close>)

lemma quiet_calm_inv:
  assumes "gw_inv g" and "join_inv g" and "\<And>c. calm c g h" and "quiet g h"
  shows "gw_inv h" "join_inv h"
  using quiet_inv[OF assms(4,1)] join_inv_calm[OF assms(1-3)] by simp_all

lemma feeds_andThen_reply:
  assumes "feeds E ops known c g x" and "sent_to c fx = []"
  shows "feeds E ops known c g (andThen x (\<lambda>h. (h, fx)))"
  using assms by (cases x) (simp add: feeds_def andThen_def mute_def)

lemma open_fields [simp]:
  "is_open (count_metric m g) c = is_open g c" "is_open (g\<lparr>gw_clientRate := rt\<rparr>) c = is_open g c"
  "gw_listening (g\<lparr>gw_clientRate := rt\<rparr>) = gw_listening g"
  by (simp_all add: is_open_def count_metric_def)

lemma open_limited [simp]: "is_open (snd (is_rate_limited now d g)) c = is_open g c"
  by (simp add: is_rate_limited_def split: option.split)

lemma feeds_sync_message:
  assumes "gw_inv g" and "join_inv g" and "r < gw_next g" and "d \<noteq> c"
    and "crdt_laws (ge_yjs E) ops known" and "frame_laws (ge_yjs E) (ge_lib E)"
  shows "feeds E ops known c g (handle_sync_message E d r data body g)"
proof -
  let ?g = "count_metric (inc_messages MtSync) g"
  have q: "quiet g ?g" by (rule quiet_count) (simp add: gateway_simps)
  note inv = quiet_calm_inv[OF assms(1,2) calm_fields(1) q]
  have r: "r < gw_next ?g" using assms(3) quietD(1)[OF q] by simp
  have "feeds E ops known c ?g (handle_sync_message E d r data body g)"
  proof (cases "plaintext_into_e2ee_room E (room_at ?g r) body")
    case (Inl x)
    then show ?thesis by (simp add: handle_sync_message_def Let_def calm_feeds[OF inv])
  next
    case (Inr res)
    show ?thesis
    proof (cases res)
      case (Some ids)
      have k: "calm c ?g (fst (ask_for_resync E d r data (count_metric inc_e2ee_rejected_updates ?g)))"
        by (rule calm_trans[OF calm_fields(1) calm_ask(1)])
      then show ?thesis using assms(4) mute_ops(3)[OF assms(6)]
        by (simp add: handle_sync_message_def Let_def Inr Some andThen_def split_beta)
          (rule calm_feeds[OF inv]; simp add: ask_for_resync_def Let_def)
    next
      case None
      show ?thesis
      proof (cases "l_read_sync (ge_lib E) body (rs_doc (room_at ?g r))")
        case None
        with Inr \<open>res = None\<close> show ?thesis by (simp add: handle_sync_message_def Let_def calm_feeds[OF inv])
      next
        case (Some y)
        obtain t reply x where y: "y = (t, reply, x)" by (cases y)
        have "ops (rs_doc (room_at ?g r)) \<subseteq> ops x"
          using read_sync_grows(1)[OF frame_lawsD(1)[OF assms(6)] assms(5) Some[unfolded y]] by blast
        from feeds_change_doc[OF inv r _ assms(5,6) this, of "FromClient d" c] assms(4)
        have "feeds E ops known c ?g (change_doc E r x (FromClient d) ?g)" by simp
        from feeds_andThen_reply[OF this] assms(4) Inr \<open>res = None\<close> Some y show ?thesis
          by (simp add: handle_sync_message_def Let_def)
      qed
    qed
  qed
  then show ?thesis by (rule feeds_after_calm[OF assms(1,2) calm_fields(1)]) simp
qed

lemma feeds_message:
  assumes "gw_inv g" and "join_inv g" and "r < gw_next g" and "d \<noteq> c"
    and "crdt_laws (ge_yjs E) ops known" and "frame_laws (ge_yjs E) (ge_lib E)"
  shows "feeds E ops known c g (handle_message E now d r data g)"
proof (cases "length data > max_ws_message_bytes")
  case True
  then show ?thesis by (simp add: handle_message_def feeds_close[OF assms(1,2)])
next
  case False
  obtain lim h where h: "is_rate_limited now d g = (lim, h)" by (cases "is_rate_limited now d g")
  have q: "quiet g h" and k: "calm c' g h" for c'
    using quiet_rate[of g now d] calm_limited[of _ g now d] h by simp_all
  note inv = quiet_calm_inv[OF assms(1,2) k q]
  have r: "r < gw_next h" using assms(3) quietD(1)[OF q] by simp
  have "feeds E ops known c h (handle_message E now d r data g)"
  proof (cases lim)
    case True
    then show ?thesis using False h by (simp add: handle_message_def feeds_close[OF inv])
  next
    case limF: False
    have aw: "feeds E ops known c h (change_awareness E r ac org (count_metric m h))" for ac org m
      by (rule calm_feeds[OF inv calm_trans[OF calm_fields(1) calm_change_awareness] mute_ops(1)[OF assms(6)]])
    show ?thesis
      using False h limF feeds_sync_message[OF inv r assms(4-6)] aw
      by (simp add: handle_message_def Let_def calm_feeds[OF inv] calm_fields split: option.split)
  qed
  then show ?thesis
    by (rule feeds_after_calm[OF assms(1,2) k]) (use h open_limited[of now d g c] in simp)
qed

section \<open>The socket's own messages\<close>

lemma carried_None:
  assumes "sync_laws Y L"
  shows "l_read_sync L s d = None \<Longrightarrow> carried_update L s = None"
    and "l_get_uint L s = None \<Longrightarrow> carried_update L s = None"
  by (auto simp: sync_lawsD(2)[OF assms] carried_update_def sync_type_defs split: option.splits if_splits)

lemma gate_throws: "plaintext_into_e2ee_room E room s = Inl x \<Longrightarrow> carried_update (ge_lib E) s = None"
  by (auto simp: plaintext_into_e2ee_room_def carried_update_def split: option.splits if_splits gate_result.splits)

definition gained :: "'d lib0 \<Rightarrow> (bytes \<Rightarrow> 'o set) \<Rightarrow> bytes \<Rightarrow> 'o set" where
  "gained L known b = (case frame_update_of L b of None \<Rightarrow> {} | Some u \<Rightarrow> known u)"

lemma tame_sync_message: "tame c g (fst (handle_sync_message E d r data body g))"
proof -
  have c1: "tame c g (count_metric m g)" for m by (rule calm_fields(1)[THEN calm_tame])
  have c2: "tame c g (fst (ask_for_resync E d r data (count_metric m' (count_metric m g))))" for m m'
    by (rule calm_trans[OF calm_trans[OF calm_fields(1) calm_fields(1)] calm_ask(1), THEN calm_tame])
  show ?thesis
    by (auto simp: handle_sync_message_def Let_def andThen_def split_beta c1 c2
        intro!: tame_trans[OF c1 tame_change_doc] split: sum.split option.split)
qed

lemma tame_message: "tame c g (fst (handle_message E now d r data g))"
proof -
  obtain lim h where h: "is_rate_limited now d g = (lim, h)" by (cases "is_rate_limited now d g")
  have k: "tame c g h" using calm_limited[of c g now d] h by (simp add: calm_def)
  have a: "tame c h (fst (change_awareness E r ac org (count_metric m h)))" "tame c h (count_metric m h)" for ac org m
    by (rule calm_trans[OF calm_fields(1) calm_change_awareness, THEN calm_tame], rule calm_fields(1)[THEN calm_tame])
  have cl: "tame c k (fst (close_client d code k))" for k :: "('a, 'b) gateway" and code
    by (rule calm_close(1)[THEN calm_tame])
  note steps = tame_trans[OF k tame_sync_message] tame_trans[OF k a(1)] tame_trans[OF k a(2)] tame_trans[OF k cl] k cl
  show ?thesis
    unfolding handle_message_def h Let_def by (auto intro: steps split: option.split)
qed

lemma close_client_closes [simp]: "\<not> is_open (fst (close_client c code g)) c"
  by (auto simp: close_client_def is_open_def split: option.split ready_state.split)

text \<open>Either the connection does not survive the message, or the room's document gains what it carries.\<close>

lemma own_sync_message:
  assumes "gw_inv g" and "join_inv g" and "gw_listening g c = Some r"
    and "crdt_laws (ge_yjs E) ops known" and "frame_laws (ge_yjs E) (ge_lib E)"
    and "\<And>u. carried_update (ge_lib E) body = Some u \<Longrightarrow> applies (ge_yjs E) u"
    and "linked (fst (handle_sync_message E c r data body g)) c r"
  shows "doc_ops ops (fst (handle_sync_message E c r data body g)) r =
      doc_ops ops g r \<union> (case carried_update (ge_lib E) body of None \<Rightarrow> {} | Some u \<Rightarrow> known u)
    \<and> frames_ok (ge_yjs E) (ge_lib E) known (doc_ops ops (fst (handle_sync_message E c r data body g)) r)
        (sent_to c (snd (handle_sync_message E c r data body g)))"
proof -
  let ?g = "count_metric (inc_messages MtSync) g" and ?x = "handle_sync_message E c r data body g"
  have r: "r < gw_next ?g" using listener_at(1)[OF assms(1,3)] by (simp add: gateway_simps)
  have q: "quiet g ?g" by (rule quiet_count) (simp add: gateway_simps)
  note inv = quiet_calm_inv[OF assms(1,2) calm_fields(1) q]
  have same: "doc_ops ops ?g r = doc_ops ops g r" by (simp add: doc_ops_def gateway_simps)
  note S = frame_lawsD(1)[OF assms(5)]
  show ?thesis
  proof (cases "plaintext_into_e2ee_room E (room_at ?g r) body")
    case (Inl x)
    then show ?thesis using same gate_throws[OF Inl] by (simp add: handle_sync_message_def Let_def)
  next
    case (Inr res)
    show ?thesis
    proof (cases res)
      case (Some ids)
      then have "gw_lastRejection (fst ?x) c \<noteq> None"
        using Inr by (simp add: handle_sync_message_def Let_def andThen_def ask_for_resync_def split_beta)
      then show ?thesis using assms(7) by (simp add: linked_def)
    next
      case None
      show ?thesis
      proof (cases "l_read_sync (ge_lib E) body (rs_doc (room_at ?g r))")
        case None
        with Inr \<open>res = None\<close> same carried_None(1)[OF S None] show ?thesis
          by (simp add: handle_sync_message_def Let_def)
      next
        case (Some y)
        obtain t reply x where y: "y = (t, reply, x)" by (cases y)
        note g = read_sync_grows[OF S assms(4) Some[unfolded y]]
        have x: "fst ?x = fst (change_doc E r x (FromClient c) ?g)"
          "sent_to c (snd ?x) = sent_to c (snd (change_doc E r x (FromClient c) ?g))
             @ (if 1 < length (l_put_uint (ge_lib E) msg_sync @ reply) then [l_put_uint (ge_lib E) msg_sync @ reply] else [])"
          using Inr \<open>res = None\<close> Some y by (simp_all add: handle_sync_message_def Let_def andThen_def split_beta)
        have grown: "doc_ops ops (fst ?x) r = ops x"
          unfolding x by (simp add: doc_ops_def change_doc_doc)
        have no_fan: "sent_to c (snd (change_doc E r x (FromClient c) ?g)) = []"
          by (simp add: change_doc_effects[OF inv r] split: option.split)
        have accepted: "y_apply (ge_yjs E) u (rs_doc (room_at g r)) \<noteq> None" if "carried_update (ge_lib E) body = Some u" for u
          using assms(6)[OF that] by (simp add: applies_def)
        have "ops x = doc_ops ops g r \<union> (case carried_update (ge_lib E) body of None \<Rightarrow> {} | Some u \<Rightarrow> known u)"
          using g(1) accepted by (auto simp: doc_ops_def gateway_simps split: option.splits)
        moreover have "frames_ok (ge_yjs E) (ge_lib E) known (ops x) (sent_to c (snd ?x))"
        proof (cases "reply = []")
          case True
          have "length (l_put_uint (ge_lib E) msg_sync) = 1"
            by (rule frame_lawsD(4)[OF assms(5)]) (simp add: msg_type_defs)
          with True show ?thesis by (simp add: x(2) no_fan)
        next
          case False
          then obtain sv where sv: "reply = l_step2 (ge_lib E) (rs_doc (room_at ?g r)) sv" using g(2) by blast
          have "ops (rs_doc (room_at ?g r)) \<subseteq> ops x" using g(1) by blast
          then have "known (y_diff (ge_yjs E) (rs_doc (room_at ?g r)) sv) \<subseteq> ops x"
            using crdt_lawsD(7)[OF assms(4)] by (rule order_trans[rotated])
          then show ?thesis
            by (simp add: x(2) no_fan sv frame_updates(2)[OF assms(5), unfolded sync_frame_def] crdt_lawsD(6)[OF assms(4)])
        qed
        ultimately show ?thesis by (simp add: grown)
      qed
    qed
  qed
qed

lemma own_message:
  assumes "gw_inv g" and "join_inv g" and "gw_listening g c = Some r"
    and "crdt_laws (ge_yjs E) ops known" and "frame_laws (ge_yjs E) (ge_lib E)"
    and "\<And>u. frame_update_of (ge_lib E) data = Some u \<Longrightarrow> applies (ge_yjs E) u"
    and "linked (fst (handle_message E now c r data g)) c r"
  shows "linked g c r \<and> doc_ops ops (fst (handle_message E now c r data g)) r = doc_ops ops g r \<union> gained (ge_lib E) known data
    \<and> frames_ok (ge_yjs E) (ge_lib E) known (doc_ops ops (fst (handle_message E now c r data g)) r)
        (sent_to c (snd (handle_message E now c r data g)))"
proof -
  let ?x = "handle_message E now c r data g"
  have live: "live g r" by (rule live_inv[OF assms(1) listener_at(1)[OF assms(1,3)]])
  obtain lim h where h: "is_rate_limited now c g = (lim, h)" by (cases "is_rate_limited now c g")
  have q: "quiet g h" and k: "calm c' g h" for c'
    using quiet_rate[of g now c] calm_limited[of _ g now c] h by simp_all
  note inv = quiet_calm_inv[OF assms(1,2) k q]
  have hl: "gw_listening h c = Some r" "doc_ops ops h r = doc_ops ops g r"
    using h assms(3) by (auto simp: is_rate_limited_def doc_ops_def room_at_def split: option.splits if_splits)
  have opn: "is_open (fst ?x) c" using assms(7) by (simp add: linked_def)
  then have ok1: "\<not> length data > max_ws_message_bytes" by (auto simp: handle_message_def)
  with opn h have ok: "\<not> length data > max_ws_message_bytes" "\<not> lim" by (auto simp: handle_message_def)
  note lg = tame_linked[OF assms(1) tame_message assms(7)]
  show ?thesis
  proof (cases "l_get_uint (ge_lib E) data")
    case None
    then show ?thesis using ok h hl lg by (simp add: handle_message_def gained_def frame_update_of_def)
  next
    case (Some y)
    obtain ty body where y: "y = (ty, body)" by (cases y)
    show ?thesis
    proof (cases "ty = msg_sync")
      case True
      have x: "?x = handle_sync_message E c r data body h" using ok h Some y True by (simp add: handle_message_def)
      have fr: "frame_update_of (ge_lib E) data = carried_update (ge_lib E) body"
        using Some y True by (simp add: frame_update_of_def)
      have carried: "carried_update (ge_lib E) body = Some u \<Longrightarrow> applies (ge_yjs E) u" for u
        using assms(6) by (simp add: fr)
      have own: "doc_ops ops (fst ?x) r = doc_ops ops h r \<union>
            (case carried_update (ge_lib E) body of None \<Rightarrow> {} | Some u \<Rightarrow> known u)
          \<and> frames_ok (ge_yjs E) (ge_lib E) known (doc_ops ops (fst ?x) r) (sent_to c (snd ?x))"
        unfolding x by (rule own_sync_message[OF inv hl(1) assms(4,5) _ assms(7)[unfolded x]]) (rule carried)
      show ?thesis unfolding gained_def fr hl(2)[symmetric] using own lg by blast
    next
      case False
      have fr: "frame_update_of (ge_lib E) data = None" using Some y False by (simp add: frame_update_of_def)
      have "doc_ops ops (fst ?x) r = doc_ops ops h r \<and> mute (ge_lib E) c (snd ?x)"
      proof -
        have "doc_ops ops (fst (change_awareness E r ac org (count_metric m h))) r = doc_ops ops h r" for ac org m
          using calm_doc_ops[OF inv calm_trans[OF calm_fields(1) calm_change_awareness]] lg
            tame_linked[OF assms(1)] hl assms(7)
          by (simp add: change_awareness_def on_awareness_update_def track_awareness_ids_def doc_ops_def gateway_simps Let_def
              room_at_def[symmetric] split: prod.split option.split origin.split)
        then show ?thesis
          using ok h Some y False mute_ops(1)[OF assms(5)]
          by (simp add: handle_message_def Let_def doc_ops_def gateway_simps split: option.split)
      qed
      then show ?thesis using lg hl(2) fr by (simp add: gained_def mute_ok)
    qed
  qed
qed

section \<open>Every step\<close>

lemma calm_mute_step:
  assumes "g_step E known e g = Some x" and "frame_laws Y (ge_lib E)"
    and "case e of EMessage now d b \<Rightarrow> False | ERedis ch m \<Rightarrow> False | EConnect d n h \<Rightarrow> d \<noteq> c | EJoin d \<Rightarrow> d \<noteq> c | _ \<Rightarrow> True"
  shows "calm c g (fst x)" "mute (ge_lib E) c (snd x)"
proof -
  note L = mute_ops[OF assms(2)] and F = frame_updates[OF assms(2)]
  have raise: "calm c g (fst (on_epoch_advanced E i k g))" "mute (ge_lib E) c (snd (on_epoch_advanced E i k g))" for i k
    unfolding on_epoch_advanced_def
    by (rule calm_andThen[OF calm_raise], simp, rule mute_andThen) (simp_all add: raise_epoch_def L(2))
  have joined: "mute (ge_lib E) c (snd (join_room E d n r g))" if "d \<noteq> c" for d n r
    using that by (simp add: join_room_def Let_def)
  have con: "mute (ge_lib E) c (snd (handle_connection E d n h g))" for d n h
    by (simp add: handle_connection_def close_client_def Let_def split: option.split)
  show "calm c g (fst x)"
    using assms(1,3)
    by (auto simp: g_step_def calm_connect calm_fields check_member_def join_failed_def calm_member_known calm_loads room_at_def
        calm_set_load calm_join calm_closed on_pong_def sweep_heartbeats_def calm_sweep calm_gc calm_persist calm_write calm_ask raise
        split: g_event.splits option.splits conn_phase.splits if_splits load_state.splits)
  show "mute (ge_lib E) c (snd x)"
    using assms(1,3)
    by (auto simp: g_step_def con member_known_def close_client_def joined socket_closed_def mute_disconnect[OF assms(2)]
        sweep_heartbeats_def mute_sweep mute_gc[OF assms(2)] resync_fire_def L raise
        split: g_event.splits option.splits conn_phase.splits if_splits load_state.splits)
qed

lemma room_ref:
  assumes "gw_inv g" and "map_of (gw_rooms g) n = Some r"
  shows "r < gw_next g"
  using gw_invD(3)[OF assms(1)] map_of_SomeD[OF assms(2)] by (auto simp: refs_ok_def list_all_iff ref_ok_def)

lemma feeds_redis:
  assumes "gw_inv g" and "join_inv g" and "crdt_laws (ge_yjs E) ops known" and "frame_laws (ge_yjs E) (ge_lib E)"
  shows "feeds E ops known c g (pmessage E ch m g)"
proof -
  note L = mute_ops[OF assms(4)] and calm = calm_feeds[OF assms(1,2)]
  have e: "feeds E ops known c g (raise_epoch E i k g)" for i k
    by (rule calm[OF calm_raise]) (simp add: raise_epoch_def L)
  have a: "feeds E ops known c g (change_awareness E r ac org g)" for r ac org
    by (rule calm[OF calm_change_awareness L(1)])
  have d: "feeds E ops known c g (change_doc E r x FromRedis g)"
    if "map_of (gw_rooms g) n = Some r" "y_apply (ge_yjs E) u (rs_doc (room_at g r)) = Some x" for n r u x
    by (rule feeds_change_doc[OF assms(1,2) room_ref[OF assms(1) that(1)] _ assms(3,4)])
      (use crdt_lawsD(1)[OF assms(3) that(2)] in auto)
  have n: "feeds E ops known c g (g, [])" by (rule calm) simp_all
  show ?thesis
    by (auto simp: pmessage_def e a d n split: option.split)
qed

lemma tame_redis: "tame c g (fst (pmessage E ch m g))"
proof -
  have "tame c g (fst (raise_epoch E i k g))" "tame c g (fst (change_awareness E r ac org g))" for i k r ac org
    by (rule calm_raise[THEN calm_tame], rule calm_change_awareness[THEN calm_tame])
  then show ?thesis by (simp add: pmessage_def tame_change_doc split: option.split)
qed

lemma step_feeds:
  assumes "g_step E ks e g = Some x" and "gw_inv g" and "join_inv g"
    and "crdt_laws (ge_yjs E) ops known" and "frame_laws (ge_yjs E) (ge_lib E)"
    and "case e of EMessage now d b \<Rightarrow> d \<noteq> c | EConnect d n h \<Rightarrow> d \<noteq> c | EJoin d \<Rightarrow> d \<noteq> c | _ \<Rightarrow> True"
  shows "feeds E ops known c g x"
proof (cases "\<exists>now d b ch m. e = EMessage now d b \<or> e = ERedis ch m")
  case True
  then show ?thesis
    using assms(1,6) feeds_message[OF assms(2,3) listener_at(1)[OF assms(2)] _ assms(4,5)] feeds_redis[OF assms(2-5)]
    by (auto simp: g_step_def split: option.splits)
next
  case False
  with assms(6) have "case e of EMessage now d b \<Rightarrow> False | ERedis ch m \<Rightarrow> False | EConnect d n h \<Rightarrow> d \<noteq> c | EJoin d \<Rightarrow> d \<noteq> c | _ \<Rightarrow> True"
    by (cases e) auto
  from calm_feeds[OF assms(2,3) calm_mute_step[OF assms(1,5) this]] show ?thesis .
qed

section \<open>Joining\<close>

lemma tame_step:
  assumes "g_step E ks e g = Some x" and "frame_laws Y (ge_lib E)"
    and "case e of EConnect d n h \<Rightarrow> d \<noteq> c | EJoin d \<Rightarrow> d \<noteq> c | _ \<Rightarrow> True"
  shows "tame c g (fst x)"
proof (cases "\<exists>now d b ch m. e = EMessage now d b \<or> e = ERedis ch m")
  case True
  then show ?thesis
    using assms(1) tame_message[of c g E] tame_redis[of c g E] by (auto simp: g_step_def split: option.splits)
next
  case False
  with assms(3) have "case e of EMessage now d b \<Rightarrow> False | ERedis ch m \<Rightarrow> False | EConnect d n h \<Rightarrow> d \<noteq> c | EJoin d \<Rightarrow> d \<noteq> c | _ \<Rightarrow> True"
    by (cases e) auto
  from calm_mute_step(1)[OF assms(1,2) this] show ?thesis by (rule calm_tame)
qed

lemma unused_socket:
  assumes "gw_inv g" and "gw_socket g c = None \<or> gw_conn g c \<noteq> None"
  shows "gw_listening g c = None" and "r < gw_next g \<Longrightarrow> c \<notin> set (rs_clients (room_at g r))"
proof -
  show n: "c \<notin> set (rs_clients (room_at g r))" if "r < gw_next g" for r
    using clients_at[OF assms(1) that, of c] assms(2) by auto
  show "gw_listening g c = None"
    using listener_at[OF assms(1), of c] n by (cases "gw_listening g c") auto
qed

lemma await_parts:
  "gw_listening (await_room E d n g) = gw_listening g"
  "gw_next g \<le> gw_next (await_room E d n g)"
  "rs_clients (room_at (await_room E d n g) r) = (if r < gw_next g then rs_clients (room_at g r) else rs_clients (room_at (await_room E d n g) r))"
  "gw_next g \<le> r \<Longrightarrow> r < gw_next (await_room E d n g) \<Longrightarrow> rs_clients (room_at (await_room E d n g) r) = []"
  by (auto simp: await_room_def get_or_create_room_def Let_def room_at_def set_room_def split: option.splits if_splits)

lemma connect_parts:
  assumes "gw_inv g" and "gw_socket g c = None"
  shows "gw_listening (fst (handle_connection E c n h g)) c = None"
    and "r < gw_next (fst (handle_connection E c n h g)) \<Longrightarrow> c \<notin> set (rs_clients (room_at (fst (handle_connection E c n h g)) r))"
proof -
  note u = unused_socket[OF assms(1), of c]
  show "gw_listening (fst (handle_connection E c n h g)) c = None"
    using u(1) assms(2) by (simp add: handle_connection_def Let_def await_parts close_client_def split: option.split)
  have a: "c \<notin> set (rs_clients (room_at (await_room E c m k) r))"
    if "\<And>r. room_at k r = room_at g r" "gw_next k = gw_next g" "r < gw_next (await_room E c m k)" for k m r
    using u(2)[of r] assms(2) await_parts(3)[of E c m k r] await_parts(4)[of k r E c m] that by (cases "r < gw_next g") auto
  show "c \<notin> set (rs_clients (room_at (fst (handle_connection E c n h g)) r))"
    if "r < gw_next (fst (handle_connection E c n h g))"
    using that u(2)[of r] assms(2)
    by (auto simp: handle_connection_def Let_def close_client_def room_at_def split: option.splits if_splits
        dest!: a[unfolded room_at_def, rotated -1])
qed

lemma join_parts:
  "gw_listening (fst (join_room E c n r g)) = (gw_listening g)(c \<mapsto> r)"
  "gw_next (fst (join_room E c n r g)) = gw_next g"
  "gw_socket (fst (join_room E c n r g)) = gw_socket g"
  "gw_lastRejection (fst (join_room E c n r g)) = gw_lastRejection g"
  "room_at (fst (join_room E c n r g)) q =
     (if q = r then (room_at g r)\<lparr>rs_clients := set_add c (rs_clients (room_at g r))\<rparr> else room_at g q)"
  by (simp_all add: join_room_def Let_def gateway_simps) (simp_all add: count_metric_def set_room_def room_at_def)

lemma joined_inv:
  assumes "gw_inv g" and "join_inv g" and "gw_conn g c = Some (AwaitingRoom n r)" and "rs_load (room_at g r) = Ready"
  shows "join_inv (fst (join_room E c n r g))"
proof -
  note u = unused_socket[OF assms(1), of c]
  have others: "(d \<in> set (set_add c xs)) = (d = c \<or> d \<in> set xs)" for d xs
    by (auto simp: set_add_def)
  show ?thesis
    using u(2) join_invD[OF assms(2)] assms(3,4)
    by (auto simp: join_inv_def join_parts is_open_def others split: if_splits)
qed

lemma step_join_inv:
  assumes "g_step E ks e g = Some x" and "gw_inv g" and "join_inv g" and "frame_laws Y (ge_lib E)"
  shows "join_inv (fst x)"
proof (cases e)
  case (EConnect d n h)
  then have x: "x = handle_connection E d n h g" "gw_socket g d = None"
    using assms(1) by (auto simp: g_step_def split: if_splits)
  have "tame c g (fst x)" if "c \<noteq> d" for c
    using tame_step[OF assms(1,4)] that EConnect by simp
  moreover note connect_parts[OF assms(2) x(2), where E = E and n = n and h = h, folded x(1)]
  ultimately have "tame c g (fst x) \<or> gw_listening (fst x) c = None \<and> (\<forall>r < gw_next (fst x). c \<notin> set (rs_clients (room_at (fst x) r)))" for c
    by (cases "c = d") simp_all
  then show ?thesis by (rule tame_join_inv[OF assms(2,3)])
next
  case (EJoin d)
  then obtain n r where conn: "gw_conn g d = Some (AwaitingRoom n r)"
    and x: "rs_load (room_at g r) = Ready \<and> x = join_room E d n r g \<or> x = (join_failed d g, [])"
    using assms(1) by (auto simp: g_step_def split: option.splits conn_phase.splits load_state.splits)
  from x show ?thesis
  proof
    assume "rs_load (room_at g r) = Ready \<and> x = join_room E d n r g"
    then show ?thesis using joined_inv[OF assms(2,3) conn] by simp
  next
    assume "x = (join_failed d g, [])"
    then show ?thesis by (simp add: join_failed_def join_inv_calm[OF assms(2,3) calm_fields(7)])
  qed
qed (use tame_step[OF assms(1,4)] in \<open>intro tame_join_inv[OF assms(2,3)], simp\<close>)+

text \<open>A socket that joins is told the whole document, and asked for what it has.\<close>

lemma joined_socket:
  assumes "gw_inv g" and "join_inv g" and "gw_conn g c = Some (AwaitingRoom n r)"
    and "crdt_laws (ge_yjs E) ops known" and "frame_laws (ge_yjs E) (ge_lib E)"
  shows "doc_ops ops (fst (join_room E c n r g)) q = doc_ops ops g q"
    and "frames_ok (ge_yjs E) (ge_lib E) known (doc_ops ops g r) (sent_to c (snd (join_room E c n r g)))"
    and "carried known (ge_lib E) (sent_to c (snd (join_room E c n r g))) = doc_ops ops g r"
    and "sync_frame (ge_lib E) (l_step1 (ge_lib E) (rs_doc (room_at g r))) \<in> set (sent_to c (snd (join_room E c n r g)))"
proof -
  show "doc_ops ops (fst (join_room E c n r g)) q = doc_ops ops g q"
    by (simp add: doc_ops_def join_parts)
qed (simp_all add: doc_ops_def join_room_def Let_def frame_updates[OF assms(5)] crdt_lawsD(6,7,8)[OF assms(4)])

end
