(* ===== verification/Sync_Engine.thy ===== *)
theory Sync_Engine
  imports Yjs
begin

text \<open>
  \<open>packages/sync-engine/src/SyncEngine.ts\<close>: composing a message, retracting refused messages and
  putting messages back. The engine's state is the document and its configuration; \<open>ulid()\<close>,
  \<open>Date.now()\<close> and the injected content cipher (whose \<open>encrypt\<close> may throw) are inputs.
\<close>

record config =
  cfg_roomId :: jstr
  cfg_userId :: jstr
  cfg_username :: jstr

datatype 'e send_error = EmptyMessage | MessageTooLong | CipherError 'e

type_synonym 'e encryptor = "jstr \<Rightarrow> aad \<Rightarrow> 'e + jstr"

section \<open>Operations\<close>

definition compose_aad :: "config \<Rightarrow> jstr \<Rightarrow> int \<Rightarrow> aad" where
  "compose_aad cfg mid now = \<lparr>ad_id = mid, ad_roomId = cfg_roomId cfg, ad_userId = cfg_userId cfg,
     ad_username = cfg_username cfg, ad_createdAt = now\<rparr>"

definition send_message ::
  "'d yjs \<Rightarrow> config \<Rightarrow> 'e encryptor option \<Rightarrow> jstr \<Rightarrow> int \<Rightarrow> jstr \<Rightarrow> 'd
    \<Rightarrow> 'e send_error + message \<times> 'd" where
  "send_message Y cfg cipher mid now content d =
     (let trimmed = trim content
      in if trimmed = [] then Inl EmptyMessage
         else if length trimmed > max_message_length then Inl MessageTooLong
         else (case (case cipher of None \<Rightarrow> Inr trimmed
                       | Some encrypt \<Rightarrow> encrypt trimmed (compose_aad cfg mid now)) of
                 Inl e \<Rightarrow> Inl (CipherError e)
               | Inr storedContent \<Rightarrow>
                   let msg = \<lparr>m_id = mid, m_roomId = cfg_roomId cfg, m_userId = cfg_userId cfg,
                              m_username = cfg_username cfg, m_content = storedContent,
                              m_createdAt = now\<rparr>
                   in Inr (msg, y_push Y [msg] d)))"

text \<open>The descending loop of \<open>retractMessages\<close> over the snapshot \<open>all\<close>, from index \<open>i - 1\<close>.\<close>

fun retract_loop ::
  "'d yjs \<Rightarrow> jstr list \<Rightarrow> jstr \<Rightarrow> message list \<Rightarrow> nat \<Rightarrow> 'd \<times> message list \<Rightarrow> 'd \<times> message list" where
  "retract_loop Y wanted uid all 0 st = st"
| "retract_loop Y wanted uid all (Suc i) (d, retracted) =
     (if m_id (all ! i) \<notin> set wanted \<or> m_userId (all ! i) \<noteq> uid
      then retract_loop Y wanted uid all i (d, retracted)
      else retract_loop Y wanted uid all i (y_delete Y i d, all ! i # retracted))"

definition retract_messages :: "'d yjs \<Rightarrow> config \<Rightarrow> jstr list \<Rightarrow> 'd \<Rightarrow> 'd \<times> message list" where
  "retract_messages Y cfg ids d =
     (let all = y_messages Y d
      in retract_loop Y ids (cfg_userId cfg) all (length all) (d, []))"

definition reinsert_messages :: "'d yjs \<Rightarrow> message list \<Rightarrow> 'd \<Rightarrow> 'd \<times> message list" where
  "reinsert_messages Y messages d =
     (let present = set (map m_id (y_messages Y d));
          missing = filter (\<lambda>m. m_id m \<notin> present) messages
      in (if missing \<noteq> [] then y_push Y missing d else d, missing))"

section \<open>Lemmas\<close>

definition named_own :: "jstr list \<Rightarrow> jstr \<Rightarrow> message \<Rightarrow> bool" where
  "named_own ids uid m \<longleftrightarrow> m_id m \<in> set ids \<and> m_userId m = uid"

lemma retract_loop_spec:
  assumes "array_laws Y" and "i \<le> length all" and "y_messages Y d = take i all @ rest"
  shows "\<exists>d'. retract_loop Y ids uid all i (d, acc) = (d', filter (named_own ids uid) (take i all) @ acc)
    \<and> y_messages Y d' = filter (\<lambda>m. \<not> named_own ids uid m) (take i all) @ rest"
  using assms(2,3)
proof (induction i arbitrary: d rest acc)
  case 0
  then show ?case by simp
next
  case (Suc i)
  then have i: "i < length all" and split: "take (Suc i) all = take i all @ [all ! i]"
    by (simp_all add: take_Suc_conv_app_nth)
  show ?case
  proof (cases "named_own ids uid (all ! i)")
    case True
    have "y_messages Y (y_delete Y i d) = take i all @ rest"
      using Suc.prems i split array_lawsD(2)[OF assms(1), of i d] by simp
    with Suc.IH[of "y_delete Y i d" rest "all ! i # acc"] i True split show ?thesis
      by (auto simp: named_own_def)
  next
    case False
    with Suc.IH[of d "all ! i # rest" acc] Suc.prems i split show ?thesis
      by (auto simp: named_own_def)
  qed
qed

lemma retract_messages_spec:
  assumes "array_laws Y"
  shows "snd (retract_messages Y cfg ids d) = filter (named_own ids (cfg_userId cfg)) (y_messages Y d)"
    and "y_messages Y (fst (retract_messages Y cfg ids d)) =
      filter (\<lambda>m. \<not> named_own ids (cfg_userId cfg) m) (y_messages Y d)"
  using retract_loop_spec[OF assms, of "length (y_messages Y d)" "y_messages Y d" d "[]" ids "cfg_userId cfg" "[]"]
  by (auto simp: retract_messages_def Let_def)

lemma disjoint_filter_image: "A \<inter> f ` set (filter (\<lambda>m. f m \<notin> A) ms) = {}"
  by (induction ms) auto

lemma reinsert_messages_spec:
  assumes "array_laws Y"
  shows "y_messages Y (fst (reinsert_messages Y ms d)) =
    y_messages Y d @ filter (\<lambda>m. m_id m \<notin> m_id ` set (y_messages Y d)) ms"
  using array_lawsD(1)[OF assms] by (simp add: reinsert_messages_def Let_def)

lemma send_message_Inr:
  assumes "send_message Y cfg cipher mid now content d = Inr (m, d')"
  shows "trim content \<noteq> []" "length (trim content) \<le> max_message_length"
    "d' = y_push Y [m] d" "m_id m = mid" "m_userId m = cfg_userId cfg"
    "message_aad m = compose_aad cfg mid now"
    "cipher = None \<Longrightarrow> m_content m = trim content"
    "cipher = Some enc \<Longrightarrow> enc (trim content) (message_aad m) = Inr (m_content m)"
  using assms
  by (auto simp: send_message_def Let_def message_aad_def compose_aad_def
      split: if_splits option.splits sum.splits)

section \<open>Properties\<close>

text \<open>Sending: an empty or blank text and one of more than 4000 code units after trimming are
  refused, a throwing cipher is reported, and otherwise exactly one message is appended, holding the
  trimmed text or what the cipher made of the trimmed text and of the AAD every reader rebuilds from
  the stored message.\<close>

theorem send_message_contract:
  assumes "array_laws Y"
  shows "case send_message Y cfg cipher mid now content d of
      Inl EmptyMessage \<Rightarrow> list_all is_ws content
    | Inl MessageTooLong \<Rightarrow> 4000 < length (trim content)
    | Inl (CipherError e) \<Rightarrow>
        (case cipher of None \<Rightarrow> False
         | Some enc \<Rightarrow> enc (trim content) (compose_aad cfg mid now) = Inl e)
    | Inr (m, d') \<Rightarrow> y_messages Y d' = y_messages Y d @ [m] \<and> m_id m = mid
        \<and> trim content \<noteq> [] \<and> length (trim content) \<le> 4000
        \<and> (case cipher of None \<Rightarrow> m_content m = trim content
           | Some enc \<Rightarrow> enc (trim content) (message_aad m) = Inr (m_content m))"
proof -
  have blank: "trim content = [] \<Longrightarrow> list_all is_ws content"
  proof -
    assume "trim content = []"
    then have "dropWhile is_ws (rev (dropWhile is_ws content)) = []"
      by (simp add: trim_def)
    then have "dropWhile is_ws content = []"
      by (metis dropWhile_eq_Nil_conv dropWhile_no hd_dropWhile in_set_conv_decomp
          list.set_sel(1) rev_is_Nil_conv set_rev)
    then show ?thesis
      by (auto simp: dropWhile_eq_Nil_conv list_all_iff)
  qed
  show ?thesis
    using array_lawsD(1)[OF assms, of _ d] blank
    by (auto simp: send_message_def Let_def max_message_length_def message_aad_def compose_aad_def
        split: option.splits sum.splits)
qed

text \<open>Retraction removes exactly this user's messages with the given ids, in one pass over the
  snapshot, returns them in document order, leaves every other message in place and in order, and
  never touches another user's message even when the server names it.\<close>

theorem retract_messages_exact:
  assumes "array_laws Y"
  shows "snd (retract_messages Y cfg ids d) =
      filter (\<lambda>m. m_id m \<in> set ids \<and> m_userId m = cfg_userId cfg) (y_messages Y d)
    \<and> y_messages Y (fst (retract_messages Y cfg ids d)) =
      filter (\<lambda>m. m_id m \<notin> set ids \<or> m_userId m \<noteq> cfg_userId cfg) (y_messages Y d)"
  using retract_messages_spec[OF assms, of cfg ids d] by (simp add: named_own_def[abs_def])

text \<open>Putting messages back appends the ones whose id the document does not hold, verbatim and
  in order; doing it again inserts nothing, and ids stay unique when the ids put back are unique.\<close>

theorem reinsert_messages_idempotent:
  fixes Y :: "'d yjs"
  assumes "array_laws Y"
  shows "case reinsert_messages Y ms d of (d', inserted) \<Rightarrow>
      y_messages Y d' = y_messages Y d @ inserted
      \<and> m_id ` set (y_messages Y d') = m_id ` set (y_messages Y d) \<union> m_id ` set ms
      \<and> reinsert_messages Y ms d' = (d', [])
      \<and> (distinct (map m_id (y_messages Y d @ inserted)) \<longleftrightarrow>
          distinct (map m_id (y_messages Y d)) \<and> distinct (map m_id inserted))"
proof -
  obtain d' inserted where r: "reinsert_messages Y ms d = (d', inserted)"
    by (cases "reinsert_messages Y ms d")
  let ?new = "filter (\<lambda>m. m_id m \<notin> m_id ` set (y_messages Y d)) ms"
  have d': "y_messages Y d' = y_messages Y d @ ?new"
    using reinsert_messages_spec[OF assms, of ms d] r by simp
  then have ids: "m_id ` set (y_messages Y d') = m_id ` set (y_messages Y d) \<union> m_id ` set ms"
    by auto
  have new: "inserted = ?new"
    using r by (simp add: reinsert_messages_def Let_def)
  have none: "filter (\<lambda>m. m_id m \<notin> m_id ` set (y_messages Y d')) ms = []"
    using ids by (auto simp: filter_empty_conv)
  have sep: "m_id ` set (y_messages Y d) \<inter> m_id ` set inserted = {}"
    unfolding new by (rule disjoint_filter_image)
  have again: "reinsert_messages Y ms d' = (d', [])"
    using none by (simp add: reinsert_messages_def Let_def)
  show ?thesis
    using d' ids new again r sep by (simp add: Int_commute)
qed

section \<open>Witnesses\<close>

definition sample_message :: "jstr \<Rightarrow> jstr \<Rightarrow> jstr \<Rightarrow> message" where
  "sample_message mid uid c = \<lparr>m_id = mid, m_roomId = js ''r'', m_userId = uid,
     m_username = uid, m_content = c, m_createdAt = 7\<rparr>"

definition sample_config :: config where
  "sample_config = \<lparr>cfg_roomId = js ''r'', cfg_userId = js ''u'', cfg_username = js ''u''\<rparr>"

lemma send_message_contract_witness:
  "case send_message list_yjs sample_config (None :: nat encryptor option) (js ''i'') 7 (js '' hi '') [] of
      Inl e \<Rightarrow> False
    | Inr (m, d') \<Rightarrow> y_messages list_yjs d' = [m] \<and> m_content m = js ''hi''"
proof -
  have t: "trim (js '' hi '') = js ''hi''"
    by code_simp
  have n: "js ''hi'' \<noteq> []" "\<not> 4000 < length (js ''hi'')" "js ''hi'' = [] \<longleftrightarrow> False"
    by (simp_all add: js_def)
  have w: "list_all is_ws (js '' hi '') = False"
    by code_simp
  show ?thesis
    using send_message_contract[OF list_yjs_array_laws,
        where cfg = sample_config and cipher = "None :: nat encryptor option" and mid = "js ''i''"
          and now = 7 and content = "js '' hi ''" and d = "[]"]
    unfolding t w
    by (simp add: n split: sum.splits send_error.splits prod.splits option.splits)
qed

lemma retract_messages_exact_witness:
  "snd (retract_messages list_yjs sample_config [js ''a'', js ''b'']
      [sample_message (js ''a'') (js ''u'') [], sample_message (js ''b'') (js ''v'') [],
       sample_message (js ''c'') (js ''u'') []]) = [sample_message (js ''a'') (js ''u'') []]"
  using retract_messages_exact[OF list_yjs_array_laws, where cfg = sample_config and ids = "[js ''a'', js ''b'']"
      and d = "[sample_message (js ''a'') (js ''u'') [], sample_message (js ''b'') (js ''v'') [],
       sample_message (js ''c'') (js ''u'') []]"]
  by (simp add: sample_message_def sample_config_def js_def)

lemma reinsert_messages_idempotent_witness:
  "case reinsert_messages list_yjs [sample_message (js ''a'') (js ''u'') []] [] of
      (d', inserted) \<Rightarrow> y_messages list_yjs d' = inserted
        \<and> reinsert_messages list_yjs [sample_message (js ''a'') (js ''u'') []] d' = (d', [])"
  using reinsert_messages_idempotent[OF list_yjs_array_laws,
      where ms = "[sample_message (js ''a'') (js ''u'') []]" and d = "[]"]
  by (auto split: prod.splits)

end
