(* ===== verification/Ws_Provider.thy ===== *)
theory Ws_Provider
  imports Sync_Engine Base64
begin

text \<open>
  \<open>packages/sync-engine/src/WebSocketProvider.ts\<close>: the client's end of the sync socket as a state
  machine. The state has the class's fields and the document of the engine it is attached to; an
  operation returns the new state and the effects in the order the code causes them (frames handed
  to the socket, callbacks of the application). The socket, its events and the retry timer belong
  to the environment. A callback is an effect: the application reacts to it with later events.
\<close>

section \<open>State\<close>

datatype status = StDisconnected | StConnecting | StConnected

datatype effect =
    Send bytes
  | OpenSocket
  | CloseSocket
  | StatusChange status
  | AuthError nat
  | E2eeRejected nat "message list"
  | Unrecoverable nat
  | RoomEpoch nat
  | Synced

record ('d, 'a) provider =
  p_ws :: "ready_state option"
  p_status :: status
  p_pendingUpdates :: "bytes list"
  p_retryTimeout :: "nat option"
  p_retryCount :: nat
  p_destroyed :: bool
  p_synced :: bool
  p_retractedIds :: "jstr list"
  p_stateRefused :: bool
  p_doc :: 'd
  p_awareness :: 'a

text \<open>What the provider is constructed with, and the libraries it calls.\<close>

record ('d, 'a) provider_env =
  pe_yjs :: "'d yjs"
  pe_lib :: "'d lib0"
  pe_aw :: "'a awareness"
  pe_cfg :: config
  pe_clientID :: nat
  pe_username :: jstr

definition max_retry_delay_ms :: nat where "max_retry_delay_ms = 30000"
definition base_retry_delay_ms :: nat where "base_retry_delay_ms = 1000"

definition is_auth_close_code :: "nat \<Rightarrow> bool" where
  "is_auth_close_code code \<longleftrightarrow> 4000 \<le> code \<and> code \<le> 4099"

definition retry_delay_ms :: "nat \<Rightarrow> nat" where
  "retry_delay_ms n = capped_backoff base_retry_delay_ms max_retry_delay_ms n"

type_synonym ('d, 'a) outcome = "('d, 'a) provider \<times> effect list"

section \<open>Operations\<close>

definition frame_step1 :: "'d lib0 \<Rightarrow> 'd \<Rightarrow> bytes" where
  "frame_step1 L d = l_put_uint L msg_sync @ l_step1 L d"

definition frame_update :: "'d lib0 \<Rightarrow> bytes \<Rightarrow> bytes" where
  "frame_update L u = l_put_uint L msg_sync @ l_update L u"

definition frame_awareness :: "'d lib0 \<Rightarrow> bytes \<Rightarrow> bytes" where
  "frame_awareness L u = l_put_uint L msg_awareness @ l_put_bytes L u"

definition pv_send :: "bytes \<Rightarrow> ('d, 'a) provider \<Rightarrow> ('d, 'a) outcome" where
  "pv_send data p = (p, if p_ws p = Some Open then [Send data] else [])"

definition set_status :: "status \<Rightarrow> ('d, 'a) provider \<Rightarrow> ('d, 'a) outcome" where
  "set_status s p = (p\<lparr>p_status := s\<rparr>, [StatusChange s])"

definition send_sync_step1 :: "('d, 'a) provider_env \<Rightarrow> ('d, 'a) provider \<Rightarrow> ('d, 'a) outcome" where
  "send_sync_step1 E p = pv_send (frame_step1 (pe_lib E) (p_doc p)) p"

definition send_update :: "('d, 'a) provider_env \<Rightarrow> bytes \<Rightarrow> ('d, 'a) provider \<Rightarrow> ('d, 'a) outcome" where
  "send_update E u p = pv_send (frame_update (pe_lib E) u) p"

fun flush_loop :: "('d, 'a) provider_env \<Rightarrow> bytes list \<Rightarrow> ('d, 'a) provider \<Rightarrow> ('d, 'a) outcome" where
  "flush_loop E [] p = (p, [])"
| "flush_loop E (u # us) p = andThen (send_update E u p) (flush_loop E us)"

definition flush :: "('d, 'a) provider_env \<Rightarrow> ('d, 'a) provider \<Rightarrow> ('d, 'a) outcome" where
  "flush E p = flush_loop E (p_pendingUpdates p) (p\<lparr>p_pendingUpdates := []\<rparr>)"

definition broadcast_local_awareness :: "('d, 'a) provider_env \<Rightarrow> ('d, 'a) provider \<Rightarrow> ('d, 'a) outcome" where
  "broadcast_local_awareness E p =
     (if p_destroyed p then (p, [])
      else pv_send (frame_awareness (pe_lib E) (aw_encode (pe_aw E) (p_awareness p) [pe_clientID E])) p)"

definition pv_connect :: "('d, 'a) provider \<Rightarrow> ('d, 'a) outcome" where
  "pv_connect p =
     (if p_destroyed p then (p, [])
      else andThen (set_status StConnecting p) (\<lambda>p. (p\<lparr>p_ws := Some Connecting\<rparr>, [OpenSocket])))"

text \<open>The constructor: the presence announced before the first connection, then \<open>connect()\<close>.\<close>

definition construct :: "('d, 'a) provider_env \<Rightarrow> 'd \<Rightarrow> ('d, 'a) outcome" where
  "construct E d = pv_connect
     \<lparr>p_ws = None, p_status = StDisconnected, p_pendingUpdates = [], p_retryTimeout = None,
      p_retryCount = 0, p_destroyed = False, p_synced = False, p_retractedIds = [],
      p_stateRefused = False, p_doc = d,
      p_awareness = aw_set_fields (pe_aw E)
        [(js ''username'', JStr (pe_username E)), (js ''isTyping'', JBool False)] (aw_new (pe_aw E))\<rparr>"

definition on_open :: "('d, 'a) provider_env \<Rightarrow> ('d, 'a) provider \<Rightarrow> ('d, 'a) outcome" where
  "on_open E p =
     andThen (andThen (andThen (set_status StConnected (p\<lparr>p_retryCount := 0, p_ws := Some Open\<rparr>))
       (send_sync_step1 E)) (flush E)) (broadcast_local_awareness E)"

definition schedule_retry :: "('d, 'a) provider \<Rightarrow> ('d, 'a) provider" where
  "schedule_retry p = p\<lparr>p_retryTimeout := Some (retry_delay_ms (p_retryCount p)),
     p_retryCount := Suc (p_retryCount p)\<rparr>"

definition on_close :: "nat option \<Rightarrow> ('d, 'a) provider \<Rightarrow> ('d, 'a) outcome" where
  "on_close code0 p =
     (let p = p\<lparr>p_ws := map_option (\<lambda>_. Closed) (p_ws p)\<rparr>
      in if p_destroyed p then (p, [])
         else andThen (set_status StDisconnected p)
           (\<lambda>p. let code = (case code0 of None \<Rightarrow> 0 | Some c \<Rightarrow> c)
                in if is_auth_close_code code then (p, [AuthError code])
                   else (schedule_retry p, [])))"

definition on_error :: "('d, 'a) provider \<Rightarrow> ('d, 'a) outcome" where
  "on_error p = (case p_ws p of None \<Rightarrow> (p, []) | Some _ \<Rightarrow> (p\<lparr>p_ws := Some Closing\<rparr>, [CloseSocket]))"

text \<open>
  The document's \<open>'update'\<close> handler, for a transaction that took the document from \<open>p_doc\<close> to \<open>d\<close>
  with an origin other than the provider.
\<close>

definition doc_update_handler :: "('d, 'a) provider_env \<Rightarrow> bytes \<Rightarrow> ('d, 'a) provider \<Rightarrow> ('d, 'a) outcome" where
  "doc_update_handler E u p =
     (if p_destroyed p then (p, [])
      else if p_stateRefused p then (p, [])
      else if p_status p = StConnected then send_update E u p
      else (p\<lparr>p_pendingUpdates := p_pendingUpdates p @ [u]\<rparr>, []))"

definition local_transaction :: "('d, 'a) provider_env \<Rightarrow> 'd \<Rightarrow> ('d, 'a) provider \<Rightarrow> ('d, 'a) outcome" where
  "local_transaction E d p =
     (case y_delta (pe_yjs E) (p_doc p) d of
        None \<Rightarrow> (p\<lparr>p_doc := d\<rparr>, [])
      | Some u \<Rightarrow> doc_update_handler E u (p\<lparr>p_doc := d\<rparr>))"

fun read_ids :: "'d lib0 \<Rightarrow> nat \<Rightarrow> bytes \<Rightarrow> jstr list option" where
  "read_ids L 0 s = Some []"
| "read_ids L (Suc n) s = (case l_get_string L s of None \<Rightarrow> None
     | Some (x, r) \<Rightarrow> map_option ((#) x) (read_ids L n r))"

definition read_rejection :: "'d lib0 \<Rightarrow> bytes \<Rightarrow> (nat \<times> jstr list) option" where
  "read_rejection L s = (case l_get_uint L s of None \<Rightarrow> None
     | Some (keyId, r) \<Rightarrow> (case l_get_uint L r of None \<Rightarrow> None
         | Some (count, q) \<Rightarrow> map_option (Pair keyId) (read_ids L count q)))"

definition handle_rejection ::
  "('d, 'a) provider_env \<Rightarrow> nat \<Rightarrow> jstr list \<Rightarrow> ('d, 'a) provider \<Rightarrow> ('d, 'a) outcome" where
  "handle_rejection E keyId ids p =
     (case retract_messages (pe_yjs E) (pe_cfg E) ids (p_doc p) of (d, retracted) \<Rightarrow>
        andThen (local_transaction E d p)
          (\<lambda>p. let p = p\<lparr>p_retractedIds := fold set_add (map m_id retracted) (p_retractedIds p)\<rparr>;
                   repaired = (ids \<noteq> [] \<and> list_all (\<lambda>i. i \<in> set (p_retractedIds p)) ids);
                   told = (if retracted \<noteq> [] then [E2eeRejected keyId retracted] else [])
               in if \<not> repaired
                  then (p\<lparr>p_stateRefused := True, p_pendingUpdates := []\<rparr>, told @ [Unrecoverable keyId])
                  else (p, told)))"

definition handle_sync :: "('d, 'a) provider_env \<Rightarrow> bytes \<Rightarrow> ('d, 'a) provider \<Rightarrow> ('d, 'a) outcome" where
  "handle_sync E s p =
     (case l_read_sync (pe_lib E) s (p_doc p) of
        None \<Rightarrow> (p, [])
      | Some (syncType, reply, d) \<Rightarrow>
          let p = p\<lparr>p_doc := d\<rparr>;
              out = l_put_uint (pe_lib E) msg_sync @ reply
          in andThen (if 1 < length out \<and> \<not> p_stateRefused p then pv_send out p else (p, []))
             (\<lambda>p. if syncType = sync_step2 \<and> \<not> p_synced p then (p\<lparr>p_synced := True\<rparr>, [Synced])
                  else (p, [])))"

definition handle_server_message :: "('d, 'a) provider_env \<Rightarrow> bytes \<Rightarrow> ('d, 'a) provider \<Rightarrow> ('d, 'a) outcome" where
  "handle_server_message E data p =
     (case l_get_uint (pe_lib E) data of None \<Rightarrow> (p, [])
      | Some (msgType, r) \<Rightarrow>
          if msgType = msg_sync then handle_sync E r p
          else if msgType = msg_awareness then
            (case l_get_bytes (pe_lib E) r of None \<Rightarrow> (p, [])
             | Some (u, _) \<Rightarrow> (case aw_apply (pe_aw E) u (p_awareness p) of None \<Rightarrow> (p, [])
                 | Some (a, _) \<Rightarrow> (p\<lparr>p_awareness := a\<rparr>, [])))
          else if msgType = msg_e2ee_rejected then
            (case read_rejection (pe_lib E) r of None \<Rightarrow> (p, [])
             | Some (keyId, ids) \<Rightarrow> handle_rejection E keyId ids p)
          else if msgType = msg_room_epoch then
            (case l_get_uint (pe_lib E) r of None \<Rightarrow> (p, []) | Some (k, _) \<Rightarrow> (p, [RoomEpoch k]))
          else (p, []))"

text \<open>A frame arrives as bytes, or as base64 text on React Native.\<close>

definition on_message :: "('d, 'a) provider_env \<Rightarrow> jstr + bytes \<Rightarrow> ('d, 'a) provider \<Rightarrow> ('d, 'a) outcome" where
  "on_message E data p = handle_server_message E
     (case data of Inl text \<Rightarrow> base64_to_uint8 text | Inr b \<Rightarrow> b) p"

definition send_awareness ::
  "('d, 'a) provider_env \<Rightarrow> (jstr \<times> json) list \<Rightarrow> ('d, 'a) provider \<Rightarrow> ('d, 'a) outcome" where
  "send_awareness E fs p =
     (if p_destroyed p then (p, [])
      else broadcast_local_awareness E
        (p\<lparr>p_awareness := aw_set_fields (pe_aw E) fs (p_awareness p)\<rparr>))"

definition pv_destroy :: "('d, 'a) provider \<Rightarrow> ('d, 'a) outcome" where
  "pv_destroy p = (p\<lparr>p_destroyed := True, p_retryTimeout := None, p_ws := None, p_pendingUpdates := []\<rparr>,
     if p_ws p = None then [] else [CloseSocket])"

lemmas pv_ops = pv_send_def set_status_def send_sync_step1_def send_update_def flush_def
  broadcast_local_awareness_def pv_connect_def on_open_def schedule_retry_def on_close_def on_error_def
  doc_update_handler_def local_transaction_def send_awareness_def pv_destroy_def on_message_def

section \<open>Events\<close>

text \<open>
  The environment: a socket opens, delivers frames and fails in the states the WebSocket API
  allows, the retry timer fires when it is armed, the application edits the document, announces
  typing or destroys the provider at any time.
\<close>

datatype 'd event =
    SocketOpen
  | SocketMessage "jstr + bytes"
  | SocketClose "nat option"
  | SocketError
  | RetryTimer
  | LocalEdit 'd
  | Typing "(jstr \<times> json) list"
  | Destroy

definition enabled :: "'d event \<Rightarrow> ('d, 'a) provider \<Rightarrow> bool" where
  "enabled e p = (case e of
       SocketOpen \<Rightarrow> p_ws p = Some Connecting
     | SocketMessage _ \<Rightarrow> p_ws p = Some Open
     | SocketClose _ \<Rightarrow> p_ws p \<noteq> None \<and> p_ws p \<noteq> Some Closed
     | SocketError \<Rightarrow> p_ws p \<noteq> None \<and> p_ws p \<noteq> Some Closed
     | RetryTimer \<Rightarrow> p_retryTimeout p \<noteq> None
     | _ \<Rightarrow> True)"

definition pv_step :: "('d, 'a) provider_env \<Rightarrow> 'd event \<Rightarrow> ('d, 'a) provider \<Rightarrow> ('d, 'a) outcome" where
  "pv_step E e p = (case e of
       SocketOpen \<Rightarrow> on_open E p
     | SocketMessage m \<Rightarrow> on_message E m p
     | SocketClose c \<Rightarrow> on_close c p
     | SocketError \<Rightarrow> on_error p
     | RetryTimer \<Rightarrow> pv_connect (p\<lparr>p_retryTimeout := None\<rparr>)
     | LocalEdit d \<Rightarrow> local_transaction E d p
     | Typing fs \<Rightarrow> send_awareness E fs p
     | Destroy \<Rightarrow> pv_destroy p)"

inductive reach :: "('d, 'a) provider_env \<Rightarrow> 'd \<Rightarrow> ('d, 'a) provider \<Rightarrow> effect list \<Rightarrow> bool"
  for E d where
  start: "construct E d = (p, es) \<Longrightarrow> reach E d p es"
| step: "reach E d p es \<Longrightarrow> enabled e p \<Longrightarrow> pv_step E e p = (p', es') \<Longrightarrow> reach E d p' (es @ es')"

section \<open>Lemmas\<close>

lemma flush_loop_eq:
  "flush_loop E us p =
     (p, if p_ws p = Some Open then map (\<lambda>u. Send (frame_update (pe_lib E) u)) us else [])"
  by (induction us) (auto simp: send_update_def pv_send_def)

lemma on_open_eq:
  assumes "\<not> p_destroyed p"
  shows "on_open E p =
    (p\<lparr>p_retryCount := 0, p_ws := Some Open, p_status := StConnected, p_pendingUpdates := []\<rparr>,
     [StatusChange StConnected, Send (frame_step1 (pe_lib E) (p_doc p))]
       @ map (\<lambda>u. Send (frame_update (pe_lib E) u)) (p_pendingUpdates p)
       @ [Send (frame_awareness (pe_lib E) (aw_encode (pe_aw E) (p_awareness p) [pe_clientID E]))])"
  using assms by (simp add: pv_ops flush_loop_eq)

definition doc_handler_effect :: "('d, 'a) provider_env \<Rightarrow> bytes option \<Rightarrow> ('d, 'a) provider \<Rightarrow> effect list" where
  "doc_handler_effect E du p = (case du of None \<Rightarrow> []
     | Some u \<Rightarrow> if \<not> p_destroyed p \<and> \<not> p_stateRefused p \<and> p_status p = StConnected \<and> p_ws p = Some Open
                 then [Send (frame_update (pe_lib E) u)] else [])"

lemma local_transaction_eq:
  "local_transaction E d p =
    (p\<lparr>p_doc := d, p_pendingUpdates := p_pendingUpdates p @
        (case y_delta (pe_yjs E) (p_doc p) d of None \<Rightarrow> []
         | Some u \<Rightarrow> if \<not> p_destroyed p \<and> \<not> p_stateRefused p \<and> p_status p \<noteq> StConnected then [u] else [])\<rparr>,
     doc_handler_effect E (y_delta (pe_yjs E) (p_doc p) d) p)"
  by (auto simp: pv_ops doc_handler_effect_def split: option.split)

text \<open>The state invariant of the provider, over every order of events.\<close>

fun socket_inv ::
  "ready_state option \<Rightarrow> status \<Rightarrow> bool \<Rightarrow> nat option \<Rightarrow> nat \<Rightarrow> bytes list \<Rightarrow> bool" where
  "socket_inv None st destroyed timer n pending \<longleftrightarrow> destroyed \<and> timer = None \<and> pending = []"
| "socket_inv (Some Connecting) st destroyed timer n pending \<longleftrightarrow>
     \<not> destroyed \<and> st = StConnecting \<and> timer = None"
| "socket_inv (Some Open) st destroyed timer n pending \<longleftrightarrow>
     \<not> destroyed \<and> st = StConnected \<and> timer = None \<and> pending = []"
| "socket_inv (Some Closing) st destroyed timer n pending \<longleftrightarrow>
     \<not> destroyed \<and> timer = None \<and> (st = StConnecting \<or> st = StConnected \<and> pending = [])"
| "socket_inv (Some Closed) st destroyed timer n pending \<longleftrightarrow>
     \<not> destroyed \<and> st = StDisconnected
     \<and> (timer = None \<or> 0 < n \<and> timer = Some (retry_delay_ms (n - 1)))"

definition provider_inv :: "('d, 'a) provider \<Rightarrow> bool" where
  "provider_inv p \<longleftrightarrow>
     distinct (p_retractedIds p) \<and> (p_stateRefused p \<longrightarrow> p_pendingUpdates p = [])
     \<and> socket_inv (p_ws p) (p_status p) (p_destroyed p) (p_retryTimeout p) (p_retryCount p)
         (p_pendingUpdates p)"

lemma inv_construct: "construct E d = (p, es) \<Longrightarrow> provider_inv p"
  by (auto simp: construct_def pv_connect_def set_status_def provider_inv_def)

lemma inv_local_transaction: "provider_inv p \<Longrightarrow> provider_inv (fst (local_transaction E d p))"
  by (rule ws_cases[of "p_ws p"])
    (auto simp: local_transaction_eq provider_inv_def split: option.split)

lemma inv_retracted:
  "provider_inv p \<Longrightarrow> distinct rs \<Longrightarrow> provider_inv (p\<lparr>p_retractedIds := rs\<rparr>)"
  by (simp add: provider_inv_def)

lemma inv_refused: "provider_inv p \<Longrightarrow> provider_inv (p\<lparr>p_stateRefused := True, p_pendingUpdates := []\<rparr>)"
  by (rule ws_cases[of "p_ws p"]) (auto simp: provider_inv_def)

lemma inv_handle_rejection: "provider_inv p \<Longrightarrow> provider_inv (fst (handle_rejection E k ids p))"
proof -
  assume p: "provider_inv p"
  obtain d ret where r: "retract_messages (pe_yjs E) (pe_cfg E) ids (p_doc p) = (d, ret)"
    by (cases "retract_messages (pe_yjs E) (pe_cfg E) ids (p_doc p)")
  let ?q = "fst (local_transaction E d p)"
  have q: "provider_inv ?q" "distinct (p_retractedIds ?q)"
    using inv_local_transaction[OF p, of E d] by (simp_all add: provider_inv_def)
  then have "provider_inv (?q\<lparr>p_retractedIds := fold set_add (map m_id ret) (p_retractedIds ?q)\<rparr>)"
    by (intro inv_retracted distinct_fold_set_add)
  then show ?thesis
    by (auto simp: handle_rejection_def r Let_def andThen_def split_beta inv_refused)
qed

lemma inv_doc_synced:
  "provider_inv p \<Longrightarrow> provider_inv (p\<lparr>p_doc := d\<rparr>)"
  "provider_inv p \<Longrightarrow> provider_inv (p\<lparr>p_synced := b\<rparr>)"
  "provider_inv p \<Longrightarrow> provider_inv (p\<lparr>p_awareness := a\<rparr>)"
  by (simp_all add: provider_inv_def)

lemma inv_handle_sync: "provider_inv p \<Longrightarrow> provider_inv (fst (handle_sync E s p))"
  by (auto simp: handle_sync_def Let_def andThen_def pv_send_def split_beta
      intro!: inv_doc_synced split: option.split)

lemma inv_on_message: "provider_inv p \<Longrightarrow> provider_inv (fst (on_message E m p))"
  by (auto simp: on_message_def handle_server_message_def inv_handle_sync inv_handle_rejection
      inv_doc_synced split: option.split)

lemma inv_step:
  assumes "provider_inv p" and "enabled e p"
  shows "provider_inv (fst (pv_step E e p))"
proof (cases e)
  case SocketOpen
  with assms have "p_ws p = Some Connecting" "\<not> p_destroyed p"
    by (auto simp: enabled_def provider_inv_def)
  with SocketOpen assms show ?thesis
    by (simp add: pv_step_def on_open_eq provider_inv_def)
next
  case (SocketMessage m)
  with assms show ?thesis by (simp add: pv_step_def inv_on_message)
next
  case (SocketClose c)
  with assms show ?thesis
    by (cases rule: ws_cases[of "p_ws p"])
      (auto simp: pv_step_def enabled_def on_close_def Let_def set_status_def schedule_retry_def
        provider_inv_def)
next
  case SocketError
  with assms show ?thesis
    by (cases rule: ws_cases[of "p_ws p"])
      (auto simp: pv_step_def enabled_def on_error_def provider_inv_def)
next
  case RetryTimer
  with assms show ?thesis
    by (cases rule: ws_cases[of "p_ws p"])
      (auto simp: pv_step_def enabled_def pv_connect_def set_status_def provider_inv_def)
next
  case (LocalEdit d)
  with assms show ?thesis by (simp add: pv_step_def inv_local_transaction)
next
  case (Typing f)
  with assms show ?thesis
    by (simp add: pv_step_def send_awareness_def broadcast_local_awareness_def pv_send_def inv_doc_synced)
next
  case Destroy
  with assms show ?thesis by (simp add: pv_step_def pv_destroy_def provider_inv_def)
qed

lemma reach_inv: "reach E d p es \<Longrightarrow> provider_inv p"
proof (induction rule: reach.induct)
  case (start p es)
  then show ?case by (rule inv_construct)
next
  case (step p es e p' es')
  then show ?case using inv_step[of p e E] by simp
qed

section \<open>Runs\<close>

text \<open>A run of the provider over a list of events, \<open>None\<close> when one of them cannot happen.\<close>

fun pv_run :: "('d, 'a) provider_env \<Rightarrow> 'd event list \<Rightarrow> ('d, 'a) provider \<Rightarrow> ('d, 'a) outcome option" where
  "pv_run E [] p = Some (p, [])"
| "pv_run E (e # evs) p =
     (if enabled e p
      then map_option (\<lambda>(q, es). (q, snd (pv_step E e p) @ es)) (pv_run E evs (fst (pv_step E e p)))
      else None)"

lemma pv_run_invariant:
  assumes "pv_run E evs p = Some (q, es)" and "I p"
    and "\<And>p e. I p \<Longrightarrow> enabled e p \<Longrightarrow> I (fst (pv_step E e p)) \<and> list_all P (snd (pv_step E e p))"
  shows "I q \<and> list_all P es"
  using assms(1,2)
proof (induction evs arbitrary: p es)
  case (Cons e evs)
  then show ?case using assms(3)[of p e] by (auto split: if_splits)
qed simp

lemma reach_run:
  assumes "reach E d p es" and "pv_run E evs p = Some (q, es')"
  shows "reach E d q (es @ es')"
  using assms
proof (induction evs arbitrary: p es es')
  case (Cons e evs)
  from Cons.prems obtain es1 where e: "enabled e p"
    and r: "pv_run E evs (fst (pv_step E e p)) = Some (q, es1)" "es' = snd (pv_step E e p) @ es1"
    by (auto split: if_splits)
  have "reach E d (fst (pv_step E e p)) (es @ snd (pv_step E e p))"
    using reach.step[OF Cons.prems(1) e] by simp
  from Cons.IH[OF this r(1)] r(2) show ?case by simp
qed simp

text \<open>The effects an operation can have, and the fields a frame from the server leaves alone.\<close>

lemma pv_send_effects: "e \<in> set (snd (pv_send b p)) \<Longrightarrow> e = Send b"
  by (simp add: pv_send_def split: if_splits)

lemma local_transaction_effects: "e \<in> set (snd (local_transaction E d p)) \<Longrightarrow> \<exists>b. e = Send b"
  by (auto simp: local_transaction_eq doc_handler_effect_def split: option.splits if_splits)

lemma doc_handler_effect_Send: "e \<in> set (doc_handler_effect E du p) \<Longrightarrow> \<exists>b. e = Send b"
  by (auto simp: doc_handler_effect_def split: option.splits if_splits)

lemma handle_rejection_effects:
  "e \<in> set (snd (handle_rejection E k ids p)) \<Longrightarrow>
    (\<exists>b. e = Send b) \<or> (\<exists>ms. e = E2eeRejected k ms) \<or> e = Unrecoverable k"
  by (auto simp: handle_rejection_def local_transaction_eq Let_def split: prod.splits if_splits
      dest: doc_handler_effect_Send)

lemma handle_rejection_fields [provider_simps]:
  "p_ws (fst (handle_rejection E k ids p)) = p_ws p"
  "p_retryTimeout (fst (handle_rejection E k ids p)) = p_retryTimeout p"
  "p_synced (fst (handle_rejection E k ids p)) = p_synced p"
  by (simp_all add: handle_rejection_def local_transaction_eq Let_def split: prod.split)

lemma local_transaction_fields [provider_simps]:
  "p_ws (fst (local_transaction E d p)) = p_ws p"
  "p_retryTimeout (fst (local_transaction E d p)) = p_retryTimeout p"
  "p_synced (fst (local_transaction E d p)) = p_synced p"
  "p_stateRefused (fst (local_transaction E d p)) = p_stateRefused p"
  by (simp_all add: local_transaction_eq)

lemma message_keeps_socket [provider_simps]:
  "p_ws (fst (on_message E m p)) = p_ws p"
  "p_retryTimeout (fst (on_message E m p)) = p_retryTimeout p"
  by (auto simp: on_message_def handle_server_message_def handle_sync_def andThen_def pv_send_def
      Let_def handle_rejection_fields split: option.split prod.split)

lemma handle_sync_effects:
  "snd (handle_sync E s p) =
     (case l_read_sync (pe_lib E) s (p_doc p) of None \<Rightarrow> []
      | Some (ty, reply, d) \<Rightarrow>
          (if 1 < length (l_put_uint (pe_lib E) msg_sync @ reply) \<and> \<not> p_stateRefused p
              \<and> p_ws p = Some Open then [Send (l_put_uint (pe_lib E) msg_sync @ reply)] else [])
          @ (if ty = sync_step2 \<and> \<not> p_synced p then [Synced] else []))"
proof (cases "l_read_sync (pe_lib E) s (p_doc p)")
  case (Some x)
  obtain ty reply d where "x = (ty, reply, d)" by (cases x)
  with Some show ?thesis by (simp add: handle_sync_def pv_send_def Let_def)
qed (simp add: handle_sync_def)

lemma on_message_cases:
  obtains (sync) s where "on_message E m p = handle_sync E s p"
  | (rejection) k ids where "on_message E m p = handle_rejection E k ids p"
  | (awareness) a where "on_message E m p = (p\<lparr>p_awareness := a\<rparr>, [])"
  | (epoch) k where "on_message E m p = (p, [RoomEpoch k])"
  | (ignored) "on_message E m p = (p, [])"
proof -
  define b where "b = (case m of Inl text \<Rightarrow> base64_to_uint8 text | Inr b \<Rightarrow> b)"
  have m: "on_message E m p = handle_server_message E b p"
    by (simp add: on_message_def b_def)
  show thesis
  proof (cases "l_get_uint (pe_lib E) b")
    case None
    with m ignored show ?thesis by (simp add: handle_server_message_def)
  next
    case (Some x)
    obtain ty r where x: "x = (ty, r)" by (cases x)
    consider "ty = msg_sync" | "ty = msg_awareness" | "ty = msg_e2ee_rejected" | "ty = msg_room_epoch"
      | "ty \<notin> {msg_sync, msg_awareness, msg_e2ee_rejected, msg_room_epoch}"
      by blast
    then show ?thesis
    proof cases
      case 1
      with m sync Some x show ?thesis by (simp add: handle_server_message_def)
    next
      case 2
      with m awareness ignored Some x show ?thesis
        by (auto simp: handle_server_message_def msg_type_defs split: option.splits)
    next
      case 3
      with m rejection ignored Some x show ?thesis
        by (auto simp: handle_server_message_def msg_type_defs split: option.splits)
    next
      case 4
      with m epoch ignored Some x show ?thesis
        by (auto simp: handle_server_message_def msg_type_defs split: option.splits)
    next
      case 5
      with m ignored Some x show ?thesis by (simp add: handle_server_message_def)
    qed
  qed
qed

lemma on_message_no_open: "OpenSocket \<notin> set (snd (on_message E m p))"
  by (cases rule: on_message_cases[of E m p])
    (auto simp: handle_sync_effects split: option.splits dest: handle_rejection_effects)

lemma on_open_effects:
  "e \<in> set (snd (on_open E p)) \<Longrightarrow> e = StatusChange StConnected \<or> (\<exists>b. e = Send b)"
  by (auto simp: on_open_def set_status_def send_sync_step1_def pv_send_def flush_def flush_loop_eq
      broadcast_local_awareness_def split: if_splits)

lemma on_close_effects:
  "e \<in> set (snd (on_close c p)) \<Longrightarrow> e = StatusChange StDisconnected \<or> (\<exists>k. e = AuthError k)"
  by (auto simp: on_close_def Let_def set_status_def split: if_splits)

lemma open_socket_effect:
  assumes "OpenSocket \<in> set (snd (pv_step E e p))"
  shows "e = RetryTimer"
proof (cases e)
  case (Typing f)
  with assms show ?thesis
    by (simp add: pv_step_def send_awareness_def broadcast_local_awareness_def pv_send_def
        split: if_splits)
qed (use assms in \<open>auto simp: pv_step_def on_message_no_open on_error_def pv_destroy_def
      dest: on_open_effects on_close_effects local_transaction_effects split: option.splits if_splits\<close>)

text \<open>No timer and no socket that can still close: nothing opens a socket again.\<close>

definition given_up :: "('d, 'a) provider \<Rightarrow> bool" where
  "given_up p \<longleftrightarrow> (p_ws p = None \<or> p_ws p = Some Closed) \<and> p_retryTimeout p = None"

lemma given_up_step:
  assumes "given_up p" and "enabled e p"
  shows "given_up (fst (pv_step E e p)) \<and> OpenSocket \<notin> set (snd (pv_step E e p))"
proof
  show "given_up (fst (pv_step E e p))"
    using assms by (cases e) (auto simp: given_up_def enabled_def pv_step_def provider_simps
        send_awareness_def broadcast_local_awareness_def pv_send_def pv_destroy_def)
  show "OpenSocket \<notin> set (snd (pv_step E e p))"
    using open_socket_effect[of E e p] assms by (auto simp: given_up_def enabled_def)
qed

interpretation provider_backoff: retry_delay retry_delay_ms base_retry_delay_ms max_retry_delay_ms
  unfolding retry_delay_ms_def[abs_def]
  by (rule capped_backoff_retry_delay) (simp_all add: base_retry_delay_ms_def max_retry_delay_ms_def)







definition is_frame :: "effect \<Rightarrow> bool" where
  "is_frame e \<longleftrightarrow> (case e of Send b \<Rightarrow> True | _ \<Rightarrow> False)"



definition synced_once :: "('d, 'a) provider \<Rightarrow> ('d, 'a) outcome \<Rightarrow> bool" where
  "synced_once p r \<longleftrightarrow>
     of_bool (p_synced p) + count_list (snd r) Synced = (of_bool (p_synced (fst r)) :: nat)"

lemma synced_onceI: "p_synced q = p_synced p \<Longrightarrow> Synced \<notin> set es \<Longrightarrow> synced_once p (q, es)"
  by (simp add: synced_once_def count_list_0_iff)

lemma synced_once_message: "synced_once p (on_message E m p)"
proof (cases rule: on_message_cases[of E m p])
  case (sync s)
  show ?thesis
  proof (cases "l_read_sync (pe_lib E) s (p_doc p)")
    case None
    with sync show ?thesis by (simp add: handle_sync_def synced_onceI)
  next
    case (Some x)
    obtain ty reply d where "x = (ty, reply, d)" by (cases x)
    with Some sync show ?thesis
      by (simp add: synced_once_def handle_sync_def pv_send_def Let_def)
  qed
next
  case (rejection k ids)
  have "Synced \<notin> set (snd (handle_rejection E k ids p))"
    using handle_rejection_effects[of Synced E k ids p] by auto
  then show ?thesis
    using rejection synced_onceI[of "fst (handle_rejection E k ids p)" p
        "snd (handle_rejection E k ids p)"]
    by (simp add: provider_simps)
qed (simp_all add: synced_onceI)

lemma synced_once_step: "synced_once p (pv_step E e p)"
proof (cases e)
  case (SocketMessage m)
  then show ?thesis by (simp add: pv_step_def synced_once_message)
qed (auto simp: pv_step_def on_open_def on_close_def on_error_def pv_destroy_def
      send_awareness_def broadcast_local_awareness_def pv_connect_def set_status_def
      send_sync_step1_def flush_def flush_loop_eq local_transaction_eq schedule_retry_def
      pv_send_def Let_def doc_handler_effect_def intro!: synced_onceI split: option.split)

lemma synced_count: "reach E d p es \<Longrightarrow> count_list es Synced = of_bool (p_synced p)"
proof (induction rule: reach.induct)
  case (start p es)
  then show ?case by (auto simp: construct_def pv_connect_def set_status_def)
next
  case (step p es e p' es')
  then show ?case using synced_once_step[of p E e] by (simp add: synced_once_def)
qed

text \<open>What a rejection does: the messages it retracts, and the ids retracted this session after it.\<close>

definition named_mine :: "('d, 'a) provider_env \<Rightarrow> jstr list \<Rightarrow> ('d, 'a) provider \<Rightarrow> message list" where
  "named_mine E ids p = filter (\<lambda>m. m_id m \<in> set ids \<and> m_userId m = cfg_userId (pe_cfg E))
     (y_messages (pe_yjs E) (p_doc p))"

definition repairable :: "('d, 'a) provider_env \<Rightarrow> jstr list \<Rightarrow> ('d, 'a) provider \<Rightarrow> bool" where
  "repairable E ids p \<longleftrightarrow>
     ids \<noteq> [] \<and> set ids \<subseteq> set (p_retractedIds p) \<union> m_id ` set (named_mine E ids p)"

lemma handle_rejection_eq:
  assumes "array_laws (pe_yjs E)"
  shows "handle_rejection E k ids p =
    (case fst (retract_messages (pe_yjs E) (pe_cfg E) ids (p_doc p)) of d \<Rightarrow>
       let q = fst (local_transaction E d p)\<lparr>p_retractedIds :=
             fold set_add (map m_id (named_mine E ids p)) (p_retractedIds p)\<rparr>
       in (if repairable E ids p then q else q\<lparr>p_stateRefused := True, p_pendingUpdates := []\<rparr>,
           doc_handler_effect E (y_delta (pe_yjs E) (p_doc p) d) p
             @ (if named_mine E ids p \<noteq> [] then [E2eeRejected k (named_mine E ids p)] else [])
             @ (if repairable E ids p then [] else [Unrecoverable k])))"
proof -
  obtain d r where r: "retract_messages (pe_yjs E) (pe_cfg E) ids (p_doc p) = (d, r)"
    by (cases "retract_messages (pe_yjs E) (pe_cfg E) ids (p_doc p)")
  have mine: "r = named_mine E ids p"
    using retract_messages_spec(1)[OF assms, of "pe_cfg E" ids "p_doc p"] r
    by (simp add: named_mine_def named_own_def[abs_def])
  have rep: "repairable E ids p \<longleftrightarrow> ids \<noteq> []
      \<and> list_all (\<lambda>i. i \<in> set (fold set_add (map m_id r) (p_retractedIds p))) ids"
    unfolding repairable_def mine by (auto simp: fold_set_add list_all_iff)
  show ?thesis
    unfolding rep by (simp add: handle_rejection_def local_transaction_eq Let_def r mine)
qed

lemma retracted_messages_gone:
  assumes "array_laws (pe_yjs E)"
  shows "y_messages (pe_yjs E) (p_doc (fst (handle_rejection E k ids p))) =
    filter (\<lambda>m. m_id m \<notin> set ids \<or> m_userId m \<noteq> cfg_userId (pe_cfg E)) (y_messages (pe_yjs E) (p_doc p))"
  using retract_messages_spec(2)[OF assms, of "pe_cfg E" ids "p_doc p"]
  by (simp add: handle_rejection_eq[OF assms] Let_def local_transaction_eq named_own_def[abs_def])

section \<open>Properties\<close>

text \<open>C9. Over every order of socket events, timer expiries, edits and destruction, the provider's
  fields agree: an open socket means status connected with an empty queue, a timer is armed only
  with a closed socket and with the delay of the current retry, a destroyed provider holds no
  socket, timer or queue, and a step opens a socket only when the previous one has closed.\<close>

theorem provider_lifecycle:
  assumes "reach E d p es" and "enabled e p"
  shows "provider_inv p \<and> provider_inv (fst (pv_step E e p))
    \<and> (OpenSocket \<notin> set (snd (pv_step E e p)) \<or> p_ws p = Some Closed)
    \<and> count_list es Synced \<le> 1"
proof -
  have "p_ws p = Some Closed" if "OpenSocket \<in> set (snd (pv_step E e p))"
  proof -
    from open_socket_effect[OF that] assms(2) have "p_retryTimeout p \<noteq> None"
      by (simp add: enabled_def)
    with reach_inv[OF assms(1)] show ?thesis
      by (cases rule: ws_cases[of "p_ws p"]) (auto simp: provider_inv_def)
  qed
  with reach_inv[OF assms(1)] inv_step[OF reach_inv[OF assms(1)] assms(2)] synced_count[OF assms(1)]
  show ?thesis by auto
qed


text \<open>
  Between \<open>onerror\<close>, which closes the socket, and the close event the status still says connected: an edit
  made there is neither sent nor queued. It stays in the document, and the state vectors exchanged on the
  next join bring it to the server.
\<close>

theorem edit_while_closing_is_not_queued:
  assumes "p_ws p = Some Closing" and "p_status p = StConnected"
  shows "snd (pv_step E (LocalEdit d) p) = [] \<and> p_doc (fst (pv_step E (LocalEdit d) p)) = d
    \<and> p_pendingUpdates (fst (pv_step E (LocalEdit d) p)) = p_pendingUpdates p"
  using assms by (simp add: pv_step_def local_transaction_eq doc_handler_effect_def split: option.split)

text \<open>C21. A rejection that names only own messages still in the document, or ids retracted before,
  is repaired: exactly those messages leave the document, and the application is told of them by one
  callback, or by none when all of the ids had been retracted before. Any other rejection still retracts
  the own messages among the ids, and then marks the state refused and asks the application, once, to
  rebuild. No other callback is made.\<close>

theorem rejection_repairs_or_refuses:
  assumes "array_laws (pe_yjs E)"
  shows "case handle_rejection E k ids p of (q, out) \<Rightarrow>
      y_messages (pe_yjs E) (p_doc q) =
        filter (\<lambda>m. m_id m \<notin> set ids \<or> m_userId m \<noteq> cfg_userId (pe_cfg E)) (y_messages (pe_yjs E) (p_doc p))
      \<and> set (p_retractedIds q) = set (p_retractedIds p) \<union> m_id ` set (named_mine E ids p)
      \<and> filter (\<lambda>x. \<not> is_frame x) out =
          (if named_mine E ids p = [] then [] else [E2eeRejected k (named_mine E ids p)])
          @ (if repairable E ids p then [] else [Unrecoverable k])
      \<and> (p_stateRefused q \<longleftrightarrow> p_stateRefused p \<or> \<not> repairable E ids p)"
proof -
  have gone: "y_messages (pe_yjs E) (p_doc (fst (handle_rejection E k ids p))) =
    filter (\<lambda>m. m_id m \<notin> set ids \<or> m_userId m \<noteq> cfg_userId (pe_cfg E)) (y_messages (pe_yjs E) (p_doc p))"
    by (rule retracted_messages_gone[OF assms])
  have frames: "filter (\<lambda>x. \<not> is_frame x) (doc_handler_effect E du p) = []" for du
    by (simp add: doc_handler_effect_def is_frame_def split: option.split)
  show ?thesis
    using gone
    by (auto simp: handle_rejection_eq[OF assms] Let_def local_transaction_eq fold_set_add frames)
      (simp_all add: is_frame_def)
qed

text \<open>A frame of the sync protocol other than the request for the server's state.\<close>

definition carries_content :: "'d lib0 \<Rightarrow> effect \<Rightarrow> bool" where
  "carries_content L e = (case e of
       Send b \<Rightarrow> (case l_get_uint L b of
           None \<Rightarrow> True
         | Some (t, r) \<Rightarrow> t = msg_sync
             \<and> (case l_get_uint L r of None \<Rightarrow> True | Some (s, _) \<Rightarrow> s \<noteq> sync_step1))
     | _ \<Rightarrow> False)"

lemma frames_without_content:
  assumes "sync_laws Y L"
  shows "\<not> carries_content L (Send (frame_step1 L d))"
    and "\<not> carries_content L (Send (frame_awareness L u))"
proof -
  note laws = lib0_lawsD[OF sync_lawsD(1)[OF assms]]
  obtain sv where "l_step1 L d = l_put_uint L sync_step1 @ l_put_bytes L sv"
    using sync_lawsD(3)[OF assms, of d] by blast
  then show "\<not> carries_content L (Send (frame_step1 L d))"
    by (simp add: carries_content_def frame_step1_def laws)
  show "\<not> carries_content L (Send (frame_awareness L u))"
    by (simp add: carries_content_def frame_awareness_def laws msg_type_defs)
qed

lemma refused_message:
  assumes "p_stateRefused p"
  shows "p_stateRefused (fst (on_message E m p)) \<and> list_all (\<lambda>e. \<not> carries_content L e) (snd (on_message E m p))"
proof (cases rule: on_message_cases[of E m p])
  case (sync s)
  with assms show ?thesis
    by (auto simp: handle_sync_def carries_content_def pv_send_def Let_def split: option.split)
next
  case (rejection k ids)
  with assms show ?thesis
    by (auto simp: handle_rejection_def local_transaction_eq doc_handler_effect_def Let_def
        carries_content_def split: prod.split option.split)
qed (use assms in \<open>simp_all add: carries_content_def\<close>)

lemma refused_step:
  assumes "sync_laws Y (pe_lib E)" and "p_stateRefused p \<and> provider_inv p" and "enabled e p"
  shows "(p_stateRefused (fst (pv_step E e p)) \<and> provider_inv (fst (pv_step E e p)))
    \<and> list_all (\<lambda>e. \<not> carries_content (pe_lib E) e) (snd (pv_step E e p))"
proof -
  note quiet = frames_without_content[OF assms(1)]
  have inv: "provider_inv (fst (pv_step E e p))"
    using assms inv_step by blast
  have "p_stateRefused (fst (pv_step E e p)) \<and> list_all (\<lambda>e. \<not> carries_content (pe_lib E) e) (snd (pv_step E e p))"
  proof (cases e)
    case SocketOpen
    with assms have "\<not> p_destroyed p" "p_pendingUpdates p = []"
      by (auto simp: enabled_def provider_inv_def)
    with SocketOpen assms(2) quiet show ?thesis
      by (simp add: pv_step_def on_open_eq) (simp add: carries_content_def)
  next
    case (SocketMessage m)
    with assms(2) refused_message[of p E m] show ?thesis by (simp add: pv_step_def)
  next
    case (LocalEdit d)
    with assms(2) show ?thesis
      by (simp add: pv_step_def local_transaction_eq doc_handler_effect_def split: option.split)
  next
    case (Typing f)
    with assms(2) quiet show ?thesis
      by (simp add: pv_step_def send_awareness_def broadcast_local_awareness_def pv_send_def)
  qed (use assms(2) in \<open>auto simp: pv_step_def on_close_def on_error_def pv_connect_def set_status_def
      pv_destroy_def schedule_retry_def Let_def carries_content_def split: option.split\<close>)
  with inv show ?thesis by blast
qed

text \<open>C22. Once the state has been refused, no continuation of the run sends document content again:
  every frame is the state-vector request or the presence, so the reject/resync loop ends.\<close>

theorem refused_state_stays_silent:
  assumes "sync_laws Y (pe_lib E)" and "reach E d p es" and "p_stateRefused p"
    and "pv_run E evs p = Some (q, out)"
  shows "p_stateRefused q \<and> list_all (\<lambda>e. \<not> carries_content (pe_lib E) e) out"
proof -
  have "(p_stateRefused q \<and> provider_inv q) \<and> list_all (\<lambda>e. \<not> carries_content (pe_lib E) e) out"
  proof (rule pv_run_invariant[OF assms(4)])
    show "p_stateRefused p \<and> provider_inv p"
      using assms(3) reach_inv[OF assms(2)] by simp
  qed (rule refused_step[OF assms(1)])
  then show ?thesis by blast
qed

text \<open>Which steps change the number of retries.\<close>

lemma handle_rejection_retries [provider_simps]:
  "p_retryCount (fst (handle_rejection E k ids p)) = p_retryCount p"
  "p_status (fst (handle_rejection E k ids p)) = p_status p"
  by (simp_all add: handle_rejection_def local_transaction_eq Let_def split: prod.split)

lemma message_keeps_retries [provider_simps]:
  "p_retryCount (fst (on_message E m p)) = p_retryCount p" "p_status (fst (on_message E m p)) = p_status p"
  by (auto simp: on_message_def handle_server_message_def handle_sync_def andThen_def pv_send_def
      Let_def handle_rejection_retries split: option.split prod.split)

lemmas retry_step_defs = pv_step_def provider_simps local_transaction_eq on_open_def on_close_def on_error_def
  pv_connect_def set_status_def schedule_retry_def send_awareness_def broadcast_local_awareness_def pv_send_def
  pv_destroy_def send_sync_step1_def flush_def flush_loop_eq Let_def

definition is_close :: "'d event \<Rightarrow> bool" where
  "is_close e \<longleftrightarrow> (case e of SocketClose c \<Rightarrow> True | _ \<Rightarrow> False)"

lemma retries_kept:
  assumes "e \<noteq> SocketOpen" and "\<not> is_close e"
  shows "p_retryCount (fst (pv_step E e p)) = p_retryCount p"
  using assms by (cases e) (auto simp: retry_step_defs is_close_def split: option.split)

lemma retries_kept_run:
  assumes "pv_run E evs p = Some (q, out)" and "SocketOpen \<notin> set evs" and "list_all (\<lambda>e. \<not> is_close e) evs"
  shows "p_retryCount q = p_retryCount p"
  using assms by (induction evs arbitrary: p out) (auto simp: retries_kept split: if_splits)

lemma connected_retries_step:
  assumes "p_status p = StConnected \<longrightarrow> p_retryCount p = 0"
  shows "p_status (fst (pv_step E e p)) = StConnected \<longrightarrow> p_retryCount (fst (pv_step E e p)) = 0"
  using assms by (cases e) (auto simp: retry_step_defs split: option.split)

lemma connected_retries: "reach E d p es \<Longrightarrow> p_status p = StConnected \<Longrightarrow> p_retryCount p = 0"
proof (induction rule: reach.induct)
  case (start p es)
  then show ?case by (auto simp: construct_def pv_connect_def set_status_def)
next
  case (step p es e p' es')
  then show ?case using connected_retries_step[of p E e] by simp
qed

text \<open>A close with a final code; then nothing is armed or opened, and no second report follows.\<close>

definition final_close :: "nat option \<Rightarrow> bool" where
  "final_close c \<longleftrightarrow> (case c of None \<Rightarrow> False | Some k \<Rightarrow> 4000 \<le> k \<and> k \<le> 4099)"

lemma on_message_no_auth: "AuthError k \<notin> set (snd (on_message E m p))"
  by (cases rule: on_message_cases[of E m p])
    (auto simp: handle_sync_effects split: option.splits dest: handle_rejection_effects)

lemma given_up_no_auth:
  assumes "given_up p" and "enabled e p"
  shows "AuthError k \<notin> set (snd (pv_step E e p))"
  using assms
  by (cases e) (auto simp: pv_step_def given_up_def enabled_def on_message_no_auth on_error_def pv_destroy_def pv_connect_def
      send_awareness_def broadcast_local_awareness_def pv_send_def
      dest: on_open_effects local_transaction_effects split: option.splits if_splits)

lemma close_outcome:
  assumes "reach E d p es" and "enabled (SocketClose c) p"
  shows "if final_close c
    then snd (on_close c p) = [StatusChange StDisconnected, AuthError (the c)] \<and> given_up (fst (on_close c p))
    else p_retryTimeout (fst (on_close c p)) = Some (retry_delay_ms (p_retryCount p))
      \<and> p_retryCount (fst (on_close c p)) = Suc (p_retryCount p)"
proof -
  obtain w where p: "\<not> p_destroyed p" "p_retryTimeout p = None" "p_ws p = Some w"
    using reach_inv[OF assms(1)] assms(2)
    by (cases rule: ws_cases[of "p_ws p"]) (auto simp: provider_inv_def enabled_def)
  then show ?thesis
    by (cases c) (auto simp: on_close_def set_status_def schedule_retry_def given_up_def final_close_def is_auth_close_code_def)
qed

lemma doubled_delay: "retry_delay_ms (Suc n) = min (2 * retry_delay_ms n) 30000"
  by (simp add: retry_delay_ms_def capped_backoff_def base_retry_delay_ms_def max_retry_delay_ms_def min_def)

text \<open>C23. A close with a code from 4000 to 4099 is final: the application is told once, and no
  continuation of the run opens a socket again or reports an authentication error again. Any other close
  arms the timer with a delay between one and thirty seconds: one second after a connection that had
  opened, and after an attempt that did not open, twice the delay before it, up to thirty seconds.\<close>

theorem close_retries_or_gives_up:
  assumes "reach E d p es" and "enabled (SocketClose c) p"
    and "pv_run E (SocketClose c # evs) p = Some (q, out)"
  shows "if final_close c
    then \<exists>rest. out = StatusChange StDisconnected # AuthError (the c) # rest
      \<and> OpenSocket \<notin> set rest \<and> (\<forall>k. AuthError k \<notin> set rest)
    else \<exists>delay. p_retryTimeout (fst (on_close c p)) = Some delay \<and> 1000 \<le> delay \<and> delay \<le> 30000
      \<and> (p_status p = StConnected \<longrightarrow> delay = 1000)
      \<and> (SocketOpen \<notin> set evs \<longrightarrow> list_all (\<lambda>e. \<not> is_close e) evs \<longrightarrow> enabled (SocketClose c') q \<longrightarrow> \<not> final_close c'
           \<longrightarrow> p_retryTimeout (fst (on_close c' q)) = Some (min (2 * delay) 30000))"
proof -
  let ?r = "on_close c p"
  note close = close_outcome[OF assms(1,2)]
  from assms(3) obtain out' where o: "pv_run E evs (fst ?r) = Some (q, out')" "out = snd ?r @ out'"
    by (auto simp: pv_step_def split: if_splits)
  show ?thesis
  proof (cases "final_close c")
    case True
    then have r: "snd ?r = [StatusChange StDisconnected, AuthError (the c)]" "given_up (fst ?r)"
      using close by simp_all
    have "given_up q \<and> list_all (\<lambda>e. e \<noteq> OpenSocket \<and> (\<forall>k. e \<noteq> AuthError k)) out'"
      by (rule pv_run_invariant[where I = given_up, OF o(1) r(2)])
        (use given_up_step given_up_no_auth in \<open>fastforce simp: list_all_iff\<close>)
    with True o(2) r(1) show ?thesis by (auto simp: list_all_iff)
  next
    case False
    then have r: "p_retryTimeout (fst ?r) = Some (retry_delay_ms (p_retryCount p))"
      "p_retryCount (fst ?r) = Suc (p_retryCount p)"
      using close by simp_all
    have "reach E d q (es @ out)" by (rule reach_run[OF assms(1,3)])
    from close_outcome[OF this, of c']
    have "p_retryTimeout (fst (on_close c' q)) = Some (min (2 * retry_delay_ms (p_retryCount p)) 30000)"
      if "SocketOpen \<notin> set evs" "list_all (\<lambda>e. \<not> is_close e) evs" "enabled (SocketClose c') q" "\<not> final_close c'"
      using that retries_kept_run[OF o(1)] r(2) by (simp add: doubled_delay)
    moreover have "p_status p = StConnected \<longrightarrow> retry_delay_ms (p_retryCount p) = 1000"
      using connected_retries[OF assms(1)]
      by (simp add: retry_delay_ms_def capped_backoff_def base_retry_delay_ms_def max_retry_delay_ms_def)
    ultimately show ?thesis
      using False r(1) provider_backoff.within[of "p_retryCount p"]
      by (simp add: base_retry_delay_ms_def max_retry_delay_ms_def)
  qed
qed

section \<open>Witnesses\<close>

definition sample_env :: "(message list, nat list) provider_env" where
  "sample_env = \<lparr>pe_yjs = list_yjs, pe_lib = sample_lib0 list_yjs, pe_aw = list_awareness,
     pe_cfg = sample_config, pe_clientID = 1, pe_username = js ''u''\<rparr>"

lemma sample_env_laws [simp]:
  "array_laws (pe_yjs sample_env)" "sync_laws list_yjs (pe_lib sample_env)"
  by (simp_all add: sample_env_def)

definition sample_start :: "(message list, nat list) provider" where
  "sample_start = fst (construct sample_env [])"

lemma sample_reach: "reach sample_env [] sample_start (snd (construct sample_env []))"
  by (rule reach.start) (simp add: sample_start_def)

lemma sample_start_simps:
  "p_ws sample_start = Some Connecting" "p_stateRefused sample_start = False"
  "p_pendingUpdates sample_start = []" "p_doc sample_start = []" "p_retryCount sample_start = 0"
  "p_destroyed sample_start = False"
  by (simp_all add: sample_start_def construct_def pv_connect_def set_status_def)

lemma provider_lifecycle_witness:
  "provider_inv sample_start \<and> provider_inv (fst (pv_step sample_env SocketOpen sample_start))"
  using provider_lifecycle[OF sample_reach, of SocketOpen]
  by (simp add: enabled_def sample_start_simps)



lemma rejection_repairs_or_refuses_witness:
  "case handle_rejection sample_env 3 [js ''b'']
      (sample_start\<lparr>p_doc := [sample_message (js ''b'') (js ''v'') []]\<rparr>) of (q, out) \<Rightarrow>
    p_stateRefused q \<and> filter (\<lambda>x. \<not> is_frame x) out = [Unrecoverable 3]"
proof -
  have "\<not> repairable sample_env [js ''b'']
      (sample_start\<lparr>p_doc := [sample_message (js ''b'') (js ''v'') []]\<rparr>)"
    and "named_mine sample_env [js ''b''] (sample_start\<lparr>p_doc := [sample_message (js ''b'') (js ''v'') []]\<rparr>) = []"
    by (simp_all add: repairable_def named_mine_def sample_env_def sample_message_def sample_config_def
        js_def sample_start_def construct_def pv_connect_def set_status_def)
  then show ?thesis
    using rejection_repairs_or_refuses[OF sample_env_laws(1), where k = 3 and ids = "[js ''b'']"
        and p = "sample_start\<lparr>p_doc := [sample_message (js ''b'') (js ''v'') []]\<rparr>"]
    by (auto split: prod.splits)
qed

text \<open>A rejection that names no message, and what a refusing provider then does.\<close>

definition sample_refusal :: "message list event list" where
  "sample_refusal = [SocketOpen, SocketMessage (Inr [20, 3, 0])]"

definition sample_after :: "message list event list" where
  "sample_after = [LocalEdit [], Typing [], SocketClose (Some 1006), RetryTimer, SocketOpen]"

lemma sample_refusal_run:
  "case pv_run sample_env sample_refusal sample_start of None \<Rightarrow> False
   | Some (p, _) \<Rightarrow> p_stateRefused p \<and> pv_run sample_env sample_after p \<noteq> None"
proof -
  have m: "on_message sample_env (Inr [20, 3, 0]) p = handle_rejection sample_env 3 [] p" for p
    by (simp add: on_message_def handle_server_message_def sample_env_def sample_lib0_def msg_type_defs
        read_rejection_def)
  show ?thesis
    by (simp add: sample_refusal_def sample_after_def enabled_def sample_start_simps pv_step_def
        on_open_eq m handle_rejection_eq Let_def repairable_def local_transaction_eq
        send_awareness_def broadcast_local_awareness_def pv_send_def on_close_def set_status_def
        is_auth_close_code_def schedule_retry_def pv_connect_def)
qed

lemma refused_state_stays_silent_witness:
  "case pv_run sample_env sample_refusal sample_start of None \<Rightarrow> False
   | Some (p, _) \<Rightarrow> (case pv_run sample_env sample_after p of None \<Rightarrow> False
       | Some (q, out) \<Rightarrow> list_all (\<lambda>e. \<not> carries_content (pe_lib sample_env) e) out)"
proof -
  obtain p es where p: "pv_run sample_env sample_refusal sample_start = Some (p, es)"
    "p_stateRefused p" "pv_run sample_env sample_after p \<noteq> None"
    using sample_refusal_run by (auto split: option.splits)
  obtain q out where q: "pv_run sample_env sample_after p = Some (q, out)"
    using p(3) by auto
  have "list_all (\<lambda>e. \<not> carries_content (pe_lib sample_env) e) out"
    using refused_state_stays_silent[OF sample_env_laws(2) reach_run[OF sample_reach p(1)] p(2) q]
    by blast
  with p(1) q show ?thesis by simp
qed

text \<open>The server closes a client that exceeds the rate limit with 4029, which the provider takes for
  an authentication failure.\<close>

lemma close_retries_or_gives_up_witness:
  "case pv_run sample_env [SocketOpen, SocketClose (Some 4029)] sample_start of None \<Rightarrow> False
   | Some (p, out) \<Rightarrow> AuthError 4029 \<in> set out"
proof -
  obtain p es where p: "pv_run sample_env [SocketOpen] sample_start = Some (p, es)"
    "p_ws p = Some Open"
    by (simp add: enabled_def sample_start_simps pv_step_def on_open_eq)
  have e: "enabled (SocketClose (Some 4029)) p"
    using p(2) by (simp add: enabled_def)
  have r: "pv_run sample_env [SocketClose (Some 4029)] p
      = Some (fst (on_close (Some 4029) p), snd (on_close (Some 4029) p))"
    using e by (simp add: pv_step_def)
  have "AuthError 4029 \<in> set (snd (on_close (Some 4029) p))"
    using close_retries_or_gives_up[OF reach_run[OF sample_reach p(1)] e r] by (auto simp: final_close_def)
  with p e show ?thesis
    by (simp add: enabled_def pv_step_def split_beta split: if_splits)
qed

end
