(* ===== verification/Provider_Sync.thy ===== *)
theory Provider_Sync
  imports Gateway_Sync Ws_Provider
begin

text \<open>
  What every event of a provider does for its document and its socket: the document only grows, by
  what the provider receives and what it sends, and what it sends or keeps for later applies
  everywhere and is known to its document. The counterpart of \<open>Gateway_Sync\<close> on the client.
\<close>

section \<open>What a provider sends\<close>

definition sent_frames :: "effect list \<Rightarrow> bytes list" where
  "sent_frames es = concat (map (\<lambda>x. case x of Send b \<Rightarrow> [b] | _ \<Rightarrow> []) es)"

lemma sent_frames_simps [simp]:
  "sent_frames [] = []" "sent_frames (Send b # es) = b # sent_frames es"
  "sent_frames (OpenSocket # es) = sent_frames es" "sent_frames (CloseSocket # es) = sent_frames es"
  "sent_frames (StatusChange s # es) = sent_frames es" "sent_frames (AuthError k # es) = sent_frames es"
  "sent_frames (E2eeRejected k ms # es) = sent_frames es" "sent_frames (Unrecoverable k # es) = sent_frames es"
  "sent_frames (RoomEpoch k # es) = sent_frames es" "sent_frames (Synced # es) = sent_frames es"
  "sent_frames (es @ fs) = sent_frames es @ sent_frames fs"
  by (simp_all add: sent_frames_def)

lemma sent_frames_map [simp]: "sent_frames (map (\<lambda>u. Send (f u)) us) = map f us"
  by (induction us) simp_all

abbreviation doc_of :: "('d \<Rightarrow> 'o set) \<Rightarrow> ('d, 'a) provider \<Rightarrow> 'o set" where
  "doc_of ops p \<equiv> ops (p_doc p)"

text \<open>
  A provider moves when its document grows by at most what it received and what it sends, and what
  it sends is known to its document.
\<close>

definition moves ::
  "('d, 'a) provider_env \<Rightarrow> ('d \<Rightarrow> 'o set) \<Rightarrow> (bytes \<Rightarrow> 'o set) \<Rightarrow> 'o set \<Rightarrow> ('d, 'a) provider \<Rightarrow> ('d, 'a) outcome \<Rightarrow> bool" where
  "moves P ops known got p x \<longleftrightarrow> doc_of ops p \<subseteq> doc_of ops (fst x)
     \<and> doc_of ops (fst x) \<subseteq> doc_of ops p \<union> got \<union> carried known (pe_lib P) (sent_frames (snd x))
     \<and> frames_ok (pe_yjs P) (pe_lib P) known (doc_of ops (fst x)) (sent_frames (snd x))"

definition pending_ok :: "('d, 'a) provider_env \<Rightarrow> ('d \<Rightarrow> 'o set) \<Rightarrow> (bytes \<Rightarrow> 'o set) \<Rightarrow> ('d, 'a) provider \<Rightarrow> bool" where
  "pending_ok P ops known p \<longleftrightarrow> (\<forall>u \<in> set (p_pendingUpdates p). applies (pe_yjs P) u \<and> known u \<subseteq> doc_of ops p)"

lemma provider_frames:
  assumes "frame_laws Y L"
  shows "frame_update_of L (frame_step1 L d) = None" "frame_update_of L (frame_update L u) = Some u"
    "frame_update_of L (frame_awareness L a) = None"
    "frame_update_of L (l_put_uint L msg_sync @ l_step2 L d sv) = Some (y_diff Y d sv)"
  using frame_updates[OF assms]
  by (simp_all add: frame_step1_def frame_update_def frame_awareness_def sync_frame_def awareness_frame_def)

lemma open_provider:
  assumes "provider_inv p" and "p_ws p = Some Open"
  shows "\<not> p_destroyed p" "p_status p = StConnected" "p_pendingUpdates p = []"
  using assms by (simp_all add: provider_inv_def)

lemma delta_ops:
  assumes "crdt_laws Y ops known" and "ops d \<subseteq> ops d'"
  shows "case y_delta Y d d' of None \<Rightarrow> ops d' = ops d | Some u \<Rightarrow> applies Y u \<and> ops d' = ops d \<union> known u"
  using crdt_lawsD(2,4)[OF assms(1)] crdt_lawsD(3)[OF assms(1) _ assms(2)] by (simp split: option.split)

lemma transaction_moves:
  assumes "provider_inv p" and "p_ws p = Some Open" and "\<not> p_stateRefused p"
    and "crdt_laws (pe_yjs P) ops known" and "frame_laws (pe_yjs P) (pe_lib P)" and "doc_of ops p \<subseteq> ops d"
  shows "moves P ops known {} p (local_transaction P d p)"
  using open_provider[OF assms(1,2)] assms(2,3) delta_ops[OF assms(4,6)]
  by (auto simp: moves_def local_transaction_eq doc_handler_effect_def provider_frames[OF assms(5)] split: option.splits)

lemma transaction_pending:
  assumes "pending_ok P ops known p" and "crdt_laws (pe_yjs P) ops known" and "doc_of ops p \<subseteq> ops d"
  shows "pending_ok P ops known (fst (local_transaction P d p))"
  using assms(1,3) delta_ops[OF assms(2,3)]
  by (auto simp: pending_ok_def local_transaction_eq split: option.splits)

lemma delete_loop_grows:
  assumes "crdt_laws Y ops known"
  shows "ops (fst st) \<subseteq> ops (fst (retract_loop Y ids uid all i st))"
proof (induction i arbitrary: st)
  case (Suc i)
  obtain d acc where st: "st = (d, acc)" by (cases st)
  show ?case
    using Suc.IH[of "(d, acc)"] Suc.IH[of "(y_delete Y i d, all ! i # acc)"] crdt_lawsD(9)[OF assms, of d i]
    by (auto simp: st)
qed simp

lemma retract_grows: "crdt_laws Y ops known \<Longrightarrow> ops d \<subseteq> ops (fst (retract_messages Y cfg ids d))"
  using delete_loop_grows[of Y ops known "(d, [])"] by (simp add: retract_messages_def Let_def)

lemma rejection_parts:
  assumes "retract_messages (pe_yjs P) (pe_cfg P) ids (p_doc p) = (d, ret)"
  shows "p_doc (fst (handle_rejection P k ids p)) = d"
    and "sent_frames (snd (handle_rejection P k ids p)) = sent_frames (snd (local_transaction P d p))"
    and "\<not> p_stateRefused (fst (handle_rejection P k ids p)) \<Longrightarrow> \<not> p_stateRefused p"
    and "set (p_pendingUpdates (fst (handle_rejection P k ids p))) \<subseteq> set (p_pendingUpdates (fst (local_transaction P d p)))"
  using assms
  by (auto simp: handle_rejection_def Let_def andThen_def split_beta local_transaction_eq split: if_splits option.splits)

text \<open>What a message from the server does to a provider that does not give up because of it.\<close>

lemma rejection_moves:
  assumes "provider_inv p" and "p_ws p = Some Open" and "\<not> p_stateRefused (fst (handle_rejection P k ids p))"
    and "crdt_laws (pe_yjs P) ops known" and "frame_laws (pe_yjs P) (pe_lib P)"
  shows "moves P ops known {} p (handle_rejection P k ids p)"
proof -
  obtain d ret where r: "retract_messages (pe_yjs P) (pe_cfg P) ids (p_doc p) = (d, ret)"
    by (cases "retract_messages (pe_yjs P) (pe_cfg P) ids (p_doc p)")
  note parts = rejection_parts[OF r, of k]
  have grow: "doc_of ops p \<subseteq> ops d"
    using retract_grows[OF assms(4), of "p_doc p" "pe_cfg P" ids] r by simp
  show ?thesis
    using transaction_moves[OF assms(1,2) parts(3)[OF assms(3)] assms(4,5) grow]
    by (simp add: moves_def parts(1,2) local_transaction_eq)
qed

lemma sync_moves:
  assumes "p_ws p = Some Open" and "\<not> p_stateRefused p"
    and "crdt_laws (pe_yjs P) ops known" and "frame_laws (pe_yjs P) (pe_lib P)"
  shows "moves P ops known (case carried_update (pe_lib P) s of None \<Rightarrow> {} | Some u \<Rightarrow> known u) p (handle_sync P s p)"
    and "carried_update (pe_lib P) s = Some u \<Longrightarrow> applies (pe_yjs P) u \<Longrightarrow> known u \<subseteq> doc_of ops (fst (handle_sync P s p))"
    and "s = l_step1 (pe_lib P) d \<Longrightarrow>
      doc_of ops (fst (handle_sync P s p)) \<subseteq> ops d \<union> carried known (pe_lib P) (sent_frames (snd (handle_sync P s p)))"
proof -
  note S = frame_lawsD(1)[OF assms(4)]
  have len: "length (l_put_uint (pe_lib P) msg_sync) = 1"
    by (rule frame_lawsD(4)[OF assms(4)]) (simp add: msg_type_defs)
  have parts: "p_doc (fst (handle_sync P s p)) = x" "sent_frames (snd (handle_sync P s p)) =
      (if reply = [] then [] else [l_put_uint (pe_lib P) msg_sync @ reply])"
    if "l_read_sync (pe_lib P) s (p_doc p) = Some (t, reply, x)" for t reply x
    using that assms(1,2) len by (auto simp: handle_sync_def Let_def andThen_def pv_send_def split_beta)
  have diff: "applies (pe_yjs P) (y_diff (pe_yjs P) (p_doc p) sv)" "known (y_diff (pe_yjs P) (p_doc p) sv) \<subseteq> doc_of ops p" for sv
    using crdt_lawsD(6,7)[OF assms(3)] .
  show "moves P ops known (case carried_update (pe_lib P) s of None \<Rightarrow> {} | Some u \<Rightarrow> known u) p (handle_sync P s p)"
  proof (cases "l_read_sync (pe_lib P) s (p_doc p)")
    case None
    then show ?thesis by (simp add: handle_sync_def moves_def)
  next
    case (Some y)
    obtain t reply x where y: "l_read_sync (pe_lib P) s (p_doc p) = Some (t, reply, x)" using Some by (cases y) simp
    note g = read_sync_grows[OF S assms(3) y]
    show ?thesis
    proof (cases "reply = []")
      case True
      then show ?thesis using g(1) by (auto simp: moves_def parts[OF y] split: option.splits if_splits)
    next
      case False
      then obtain sv where "reply = l_step2 (pe_lib P) (p_doc p) sv" "carried_update (pe_lib P) s = None" using g(2) by blast
      then show ?thesis using g(1) False diff by (simp add: moves_def parts[OF y] provider_frames(4)[OF assms(4)])
    qed
  qed
  show "known u \<subseteq> doc_of ops (fst (handle_sync P s p))"
    if u: "carried_update (pe_lib P) s = Some u" "applies (pe_yjs P) u"
  proof (cases "l_read_sync (pe_lib P) s (p_doc p)")
    case None
    with carried_None(1)[OF S None] u show ?thesis by simp
  next
    case (Some y)
    obtain t reply x where y: "l_read_sync (pe_lib P) s (p_doc p) = Some (t, reply, x)" using Some by (cases y) simp
    have "y_apply (pe_yjs P) u (p_doc p) \<noteq> None" using u(2) unfolding applies_def by blast
    then show ?thesis using read_sync_grows(1)[OF S assms(3) y] u(1) by (auto simp: parts[OF y])
  qed
  show "doc_of ops (fst (handle_sync P s p)) \<subseteq> ops d \<union> carried known (pe_lib P) (sent_frames (snd (handle_sync P s p)))"
    if s: "s = l_step1 (pe_lib P) d"
  proof -
    let ?r = "l_step2 (pe_lib P) (p_doc p) (y_state_vector (pe_yjs P) d)"
    note lib = lib0_lawsD[OF frame_lawsD(2)[OF assms(4)]]
    have y: "l_read_sync (pe_lib P) s (p_doc p) = Some (sync_step1, ?r, p_doc p)"
      using lib(1) lib(2)[of "y_state_vector (pe_yjs P) d" "[]"] unfolding s frame_lawsD(3)[OF assms(4)]
      by (simp add: sync_lawsD(2)[OF S])
    have "?r \<noteq> []"
      using frame_lawsD(4)[OF assms(4), of sync_step2] by (auto simp: sync_lawsD(4)[OF S] sync_type_defs)
    then show ?thesis
      using crdt_lawsD(5)[OF assms(3), of "p_doc p" d] by (simp add: parts[OF y] provider_frames(4)[OF assms(4)])
  qed
qed

lemma stays_refused:
  assumes "p_stateRefused p"
  shows "p_stateRefused (fst (pv_step P e p))"
proof -
  have r: "p_stateRefused (fst (handle_rejection P k ids p))" for k ids
    using assms by (auto simp: handle_rejection_def Let_def andThen_def split_beta local_transaction_eq)
  have s: "p_stateRefused (fst (handle_sync P s p))" for s
    using assms by (simp add: handle_sync_def Let_def andThen_def pv_send_def split_beta split: option.split)
  have m: "p_stateRefused (fst (on_message P m p))" for m
    using assms by (simp add: on_message_def handle_server_message_def r s split: option.split)
  show ?thesis
  proof (cases e)
    case (LocalEdit d)
    then show ?thesis using assms by (simp add: pv_step_def local_transaction_eq)
  qed (use assms in \<open>simp_all add: pv_step_def m on_open_def flush_def flush_loop_eq andThen_def split_beta set_status_def
      send_sync_step1_def pv_send_def broadcast_local_awareness_def on_close_def schedule_retry_def on_error_def pv_connect_def
      send_awareness_def pv_destroy_def Let_def split: option.split\<close>)
qed

lemma moves_quiet: "p_doc (fst x) = p_doc p \<Longrightarrow> sent_frames (snd x) = [] \<Longrightarrow> moves P ops known got p x"
  by (auto simp: moves_def)

lemma message_moves:
  assumes "provider_inv p" and "p_ws p = Some Open" and "\<not> p_stateRefused (fst (on_message P (Inr b) p))"
    and "crdt_laws (pe_yjs P) ops known" and "frame_laws (pe_yjs P) (pe_lib P)"
  shows "moves P ops known (gained (pe_lib P) known b) p (on_message P (Inr b) p)"
    and "frame_update_of (pe_lib P) b = Some u \<Longrightarrow> applies (pe_yjs P) u \<Longrightarrow> known u \<subseteq> doc_of ops (fst (on_message P (Inr b) p))"
    and "b = sync_frame (pe_lib P) (l_step1 (pe_lib P) d) \<Longrightarrow>
      doc_of ops (fst (on_message P (Inr b) p)) \<subseteq> ops d \<union> carried known (pe_lib P) (sent_frames (snd (on_message P (Inr b) p)))"
proof -
  have refused: "\<not> p_stateRefused p"
    using stays_refused[of p P "SocketMessage (Inr b)"] assms(3) by (auto simp: pv_step_def)
  note sync = sync_moves[OF assms(2) refused assms(4,5)]
  note rej = rejection_moves[OF assms(1,2) _ assms(4,5)]
  show "moves P ops known (gained (pe_lib P) known b) p (on_message P (Inr b) p)"
  proof (cases "l_get_uint (pe_lib P) b")
    case None
    then show ?thesis by (simp add: on_message_def handle_server_message_def moves_quiet)
  next
    case (Some y)
    obtain t body where y: "y = (t, body)" by (cases y)
    show ?thesis
    proof (cases "t = msg_sync")
      case True
      then show ?thesis using sync(1)[of body] Some y
        by (simp add: on_message_def handle_server_message_def gained_def frame_update_of_def)
    next
      case False
      have "moves P ops known {} p (on_message P (Inr b) p)"
        using False Some y assms(3) rej
        by (auto simp: on_message_def handle_server_message_def moves_quiet split: option.splits if_splits)
      then show ?thesis using False Some y by (simp add: gained_def frame_update_of_def)
    qed
  qed
  show "known u \<subseteq> doc_of ops (fst (on_message P (Inr b) p))"
    if u: "frame_update_of (pe_lib P) b = Some u" "applies (pe_yjs P) u"
  proof -
    obtain body where b: "l_get_uint (pe_lib P) b = Some (msg_sync, body)" "carried_update (pe_lib P) body = Some u"
      using u(1) by (auto simp: frame_update_of_def split: option.splits if_splits)
    then have "on_message P (Inr b) p = handle_sync P body p" by (simp add: on_message_def handle_server_message_def)
    then show ?thesis using sync(2)[OF b(2) u(2)] by simp
  qed
  show "doc_of ops (fst (on_message P (Inr b) p)) \<subseteq> ops d \<union> carried known (pe_lib P) (sent_frames (snd (on_message P (Inr b) p)))"
    if "b = sync_frame (pe_lib P) (l_step1 (pe_lib P) d)"
    using sync(3)[OF refl, of d] lib0_lawsD(1)[OF frame_lawsD(2)[OF assms(5)]]
    unfolding that by (simp add: on_message_def handle_server_message_def sync_frame_def)
qed

lemma step_pending:
  assumes "pending_ok P ops known p" and "crdt_laws (pe_yjs P) ops known" and "sync_laws (pe_yjs P) (pe_lib P)"
    and "case e of LocalEdit d \<Rightarrow> doc_of ops p \<subseteq> ops d | _ \<Rightarrow> True"
  shows "pending_ok P ops known (fst (pv_step P e p))"
proof -
  have grown: "pending_ok P ops known q"
    if "p_pendingUpdates q = p_pendingUpdates p" "doc_of ops p \<subseteq> doc_of ops q" for q
    using that assms(1) by (auto simp: pending_ok_def)
  have none: "pending_ok P ops known q" if "p_pendingUpdates q = []" for q
    using that by (simp add: pending_ok_def)
  have r: "pending_ok P ops known (fst (handle_rejection P k ids p))" for k ids
  proof -
    obtain d ret where r: "retract_messages (pe_yjs P) (pe_cfg P) ids (p_doc p) = (d, ret)"
      by (cases "retract_messages (pe_yjs P) (pe_cfg P) ids (p_doc p)")
    have "pending_ok P ops known (fst (local_transaction P d p))"
      by (rule transaction_pending[OF assms(1,2)]) (use retract_grows[OF assms(2), of "p_doc p" "pe_cfg P" ids] r in simp)
    then show ?thesis using rejection_parts(1,4)[OF r, of k] by (auto simp: pending_ok_def local_transaction_eq)
  qed
  have s: "pending_ok P ops known (fst (handle_sync P s p))" for s
    using read_sync_grows(1)[OF assms(3,2)]
    by (auto simp: handle_sync_def Let_def andThen_def pv_send_def split_beta assms(1) intro!: grown split: option.split)
  have m: "pending_ok P ops known (fst (on_message P m p))" for m
    by (auto simp: on_message_def handle_server_message_def r s assms(1) intro!: grown split: option.split)
  show ?thesis
  proof (cases e)
    case (LocalEdit d)
    then show ?thesis using transaction_pending[OF assms(1,2)] assms(4) by (simp add: pv_step_def)
  next
    case SocketOpen
    then show ?thesis
      by (intro none) (simp add: pv_step_def on_open_def flush_def flush_loop_eq andThen_def split_beta set_status_def
        send_sync_step1_def pv_send_def broadcast_local_awareness_def)
  next
    case Destroy
    then show ?thesis by (intro none) (simp add: pv_step_def pv_destroy_def)
  next
    case (SocketMessage x)
    then show ?thesis by (simp add: pv_step_def m)
  qed (intro grown; simp add: pv_step_def andThen_def set_status_def on_close_def schedule_retry_def on_error_def pv_connect_def
      send_awareness_def broadcast_local_awareness_def pv_send_def Let_def split: option.split)+
qed

end
