(* ===== verification/Gateway_Kept.thy ===== *)
theory Gateway_Kept
  imports Gateway_Inv
begin

text \<open>
  What most steps of the gateway leave exactly as it is: who is alive, listening, closed or still
  connecting, which rooms are registered under which names, and each room's name and whether it was
  destroyed. One lemma per operation; the heartbeat theorem and the uniqueness of rooms rest on them.
\<close>

definition kept :: "('d, 'a) gateway \<Rightarrow> (nat \<Rightarrow> bool option \<times> nat option \<times> bool \<times> conn_phase option)
    \<times> (jstr \<times> nat) list \<times> (jstr \<times> nat) list \<times> (nat \<times> jstr) list \<times> nat \<times> (nat \<Rightarrow> jstr \<times> bool)" where
  "kept g = (\<lambda>c. (gw_alive g c, gw_listening g c, gw_socket g c = Some Closed, gw_conn g c),
     gw_rooms g, gw_roomInitMap g, gw_clientRoom g, gw_next g, \<lambda>r. (rs_roomId (room_at g r), rs_destroyed (room_at g r)))"

lemma keptD:
  assumes "kept h = kept g"
  shows "gw_alive h c = gw_alive g c" "gw_listening h c = gw_listening g c" "gw_conn h c = gw_conn g c"
    "gw_socket h c = Some Closed \<longleftrightarrow> gw_socket g c = Some Closed"
    "gw_rooms h = gw_rooms g" "gw_roomInitMap h = gw_roomInitMap g" "gw_clientRoom h = gw_clientRoom g" "gw_next h = gw_next g"
    "rs_roomId (room_at h r) = rs_roomId (room_at g r)" "rs_destroyed (room_at h r) = rs_destroyed (room_at g r)"
  using assms by (simp_all add: kept_def fun_eq_iff)

lemma andThen_kept:
  assumes "kept (fst r) = a" and "\<And>g. kept (fst (f g)) = kept g"
  shows "kept (fst (andThen r f)) = a"
  using assms by (simp add: andThen_def split_def)

named_theorems kept_simps

lemma kept_fields [kept_simps]:
  "kept (g\<lparr>gw_persistTimers := pt\<rparr>) = kept g" "kept (g\<lparr>gw_clientRate := rt\<rparr>) = kept g"
  "kept (g\<lparr>gw_lastRejection := lr\<rparr>) = kept g" "kept (g\<lparr>gw_awarenessIds := ai\<rparr>) = kept g"
  "kept (g\<lparr>gw_epochByDbId := ep\<rparr>) = kept g" "kept (g\<lparr>gw_metrics := mt\<rparr>) = kept g"
  "kept (g\<lparr>gw_user := us\<rparr>) = kept g" "kept (g\<lparr>gw_gcTimers := gt\<rparr>) = kept g"
  "kept (g\<lparr>gw_writes := ws\<rparr>) = kept g" "kept (g\<lparr>gw_db := d\<rparr>) = kept g"
  by (simp_all add: kept_def room_at_def)

lemma kept_set_room:
  "rs_roomId s = rs_roomId (room_at g r) \<Longrightarrow> rs_destroyed s = rs_destroyed (room_at g r) \<Longrightarrow> kept (set_room r s g) = kept g"
  by (auto simp: kept_def gateway_simps fun_eq_iff) (simp_all add: set_room_def)

lemma kept_room [kept_simps]:
  "kept (set_room r ((room_at g r)\<lparr>rs_doc := d\<rparr>) g) = kept g"
  "kept (set_room r ((room_at g r)\<lparr>rs_awareness := a\<rparr>) g) = kept g"
  "kept (set_room r ((room_at g r)\<lparr>rs_clients := cs\<rparr>) g) = kept g"
  "kept (set_room r ((room_at g r)\<lparr>rs_dbId := i\<rparr>) g) = kept g"
  "kept (set_room r ((room_at g r)\<lparr>rs_dbId := i, rs_currentKeyId := k\<rparr>) g) = kept g"
  "kept (set_room r ((room_at g r)\<lparr>rs_currentKeyId := k\<rparr>) g) = kept g"
  "kept (set_load r l g) = kept g"
  by (rule kept_set_room; simp) (simp_all add: kept_set_room set_load_def)

lemma kept_small [kept_simps]:
  "kept (count_metric m g) = kept g" "kept (schedule_persist r g) = kept g" "kept (track_awareness_ids c ch g) = kept g"
  by (simp_all add: count_metric_def schedule_persist_def track_awareness_ids_def Let_def kept_simps split: prod.split)

lemma kept_on_room_update [kept_simps]: "kept (fst (on_room_update E r u org g)) = kept g"
  by (simp add: on_room_update_def Let_def kept_simps)

lemma kept_change_doc [kept_simps]: "kept (fst (change_doc E r d org g)) = kept g"
  by (simp add: change_doc_def Let_def kept_simps split: option.split)

lemma kept_on_awareness_update [kept_simps]: "kept (fst (on_awareness_update E r ch org g)) = kept g"
  by (simp add: on_awareness_update_def Let_def kept_simps split: prod.split option.split origin.split)

lemma kept_change_awareness [kept_simps]: "kept (fst (change_awareness E r ac org g)) = kept g"
  by (simp add: change_awareness_def Let_def kept_simps)

lemma kept_raise_loop [kept_simps]: "kept (fst (raise_loop E i k rs g)) = kept g"
  by (induction E i k rs g rule: raise_loop.induct) (auto simp: Let_def kept_simps intro!: andThen_kept)

lemma kept_raise_epoch [kept_simps]: "kept (fst (raise_epoch E i k g)) = kept g"
  by (simp add: raise_epoch_def kept_simps)

lemma kept_on_epoch_advanced [kept_simps]: "kept (fst (on_epoch_advanced E i k g)) = kept g"
  by (simp add: on_epoch_advanced_def kept_simps andThen_kept)

lemma kept_pmessage [kept_simps]: "kept (fst (pmessage E channel payload g)) = kept g"
  by (simp add: pmessage_def Let_def kept_simps andThen_kept split: option.split json.split prod.split)

lemma kept_loads [kept_simps]:
  "kept (load_ready r g) = kept g" "kept (load_find r g) = kept g" "kept (load_found E r row g) = kept g"
  "kept (load_upsert fresh r g) = kept g" "kept (load_upserted r res g) = kept g"
  by (simp_all add: load_ready_def load_find_def load_found_def load_upsert_def load_upserted_def
      kept_simps Let_def split: option.split sum.split prod.split)

lemma kept_limited [kept_simps]: "kept (snd (is_rate_limited now c g)) = kept g"
  by (simp add: is_rate_limited_def kept_simps split: option.split)

lemma kept_close [kept_simps]: "kept (fst (close_client c code g)) = kept g"
  by (auto simp: close_client_def kept_def room_at_def fun_eq_iff split: option.split ready_state.split)

lemma kept_resync [kept_simps]:
  "kept (fst (ask_for_resync E c r body g)) = kept g" "kept (fst (resync_fire E c st g)) = kept g"
  by (simp_all add: ask_for_resync_def resync_fire_def Let_def kept_simps split: option.split)

lemma kept_sync [kept_simps]: "kept (fst (handle_sync_message E c r data body g)) = kept g"
  by (simp add: handle_sync_message_def Let_def kept_simps andThen_kept split: sum.split option.split prod.split)

lemma kept_message [kept_simps]: "kept (fst (handle_message E now c r data g)) = kept g"
  using kept_limited[of now c g]
  by (simp add: handle_message_def Let_def split_def kept_simps split: option.split)

lemma kept_persist [kept_simps]:
  "kept (persist_room_state E r g) = kept g" "kept (persist_fire E name r g) = kept g" "kept (write_lands i g) = kept g"
  by (simp_all add: persist_room_state_def persist_fire_def write_lands_def Let_def kept_simps split: prod.split sum.split)

text \<open>The events that leave all of this alone.\<close>

definition keeps :: "g_event \<Rightarrow> bool" where
  "keeps e \<longleftrightarrow> (case e of ELoadFind r \<Rightarrow> True | ELoadFails r \<Rightarrow> True | ELoadFound r \<Rightarrow> True | ELoadUpsert f r \<Rightarrow> True
     | ELoadUpserted r \<Rightarrow> True | EMessage now c b \<Rightarrow> True | EPersistTimer n \<Rightarrow> True | EWriteLands i \<Rightarrow> True
     | EResyncTimer c \<Rightarrow> True | ERedis ch m \<Rightarrow> True | EEpochAdvanced i k \<Rightarrow> True | _ \<Rightarrow> False)"

lemma untouched_step:
  assumes "g_step E known e g = Some x" and "keeps e"
  shows "kept (fst x) = kept g"
  using assms by (cases e) (auto simp: g_step_def keeps_def kept_simps split: option.splits if_splits load_state.splits)

text \<open>What leaving, joining and collecting change.\<close>

lemma kept_disconnect:
  "kept (fst (handle_disconnect E c g)) = kept (case map_of (gw_clientRoom g) c of None \<Rightarrow> g
     | Some name \<Rightarrow> if name = [] then g else g\<lparr>gw_clientRoom := AList.delete c (gw_clientRoom g)\<rparr>)"
proof -
  have "kept (set_room r ((room_at g r)\<lparr>rs_clients := cs\<rparr>) (count_metric m (g\<lparr>gw_clientRoom := cr\<rparr>)))
      = kept (g\<lparr>gw_clientRoom := cr\<rparr>)" for r cs m cr and g :: "('a, 'b) gateway"
    using kept_room(3)[where r = r and cs = cs and g = "count_metric m (g\<lparr>gw_clientRoom := cr\<rparr>)"] by (simp add: kept_simps gateway_simps)
  then show ?thesis
    by (auto simp: handle_disconnect_def Let_def kept_simps andThen_kept gateway_simps split: option.split
        intro!: andThen_kept)
qed

end
