(* ===== verification/Room_Registry.thy ===== *)
theory Room_Registry
  imports Gateway_Kept
begin

text \<open>
  One room object per name. A garbage-collection timer that fires takes its room out of the map by
  name; while every timer that collects finds its own room there, each room that lives is the one
  registered under its name, and who listens to a room listens to that one. The timers are not
  cancelled when a client comes back (\<open>handleDisconnect\<close>), so the server does not ensure this by itself.
\<close>

definition registry_ok :: "('d, 'a) gateway \<Rightarrow> bool" where
  "registry_ok g \<longleftrightarrow> gw_roomInitMap g = gw_rooms g
     \<and> (\<forall>r < gw_next g. \<not> rs_destroyed (room_at g r) \<longrightarrow> map_of (gw_rooms g) (rs_roomId (room_at g r)) = Some r)
     \<and> (\<forall>n r. map_of (gw_rooms g) n = Some r \<longrightarrow> \<not> rs_destroyed (room_at g r))
     \<and> (\<forall>c r. gw_listening g c = Some r \<longrightarrow> \<not> rs_destroyed (room_at g r)
          \<and> map_of (gw_clientRoom g) c = Some (rs_roomId (room_at g r)))
     \<and> (\<forall>c n r. gw_conn g c = Some (AwaitingRoom n r) \<longrightarrow> \<not> rs_destroyed (room_at g r))
     \<and> (\<forall>c n. map_of (gw_clientRoom g) c = Some n \<longrightarrow> gw_socket g c \<noteq> Some Closed \<longrightarrow> gw_listening g c \<noteq> None)"

lemma registryD:
  assumes "registry_ok g"
  shows "gw_roomInitMap g = gw_rooms g"
    "r < gw_next g \<Longrightarrow> \<not> rs_destroyed (room_at g r) \<Longrightarrow> map_of (gw_rooms g) (rs_roomId (room_at g r)) = Some r"
    "map_of (gw_rooms g) n = Some r \<Longrightarrow> \<not> rs_destroyed (room_at g r)"
    "gw_listening g c = Some r \<Longrightarrow> \<not> rs_destroyed (room_at g r) \<and> map_of (gw_clientRoom g) c = Some (rs_roomId (room_at g r))"
    "gw_conn g c = Some (AwaitingRoom n r) \<Longrightarrow> \<not> rs_destroyed (room_at g r)"
    "map_of (gw_clientRoom g) c = Some n \<Longrightarrow> gw_socket g c \<noteq> Some Closed \<Longrightarrow> gw_listening g c \<noteq> None"
  using assms unfolding registry_ok_def by blast+

lemma registry_kept:
  assumes "kept h = kept g" and "registry_ok g"
  shows "registry_ok h"
  using assms(2) unfolding registry_ok_def keptD[OF assms(1)] .

lemma registry_alive: "registry_ok (g\<lparr>gw_alive := a\<rparr>) = registry_ok g"
  by (simp add: registry_ok_def room_at_def)

lemma registry_empty: "registry_ok (empty_gateway d)"
  by (simp add: registry_ok_def empty_gateway_def)

section \<open>Every step\<close>

lemma kept_terminate: "kept (fst (terminate_client c g)) = kept g"
  by (auto simp: terminate_client_def kept_def room_at_def fun_eq_iff split: option.split ready_state.split)

lemma registry_sweep: "registry_ok g \<Longrightarrow> registry_ok (fst (sweep_loop cs g))"
proof (induction cs arbitrary: g)
  case (Cons c cs)
  have "registry_ok (fst (terminate_client c g))" "registry_ok (g\<lparr>gw_alive := (gw_alive g)(c \<mapsto> False)\<rparr>)"
    using Cons.prems registry_kept[OF kept_terminate] by (simp_all add: registry_alive)
  then show ?case using Cons.IH by (simp add: andThen_def split_def)
qed simp

lemma registry_conn:
  assumes "registry_ok g" and "\<And>n r. ph = Some (AwaitingRoom n r) \<Longrightarrow> \<not> rs_destroyed (room_at g r)"
  shows "registry_ok (g\<lparr>gw_conn := (gw_conn g)(c := ph)\<rparr>)"
  using assms by (auto simp: registry_ok_def room_at_def split: if_splits)

lemma room_refs:
  assumes "gw_inv g"
  shows "map_of (gw_rooms g) n = Some r \<Longrightarrow> r < gw_next g \<and> rs_roomId (room_at g r) = n"
    and "gw_conn g c = Some (AwaitingRoom n r) \<Longrightarrow> r < gw_next g \<and> rs_roomId (room_at g r) = n"
proof -
  show "map_of (gw_rooms g) n = Some r \<Longrightarrow> r < gw_next g \<and> rs_roomId (room_at g r) = n"
    using refs_in(1)[OF assms map_of_SomeD] by (auto simp: ref_ok_def)
  show "gw_conn g c = Some (AwaitingRoom n r) \<Longrightarrow> r < gw_next g \<and> rs_roomId (room_at g r) = n"
    using gw_invD(5)[OF assms] by (fastforce simp: conns_ok_def phase_ok_def ref_ok_def)
qed

lemma registry_created:
  assumes "registry_ok g" and "gw_inv g"
  shows "registry_ok (snd (get_or_create_room E name g))"
    and "\<not> rs_destroyed (room_at (snd (get_or_create_room E name g)) (fst (get_or_create_room E name g)))"
proof -
  note k = registryD[OF assms(1)] and refs = room_refs[OF assms(2)] and lis = listener_at(1)[OF assms(2)]
  let ?x = "get_or_create_room E name g"
  show "registry_ok (snd ?x)"
  proof (cases "map_of (gw_rooms g) name")
    case (Some r)
    then show ?thesis using assms(1) k(1) by (simp add: get_or_create_room_def)
  next
    case None
    have at: "room_at (snd ?x) r = (if r = gw_next g then \<lparr>rs_roomId = name, rs_doc = y_new (ge_yjs E), rs_awareness = aw_new (ge_aw E),
        rs_clients = [], rs_dbId = None, rs_currentKeyId = 0, rs_load = Finding, rs_destroyed = False\<rparr> else room_at g r)" for r
      using None k(1) by (simp add: get_or_create_room_def Let_def room_at_def set_room_def)
    have f: "gw_roomInitMap (snd ?x) = AList.update name (gw_next g) (gw_rooms g)"
      "gw_rooms (snd ?x) = AList.update name (gw_next g) (gw_rooms g)" "gw_next (snd ?x) = Suc (gw_next g)"
      "gw_listening (snd ?x) = gw_listening g" "gw_conn (snd ?x) = gw_conn g" "gw_clientRoom (snd ?x) = gw_clientRoom g"
      "gw_socket (snd ?x) = gw_socket g"
      using None k(1) by (simp_all add: get_or_create_room_def Let_def set_room_def)
    have old: "map_of (gw_rooms g) m \<noteq> Some (gw_next g)" "gw_listening g c \<noteq> Some (gw_next g)"
      "gw_conn g c \<noteq> Some (AwaitingRoom m (gw_next g))" for m c
      using refs(1)[of m "gw_next g"] refs(2)[of c m "gw_next g"] lis[of c "gw_next g"] by auto
    show ?thesis
      unfolding registry_ok_def f at
    proof (intro conjI allI impI)
      fix r assume r: "r < Suc (gw_next g)" "\<not> rs_destroyed (if r = gw_next g then \<lparr>rs_roomId = name, rs_doc = y_new (ge_yjs E), rs_awareness = aw_new (ge_aw E),
        rs_clients = [], rs_dbId = None, rs_currentKeyId = 0, rs_load = Finding, rs_destroyed = False\<rparr> else room_at g r)"
      show "map_of (AList.update name (gw_next g) (gw_rooms g)) (rs_roomId (if r = gw_next g then \<lparr>rs_roomId = name, rs_doc = y_new (ge_yjs E), rs_awareness = aw_new (ge_aw E),
        rs_clients = [], rs_dbId = None, rs_currentKeyId = 0, rs_load = Finding, rs_destroyed = False\<rparr> else room_at g r)) = Some r"
        using r k(2)[of r] None by (auto simp: update_conv)
    qed (use k(3-6) old None in \<open>auto simp: update_conv split: if_splits\<close>)
  qed
  show "\<not> rs_destroyed (room_at (snd ?x) (fst ?x))"
    using k(1,3) by (auto simp: get_or_create_room_def Let_def room_at_def set_room_def split: option.split)
qed

lemma registry_await:
  assumes "registry_ok g" and "gw_inv g"
  shows "registry_ok (await_room E c name g)"
  using registry_conn[OF registry_created(1)[OF assms, of E name], of "Some (AwaitingRoom name (fst (get_or_create_room E name g)))" c]
    registry_created(2)[OF assms, of E name]
  by (simp add: await_room_def split_def)

lemma registry_connect:
  assumes "registry_ok g" and "gw_inv g" and "gw_socket g c = None"
  shows "registry_ok (fst (handle_connection E c room header g))"
proof -
  let ?g = "g\<lparr>gw_socket := (gw_socket g)(c \<mapsto> Open)\<rparr>"
  have "map_of (gw_clientRoom g) c = None"
    using gw_invD(6)[OF assms(2)] assms(3) by (force simp: gauge_ok_def map_of_eq_None_iff)
  then have g: "registry_ok ?g"
    using assms(1) by (auto simp: registry_ok_def room_at_def)
  have gu: "registry_ok (?g\<lparr>gw_user := us\<rparr>)" for us
    by (rule registry_kept[OF kept_fields(7) g])
  have inv: "gw_inv (?g\<lparr>gw_user := (gw_user g)(c \<mapsto> u)\<rparr>)" for u
    by (rule inv_fresh_socket[OF assms(2,3)])
  have cl: "registry_ok (fst (close_client c code ?g))" for code
    by (rule registry_kept[OF kept_close g])
  have ck: "registry_ok (?g\<lparr>gw_user := us, gw_conn := (gw_conn g)(c \<mapsto> CheckingMember a b)\<rparr>)" for us a b
    using registry_conn[OF gu, of "Some (CheckingMember a b)" us c] by simp
  show ?thesis
    using cl registry_await[OF gu inv] ck
    by (auto simp: handle_connection_def Let_def split: option.split)
qed

lemma registry_join:
  assumes "registry_ok g" and "gw_inv g" and "gw_conn g c = Some (AwaitingRoom n r)"
  shows "registry_ok (fst (join_room E c n r g))"
proof -
  note k = registryD[OF assms(1)]
  have at: "rs_roomId (room_at (fst (join_room E c n r g)) q) = rs_roomId (room_at g q)"
    "rs_destroyed (room_at (fst (join_room E c n r g)) q) = rs_destroyed (room_at g q)" for q
    by (simp_all add: join_room_def Let_def room_at_def set_room_def count_metric_def)
  have f: "gw_rooms (fst (join_room E c n r g)) = gw_rooms g" "gw_roomInitMap (fst (join_room E c n r g)) = gw_roomInitMap g"
    "gw_next (fst (join_room E c n r g)) = gw_next g" "gw_socket (fst (join_room E c n r g)) = gw_socket g"
    "gw_clientRoom (fst (join_room E c n r g)) = AList.update c n (gw_clientRoom g)"
    "gw_listening (fst (join_room E c n r g)) = (gw_listening g)(c \<mapsto> r)" "gw_conn (fst (join_room E c n r g)) = (gw_conn g)(c := None)"
    by (simp_all add: join_room_def Let_def set_room_def count_metric_def)
  have r: "rs_roomId (room_at g r) = n" "\<not> rs_destroyed (room_at g r)"
    using room_refs(2)[OF assms(2,3)] k(5)[OF assms(3)] by simp_all
  show ?thesis
    unfolding registry_ok_def f at using k r by (auto simp: update_conv split: if_splits)
qed

lemma registry_closed:
  assumes "registry_ok g"
  shows "registry_ok (fst (socket_closed E c g))"
proof -
  let ?g = "g\<lparr>gw_socket := (gw_socket g)(c \<mapsto> Closed), gw_listening := (gw_listening g)(c := None)\<rparr>"
  have g: "registry_ok ?g"
    using assms by (auto simp: registry_ok_def room_at_def split: if_splits)
  moreover have "registry_ok (?g\<lparr>gw_clientRoom := AList.delete c (gw_clientRoom g)\<rparr>)"
    using g by (auto simp: registry_ok_def room_at_def delete_conv split: if_splits)
  ultimately have "registry_ok (case map_of (gw_clientRoom ?g) c of None \<Rightarrow> ?g
     | Some name \<Rightarrow> if name = [] then ?g else ?g\<lparr>gw_clientRoom := AList.delete c (gw_clientRoom ?g)\<rparr>)"
    by (simp split: option.split)
  from registry_kept[OF kept_disconnect this] show ?thesis by (simp add: socket_closed_def)
qed

text \<open>
  A timer that collects its room finds it registered under its name, and no connection waits for it: a
  connection that waits for a loaded room goes on in the same turn of the event loop, before any timer.
\<close>

definition collects_own :: "('d, 'a) gateway \<Rightarrow> nat \<Rightarrow> bool" where
  "collects_own g i \<longleftrightarrow> (case gw_gcTimers g ! i of (name, r) \<Rightarrow>
     rs_clients (room_at g r) \<noteq> []
     \<or> map_of (gw_rooms g) name = Some r \<and> (\<forall>c n. gw_conn g c \<noteq> Some (AwaitingRoom n r)))"

lemma registry_gc:
  assumes "registry_ok g" and "gw_inv g" and "collects_own g i" and "i < length (gw_gcTimers g)"
  shows "registry_ok (fst (gc_timer E i g))"
proof -
  obtain n r where t: "gw_gcTimers g ! i = (n, r)" by fastforce
  let ?g = "g\<lparr>gw_gcTimers := take i (gw_gcTimers g) @ drop (Suc i) (gw_gcTimers g)\<rparr>"
  note k = registryD[OF assms(1)]
  have at: "room_at ?g = room_at g" by (simp add: room_at_def[abs_def])
  show ?thesis
  proof (cases "rs_clients (room_at g r) = []")
    case False
    then show ?thesis
      using registry_kept[OF kept_fields(8) assms(1)] by (simp add: gc_timer_def t gc_fire_def at)
  next
    case True
    then have own: "map_of (gw_rooms g) n = Some r" "\<And>c m. gw_conn g c \<noteq> Some (AwaitingRoom m r)"
      using assms(3) by (auto simp: collects_own_def t)
    have name: "rs_roomId (room_at g r) = n" using room_refs(1)[OF assms(2) own(1)] by simp
    have unheard: "gw_listening g c \<noteq> Some r" for c
      using listener_at(2)[OF assms(2), of c r] True by auto
    define h where "h = (case map_of (gw_persistTimers ?g) n of None \<Rightarrow> ?g
      | Some _ \<Rightarrow> persist_room_state E r (?g\<lparr>gw_persistTimers := AList.delete n (gw_persistTimers ?g)\<rparr>))"
    define h2 where "h2 = fst (change_awareness E r (aw_destroy (ge_aw E) (rs_awareness (room_at h r))) None h)"
    have h: "kept h2 = kept g"
      by (simp add: h2_def h_def kept_simps split: option.split)
    define h3 where "h3 = set_room r ((room_at h2 r)\<lparr>rs_destroyed := True\<rparr>) h2"
    let ?x = "h3\<lparr>gw_rooms := AList.delete n (gw_rooms h3), gw_roomInitMap := AList.delete n (gw_roomInitMap h3)\<rparr>"
    have "gc_timer E i g = gc_fire E n r ?g" by (simp add: gc_timer_def t)
    also have "\<dots> = andThen (destroy_room E r h) (\<lambda>g. let g = g\<lparr>gw_rooms := AList.delete n (gw_rooms g),
          gw_roomInitMap := AList.delete n (gw_roomInitMap g)\<rparr>
        in (count_metric (remove_yjs_state_bytes n) (count_metric dec_rooms_loaded g), []))"
      using True at unfolding gc_fire_def h_def by simp
    finally have run: "kept (fst (gc_timer E i g)) = kept ?x"
      by (simp add: destroy_room_def andThen_def split_def Let_def h2_def[symmetric] h3_def[symmetric] kept_simps)
    have f: "gw_rooms h3 = gw_rooms g" "gw_roomInitMap h3 = gw_roomInitMap g" "gw_next h3 = gw_next g" "gw_clientRoom h3 = gw_clientRoom g"
      "gw_listening h3 c = gw_listening g c" "gw_conn h3 c = gw_conn g c" "gw_socket h3 c = Some Closed \<longleftrightarrow> gw_socket g c = Some Closed"
      "rs_roomId (room_at h3 q) = rs_roomId (room_at g q)" "rs_destroyed (room_at h3 q) \<longleftrightarrow> q = r \<or> rs_destroyed (room_at g q)" for c q
      using keptD[OF h] by (auto simp: h3_def gateway_simps)
    have other: "m \<noteq> n" if "map_of (gw_rooms g) m = Some q" "q \<noteq> r" for m q
      using that own(1) by auto
    have sole: "map_of (gw_rooms g) m = Some r \<longleftrightarrow> m = n" for m
      using own(1) room_refs(1)[OF assms(2), of m r] name by auto
    have "registry_ok ?x"
      unfolding registry_ok_def
      using k other own(2) unheard name sole
      by (auto simp: f delete_conv room_at_def[of "h3\<lparr>gw_rooms := _, gw_roomInitMap := _\<rparr>"] room_at_def[of h3, symmetric])
    then show ?thesis by (rule registry_kept[OF run])
  qed
qed

definition orderly :: "g_event \<Rightarrow> ('d, 'a) gateway \<Rightarrow> bool" where
  "orderly e g \<longleftrightarrow> (case e of EGcTimer i \<Rightarrow> collects_own g i | _ \<Rightarrow> True)"

lemma registry_step:
  assumes "g_step E known e g = Some x" and "registry_ok g" and "gw_inv g" and "orderly e g"
  shows "registry_ok (fst x)"
proof (cases "keeps e")
  case True
  show ?thesis by (rule registry_kept[OF untouched_step[OF assms(1) True] assms(2)])
next
  case False
  note cl = registry_kept[OF kept_close]
  show ?thesis
  proof (cases e)
    case (EConnect c room header)
    then show ?thesis using assms(1) registry_connect[OF assms(2,3)] by (auto simp: g_step_def split: if_splits)
  next
    case (ECheckMember c)
    then show ?thesis using assms(1)
      by (auto simp: g_step_def check_member_def intro!: registry_conn[OF assms(2)] split: option.splits conn_phase.splits)
  next
    case (EMemberKnown c)
    then show ?thesis using assms(1) registry_conn[OF assms(2), of None c] cl registry_await[OF assms(2,3)]
      by (auto simp: g_step_def member_known_def split: option.splits conn_phase.splits)
  next
    case (EQueryFails c)
    then show ?thesis using assms(1) registry_conn[OF assms(2), of None c]
      by (auto simp: g_step_def join_failed_def split: option.splits conn_phase.splits)
  next
    case (EJoin c)
    then show ?thesis using assms(1) registry_conn[OF assms(2), of None c] registry_join[OF assms(2,3)]
      by (auto simp: g_step_def join_failed_def split: option.splits conn_phase.splits load_state.splits)
  next
    case (EClosed c)
    then show ?thesis using assms(1) registry_closed[OF assms(2)] by (auto simp: g_step_def split: if_splits)
  next
    case (EPong c)
    then show ?thesis using assms(1,2) by (auto simp: g_step_def on_pong_def registry_alive split: if_splits)
  next
    case ESweep
    then show ?thesis using assms(1) registry_sweep[OF assms(2)] by (auto simp: g_step_def sweep_heartbeats_def)
  next
    case (EGcTimer i)
    then show ?thesis using assms(1,4) registry_gc[OF assms(2,3)] by (auto simp: g_step_def orderly_def split: if_splits)
  qed (use False in \<open>simp_all add: keeps_def\<close>)
qed

text \<open>Two sockets that listen to rooms of one name listen to one room.\<close>

lemma one_room_per_name:
  assumes "registry_ok g" and "gw_inv g" and "gw_listening g c = Some r" and "gw_listening g c' = Some r'"
    and "rs_roomId (room_at g r) = rs_roomId (room_at g r')"
  shows "r = r'"
proof -
  have "r < gw_next g" "r' < gw_next g" using listener_at(1)[OF assms(2)] assms(3,4) by blast+
  then show ?thesis
    using registryD(2,4)[OF assms(1)] assms(3-5) by (metis option.inject)
qed

end
