(* ===== verification/Convergence.thy ===== *)
theory Convergence
  imports Provider_Sync Room_Registry
begin

text \<open>
  The clients and the server together: providers of the sync engine on one side of ordered,
  reliable sockets, the gateway on the other. What a client or the server knows and the other does
  not is on its way to it, or the server has asked for it; so when nothing is on its way, joined
  clients and the server hold the same messages.
\<close>

section \<open>The composition\<close>

text \<open>
  The gateway, the provider at the client's end of each socket, and the frames in flight in each
  direction. A provider that reconnects moves to a new socket; frames left on the old one may still
  reach the server.
\<close>

record ('d, 'a) net =
  nt_gw :: "('d, 'a) gateway"
  nt_peer :: "nat \<Rightarrow> ('d, 'a) provider option"
  nt_up :: "nat \<Rightarrow> bytes list"
  nt_down :: "nat \<Rightarrow> bytes list"

datatype 'd net_event =
    NetDial nat 'd
  | NetRetry nat nat
  | NetAccept nat "jstr option" "jstr option"
  | NetOpen nat
  | NetClient nat "'d event"
  | NetDeliver nat
  | NetReceive nat nat
  | NetServer g_event

definition serve :: "('d, 'a) g_outcome \<Rightarrow> ('d, 'a) net \<Rightarrow> ('d, 'a) net" where
  "serve x n = n\<lparr>nt_gw := fst x, nt_down := (\<lambda>c. nt_down n c @ sent_to c (snd x))\<rparr>"

definition act :: "nat \<Rightarrow> ('d, 'a) outcome \<Rightarrow> ('d, 'a) net \<Rightarrow> ('d, 'a) net" where
  "act c x n = n\<lparr>nt_peer := (nt_peer n)(c \<mapsto> fst x), nt_up := (nt_up n)(c := nt_up n c @ sent_frames (snd x))\<rparr>"

text \<open>The events of a provider that its environment causes, other than those of the connection.\<close>

definition by_client :: "'d event \<Rightarrow> bool" where
  "by_client e \<longleftrightarrow> (case e of LocalEdit d \<Rightarrow> True | Typing fs \<Rightarrow> True | SocketClose k \<Rightarrow> True | SocketError \<Rightarrow> True
     | Destroy \<Rightarrow> True | _ \<Rightarrow> False)"

text \<open>Sockets without a provider of the model may connect and send anything.\<close>

definition by_server :: "(nat \<Rightarrow> ('d, 'a) provider option) \<Rightarrow> g_event \<Rightarrow> bool" where
  "by_server peer e \<longleftrightarrow> (case e of EConnect c room header \<Rightarrow> peer c = None | EMessage now c b \<Rightarrow> peer c = None | _ \<Rightarrow> True)"

definition net_step ::
  "('d, 'a) gateway_env \<Rightarrow> (nat \<Rightarrow> ('d, 'a) provider_env) \<Rightarrow> nat list \<Rightarrow> 'd net_event \<Rightarrow> ('d, 'a) net \<Rightarrow> ('d, 'a) net option" where
  "net_step E P ks e n = (case e of
     NetDial c d \<Rightarrow> if Option.is_none (gw_socket (nt_gw n) c) \<and> Option.is_none (nt_peer n c)
       then Some (n\<lparr>nt_peer := (nt_peer n)(c \<mapsto> fst (construct (P c) d)), nt_up := (nt_up n)(c := [])\<rparr>) else None
   | NetRetry c c' \<Rightarrow> (case nt_peer n c of None \<Rightarrow> None
       | Some p \<Rightarrow> if enabled RetryTimer p \<and> Option.is_none (gw_socket (nt_gw n) c') \<and> Option.is_none (nt_peer n c')
           then Some (n\<lparr>nt_peer := (nt_peer n)(c := None, c' \<mapsto> fst (pv_step (P c') RetryTimer p)),
             nt_up := (nt_up n)(c' := [])\<rparr>) else None)
   | NetAccept c room header \<Rightarrow> if Option.is_none (nt_peer n c) then None
       else map_option (\<lambda>x. serve x (n\<lparr>nt_down := (nt_down n)(c := [])\<rparr>)) (g_step E ks (EConnect c room header) (nt_gw n))
   | NetOpen c \<Rightarrow> (case nt_peer n c of None \<Rightarrow> None
       | Some p \<Rightarrow> if enabled SocketOpen p \<and> \<not> Option.is_none (gw_socket (nt_gw n) c)
           then Some (act c (pv_step (P c) SocketOpen p) n) else None)
   | NetClient c ev \<Rightarrow> (case nt_peer n c of None \<Rightarrow> None
       | Some p \<Rightarrow> if by_client ev \<and> enabled ev p then Some (act c (pv_step (P c) ev p) n) else None)
   | NetDeliver c \<Rightarrow> (case nt_peer n c of None \<Rightarrow> None
       | Some p \<Rightarrow> (case nt_down n c of [] \<Rightarrow> None
         | b # bs \<Rightarrow> if enabled (SocketMessage (Inr b)) p
             then Some (act c (pv_step (P c) (SocketMessage (Inr b)) p) (n\<lparr>nt_down := (nt_down n)(c := bs)\<rparr>)) else None))
   | NetReceive now c \<Rightarrow> (case nt_up n c of [] \<Rightarrow> None
       | b # bs \<Rightarrow> (case g_step E ks (EMessage now c b) (nt_gw n) of
             None \<Rightarrow> Some (n\<lparr>nt_up := (nt_up n)(c := bs)\<rparr>)
           | Some x \<Rightarrow> Some (serve x (n\<lparr>nt_up := (nt_up n)(c := bs)\<rparr>))))
   | NetServer ev \<Rightarrow> if by_server (nt_peer n) ev then map_option (\<lambda>x. serve x n) (g_step E ks ev (nt_gw n)) else None)"

definition net_start :: "db \<Rightarrow> ('d, 'a) net" where
  "net_start d0 = \<lparr>nt_gw = empty_gateway d0, nt_peer = (\<lambda>_. None), nt_up = (\<lambda>_. []), nt_down = (\<lambda>_. [])\<rparr>"

text \<open>An edit of the application adds operations; deleting a message adds one, too.\<close>

definition adds_ops :: "('d \<Rightarrow> 'o set) \<Rightarrow> 'd net_event \<Rightarrow> ('d, 'a) net \<Rightarrow> bool" where
  "adds_ops ops e n \<longleftrightarrow> (case e of NetClient c ev \<Rightarrow> (case (ev, nt_peer n c) of
       (LocalEdit d, Some p) \<Rightarrow> doc_of ops p \<subseteq> ops d | _ \<Rightarrow> True) | _ \<Rightarrow> True)"

inductive net_reach ::
  "('d, 'a) gateway_env \<Rightarrow> (nat \<Rightarrow> ('d, 'a) provider_env) \<Rightarrow> nat list \<Rightarrow> ('d \<Rightarrow> 'o set) \<Rightarrow> db \<Rightarrow> ('d, 'a) net \<Rightarrow> bool"
  for E P ks ops d0 where
  start: "net_reach E P ks ops d0 (net_start d0)"
| database: "net_reach E P ks ops d0 n \<Longrightarrow> grows (gw_db (nt_gw n)) d \<Longrightarrow> db_inv d \<Longrightarrow>
    net_reach E P ks ops d0 (n\<lparr>nt_gw := (nt_gw n)\<lparr>gw_db := d\<rparr>\<rparr>)"
| step: "net_reach E P ks ops d0 n \<Longrightarrow> adds_ops ops e n \<Longrightarrow> net_step E P ks e n = Some m \<Longrightarrow> net_reach E P ks ops d0 m"

section \<open>The invariant\<close>

definition net_laws ::
  "('d, 'a) gateway_env \<Rightarrow> (nat \<Rightarrow> ('d, 'a) provider_env) \<Rightarrow> ('d \<Rightarrow> 'o set) \<Rightarrow> (bytes \<Rightarrow> 'o set) \<Rightarrow> bool" where
  "net_laws E P ops known \<longleftrightarrow> crdt_laws (ge_yjs E) ops known \<and> frame_laws (ge_yjs E) (ge_lib E)
     \<and> (\<forall>c. pe_yjs (P c) = ge_yjs E \<and> pe_lib (P c) = ge_lib E)"

lemma net_lawsD:
  assumes "net_laws E P ops known"
  shows "crdt_laws (ge_yjs E) ops known" "frame_laws (ge_yjs E) (ge_lib E)"
    "pe_yjs (P c) = ge_yjs E" "pe_lib (P c) = ge_lib E"
  using assms by (simp_all add: net_laws_def)

text \<open>
  For a socket linked to a room: the server's step1 is on its way, or all the client knows has
  reached the room or is on its way; all that is on its way from the server is known to the room;
  and all the room knows has reached the client or is on its way.
\<close>

definition asked :: "('d, 'a) gateway_env \<Rightarrow> ('d \<Rightarrow> 'o set) \<Rightarrow> 'o set \<Rightarrow> bytes list \<Rightarrow> bool" where
  "asked E ops D down \<longleftrightarrow> (\<exists>d. sync_frame (ge_lib E) (l_step1 (ge_lib E) d) \<in> set down \<and> ops d \<subseteq> D)"

definition link_ok ::
  "('d, 'a) gateway_env \<Rightarrow> ('d \<Rightarrow> 'o set) \<Rightarrow> (bytes \<Rightarrow> 'o set) \<Rightarrow> bool \<Rightarrow> 'o set \<Rightarrow> 'o set \<Rightarrow> bytes list \<Rightarrow> bytes list \<Rightarrow> bool" where
  "link_ok E ops known opened C D up down \<longleftrightarrow>
     (asked E ops D down \<or> opened \<and> C \<subseteq> D \<union> carried known (ge_lib E) up)
   \<and> frames_ok (ge_yjs E) (ge_lib E) known D down
   \<and> D \<subseteq> C \<union> carried known (ge_lib E) down"

definition connected :: "('d, 'a) provider \<Rightarrow> bool" where
  "connected p \<longleftrightarrow> (p_ws p = Some Connecting \<or> p_ws p = Some Open) \<and> \<not> p_stateRefused p"

definition unfed :: "('d, 'a) gateway_env \<Rightarrow> bytes list \<Rightarrow> bool" where
  "unfed E down \<longleftrightarrow> (\<forall>b \<in> set down. frame_update_of (ge_lib E) b = None)"

definition channel_ok ::
  "('d, 'a) gateway_env \<Rightarrow> ('d \<Rightarrow> 'o set) \<Rightarrow> (bytes \<Rightarrow> 'o set) \<Rightarrow> ('d, 'a) gateway \<Rightarrow> nat \<Rightarrow> ('d, 'a) provider \<Rightarrow> bytes list \<Rightarrow> bytes list \<Rightarrow> bool" where
  "channel_ok E ops known g c p up down \<longleftrightarrow>
     frames_ok (ge_yjs E) (ge_lib E) known (doc_of ops p) up
   \<and> (is_open g c \<longrightarrow> gw_listening g c = None \<longrightarrow> unfed E down)
   \<and> (\<forall>r. linked g c r \<longrightarrow> link_ok E ops known (p_ws p = Some Open) (doc_of ops p) (doc_ops ops g r) up down)"

definition peer_ok ::
  "('d, 'a) gateway_env \<Rightarrow> (nat \<Rightarrow> ('d, 'a) provider_env) \<Rightarrow> ('d \<Rightarrow> 'o set) \<Rightarrow> (bytes \<Rightarrow> 'o set) \<Rightarrow> ('d, 'a) net \<Rightarrow> nat \<Rightarrow> ('d, 'a) provider \<Rightarrow> bool" where
  "peer_ok E P ops known n c p \<longleftrightarrow> provider_inv p \<and> pending_ok (P c) ops known p
     \<and> (connected p \<longrightarrow> channel_ok E ops known (nt_gw n) c p (nt_up n c) (nt_down n c))"

definition net_inv ::
  "('d, 'a) gateway_env \<Rightarrow> (nat \<Rightarrow> ('d, 'a) provider_env) \<Rightarrow> ('d \<Rightarrow> 'o set) \<Rightarrow> (bytes \<Rightarrow> 'o set) \<Rightarrow> ('d, 'a) net \<Rightarrow> bool" where
  "net_inv E P ops known n \<longleftrightarrow> gw_inv (nt_gw n) \<and> join_inv (nt_gw n)
     \<and> (\<forall>c p. nt_peer n c = Some p \<longrightarrow> peer_ok E P ops known n c p)"

lemma net_invD:
  assumes "net_inv E P ops known n"
  shows "gw_inv (nt_gw n)" "join_inv (nt_gw n)" "nt_peer n c = Some p \<Longrightarrow> peer_ok E P ops known n c p"
  using assms by (simp_all add: net_inv_def)

text \<open>The server's part of a step, for one channel.\<close>

lemma asked_mono: "asked E ops D down \<Longrightarrow> D \<subseteq> D' \<Longrightarrow> asked E ops D' (down @ fs)"
  by (auto simp: asked_def)

lemma link_fed:
  assumes "link_ok E ops known opened C D up down" and "D \<subseteq> D'"
    and "D' \<subseteq> D \<union> carried known (ge_lib E) fs" and "frames_ok (ge_yjs E) (ge_lib E) known D' fs"
  shows "link_ok E ops known opened C D' up (down @ fs)"
  using assms frames_ok_mono[OF _ assms(2)] asked_mono[of E ops D down D' fs]
  unfolding link_ok_def frames_ok_simps carried_simps by blast

lemma channel_fed:
  assumes "channel_ok E ops known g c p up down" and "feeds E ops known c g x" and "tame c g (fst x)"
  shows "channel_ok E ops known (fst x) c p up (down @ sent_to c (snd x))"
proof -
  have "unfed E (down @ sent_to c (snd x))" if "is_open (fst x) c" "gw_listening (fst x) c = None"
  proof -
    have "is_open g c" "gw_listening g c = None" using tameD(2,3)[OF assms(3) that(1)] that(2) by simp_all
    then show ?thesis using assms(1,2) by (auto simp: channel_ok_def feeds_def unfed_def mute_def)
  qed
  moreover have "link_ok E ops known (p_ws p = Some Open) (doc_of ops p) (doc_ops ops (fst x) r) up (down @ sent_to c (snd x))"
    if "linked (fst x) c r" for r
    using assms(1,2) that by (intro link_fed) (auto simp: channel_ok_def feeds_def)
  ultimately show ?thesis using assms(1) by (simp add: channel_ok_def)
qed

lemma channel_joined:
  assumes "channel_ok E ops known g c p up down" and "gw_inv g" and "join_inv g"
    and "gw_conn g c = Some (AwaitingRoom n r)" and "crdt_laws (ge_yjs E) ops known" and "frame_laws (ge_yjs E) (ge_lib E)"
  shows "channel_ok E ops known (fst (join_room E c n r g)) c p up (down @ sent_to c (snd (join_room E c n r g)))"
proof -
  let ?x = "join_room E c n r g"
  note j = joined_socket[OF assms(2-6)]
  have l: "gw_listening (fst ?x) c = Some r" "is_open (fst ?x) c = is_open g c"
    by (simp_all add: join_parts is_open_def)
  have "unfed E down" if "is_open g c"
    using assms(1) that unused_socket(1)[OF assms(2), of c] assms(4) by (simp add: channel_ok_def)
  then have none: "carried known (ge_lib E) down = {}" "frames_ok (ge_yjs E) (ge_lib E) known D down" if "is_open g c" for D
    using that by (auto simp: unfed_def carried_def frames_ok_def)
  have "asked E ops (doc_ops ops g r) (down @ sent_to c (snd ?x))"
    using j(4) by (auto simp: asked_def doc_ops_def)
  then have "link_ok E ops known opened C (doc_ops ops g r) up (down @ sent_to c (snd ?x))" if "is_open g c" for opened C
    using none[OF that] j(2,3) by (simp add: link_ok_def)
  then show ?thesis using assms(1) by (simp add: channel_ok_def l linked_def j(1))
qed

text \<open>The client's part of a step.\<close>

lemma channel_moved:
  assumes "channel_ok E ops known g c p up down" and "moves P ops known {} p x"
    and "pe_yjs P = ge_yjs E" "pe_lib P = ge_lib E" and "p_ws (fst x) = p_ws p" and "p_ws p = Some Open"
  shows "channel_ok E ops known g c (fst x) (up @ sent_frames (snd x)) down"
proof -
  have m: "doc_of ops p \<subseteq> doc_of ops (fst x)"
    "doc_of ops (fst x) \<subseteq> doc_of ops p \<union> carried known (ge_lib E) (sent_frames (snd x))"
    "frames_ok (ge_yjs E) (ge_lib E) known (doc_of ops (fst x)) (sent_frames (snd x))"
    using assms(2) by (simp_all add: moves_def assms(3,4))
  have "link_ok E ops known True (doc_of ops (fst x)) D (up @ sent_frames (snd x)) down"
    if "link_ok E ops known True (doc_of ops p) D up down" for D
    using that m unfolding link_ok_def carried_simps by blast
  moreover have "frames_ok (ge_yjs E) (ge_lib E) known (doc_of ops (fst x)) up"
    by (rule frames_ok_mono[OF _ m(1)]) (use assms(1) in \<open>simp add: channel_ok_def\<close>)
  ultimately show ?thesis
    using assms(1,5,6) m(3) by (simp add: channel_ok_def)
qed

lemma channel_delivered:
  assumes "channel_ok E ops known g c p up (b # down)" and "provider_inv p" and "p_ws p = Some Open"
    and "\<not> p_stateRefused (fst (on_message P (Inr b) p))" and "net_laws E (\<lambda>_. P) ops known"
  shows "channel_ok E ops known g c (fst (on_message P (Inr b) p)) (up @ sent_frames (snd (on_message P (Inr b) p))) down"
proof -
  let ?x = "on_message P (Inr b) p"
  note E = net_lawsD[OF assms(5)]
  note laws = E(1,2)[folded E(3,4)]
  note m = message_moves[OF assms(2-4) laws, unfolded E(3,4)]
  let ?C = "doc_of ops p" and ?C' = "doc_of ops (fst ?x)" and ?s = "sent_frames (snd ?x)"
  have mv: "?C \<subseteq> ?C'" "?C' \<subseteq> ?C \<union> gained (ge_lib E) known b \<union> carried known (ge_lib E) ?s"
    "frames_ok (ge_yjs E) (ge_lib E) known ?C' ?s"
    using m(1) by (simp_all add: moves_def E(3,4))
  have ws: "p_ws (fst ?x) = Some Open" using assms(3) by (simp add: provider_simps)
  have "link_ok E ops known True ?C' D (up @ ?s) down" if l: "link_ok E ops known True ?C D up (b # down)" for D
  proof -
    have g: "gained (ge_lib E) known b \<subseteq> D" "gained (ge_lib E) known b \<subseteq> ?C'"
      and f: "frames_ok (ge_yjs E) (ge_lib E) known D down"
      using l m(2) by (auto simp: link_ok_def gained_def split: option.splits)
    have "D \<subseteq> ?C \<union> gained (ge_lib E) known b \<union> carried known (ge_lib E) down"
      using l by (simp add: link_ok_def gained_def Un_assoc)
    moreover have "asked E ops D down \<or> ?C' \<subseteq> D \<union> carried known (ge_lib E) (up @ ?s)"
    proof (cases "asked E ops D down \<or> ?C \<subseteq> D \<union> carried known (ge_lib E) up")
      case True
      then show ?thesis using mv(2) g(1) unfolding carried_simps by blast
    next
      case False
      then obtain d where d: "b = sync_frame (ge_lib E) (l_step1 (ge_lib E) d)" "ops d \<subseteq> D"
        using l by (auto simp: link_ok_def asked_def)
      then show ?thesis using m(3)[of d] unfolding carried_simps by blast
    qed
    ultimately show ?thesis using g f mv(1) unfolding link_ok_def by blast
  qed
  moreover have "frames_ok (ge_yjs E) (ge_lib E) known ?C' up"
    by (rule frames_ok_mono[OF _ mv(1)]) (use assms(1) in \<open>simp add: channel_ok_def\<close>)
  ultimately show ?thesis
    using assms(1,3) ws mv(3) by (simp add: channel_ok_def unfed_def)
qed

section \<open>Every step keeps the invariant\<close>

lemma channel_served:
  assumes "g_step E ks e g = Some x" and "gw_inv g" and "join_inv g"
    and "crdt_laws (ge_yjs E) ops known" and "frame_laws (ge_yjs E) (ge_lib E)"
    and "case e of EConnect d n h \<Rightarrow> d \<noteq> c | EMessage now d b \<Rightarrow> d \<noteq> c | _ \<Rightarrow> True"
    and "channel_ok E ops known g c p up down"
  shows "channel_ok E ops known (fst x) c p up (down @ sent_to c (snd x))"
proof (cases "e = EJoin c")
  case True
  then obtain n r where conn: "gw_conn g c = Some (AwaitingRoom n r)"
    and x: "x = join_room E c n r g \<or> x = (join_failed c g, [])"
    using assms(1) by (auto simp: g_step_def split: option.splits conn_phase.splits load_state.splits)
  from x show ?thesis
  proof
    assume "x = join_room E c n r g"
    then show ?thesis using channel_joined[OF assms(7,2,3) conn assms(4,5)] by simp
  next
    assume x: "x = (join_failed c g, [])"
    have k: "calm c g (fst x)" by (simp add: x join_failed_def calm_fields(7))
    show ?thesis
      by (rule channel_fed[OF assms(7) calm_feeds[OF assms(2,3) k] calm_tame[OF k]]) (simp add: x)
  qed
next
  case False
  show ?thesis
    by (rule channel_fed[OF assms(7) step_feeds[OF assms(1-5)] tame_step[OF assms(1,5)]])
      (use assms(6) False in \<open>cases e; simp\<close>)+
qed

lemma serve_simps [simp]:
  "nt_gw (serve x n) = fst x" "nt_peer (serve x n) = nt_peer n" "nt_up (serve x n) = nt_up n"
  "nt_down (serve x n) c = nt_down n c @ sent_to c (snd x)"
  by (simp_all add: serve_def)

lemma act_simps [simp]:
  "nt_gw (act c x n) = nt_gw n" "nt_peer (act c x n) d = (if d = c then Some (fst x) else nt_peer n d)"
  "nt_up (act c x n) d = (if d = c then nt_up n c @ sent_frames (snd x) else nt_up n d)" "nt_down (act c x n) = nt_down n"
  by (simp_all add: act_def)

lemma inv_served:
  assumes "net_inv E P ops known n" and "g_step E ks e (nt_gw n) = Some x" and "net_laws E P ops known"
    and "nt_gw m = nt_gw n" and "nt_peer m = nt_peer n"
    and "\<And>c p. nt_peer n c = Some p \<Longrightarrow> connected p \<Longrightarrow>
      channel_ok E ops known (nt_gw n) c p (nt_up n c) (nt_down n c) \<Longrightarrow>
      channel_ok E ops known (fst x) c p (nt_up m c) (nt_down m c @ sent_to c (snd x))"
  shows "net_inv E P ops known (serve x m)"
proof -
  note n = net_invD[OF assms(1)] and L = net_lawsD[OF assms(3)]
  have "gw_inv (fst x)" using step_inv[OF n(1), of E ks e "fst x" "snd x"] assms(2) by simp
  moreover have "join_inv (fst x)" by (rule step_join_inv[OF assms(2) n(1,2) L(2)])
  moreover have "peer_ok E P ops known (serve x m) c p" if "nt_peer n c = Some p" for c p
    using n(3)[OF that] assms(6)[OF that] by (simp add: peer_ok_def)
  ultimately show ?thesis using assms(5) by (simp add: net_inv_def)
qed

lemma inv_acted:
  assumes "net_inv E P ops known n" and "nt_peer n c = Some p" and "enabled e p" and "net_laws E P ops known"
    and "nt_gw m = nt_gw n" and "nt_peer m = nt_peer n" and "nt_up m = nt_up n" and "\<And>d. d \<noteq> c \<Longrightarrow> nt_down m d = nt_down n d"
    and "case e of LocalEdit d \<Rightarrow> doc_of ops p \<subseteq> ops d | _ \<Rightarrow> True"
    and "connected p \<Longrightarrow> connected (fst (pv_step (P c) e p)) \<Longrightarrow> channel_ok E ops known (nt_gw n) c p (nt_up n c) (nt_down n c) \<Longrightarrow>
      channel_ok E ops known (nt_gw n) c (fst (pv_step (P c) e p)) (nt_up n c @ sent_frames (snd (pv_step (P c) e p))) (nt_down m c)"
    and "connected (fst (pv_step (P c) e p)) \<Longrightarrow> connected p"
  shows "net_inv E P ops known (act c (pv_step (P c) e p) m)"
proof -
  note n = net_invD[OF assms(1)] and L = net_lawsD[OF assms(4)]
  have p: "provider_inv p" "pending_ok (P c) ops known p" using n(3)[OF assms(2)] by (simp_all add: peer_ok_def)
  have "pending_ok (P c) ops known (fst (pv_step (P c) e p))"
    by (rule step_pending[OF p(2) _ _ assms(9)]) (simp_all add: L frame_lawsD(1)[OF L(2)])
  with inv_step[OF p(1) assms(3), of "P c"]
  have "peer_ok E P ops known (act c (pv_step (P c) e p) m) c (fst (pv_step (P c) e p))"
    using n(3)[OF assms(2)] assms(5,7,10,11) by (simp add: peer_ok_def)
  moreover have "peer_ok E P ops known (act c (pv_step (P c) e p) m) d q" if "nt_peer n d = Some q" "d \<noteq> c" for d q
    using n(3)[OF that(1)] that(2) assms(5-8) by (simp add: peer_ok_def)
  ultimately show ?thesis using n(1,2) assms(5,6) by (simp add: net_inv_def)
qed

lemma channel_unlinked:
  "frames_ok (ge_yjs E) (ge_lib E) known (doc_of ops p) up \<Longrightarrow> \<not> is_open g c \<Longrightarrow> channel_ok E ops known g c p up down"
  by (simp add: channel_ok_def linked_def)

lemma channel_received:
  assumes "channel_ok E ops known g c p (b # up) down" and "gw_inv g" and "join_inv g" and "gw_listening g c = Some r"
    and "crdt_laws (ge_yjs E) ops known" and "frame_laws (ge_yjs E) (ge_lib E)"
  shows "channel_ok E ops known (fst (handle_message E now c r b g)) c p up (down @ sent_to c (snd (handle_message E now c r b g)))"
proof -
  let ?x = "handle_message E now c r b g"
  have same: "gw_listening (fst ?x) c = Some r" if "is_open (fst ?x) c"
    using tameD(3)[OF tame_message that] assms(4) by simp
  have head: "frame_update_of (ge_lib E) b = Some u \<Longrightarrow> applies (ge_yjs E) u" "gained (ge_lib E) known b \<subseteq> doc_of ops p" for u
    using assms(1) by (auto simp: channel_ok_def gained_def split: option.splits)
  have "link_ok E ops known (p_ws p = Some Open) (doc_of ops p) (doc_ops ops (fst ?x) r) up (down @ sent_to c (snd ?x))"
    if l: "linked (fst ?x) c r"
  proof -
    have own: "linked g c r \<and> doc_ops ops (fst ?x) r = doc_ops ops g r \<union> gained (ge_lib E) known b
        \<and> frames_ok (ge_yjs E) (ge_lib E) known (doc_ops ops (fst ?x) r) (sent_to c (snd ?x))"
      by (rule own_message[OF assms(2-6) _ l]) (rule head(1))
    let ?D = "doc_ops ops g r" and ?D' = "doc_ops ops (fst ?x) r"
    have k: "link_ok E ops known (p_ws p = Some Open) (doc_of ops p) ?D (b # up) down"
      using assms(1) own by (simp add: channel_ok_def)
    have D': "?D' = ?D \<union> gained (ge_lib E) known b" using own by blast
    have "asked E ops ?D' (down @ sent_to c (snd ?x)) \<or> p_ws p = Some Open \<and> doc_of ops p \<subseteq> ?D' \<union> carried known (ge_lib E) up"
      using k asked_mono[of E ops ?D down ?D'] unfolding link_ok_def D' carried_simps gained_def by blast
    moreover have "frames_ok (ge_yjs E) (ge_lib E) known ?D' (down @ sent_to c (snd ?x))"
      using k own frames_ok_mono[of "ge_yjs E" "ge_lib E" known ?D down ?D'] D' unfolding link_ok_def frames_ok_simps by blast
    moreover have "?D' \<subseteq> doc_of ops p \<union> carried known (ge_lib E) (down @ sent_to c (snd ?x))"
      using k head(2) unfolding link_ok_def D' carried_simps by blast
    ultimately show ?thesis unfolding link_ok_def by blast
  qed
  then have "link_ok E ops known (p_ws p = Some Open) (doc_of ops p) (doc_ops ops (fst ?x) q) up (down @ sent_to c (snd ?x))"
    if "linked (fst ?x) c q" for q
    using that same by (auto simp: linked_def)
  then show ?thesis using assms(1) same by (simp add: channel_ok_def)
qed

lemma open_step:
  assumes "provider_inv p" and "enabled SocketOpen p" and "connected p" and "pending_ok P ops known p"
    and "net_laws E (\<lambda>_. P) ops known" and "channel_ok E ops known g c p up down"
  shows "channel_ok E ops known g c (fst (pv_step P SocketOpen p)) (up @ sent_frames (snd (pv_step P SocketOpen p))) down"
proof -
  note E = net_lawsD[OF assms(5)]
  have p: "p_ws p = Some Connecting" "\<not> p_destroyed p"
    using assms(1,2) by (auto simp: enabled_def provider_inv_def)
  have "frames_ok (ge_yjs E) (ge_lib E) known (doc_of ops p) (map (frame_update (ge_lib E)) (p_pendingUpdates p))"
    using assms(4) by (simp add: pending_ok_def frames_ok_def provider_frames[OF E(2)] E(3))
  then show ?thesis
    using assms(6) p by (simp add: pv_step_def on_open_eq channel_ok_def link_ok_def provider_frames[OF E(2)] E(3,4))
qed

lemma client_step:
  assumes "provider_inv p" and "by_client ev" and "connected p" and "connected (fst (pv_step P ev p))"
    and "net_laws E (\<lambda>_. P) ops known" and "case ev of LocalEdit d \<Rightarrow> doc_of ops p \<subseteq> ops d | _ \<Rightarrow> True"
    and "channel_ok E ops known g c p up down"
  shows "channel_ok E ops known g c (fst (pv_step P ev p)) (up @ sent_frames (snd (pv_step P ev p))) down"
proof -
  note E = net_lawsD[OF assms(5)]
  note laws = E(1,2)[folded E(3,4)]
  have ws: "p_ws p = Some Connecting \<and> p_status p = StConnecting \<or> p_ws p = Some Open" and nr: "\<not> p_stateRefused p"
    using assms(1,3) by (auto simp: connected_def provider_inv_def)
  show ?thesis
  proof (cases ev)
    case (LocalEdit d)
    then have grow: "doc_of ops p \<subseteq> ops d" using assms(6) by simp
    show ?thesis
    proof (cases "p_ws p = Some Open")
      case True
      have "channel_ok E ops known g c (fst (local_transaction P d p)) (up @ sent_frames (snd (local_transaction P d p))) down"
        by (rule channel_moved[OF assms(7) transaction_moves[OF assms(1) True nr laws grow] E(3,4) _ True])
          (simp add: local_transaction_eq)
      then show ?thesis using LocalEdit by (simp add: pv_step_def)
    next
      case False
      then have "sent_frames (snd (local_transaction P d p)) = []" "p_ws p = Some Connecting"
        using ws by (auto simp: local_transaction_eq doc_handler_effect_def split: option.split)
      moreover have "link_ok E ops known False (ops d) D up down" if "link_ok E ops known False (doc_of ops p) D up down" for D
        using that grow unfolding link_ok_def by blast
      moreover have "frames_ok (ge_yjs E) (ge_lib E) known (ops d) up"
        by (rule frames_ok_mono[OF _ grow]) (use assms(7) in \<open>simp add: channel_ok_def\<close>)
      ultimately show ?thesis using assms(7) LocalEdit by (simp add: pv_step_def local_transaction_eq channel_ok_def)
    qed
  next
    case (Typing fs)
    have x: "p_doc (fst (send_awareness P fs p)) = p_doc p" "p_ws (fst (send_awareness P fs p)) = p_ws p"
      "carried known (ge_lib E) (sent_frames (snd (send_awareness P fs p))) = {}"
      "frames_ok (ge_yjs E) (ge_lib E) known D (sent_frames (snd (send_awareness P fs p)))" for D
      by (simp_all add: send_awareness_def broadcast_local_awareness_def pv_send_def provider_frames[OF E(2)] E(4))
    then show ?thesis using assms(7) Typing by (simp add: pv_step_def channel_ok_def link_ok_def)
  qed (use assms(1,2,4) ws in \<open>auto simp: by_client_def pv_step_def on_close_def on_error_def pv_destroy_def connected_def
      set_status_def schedule_retry_def andThen_def Let_def provider_inv_def split: option.splits if_splits\<close>)
qed

lemma net_laws_at: "net_laws E P ops known \<Longrightarrow> net_laws E (\<lambda>_. P c) ops known"
  by (simp add: net_laws_def)

lemma still_connected:
  assumes "by_client e \<or> e = SocketOpen \<or> (\<exists>m. e = SocketMessage m)" and "enabled e p" and "connected (fst (pv_step P e p))"
  shows "connected p"
proof -
  have r: "\<not> p_stateRefused p" using stays_refused[of p P e] assms(3) by (auto simp: connected_def)
  show ?thesis
    using assms r
    by (cases e) (auto simp: connected_def enabled_def by_client_def pv_step_def on_close_def on_error_def pv_destroy_def
        set_status_def schedule_retry_def andThen_def Let_def local_transaction_eq send_awareness_def
        broadcast_local_awareness_def pv_send_def split: option.splits if_splits)
qed

lemma net_step_inv:
  assumes "net_inv E P ops known n" and "net_laws E P ops known" and "adds_ops ops e n"
    and "net_step E P ks e n = Some m"
  shows "net_inv E P ops known m"
proof (cases e)
  case (NetDial c d)
  then have m: "m = n\<lparr>nt_peer := (nt_peer n)(c \<mapsto> fst (construct (P c) d)), nt_up := (nt_up n)(c := [])\<rparr>"
    and c: "gw_socket (nt_gw n) c = None"
    using assms(4) by (auto simp: net_step_def Option.is_none_def split: if_splits)
  let ?p = "fst (construct (P c) d)"
  have "peer_ok E P ops known m c ?p"
    using inv_construct[of "P c" d ?p "snd (construct (P c) d)"] c
    by (simp add: peer_ok_def pending_ok_def construct_def pv_connect_def set_status_def m channel_unlinked is_open_def)
  moreover have "peer_ok E P ops known m a q" if "nt_peer n a = Some q" "a \<noteq> c" for a q
    using net_invD(3)[OF assms(1) that(1)] that(2) by (simp add: peer_ok_def m)
  ultimately show ?thesis using net_invD(1,2)[OF assms(1)] by (simp add: net_inv_def m)
next
  case (NetRetry c c')
  then obtain p where p: "nt_peer n c = Some p" "enabled RetryTimer p" "gw_socket (nt_gw n) c' = None" "nt_peer n c' = None"
    and m: "m = n\<lparr>nt_peer := (nt_peer n)(c := None, c' \<mapsto> fst (pv_step (P c') RetryTimer p)), nt_up := (nt_up n)(c' := [])\<rparr>"
    using assms(4) by (auto simp: net_step_def Option.is_none_def split: if_splits option.splits)
  note L = net_lawsD[OF assms(2)] and ok = net_invD(3)[OF assms(1) p(1)]
  have "pending_ok (P c') ops known p" using ok by (simp add: peer_ok_def pending_ok_def L)
  then have "pending_ok (P c') ops known (fst (pv_step (P c') RetryTimer p))"
    by (rule step_pending) (simp_all add: L frame_lawsD(1)[OF L(2)])
  moreover have "provider_inv (fst (pv_step (P c') RetryTimer p))"
    by (rule inv_step[OF _ p(2)]) (use ok in \<open>simp add: peer_ok_def\<close>)
  ultimately have "peer_ok E P ops known m c' (fst (pv_step (P c') RetryTimer p))"
    using p(3) by (simp add: peer_ok_def m channel_unlinked is_open_def)
  moreover have "peer_ok E P ops known m a q" if "nt_peer n a = Some q" "a \<noteq> c'" for a q
    using net_invD(3)[OF assms(1) that(1)] that(2) by (simp add: peer_ok_def m)
  ultimately show ?thesis using net_invD(1,2)[OF assms(1)] by (simp add: net_inv_def m)
next
  case (NetAccept c room header)
  let ?n = "n\<lparr>nt_down := (nt_down n)(c := [])\<rparr>"
  from NetAccept obtain x where x: "g_step E ks (EConnect c room header) (nt_gw n) = Some x" "m = serve x ?n"
    using assms(4) by (auto simp: net_step_def split: if_splits)
  then have con: "x = handle_connection E c room header (nt_gw n)" "gw_socket (nt_gw n) c = None"
    by (auto simp: g_step_def split: if_splits)
  note L = net_lawsD[OF assms(2)]
  show ?thesis
    unfolding x(2)
  proof (rule inv_served[OF assms(1) x(1) assms(2)])
    fix a p assume a: "nt_peer n a = Some p" "channel_ok E ops known (nt_gw n) a p (nt_up n a) (nt_down n a)"
    show "channel_ok E ops known (fst x) a p (nt_up ?n a) (nt_down ?n a @ sent_to a (snd x))"
    proof (cases "a = c")
      case True
      have "sent_to c (snd x) = []" by (simp add: con handle_connection_def close_client_def Let_def split: option.split)
      moreover have "gw_listening (fst x) c = None" unfolding con(1) by (rule connect_parts(1)[OF net_invD(1)[OF assms(1)] con(2)])
      ultimately show ?thesis using a(2) True by (simp add: channel_ok_def unfed_def linked_def)
    next
      case False
      then show ?thesis using channel_served[OF x(1) net_invD(1,2)[OF assms(1)] L(1,2) _ a(2)] by simp
    qed
  qed simp_all
next
  case (NetOpen c)
  then obtain p where p: "nt_peer n c = Some p" "enabled SocketOpen p" "m = act c (pv_step (P c) SocketOpen p) n"
    using assms(4) by (auto simp: net_step_def split: option.splits if_splits)
  have ok: "provider_inv p" "pending_ok (P c) ops known p" using net_invD(3)[OF assms(1) p(1)] by (simp_all add: peer_ok_def)
  show ?thesis
    unfolding p(3)
    by (rule inv_acted[OF assms(1) p(1,2) assms(2)])
      (use open_step[OF ok(1) p(2) _ ok(2) net_laws_at[OF assms(2)]] still_connected[of SocketOpen p "P c"] p(2) in simp_all)
next
  case (NetClient c ev)
  then obtain p where p: "nt_peer n c = Some p" "by_client ev" "enabled ev p" "m = act c (pv_step (P c) ev p) n"
    using assms(4) by (auto simp: net_step_def split: option.splits if_splits)
  have ok: "provider_inv p" using net_invD(3)[OF assms(1) p(1)] by (simp add: peer_ok_def)
  have grow: "case ev of LocalEdit d \<Rightarrow> doc_of ops p \<subseteq> ops d | _ \<Rightarrow> True"
    using assms(3) NetClient p(1) by (simp add: adds_ops_def split: event.splits)
  show ?thesis
    unfolding p(4)
    by (rule inv_acted[OF assms(1) p(1,3) assms(2)])
      (use client_step[OF ok p(2) _ _ net_laws_at[OF assms(2)] grow] still_connected[of ev p "P c"] p(2,3) grow in simp_all)
next
  case (NetDeliver c)
  then obtain p b bs where p: "nt_peer n c = Some p" "nt_down n c = b # bs" "enabled (SocketMessage (Inr b)) p"
    "m = act c (pv_step (P c) (SocketMessage (Inr b)) p) (n\<lparr>nt_down := (nt_down n)(c := bs)\<rparr>)"
    using assms(4) by (auto simp: net_step_def split: option.splits if_splits list.splits)
  have ok: "provider_inv p" "p_ws p = Some Open"
    using net_invD(3)[OF assms(1) p(1)] p(3) by (simp_all add: peer_ok_def enabled_def)
  show ?thesis
    unfolding p(4)
    by (rule inv_acted[OF assms(1) p(1,3) assms(2)])
      (use channel_delivered[OF _ ok _ net_laws_at[OF assms(2)]] p(2,3) still_connected[of "SocketMessage (Inr b)" p "P c"]
        in \<open>simp_all add: pv_step_def connected_def\<close>)
next
  case (NetReceive now c)
  then obtain b bs where b: "nt_up n c = b # bs" by (cases "nt_up n c") (use assms(4) in \<open>auto simp: net_step_def\<close>)
  let ?n = "n\<lparr>nt_up := (nt_up n)(c := bs)\<rparr>"
  note L = net_lawsD[OF assms(2)]
  show ?thesis
  proof (cases "gw_listening (nt_gw n) c")
    case None
    then have m: "m = ?n" using assms(4) NetReceive b by (simp add: net_step_def g_step_def)
    have "peer_ok E P ops known m a p" if "nt_peer n a = Some p" for a p
      using net_invD(3)[OF assms(1) that] b None by (auto simp: peer_ok_def m channel_ok_def linked_def)
    then show ?thesis using net_invD(1,2)[OF assms(1)] by (simp add: net_inv_def m)
  next
    case (Some r)
    let ?x = "handle_message E now c r b (nt_gw n)"
    have x: "g_step E ks (EMessage now c b) (nt_gw n) = Some ?x" by (simp add: g_step_def Some)
    then have m: "m = serve ?x ?n" using assms(4) NetReceive b by (simp add: net_step_def)
    show ?thesis
      unfolding m
    proof (rule inv_served[OF assms(1) x assms(2)])
      fix a p assume a: "nt_peer n a = Some p" "channel_ok E ops known (nt_gw n) a p (nt_up n a) (nt_down n a)"
      show "channel_ok E ops known (fst ?x) a p (nt_up ?n a) (nt_down ?n a @ sent_to a (snd ?x))"
      proof (cases "a = c")
        case True
        then show ?thesis
          using channel_received[OF _ net_invD(1,2)[OF assms(1)] Some L(1,2)] a(2) b by simp
      next
        case False
        then show ?thesis using channel_served[OF x net_invD(1,2)[OF assms(1)] L(1,2) _ a(2)] by simp
      qed
    qed simp_all
  qed
next
  case (NetServer ev)
  then obtain x where x: "g_step E ks ev (nt_gw n) = Some x" "m = serve x n" "by_server (nt_peer n) ev"
    using assms(4) by (auto simp: net_step_def split: if_splits)
  note L = net_lawsD[OF assms(2)]
  show ?thesis
    unfolding x(2)
  proof (rule inv_served[OF assms(1) x(1) assms(2)])
    fix a p assume a: "nt_peer n a = Some p" "channel_ok E ops known (nt_gw n) a p (nt_up n a) (nt_down n a)"
    have "case ev of EConnect d n h \<Rightarrow> d \<noteq> a | EMessage now d b \<Rightarrow> d \<noteq> a | _ \<Rightarrow> True"
      using x(3) a(1) by (cases ev) (auto simp: by_server_def)
    from channel_served[OF x(1) net_invD(1,2)[OF assms(1)] L(1,2) this a(2)]
    show "channel_ok E ops known (fst x) a p (nt_up n a) (nt_down n a @ sent_to a (snd x))" .
  qed simp_all
qed

lemma net_start_inv: "db_inv d0 \<Longrightarrow> net_inv E P ops known (net_start d0)"
  by (simp add: net_inv_def net_start_def gw_inv_empty join_inv_empty)

lemma net_reach_inv:
  assumes "net_reach E P ks ops d0 n" and "db_inv d0" and "net_laws E P ops known"
  shows "net_inv E P ops known n"
  using assms(1)
proof (induction rule: net_reach.induct)
  case start
  show ?case by (rule net_start_inv[OF assms(2)])
next
  case (database n d)
  note n = net_invD[OF database.IH]
  let ?g = "(nt_gw n)\<lparr>gw_db := d\<rparr>"
  have k: "calm c (nt_gw n) ?g" for c by (rule calm_fields(9))
  have "channel_ok E ops known ?g c p up down" if "channel_ok E ops known (nt_gw n) c p up down" for c p up down
    using channel_fed[OF that calm_feeds[OF n(1,2)], of "(?g, [])"] calm_tame[OF k] k by simp
  then show ?case
    using quiet_calm_inv[OF n(1,2) k quiet_db[OF database.hyps(3,2)]] n(3) by (simp add: net_inv_def peer_ok_def)
next
  case (step n e m)
  then show ?case using net_step_inv[OF _ assms(3)] by blast
qed

section \<open>Convergence\<close>

text \<open>A client has settled in a room object when its socket is joined and nothing is in flight on it.\<close>

definition settled :: "('d, 'a) net \<Rightarrow> nat \<Rightarrow> nat \<Rightarrow> ('d, 'a) provider \<Rightarrow> bool" where
  "settled n c r p \<longleftrightarrow> nt_peer n c = Some p \<and> p_ws p = Some Open \<and> \<not> p_stateRefused p
     \<and> linked (nt_gw n) c r \<and> nt_up n c = [] \<and> nt_down n c = []"

lemma settled_same_ops:
  assumes "net_inv E P ops known n" and "settled n c r p"
  shows "doc_of ops p = doc_ops ops (nt_gw n) r"
proof -
  have "peer_ok E P ops known n c p" "connected p"
    using net_invD(3)[OF assms(1)] assms(2) by (simp_all add: settled_def connected_def)
  then have "link_ok E ops known True (doc_of ops p) (doc_ops ops (nt_gw n) r) [] []"
    using assms(2) by (simp add: peer_ok_def channel_ok_def settled_def)
  then show ?thesis by (simp add: link_ok_def asked_def subset_antisym)
qed

text \<open>C2. Nothing is lost on the way. In every reachable state, for every open client joined to a room and
  not refused: whatever the room's document has, the client's document has or a frame on its way to
  the client carries; and whatever the client's document has, the room's has or a frame on its way to
  the server carries, unless the server's question for it is still on its way.\<close>
theorem nothing_is_lost:
  assumes "net_reach E P ks ops d0 n" and "db_inv d0" and "net_laws E P ops known"
    and "nt_peer n c = Some p" and "p_ws p = Some Open" and "\<not> p_stateRefused p" and "linked (nt_gw n) c r"
  shows "doc_ops ops (nt_gw n) r \<subseteq> doc_of ops p \<union> carried known (ge_lib E) (nt_down n c)
    \<and> (doc_of ops p \<subseteq> doc_ops ops (nt_gw n) r \<union> carried known (ge_lib E) (nt_up n c)
       \<or> asked E ops (doc_ops ops (nt_gw n) r) (nt_down n c))"
proof -
  have "peer_ok E P ops known n c p" "connected p"
    using net_invD(3)[OF net_reach_inv[OF assms(1-3)]] assms(4-6) by (simp_all add: connected_def)
  then have "link_ok E ops known True (doc_of ops p) (doc_ops ops (nt_gw n) r) (nt_up n c) (nt_down n c)"
    using assms(5,7) by (simp add: peer_ok_def channel_ok_def)
  then show ?thesis by (auto simp: link_ok_def)
qed

text \<open>
  A client has settled in the room of a name when the server counts its open socket to that room, no
  frame of it was refused, and nothing is in flight on it.
\<close>

definition settled_in :: "('d, 'a) net \<Rightarrow> nat \<Rightarrow> jstr \<Rightarrow> ('d, 'a) provider \<Rightarrow> bool" where
  "settled_in n c name p \<longleftrightarrow> nt_peer n c = Some p \<and> p_ws p = Some Open \<and> \<not> p_stateRefused p
     \<and> is_open (nt_gw n) c \<and> map_of (gw_clientRoom (nt_gw n)) c = Some name \<and> gw_lastRejection (nt_gw n) c = None
     \<and> nt_up n c = [] \<and> nt_down n c = []"

text \<open>The runs in which no garbage-collection timer collects a room that another has already replaced.\<close>

definition in_order :: "'d net_event \<Rightarrow> ('d, 'a) net \<Rightarrow> bool" where
  "in_order e n \<longleftrightarrow> (case e of NetServer ev \<Rightarrow> orderly ev (nt_gw n) | _ \<Rightarrow> True)"

inductive orderly_reach ::
  "('d, 'a) gateway_env \<Rightarrow> (nat \<Rightarrow> ('d, 'a) provider_env) \<Rightarrow> nat list \<Rightarrow> ('d \<Rightarrow> 'o set) \<Rightarrow> db \<Rightarrow> ('d, 'a) net \<Rightarrow> bool"
  for E P ks ops d0 where
  start: "orderly_reach E P ks ops d0 (net_start d0)"
| database: "orderly_reach E P ks ops d0 n \<Longrightarrow> grows (gw_db (nt_gw n)) d \<Longrightarrow> db_inv d \<Longrightarrow>
    orderly_reach E P ks ops d0 (n\<lparr>nt_gw := (nt_gw n)\<lparr>gw_db := d\<rparr>\<rparr>)"
| step: "orderly_reach E P ks ops d0 n \<Longrightarrow> adds_ops ops e n \<Longrightarrow> in_order e n \<Longrightarrow> net_step E P ks e n = Some m \<Longrightarrow>
    orderly_reach E P ks ops d0 m"

lemma orderly_net_reach: "orderly_reach E P ks ops d0 n \<Longrightarrow> net_reach E P ks ops d0 n"
  by (induction rule: orderly_reach.induct) (auto intro: net_reach.intros)

text \<open>A step of the whole moves the server by one of its own steps, if at all.\<close>

lemma net_step_server:
  assumes "net_step E P ks e n = Some m"
  shows "nt_gw m = nt_gw n
    \<or> (\<exists>ev x. g_step E ks ev (nt_gw n) = Some x \<and> nt_gw m = fst x \<and> (e = NetServer ev \<or> \<not> (\<exists>i. ev = EGcTimer i)))"
proof (cases e)
  case (NetAccept c room header)
  then obtain x where "g_step E ks (EConnect c room header) (nt_gw n) = Some x" "nt_gw m = fst x"
    using assms by (auto simp: net_step_def split: if_splits)
  then show ?thesis by (intro disjI2 exI[of _ "EConnect c room header"] exI[of _ x]) simp
next
  case (NetServer ev)
  then obtain x where "g_step E ks ev (nt_gw n) = Some x" "nt_gw m = fst x"
    using assms by (auto simp: net_step_def split: if_splits)
  then show ?thesis using NetServer by (intro disjI2 exI[of _ ev] exI[of _ x]) simp
next
  case (NetReceive now c)
  then obtain b bs where b: "nt_up n c = b # bs" using assms by (cases "nt_up n c") (auto simp: net_step_def)
  show ?thesis
  proof (cases "g_step E ks (EMessage now c b) (nt_gw n)")
    case None
    then show ?thesis using assms NetReceive b by (auto simp: net_step_def)
  next
    case (Some x)
    then have "nt_gw m = fst x" using assms NetReceive b by (auto simp: net_step_def)
    then show ?thesis using Some by (intro disjI2 exI[of _ "EMessage now c b"] exI[of _ x]) simp
  qed
qed (use assms in \<open>auto simp: net_step_def split: option.splits if_splits list.splits\<close>)

lemma orderly_registry:
  assumes "orderly_reach E P ks ops d0 n" and "db_inv d0" and "net_laws E P ops known"
  shows "registry_ok (nt_gw n)"
  using assms(1)
proof (induction rule: orderly_reach.induct)
  case start
  show ?case by (simp add: net_start_def registry_empty)
next
  case (database n d)
  show ?case using registry_kept[OF kept_fields(10) database.IH] by simp
next
  case (step n e m)
  have inv: "gw_inv (nt_gw n)"
    using net_invD(1)[OF net_reach_inv[OF orderly_net_reach[OF step.hyps(1)] assms(2,3)]] .
  have "orderly ev (nt_gw n)" if "e = NetServer ev \<or> \<not> (\<exists>i. ev = EGcTimer i)" for ev
    using that step.hyps(3) by (auto simp: in_order_def orderly_def split: g_event.split)
  then show ?case
    using net_step_server[OF step.hyps(4)] registry_step[OF _ step.IH inv] step.IH by metis
qed

lemma settled_in_room:
  assumes "orderly_reach E P ks ops d0 n" and "db_inv d0" and "net_laws E P ops known" and "settled_in n c name p"
  shows "\<exists>r. map_of (gw_rooms (nt_gw n)) name = Some r \<and> settled n c r p"
proof -
  note reg = orderly_registry[OF assms(1-3)]
  have inv: "gw_inv (nt_gw n)"
    using net_invD(1)[OF net_reach_inv[OF orderly_net_reach[OF assms(1)] assms(2,3)]] .
  obtain r where r: "gw_listening (nt_gw n) c = Some r"
    using registryD(6)[OF reg, of c name] assms(4) by (auto simp: settled_in_def is_open_def)
  then have "\<not> rs_destroyed (room_at (nt_gw n) r)" "rs_roomId (room_at (nt_gw n) r) = name" "r < gw_next (nt_gw n)"
    using registryD(4)[OF reg r] assms(4) listener_at(1)[OF inv r] by (simp_all add: settled_in_def)
  then show ?thesis
    using registryD(2)[OF reg, of r] r assms(4) by (auto simp: settled_in_def settled_def linked_def)
qed

text \<open>C1. Eventual consistency. In every state that clients and server can reach together, by any order of
  connections, reconnections, edits, deliveries, rejections, queries and timers, but for a
  garbage-collection timer that collects a room object which is no longer the one under its name (or
  for which a connection waits, which the event loop rules out): two clients whose open
  sockets the server counts to the room of one name, with nothing in flight on them, none of whose
  frames or state was refused, show the same messages, and these are the messages of the document the
  server holds under that name. The libraries merge as the CRDT promises. The exception is needed: see
  \<open>collected_twice_splits_the_room\<close>.\<close>

theorem settled_clients_agree:
  assumes "orderly_reach E P ks ops d0 n" and "db_inv d0" and "net_laws E P ops known"
    and "settled_in n c name p" and "settled_in n c' name p'"
  shows "y_messages (ge_yjs E) (p_doc p) = y_messages (ge_yjs E) (p_doc p')
    \<and> (\<exists>r. map_of (gw_rooms (nt_gw n)) name = Some r
        \<and> y_messages (ge_yjs E) (p_doc p) = y_messages (ge_yjs E) (rs_doc (room_at (nt_gw n) r)))"
proof -
  obtain r r' where r: "map_of (gw_rooms (nt_gw n)) name = Some r" "settled n c r p" "settled n c' r' p'" "r' = r"
    using settled_in_room[OF assms(1-4)] settled_in_room[OF assms(1-3,5)] by auto
  note inv = net_reach_inv[OF orderly_net_reach[OF assms(1)] assms(2,3)]
  note same = settled_same_ops[OF inv r(2)] settled_same_ops[OF inv r(3), unfolded r(4)]
  show ?thesis
    using r(1) same crdt_lawsD(10)[OF net_lawsD(1)[OF assms(3)], of "p_doc p" "p_doc p'"]
      crdt_lawsD(10)[OF net_lawsD(1)[OF assms(3)], of "p_doc p" "rs_doc (room_at (nt_gw n) r)"]
    by (simp add: doc_ops_def)
qed

section \<open>Witness\<close>

text \<open>
  A document that is the set of the updates' bytes: one message per byte, in the order of the bytes.
  A state vector lists the bytes a document has.
\<close>

definition set_message :: "8 word \<Rightarrow> message" where
  "set_message b = gate_sample_message\<lparr>m_id := [ucast b]\<rparr>"

definition byteset_yjs :: "bytes yjs" where
  "byteset_yjs = \<lparr>y_new = [], y_apply = (\<lambda>u d. Some (fold set_add u d)),
     y_delta = (\<lambda>d d'. if set d = set d' then None else Some (filter (\<lambda>x. x \<notin> set d) d')),
     y_encode = (\<lambda>d. d), y_state_vector = (\<lambda>d. 1 # d),
     y_diff = (\<lambda>d sv. case sv of [] \<Rightarrow> d | k # e \<Rightarrow> if k = 1 then filter (\<lambda>x. x \<notin> set e) d else d),
     y_messages = (\<lambda>d. map set_message (sort (remdups d))), y_push = (\<lambda>_ d. d), y_delete = (\<lambda>_ d. d)\<rparr>"

lemma set_fold_set_add: "set (fold set_add u d) = set d \<union> set u"
  by (induction u arbitrary: d) (auto simp: set_add_def)

lemma byteset_yjs_laws: "crdt_laws byteset_yjs set set"
  unfolding crdt_laws_def
proof (intro conjI allI impI)
  fix d e :: bytes assume "set d = set e"
  then have "sort (remdups d) = sort (remdups e)"
    by (metis sorted_list_of_set_sort_remdups)
  then show "y_messages byteset_yjs d = y_messages byteset_yjs e" by (simp add: byteset_yjs_def)
qed (auto simp: byteset_yjs_def applies_def set_fold_set_add split: if_splits list.splits)

lemma sample_frame_laws: "frame_laws byteset_yjs (sample_lib0 byteset_yjs)"
  by (simp add: frame_laws_def) (simp add: sample_lib0_def put_varuint.simps)

definition meeting_env :: "(bytes, nat list) gateway_env" where
  "meeting_env = \<lparr>ge_yjs = byteset_yjs, ge_lib = sample_lib0 byteset_yjs, ge_aw = list_awareness,
     ge_decode = sample_decode, ge_sha256 = (\<lambda>b. map ucast b), ge_jwt = (\<lambda>t. Some t), ge_instanceId = js ''A''\<rparr>"

definition meeting_peer :: "nat \<Rightarrow> (bytes, nat list) provider_env" where
  "meeting_peer c = \<lparr>pe_yjs = byteset_yjs, pe_lib = sample_lib0 byteset_yjs, pe_aw = list_awareness,
     pe_cfg = sample_config, pe_clientID = c, pe_username = js ''u''\<rparr>"

lemma meeting_laws: "net_laws meeting_env meeting_peer set set"
  by (simp add: net_laws_def meeting_env_def meeting_peer_def byteset_yjs_laws sample_frame_laws)

fun net_run ::
  "('d, 'a) gateway_env \<Rightarrow> (nat \<Rightarrow> ('d, 'a) provider_env) \<Rightarrow> nat list \<Rightarrow> ('d \<Rightarrow> 'o set) \<Rightarrow> 'd net_event list \<Rightarrow> ('d, 'a) net \<Rightarrow> ('d, 'a) net option" where
  "net_run E P ks ops [] n = Some n"
| "net_run E P ks ops (e # es) n = (if adds_ops ops e n
     then (case net_step E P ks e n of None \<Rightarrow> None | Some m \<Rightarrow> net_run E P ks ops es m) else None)"

lemma net_run_reach: "net_reach E P ks ops d0 n \<Longrightarrow> net_run E P ks ops es n = Some m \<Longrightarrow> net_reach E P ks ops d0 m"
  by (induction es arbitrary: n) (auto split: option.splits if_splits intro: net_reach.step)

text \<open>A run without garbage collection is orderly.\<close>

definition collects :: "'d net_event \<Rightarrow> bool" where
  "collects e \<longleftrightarrow> (case e of NetServer (EGcTimer i) \<Rightarrow> True | _ \<Rightarrow> False)"

lemma net_run_orderly:
  "orderly_reach E P ks ops d0 n \<Longrightarrow> net_run E P ks ops es n = Some m \<Longrightarrow> list_all (\<lambda>e. \<not> collects e) es \<Longrightarrow>
    orderly_reach E P ks ops d0 m"
proof (induction es arbitrary: n)
  case (Cons e es)
  then obtain k where k: "adds_ops ops e n" "net_step E P ks e n = Some k" "net_run E P ks ops es k = Some m"
    by (auto split: option.splits if_splits)
  have "in_order e n"
    using Cons.prems(3) by (auto simp: in_order_def orderly_def collects_def split: net_event.splits g_event.splits)
  from Cons.IH[OF orderly_reach.step[OF Cons.prems(1) k(1) this k(2)] k(3)] Cons.prems(3) show ?case by simp
qed simp

text \<open>
  For evaluation: updated functions are looked up late, and the queues are extended one frame at a
  time.
\<close>

lemma fun_upd_late [code]: "(f(a := b)) x = (if x = a then b else f x)"
  by simp

fun enqueue :: "gateway_effect list \<Rightarrow> (nat \<Rightarrow> bytes list) \<Rightarrow> nat \<Rightarrow> bytes list" where
  "enqueue [] q = q"
| "enqueue (SendTo c b # fx) q = enqueue fx (q(c := q c @ [b]))"
| "enqueue (x # fx) q = enqueue fx q"

lemma enqueue_sent: "enqueue fx q c = q c @ sent_to c fx"
proof (induction fx q rule: enqueue.induct)
  case (2 d b fx q)
  then show ?case by (cases "c = d") (simp_all del: fun_upd_apply add: fun_upd_same fun_upd_other)
qed simp_all

lemma serve_code [code]: "serve x n = n\<lparr>nt_gw := fst x, nt_down := enqueue (snd x) (nt_down n)\<rparr>"
  by (simp add: serve_def enqueue_sent[abs_def])

text \<open>The size limit of a frame, counted in binary.\<close>

definition oversized :: "bytes \<Rightarrow> bool" where
  "oversized b \<longleftrightarrow> 65536 < fold (\<lambda>_ n. n + 1) b (0::int)"

lemma count_bytes: "fold (\<lambda>_ n. n + 1) b (k::int) = k + int (length b)"
  by (induction b arbitrary: k) simp_all

lemma oversized_frames [code_unfold]: "max_ws_message_bytes < length b \<longleftrightarrow> oversized b"
  by (simp add: oversized_def count_bytes max_ws_message_bytes_def)

text \<open>Two clients meet in the lobby: one wrote while it connected, the other once it had joined.\<close>

definition meeting_trace :: "bytes net_event list" where
  "meeting_trace = [NetDial 1 [], NetDial 2 [], NetAccept 1 None (Some (js ''bearer, u'')), NetAccept 2 None (Some (js ''bearer, v'')),
     NetServer (ELoadFind 0), NetServer (ELoadFound 0), NetServer (ELoadUpsert (js ''1'') 0), NetServer (ELoadUpserted 0),
     NetClient 1 (LocalEdit [5]), NetServer (EJoin 1), NetServer (EJoin 2), NetOpen 1, NetOpen 2, NetClient 2 (LocalEdit [7]),
     NetReceive 0 1, NetReceive 0 1, NetReceive 0 1, NetReceive 0 2, NetReceive 0 2, NetReceive 0 2,
     NetDeliver 1, NetDeliver 1, NetDeliver 1, NetDeliver 1, NetDeliver 2, NetDeliver 2, NetDeliver 2, NetDeliver 2,
     NetReceive 0 1, NetReceive 0 2]"

definition settled_at :: "('d, 'a) net \<Rightarrow> nat \<Rightarrow> nat \<Rightarrow> bool" where
  "settled_at n c r = (case nt_peer n c of None \<Rightarrow> False
     | Some p \<Rightarrow> p_ws p = Some Open \<and> \<not> p_stateRefused p \<and> gw_listening (nt_gw n) c = Some r \<and> is_open (nt_gw n) c
         \<and> \<not> rs_destroyed (room_at (nt_gw n) r) \<and> Option.is_none (gw_lastRejection (nt_gw n) c)
         \<and> nt_up n c = [] \<and> nt_down n c = [])"

lemma settled_atD: "settled_at n c r \<Longrightarrow> settled n c r (the (nt_peer n c))"
  by (auto simp: settled_at_def settled_def linked_def Option.is_none_def split: option.splits)

lemma meeting_result:
  "case net_run meeting_env meeting_peer [1, 2] set meeting_trace (net_start empty_db) of None \<Rightarrow> False
   | Some n \<Rightarrow> settled_at n 1 0 \<and> settled_at n 2 0 \<and> y_messages byteset_yjs (rs_doc (room_at (nt_gw n) 0)) = [set_message 5, set_message 7]"
  by code_simp

definition meeting :: "(bytes, nat list) net" where
  "meeting = the (net_run meeting_env meeting_peer [1, 2] set meeting_trace (net_start empty_db))"

lemma meeting_run: "net_run meeting_env meeting_peer [1, 2] set meeting_trace (net_start empty_db) = Some meeting"
  using meeting_result by (simp add: meeting_def split: option.splits)

lemma meeting_reach: "net_reach meeting_env meeting_peer [1, 2] set empty_db meeting"
  by (rule net_run_reach[OF net_reach.start meeting_run])

text \<open>The same, told by the name of the room.\<close>

definition settled_named :: "('d, 'a) net \<Rightarrow> nat \<Rightarrow> jstr \<Rightarrow> bool" where
  "settled_named n c name = (case nt_peer n c of None \<Rightarrow> False
     | Some p \<Rightarrow> p_ws p = Some Open \<and> \<not> p_stateRefused p \<and> is_open (nt_gw n) c \<and> map_of (gw_clientRoom (nt_gw n)) c = Some name
         \<and> Option.is_none (gw_lastRejection (nt_gw n) c) \<and> nt_up n c = [] \<and> nt_down n c = [])"

lemma settled_namedD: "settled_named n c name \<Longrightarrow> settled_in n c name (the (nt_peer n c))"
  by (auto simp: settled_named_def settled_in_def Option.is_none_def split: option.splits)

lemma meeting_named:
  "case net_run meeting_env meeting_peer [1, 2] set meeting_trace (net_start empty_db) of None \<Rightarrow> False
   | Some n \<Rightarrow> settled_named n 1 default_room \<and> settled_named n 2 default_room \<and> gw_rooms (nt_gw n) = [(default_room, 0)]"
  by code_simp

lemma settled_clients_agree_witness:
  "y_messages byteset_yjs (p_doc (the (nt_peer meeting 1))) = [set_message 5, set_message 7]
    \<and> y_messages byteset_yjs (p_doc (the (nt_peer meeting 2))) = [set_message 5, set_message 7]"
proof -
  have m: "settled_named meeting 1 default_room" "settled_named meeting 2 default_room"
    "gw_rooms (nt_gw meeting) = [(default_room, 0)]"
    "y_messages byteset_yjs (rs_doc (room_at (nt_gw meeting) 0)) = [set_message 5, set_message 7]"
    using meeting_result meeting_named by (simp_all add: meeting_def split: option.splits)
  have reach: "orderly_reach meeting_env meeting_peer [1, 2] set empty_db meeting"
    by (rule net_run_orderly[OF orderly_reach.start meeting_run]) (simp add: meeting_trace_def collects_def)
  have Y: "ge_yjs meeting_env = byteset_yjs" by (simp add: meeting_env_def)
  from settled_clients_agree[OF reach db_inv_empty meeting_laws settled_namedD[OF m(1)] settled_namedD[OF m(2)], unfolded Y]
  obtain r where "map_of (gw_rooms (nt_gw meeting)) default_room = Some r"
    "y_messages byteset_yjs (p_doc (the (nt_peer meeting 1))) = y_messages byteset_yjs (rs_doc (room_at (nt_gw meeting) r))"
    "y_messages byteset_yjs (p_doc (the (nt_peer meeting 1))) = y_messages byteset_yjs (p_doc (the (nt_peer meeting 2)))"
    by blast
  then show ?thesis using m(3,4) by simp
qed

text \<open>
  A room collected twice. Two clients come and go, and each leaves a timer; the first collects the room.
  A third client comes and gets a new one; the second timer, which captured the collected room and finds
  it without clients, takes the new one out of the map; and a fourth client gets another. Both are
  settled in the lobby and see different messages.
\<close>

definition split_trace :: "bytes net_event list" where
  "split_trace = [NetServer (EConnect 1 None (Some (js ''bearer, u''))), NetServer (ELoadFind 0), NetServer (ELoadFound 0),
     NetServer (ELoadUpsert (js ''1'') 0), NetServer (ELoadUpserted 0), NetServer (EJoin 1), NetServer (EClosed 1),
     NetServer (EConnect 2 None (Some (js ''bearer, v''))), NetServer (EJoin 2), NetServer (EClosed 2), NetServer (EGcTimer 0),
     NetDial 3 [], NetAccept 3 None (Some (js ''bearer, u'')), NetServer (ELoadFind 1), NetServer (ELoadFound 1),
     NetServer (ELoadUpsert (js ''2'') 1), NetServer (ELoadUpserted 1), NetServer (EJoin 3), NetOpen 3, NetClient 3 (LocalEdit [5]),
     NetServer (EGcTimer 0),
     NetDial 4 [], NetAccept 4 None (Some (js ''bearer, v'')), NetServer (ELoadFind 2), NetServer (ELoadFound 2),
     NetServer (ELoadUpsert (js ''3'') 2), NetServer (ELoadUpserted 2), NetServer (EJoin 4), NetOpen 4,
     NetDeliver 3, NetDeliver 3, NetReceive 0 3, NetReceive 0 3, NetReceive 0 3, NetReceive 0 3,
     NetDeliver 4, NetDeliver 4, NetReceive 0 4, NetReceive 0 4, NetReceive 0 4, NetDeliver 3, NetDeliver 4]"

lemma split_result:
  "case net_run meeting_env meeting_peer [1, 2, 3, 4] set split_trace (net_start empty_db) of None \<Rightarrow> False
   | Some n \<Rightarrow> settled_named n 3 default_room \<and> settled_named n 4 default_room
       \<and> map_option p_doc (nt_peer n 3) = Some [5] \<and> map_option p_doc (nt_peer n 4) = Some []"
  by code_simp

theorem collected_twice_splits_the_room:
  "\<exists>n p p'. net_reach meeting_env meeting_peer [1, 2, 3, 4] set empty_db n
    \<and> settled_in n 3 default_room p \<and> settled_in n 4 default_room p'
    \<and> y_messages byteset_yjs (p_doc p) = [set_message 5] \<and> y_messages byteset_yjs (p_doc p') = []"
proof -
  obtain n where n: "net_run meeting_env meeting_peer [1, 2, 3, 4] set split_trace (net_start empty_db) = Some n"
    "settled_named n 3 default_room" "settled_named n 4 default_room"
    "map_option p_doc (nt_peer n 3) = Some [5]" "map_option p_doc (nt_peer n 4) = Some []"
    using split_result by (auto split: option.splits)
  have "p_doc (the (nt_peer n 3)) = [5]" "p_doc (the (nt_peer n 4)) = []" using n(4,5) by auto
  then have "y_messages byteset_yjs (p_doc (the (nt_peer n 3))) = [set_message 5]"
    "y_messages byteset_yjs (p_doc (the (nt_peer n 4))) = []"
    by (simp_all add: byteset_yjs_def)
  then show ?thesis
    using net_run_reach[OF net_reach.start n(1)] settled_namedD[OF n(2)] settled_namedD[OF n(3)] by blast
qed

lemma nothing_is_lost_witness:
  "doc_ops set (nt_gw meeting) 0 \<subseteq> set (p_doc (the (nt_peer meeting 1)))
    \<and> set (p_doc (the (nt_peer meeting 1))) \<subseteq> doc_ops set (nt_gw meeting) 0"
proof -
  have "settled meeting 1 0 (the (nt_peer meeting 1))"
    by (rule settled_atD) (use meeting_result in \<open>simp add: meeting_def split: option.splits\<close>)
  then have s: "nt_peer meeting 1 = Some (the (nt_peer meeting 1))" "p_ws (the (nt_peer meeting 1)) = Some Open"
    "\<not> p_stateRefused (the (nt_peer meeting 1))" "linked (nt_gw meeting) 1 0" "nt_up meeting 1 = []" "nt_down meeting 1 = []"
    by (simp_all add: settled_def)
  from nothing_is_lost[OF meeting_reach db_inv_empty meeting_laws s(1-4)] show ?thesis
    unfolding s(5,6) by (simp add: asked_def)
qed

end
