(* ===== verification/Build_Guards.thy ===== *)
theory Build_Guards
  imports JString
begin

text \<open>
  What keeps test-only features out of a released app, \<open>apps/mobile/config\<close>: who counts as the
  end-to-end test build (\<open>e2eBuildToken.js\<close>), the guard that Metro runs (\<open>qaReadoutGuard.js\<close>), the check
  appended to the Gradle build (\<open>withQaReadoutBundleCheck.js\<close>) and the release-only files that allow plain
  HTTP to the test hosts (\<open>withE2eLocalhostCleartext.js\<close>). The file system maps paths to contents; an
  environment maps names to values. Directories, and the plugin machinery of Expo, are left out.
\<close>

type_synonym environment = "jstr \<Rightarrow> jstr option"
type_synonym files = "jstr \<Rightarrow> jstr option"

text \<open>\<open>String.includes\<close> and \<open>endsWith\<close>; \<open>path.join\<close> of a directory and a plain relative path.\<close>

fun str_includes :: "jstr \<Rightarrow> jstr \<Rightarrow> bool" where
  "str_includes [] p \<longleftrightarrow> p = []"
| "str_includes (c # s) p \<longleftrightarrow> starts_with (c # s) p \<or> str_includes s p"

definition ends_with :: "jstr \<Rightarrow> jstr \<Rightarrow> bool" where
  "ends_with s p \<longleftrightarrow> starts_with (rev s) (rev p)"

definition path_join :: "jstr \<Rightarrow> jstr \<Rightarrow> jstr" where
  "path_join dir rel = dir @ js ''/'' @ rel"

definition newline :: jstr where "newline = [10]"

section \<open>The test build's token\<close>

definition e2e_token_file :: jstr where "e2e_token_file = js ''.e2e-build-token''"
definition min_token_length :: nat where "min_token_length = 16"
definition qa_readout_bundle_marker :: jstr where "qa_readout_bundle_marker = js ''chatcrdt-qa-readout:1''"

definition read_e2e_build_token :: "files \<Rightarrow> jstr \<Rightarrow> jstr option" where
  "read_e2e_build_token fs mobileDir = (case fs (path_join mobileDir e2e_token_file) of None \<Rightarrow> None
     | Some s \<Rightarrow> if trim s = [] then None else Some (trim s))"

definition is_e2e_build :: "environment \<Rightarrow> jstr option \<Rightarrow> bool" where
  "is_e2e_build env token = (case token of None \<Rightarrow> False
     | Some t \<Rightarrow> if t = [] \<or> length t < min_token_length then False else env (js ''CHATCRDT_E2E_BUILD'') = Some t)"

section \<open>The Metro guard\<close>

definition dev_flag :: "jstr \<Rightarrow> bool" where
  "dev_flag arg \<longleftrightarrow> arg = js ''--dev'' \<or> starts_with arg (js ''--dev='')"

definition is_production_bundle :: "jstr list \<Rightarrow> bool" where
  "is_production_bundle argv = (case find (\<lambda>a. a = js ''export'' \<or> a = js ''export:embed'') argv of
     None \<Rightarrow> False
   | Some command \<Rightarrow> (case dropWhile (\<lambda>a. \<not> dev_flag a) argv of
       [] \<Rightarrow> command = js ''export''
     | flag # rest \<Rightarrow>
         let value = (if str_includes flag (js ''='') then Some (split_on 61 flag ! 1)
                      else (case rest of [] \<Rightarrow> None | v # _ \<Rightarrow> Some v))
         in (case value of None \<Rightarrow> False
             | Some v \<Rightarrow> if starts_with v (js ''-'') then False else v = js ''false'')))"

definition qa_readout_error :: jstr where
  "qa_readout_error = js ''EXPO_PUBLIC_QA_READOUT=1 is set for a production bundle. The QA readout ''
     @ js ''only ships in the Maestro e2e build (apps/mobile/.maestro/scripts/build-e2e.sh, ''
     @ js ''which sets a per-run CHATCRDT_E2E_BUILD token). Unset EXPO_PUBLIC_QA_READOUT and rebuild.''"

definition qa_readout_build_error :: "jstr list \<Rightarrow> environment \<Rightarrow> jstr option \<Rightarrow> jstr option" where
  "qa_readout_build_error argv env e2eToken =
     (if env (js ''EXPO_PUBLIC_QA_READOUT'') \<noteq> Some (js ''1'') then None
      else if is_e2e_build env e2eToken then None
      else if \<not> is_production_bundle argv then None
      else Some qa_readout_error)"

section \<open>The Gradle check\<close>

definition check_begin :: jstr where
  "check_begin = js ''// @chatcrdt-qa-readout-bundle-check begin (config/withQaReadoutBundleCheck.js)''"

definition check_end :: jstr where
  "check_end = js ''// @chatcrdt-qa-readout-bundle-check end''"

definition gradle_lines :: "jstr list" where
  \<open>gradle_lines = [check_begin,
     js ''def chatcrdtQaReadout = providers.environmentVariable("EXPO_PUBLIC_QA_READOUT").orElse("")'',
     js ''def chatcrdtE2eBuild = providers.environmentVariable("CHATCRDT_E2E_BUILD").orElse("")'',
     js ''def chatcrdtE2eTokenFile = new File(rootDir, "../'' @ e2e_token_file @ js ''")'',
     js ''tasks.matching { it.name ==~ /createBundle.*ReleaseJsAndAssets/ }.configureEach { bundleTask ->'',
     js ''    bundleTask.inputs.property("chatcrdtQaReadout", chatcrdtQaReadout)'',
     js ''    bundleTask.inputs.property("chatcrdtE2eBuild", chatcrdtE2eBuild)'',
     js ''    bundleTask.doLast {'',
     js ''        def token = chatcrdtE2eTokenFile.exists() ? chatcrdtE2eTokenFile.text.trim() : ""'',
     js ''        def isE2e = token.length() >= '' @ dec_nat min_token_length @ js '' && chatcrdtE2eBuild.get() == token'',
     js ''        def bundle = bundleTask.jsBundleDir.get().file(bundleTask.bundleAssetName.get()).asFile'',
     js ''        def hasQaReadout = new String(bundle.bytes, "ISO-8859-1").contains("'' @ qa_readout_bundle_marker @ js ''")'',
     js ''        if (hasQaReadout && !isE2e) {'',
     js ''            throw new GradleException("$bundle carries the QA readout (EXPO_PUBLIC_QA_READOUT=1) but this is not the e2e build. Unset EXPO_PUBLIC_QA_READOUT and rebuild.")'',
     js ''        }'',
     js ''        if (isE2e && !hasQaReadout) {'',
     js ''            throw new GradleException("e2e build: $bundle lacks the QA readout marker. The release check in config/withQaReadoutBundleCheck.js would be blind; fix the marker in app/(chat)/[roomId].tsx.")'',
     js ''        }'',
     js ''    }'',
     js ''}'',
     check_end, []]\<close>

definition add_qa_readout_bundle_check :: "jstr \<Rightarrow> jstr" where
  "add_qa_readout_bundle_check buildGradle =
     (if str_includes buildGradle check_begin then buildGradle
      else buildGradle @ (if ends_with buildGradle newline then newline else newline @ newline)
        @ join newline gradle_lines)"

text \<open>
  What the appended Groovy does after a release bundle task. Java's \<open>trim\<close> strips the characters up to
  the space.
\<close>

datatype gradle_exception = CarriesReadout | LacksMarker

definition java_trim :: "jstr \<Rightarrow> jstr" where
  "java_trim s = rev (dropWhile (\<lambda>c. c \<le> 32) (rev (dropWhile (\<lambda>c. c \<le> 32) s)))"

definition release_bundle_check :: "environment \<Rightarrow> files \<Rightarrow> jstr \<Rightarrow> jstr \<Rightarrow> gradle_exception option" where
  "release_bundle_check env fs mobileDir bundle =
     (let token = (case fs (path_join mobileDir e2e_token_file) of None \<Rightarrow> [] | Some s \<Rightarrow> java_trim s);
          e2eBuild = (case env (js ''CHATCRDT_E2E_BUILD'') of None \<Rightarrow> [] | Some v \<Rightarrow> v);
          isE2e = (min_token_length \<le> length token \<and> e2eBuild = token);
          hasQaReadout = str_includes bundle qa_readout_bundle_marker
      in if hasQaReadout \<and> \<not> isE2e then Some CarriesReadout
         else if isE2e \<and> \<not> hasQaReadout then Some LacksMarker
         else None)"

text \<open>
  The release bundle task with the check appended to it. Beside the sources, its inputs are the two
  environment variables. When Gradle finds it up to date, which needs a last execution that succeeded with
  the same inputs, neither Metro nor the check runs and the bundle stays; otherwise \<open>made\<close> is the bundle
  Metro makes. A failed check fails the build, and the task is not up to date afterwards.
\<close>

record bundle_task =
  bt_inputs :: "(jstr \<times> jstr) option"
  bt_bundle :: jstr

definition or_empty :: "jstr option \<Rightarrow> jstr" where
  "or_empty v = (case v of None \<Rightarrow> [] | Some s \<Rightarrow> s)"

definition task_inputs :: "environment \<Rightarrow> jstr \<times> jstr" where
  "task_inputs env = (or_empty (env (js ''EXPO_PUBLIC_QA_READOUT'')), or_empty (env (js ''CHATCRDT_E2E_BUILD'')))"

definition release_bundle_task ::
  "environment \<Rightarrow> files \<Rightarrow> jstr \<Rightarrow> jstr option \<Rightarrow> bundle_task \<Rightarrow> (gradle_exception option \<times> bundle_task) option" where
  "release_bundle_task env fs mobileDir made t = (case made of
     None \<Rightarrow> if bt_inputs t = Some (task_inputs env) then Some (None, t) else None
   | Some bundle \<Rightarrow> (case release_bundle_check env fs mobileDir bundle of
         Some e \<Rightarrow> Some (Some e, \<lparr>bt_inputs = None, bt_bundle = bundle\<rparr>)
       | None \<Rightarrow> Some (None, \<lparr>bt_inputs = Some (task_inputs env), bt_bundle = bundle\<rparr>)))"

text \<open>The builds of a checkout, one after the other.\<close>

fun earlier_builds :: "jstr \<Rightarrow> (environment \<times> files \<times> jstr option) list \<Rightarrow> bundle_task \<Rightarrow> bundle_task option" where
  "earlier_builds mobileDir [] t = Some t"
| "earlier_builds mobileDir ((env, fs, made) # bs) t = (case release_bundle_task env fs mobileDir made t of
     None \<Rightarrow> None | Some (_, t) \<Rightarrow> earlier_builds mobileDir bs t)"

section \<open>The release-only files\<close>

definition cleartext_marker :: jstr where "cleartext_marker = js ''chatcrdt-e2e-localhost-cleartext''"
definition nsc_name :: jstr where "nsc_name = js ''e2e_network_security_config''"

definition cleartext_hosts :: "jstr list" where
  "cleartext_hosts = [js ''localhost'', js ''127.0.0.1'', js ''10.0.2.2'']"

definition release_manifest_xml :: jstr where
  \<open>release_manifest_xml = join newline [
     js ''<?xml version="1.0" encoding="utf-8"?>'',
     js ''<!-- '' @ cleartext_marker @ js '': generated by apps/mobile/config/withE2eLocalhostCleartext.js'',
     js ''     for the Maestro e2e build only. Do not commit or hand-edit. -->'',
     js ''<manifest xmlns:android="http://schemas.android.com/apk/res/android">'',
     js ''    <application android:networkSecurityConfig="@xml/'' @ nsc_name @ js ''" />'',
     js ''</manifest>'', []]\<close>

definition network_security_config_xml :: jstr where
  \<open>network_security_config_xml = join newline [
     js ''<?xml version="1.0" encoding="utf-8"?>'',
     js ''<!-- '' @ cleartext_marker @ js '' -->'',
     js ''<network-security-config>'',
     js ''    <base-config cleartextTrafficPermitted="false" />'',
     js ''    <domain-config cleartextTrafficPermitted="true">'',
     join newline (map (\<lambda>host. js ''        <domain includeSubdomains="false">'' @ host @ js ''</domain>'') cleartext_hosts),
     js ''    </domain-config>'',
     js ''</network-security-config>'', []]\<close>

definition is_ours :: "jstr \<Rightarrow> bool" where
  "is_ours content \<longleftrightarrow> str_includes content cleartext_marker"

datatype sync_action = Written | Removed | Untouched

definition manifest_path :: "jstr \<Rightarrow> jstr" where
  "manifest_path appDir = path_join appDir (js ''src/release/AndroidManifest.xml'')"

definition nsc_path :: "jstr \<Rightarrow> jstr" where
  "nsc_path appDir = path_join appDir (js ''src/release/res/xml/'' @ nsc_name @ js ''.xml'')"

definition ours_at :: "files \<Rightarrow> jstr \<Rightarrow> bool" where
  "ours_at fs p \<longleftrightarrow> (case fs p of None \<Rightarrow> False | Some s \<Rightarrow> is_ours s)"

text \<open>One round of the loop that removes files.\<close>

definition remove_ours :: "jstr \<Rightarrow> files \<times> bool \<Rightarrow> files \<times> bool" where
  "remove_ours file st = (if ours_at (fst st) file then ((fst st)(file := None), True) else st)"

text \<open>\<open>Inl\<close> with the path of the hand-made manifest for the thrown error.\<close>

definition sync_e2e_release_files :: "jstr \<Rightarrow> environment \<Rightarrow> jstr option \<Rightarrow> files \<Rightarrow> jstr + sync_action \<times> files" where
  "sync_e2e_release_files appDir env e2eToken fs =
     (let manifest = manifest_path appDir; nsc = nsc_path appDir
      in if is_e2e_build env e2eToken then
           (if fs manifest \<noteq> None \<and> \<not> ours_at fs manifest then Inl manifest
            else Inr (Written, fs(manifest \<mapsto> release_manifest_xml, nsc \<mapsto> network_security_config_xml)))
         else (case fold remove_ours [manifest, nsc] (fs, False) of
             (fs', removed) \<Rightarrow> Inr (if removed then Removed else Untouched, fs')))"

section \<open>Lemmas\<close>

lemma includes_iff: "str_includes s p \<longleftrightarrow> (\<exists>a b. s = a @ p @ b)"
proof (induction s)
  case (Cons c s)
  note IH = Cons.IH
  show ?case
  proof
    assume "str_includes (c # s) p"
    then consider r where "c # s = p @ r" | a b where "s = a @ p @ b"
      using Cons.IH by (auto simp: starts_with_iff)
    then show "\<exists>a b. c # s = a @ p @ b"
    proof cases
      case 1
      then have "c # s = [] @ p @ r" by simp
      then show ?thesis by blast
    next
      case 2
      then have "c # s = (c # a) @ p @ b" by simp
      then show ?thesis by blast
    qed
  next
    assume "\<exists>a b. c # s = a @ p @ b"
    then obtain a b where e: "c # s = a @ p @ b" by blast
    show "str_includes (c # s) p"
    proof (cases a)
      case Nil
      then have "starts_with (c # s) p" using e by (simp add: starts_with_iff)
      then show ?thesis by simp
    next
      case (Cons x xs)
      then have "s = xs @ p @ b" using e by simp
      then have "str_includes s p" using IH by blast
      then show ?thesis by simp
    qed
  qed
qed auto

lemma includes_middle [simp]: "str_includes (a @ p @ b) p"
  unfolding includes_iff by blast

lemma paths_differ [simp]: "manifest_path d \<noteq> nsc_path d" "nsc_path d \<noteq> manifest_path d"
  by (simp_all add: manifest_path_def nsc_path_def path_join_def nsc_name_def js_def)

lemma includes_later: "str_includes y p \<Longrightarrow> str_includes (x @ y) p"
  unfolding includes_iff by (metis append_assoc)

lemma includes_here: "str_includes (p @ b) p"
  using includes_middle[of "[]" p b] by simp

lemma is_ours_written [simp]: "is_ours release_manifest_xml" "is_ours network_security_config_xml"
  by (simp_all add: is_ours_def release_manifest_xml_def network_security_config_xml_def includes_later includes_here)

lemma is_e2e_buildD: "is_e2e_build env token \<Longrightarrow> \<exists>t. token = Some t \<and> min_token_length \<le> length t \<and> env (js ''CHATCRDT_E2E_BUILD'') = Some t"
  by (auto simp: is_e2e_build_def split: option.splits if_splits)

lemma remove_ours_files:
  "fst (remove_ours file st) p = (if p = file \<and> ours_at (fst st) file then None else fst st p)"
  by (simp add: remove_ours_def)

lemma sync_other_build:
  assumes "\<not> is_e2e_build env token"
  shows "\<exists>act fs'. sync_e2e_release_files appDir env token fs = Inr (act, fs')
    \<and> (\<forall>p. fs' p = (if (p = manifest_path appDir \<or> p = nsc_path appDir) \<and> ours_at fs p then None else fs p))"
proof -
  let ?st = "remove_ours (nsc_path appDir) (remove_ours (manifest_path appDir) (fs, False))"
  have "ours_at (fst (remove_ours (manifest_path appDir) (fs, False))) (nsc_path appDir) = ours_at fs (nsc_path appDir)"
    by (simp add: ours_at_def remove_ours_files)
  then have "fst ?st p = (if (p = manifest_path appDir \<or> p = nsc_path appDir) \<and> ours_at fs p then None else fs p)" for p
    by (auto simp: remove_ours_files)
  moreover have "sync_e2e_release_files appDir env token fs = Inr (if snd ?st then Removed else Untouched, fst ?st)"
    using assms by (simp add: sync_e2e_release_files_def Let_def split_beta)
  ultimately show ?thesis by blast
qed

text \<open>The check is appended once, and the rest of the file is kept.\<close>

lemma check_appended_once:
  "\<exists>r. add_qa_readout_bundle_check g = g @ r" "str_includes (add_qa_readout_bundle_check g) check_begin"
  "add_qa_readout_bundle_check (add_qa_readout_bundle_check g) = add_qa_readout_bundle_check g"
proof -
  have block: "join newline gradle_lines = check_begin @ newline @ join newline (tl gradle_lines)"
    by (simp add: gradle_lines_def)
  have inc: "str_includes (add_qa_readout_bundle_check g) check_begin" for g
  proof (cases "str_includes g check_begin")
    case False
    have "add_qa_readout_bundle_check g = (g @ (if ends_with g newline then newline else newline @ newline))
        @ check_begin @ (newline @ join newline (tl gradle_lines))"
      using False by (simp add: add_qa_readout_bundle_check_def block)
    then show ?thesis by (simp only: includes_middle)
  qed (simp add: add_qa_readout_bundle_check_def)
  then show "str_includes (add_qa_readout_bundle_check g) check_begin"
    "add_qa_readout_bundle_check (add_qa_readout_bundle_check g) = add_qa_readout_bundle_check g"
    by (simp_all add: add_qa_readout_bundle_check_def[of "add_qa_readout_bundle_check g"])
  show "\<exists>r. add_qa_readout_bundle_check g = g @ r" by (simp add: add_qa_readout_bundle_check_def)
qed

text \<open>A bundle with the readout that may be reused was checked against the token file of some build.\<close>

definition named_token :: "jstr \<Rightarrow> files list \<Rightarrow> jstr \<Rightarrow> bool" where
  "named_token mobileDir fss v \<longleftrightarrow> (\<exists>fs \<in> set fss. case fs (path_join mobileDir e2e_token_file) of
     None \<Rightarrow> False | Some s \<Rightarrow> min_token_length \<le> length (java_trim s) \<and> v = java_trim s)"

definition reusable_ok :: "jstr \<Rightarrow> files list \<Rightarrow> bundle_task \<Rightarrow> bool" where
  "reusable_ok mobileDir fss t \<longleftrightarrow> (case bt_inputs t of None \<Rightarrow> True
     | Some (_, v) \<Rightarrow> str_includes (bt_bundle t) qa_readout_bundle_marker \<longrightarrow> named_token mobileDir fss v)"

lemma check_passed:
  assumes "release_bundle_check env fs mobileDir bundle = None" and "str_includes bundle qa_readout_bundle_marker"
  shows "named_token mobileDir [fs] (or_empty (env (js ''CHATCRDT_E2E_BUILD'')))"
  using assms by (auto simp: release_bundle_check_def named_token_def or_empty_def min_token_length_def Let_def
      split: if_splits option.splits)

lemma named_token_more: "named_token mobileDir xs v \<Longrightarrow> set xs \<subseteq> set ys \<Longrightarrow> named_token mobileDir ys v"
  unfolding named_token_def by blast

lemma task_reusable:
  assumes "release_bundle_task env fs mobileDir made t = Some (failure, t')" and "reusable_ok mobileDir fss t"
  shows "reusable_ok mobileDir (fs # fss) t'"
proof (cases made)
  case None
  then have "t' = t" using assms(1) by (simp add: release_bundle_task_def split: if_splits)
  then show ?thesis
    using assms(2) named_token_more[of mobileDir fss _ "fs # fss"] by (auto simp: reusable_ok_def split: option.splits)
next
  case (Some js_bundle)
  then show ?thesis
    using assms(1) check_passed[of env fs mobileDir js_bundle] named_token_more[of mobileDir "[fs]" _ "fs # fss"]
    by (auto simp: release_bundle_task_def reusable_ok_def task_inputs_def split: option.splits)
qed

lemma builds_reusable:
  assumes "earlier_builds mobileDir bs t = Some t'" and "reusable_ok mobileDir fss t"
  shows "reusable_ok mobileDir (rev (map (fst \<circ> snd) bs) @ fss) t'"
  using assms
proof (induction bs arbitrary: t fss)
  case (Cons b bs)
  obtain env fs made where b: "b = (env, fs, made)" by (metis prod_cases3)
  obtain failure u where u: "release_bundle_task env fs mobileDir made t = Some (failure, u)"
    "earlier_builds mobileDir bs u = Some t'"
    using Cons.prems(1) by (auto simp: b split: option.splits)
  from Cons.IH[OF u(2) task_reusable[OF u(1) Cons.prems(2)]] show ?case by (simp add: b)
qed simp

section \<open>Properties\<close>

text \<open>C37. Other builds carry nothing of the test build. Unless the environment names a token of at least
  sixteen characters that the token file holds, or held in an earlier build of the checkout: Metro refuses
  every production bundle built with the readout; whatever builds went before, a release bundle that
  carries the readout fails in Gradle when it is made and is never one that Gradle reuses; and the
  prebuild succeeds, removes both release-only files that a test build wrote and touches no other file,
  nor those two when they are hand-made. (The token files hold nothing that the two languages' \<open>trim\<close>
  treat differently.)\<close>

theorem other_builds_are_clean:
  assumes "\<forall>f \<in> set (fs # map (fst \<circ> snd) builds). \<not> is_e2e_build env (read_e2e_build_token f mobileDir)
      \<and> (case f (path_join mobileDir e2e_token_file) of None \<Rightarrow> True | Some s \<Rightarrow> java_trim s = trim s)"
    and "bt_inputs t0 = None" and "earlier_builds mobileDir builds t0 = Some t"
    and "release_bundle_task env fs mobileDir made t = Some (failure, t')"
  shows "(env (js ''EXPO_PUBLIC_QA_READOUT'') = Some (js ''1'') \<longrightarrow> is_production_bundle argv \<longrightarrow>
      qa_readout_build_error argv env (read_e2e_build_token fs mobileDir) = Some qa_readout_error)
    \<and> (str_includes (bt_bundle t') qa_readout_bundle_marker \<longrightarrow> made \<noteq> None \<and> failure = Some CarriesReadout)
    \<and> (\<exists>act fs'. sync_e2e_release_files appDir env (read_e2e_build_token fs mobileDir) fs = Inr (act, fs')
         \<and> (\<forall>p. fs' p = (if (p = manifest_path appDir \<or> p = nsc_path appDir) \<and> ours_at fs p then None else fs p)))"
proof -
  have other: "\<not> is_e2e_build env (read_e2e_build_token fs mobileDir)" using assms(1) by simp
  have not_named: "\<not> named_token mobileDir (fs # rev (map (fst \<circ> snd) builds)) (or_empty (env (js ''CHATCRDT_E2E_BUILD'')))"
  proof
    assume "named_token mobileDir (fs # rev (map (fst \<circ> snd) builds)) (or_empty (env (js ''CHATCRDT_E2E_BUILD'')))"
    then obtain f s where f: "f \<in> set (fs # map (fst \<circ> snd) builds)" "f (path_join mobileDir e2e_token_file) = Some s"
      "min_token_length \<le> length (java_trim s)" "or_empty (env (js ''CHATCRDT_E2E_BUILD'')) = java_trim s"
      by (auto simp: named_token_def split: option.splits)
    have s: "java_trim s = trim s" using bspec[OF assms(1) f(1)] f(2) by simp
    have "is_e2e_build env (read_e2e_build_token f mobileDir)"
      using f(2-4) unfolding s
      by (auto simp: is_e2e_build_def read_e2e_build_token_def or_empty_def min_token_length_def split: option.splits)
    with assms(1) f(1) show False by blast
  qed
  have "made \<noteq> None \<and> failure = Some CarriesReadout" if m: "str_includes (bt_bundle t') qa_readout_bundle_marker"
  proof (cases made)
    case None
    then have "t' = t" "bt_inputs t = Some (task_inputs env)"
      using assms(4) by (auto simp: release_bundle_task_def split: if_splits)
    moreover have "reusable_ok mobileDir (rev (map (fst \<circ> snd) builds)) t"
      using builds_reusable[OF assms(3), of "[]"] assms(2) by (simp add: reusable_ok_def)
    ultimately have "named_token mobileDir (rev (map (fst \<circ> snd) builds)) (or_empty (env (js ''CHATCRDT_E2E_BUILD'')))"
      using m by (simp add: reusable_ok_def task_inputs_def)
    with not_named named_token_more[of mobileDir "rev (map (fst \<circ> snd) builds)" _ "fs # rev (map (fst \<circ> snd) builds)"]
    show ?thesis by auto
  next
    case (Some js_bundle)
    then have "bt_bundle t' = js_bundle" using assms(4) by (auto simp: release_bundle_task_def split: option.splits)
    with m have "release_bundle_check env fs mobileDir js_bundle \<noteq> None"
      using check_passed[of env fs mobileDir js_bundle] not_named
        named_token_more[of mobileDir "[fs]" _ "fs # rev (map (fst \<circ> snd) builds)"] by auto
    then have "release_bundle_check env fs mobileDir js_bundle = Some CarriesReadout"
      using m \<open>bt_bundle t' = js_bundle\<close> by (auto simp: release_bundle_check_def Let_def split: if_splits)
    with Some assms(4) show ?thesis by (simp add: release_bundle_task_def)
  qed
  then show ?thesis
    using sync_other_build[OF other] other by (auto simp: qa_readout_build_error_def)
qed

section \<open>Witness\<close>

definition sample_files :: files where
  "sample_files = [path_join (js ''m'') e2e_token_file \<mapsto> js ''0123456789abcdef'',
     manifest_path (js ''a'') \<mapsto> release_manifest_xml]"

definition stale_env :: environment where
  "stale_env = [js ''EXPO_PUBLIC_QA_READOUT'' \<mapsto> js ''1'', js ''CHATCRDT_E2E_BUILD'' \<mapsto> js ''1'']"

text \<open>A test build made its bundle; the next build has another value in the environment and makes one again.\<close>

definition token_env :: environment where
  "token_env = [js ''EXPO_PUBLIC_QA_READOUT'' \<mapsto> js ''1'', js ''CHATCRDT_E2E_BUILD'' \<mapsto> js ''0123456789abcdef'']"

definition test_build :: "environment \<times> files \<times> jstr option" where
  "test_build = (token_env, sample_files, Some qa_readout_bundle_marker)"

definition no_bundle :: bundle_task where
  "no_bundle = \<lparr>bt_inputs = None, bt_bundle = []\<rparr>"

lemma made_bundle: "\<exists>failure u. release_bundle_task env fs d (Some b) t = Some (failure, u) \<and> bt_bundle u = b"
  by (cases "release_bundle_check env fs d b") (simp_all add: release_bundle_task_def)

lemma other_builds_are_clean_witness:
  "case earlier_builds (js ''m'') [test_build] no_bundle of None \<Rightarrow> False
   | Some t \<Rightarrow> (case release_bundle_task stale_env sample_files (js ''m'') (Some qa_readout_bundle_marker) t of
         None \<Rightarrow> False | Some (failure, t') \<Rightarrow> failure = Some CarriesReadout)"
proof -
  have ok: "\<forall>f \<in> set (sample_files # map (fst \<circ> snd) [test_build]). \<not> is_e2e_build stale_env (read_e2e_build_token f (js ''m''))
      \<and> (case f (path_join (js ''m'') e2e_token_file) of None \<Rightarrow> True | Some s \<Rightarrow> java_trim s = trim s)"
    unfolding test_build_def by code_simp
  obtain t where t: "earlier_builds (js ''m'') [test_build] no_bundle = Some t"
    using made_bundle[of token_env sample_files "js ''m''" qa_readout_bundle_marker no_bundle] by (auto simp: test_build_def)
  obtain failure t' where r: "release_bundle_task stale_env sample_files (js ''m'') (Some qa_readout_bundle_marker) t = Some (failure, t')"
    "bt_bundle t' = qa_readout_bundle_marker"
    using made_bundle by blast
  have "str_includes (bt_bundle t') qa_readout_bundle_marker"
    unfolding r(2) includes_iff by (intro exI[of _ "[]"]) simp
  with other_builds_are_clean[OF ok _ t r(1)] t r(1) show ?thesis by (simp add: no_bundle_def)
qed

text \<open>
  The token file is no input of the task. With the variables of the test build still exported, a build
  after its token file is gone reuses the bundle with the readout, and the check does not run.
\<close>

theorem leftover_variables_reuse_the_bundle:
  "case earlier_builds (js ''m'') [test_build] no_bundle of None \<Rightarrow> False
   | Some t \<Rightarrow> release_bundle_task token_env (\<lambda>_. None) (js ''m'') None t = Some (None, t)
       \<and> str_includes (bt_bundle t) qa_readout_bundle_marker
       \<and> \<not> is_e2e_build token_env (read_e2e_build_token (\<lambda>_. None) (js ''m''))"
  unfolding test_build_def by code_simp

end
