(* ===== verification/Env_Validation.thy ===== *)
theory Env_Validation
  imports JString
begin

text \<open>
  \<open>apps/server/src/config/env.validation.ts\<close>: the environment the server boots with. The URL check of the
  schema library and the wording of its own messages are parameters; \<open>Number(s)\<close> of the standard
  library is written out, its value an exact decimal \<open>m / 10 ^ k\<close>.
\<close>

section \<open>Number(s) on a string\<close>

datatype js_number = NotANumber | InfiniteNumber bool | Exact int nat

definition exact_times :: "int \<Rightarrow> int \<Rightarrow> js_number" where
  "exact_times m e = (if e < 0 then Exact m (nat (- e)) else Exact (m * 10 ^ nat e) 0)"

text \<open>The digits, then the exponent of a decimal literal without a sign.\<close>

definition scan_mantissa :: "jstr \<Rightarrow> (nat \<times> nat \<times> jstr) option" where
  "scan_mantissa s = (case scan_digits 0 0 s of (whole, n, r) \<Rightarrow>
     (case r of
        c # q \<Rightarrow> if c = 46 then (case scan_digits whole 0 q of (m, k, rest) \<Rightarrow>
                   if n + k = 0 then None else Some (m, k, rest))
                 else if n = 0 then None else Some (whole, 0, r)
      | [] \<Rightarrow> if n = 0 then None else Some (whole, 0, [])))"

definition scan_exponent :: "jstr \<Rightarrow> int option" where
  "scan_exponent s = (case s of [] \<Rightarrow> Some 0
     | c # r \<Rightarrow> if c \<noteq> 101 \<and> c \<noteq> 69 then None
         else (let (neg, ds) = (case r of d # q \<Rightarrow> if d = 45 then (True, q) else if d = 43 then (False, q) else (False, r)
                                | [] \<Rightarrow> (False, r))
               in map_option (\<lambda>v. if neg then - int v else int v) (number_of_digits ds)))"

definition unsigned_number :: "bool \<Rightarrow> jstr \<Rightarrow> js_number" where
  "unsigned_number neg s =
     (if s = js ''Infinity'' then InfiniteNumber neg
      else case scan_mantissa s of None \<Rightarrow> NotANumber
       | Some (m, k, r) \<Rightarrow> (case scan_exponent r of None \<Rightarrow> NotANumber
           | Some e \<Rightarrow> exact_times (if neg then - int m else int m) (e - int k)))"

definition radix_digit :: "jchar \<Rightarrow> nat" where
  "radix_digit c = (if is_digit c then digit_val c
     else if 97 \<le> c \<and> c \<le> 102 then unat c - 87 else if 65 \<le> c \<and> c \<le> 70 then unat c - 55 else 16)"

definition radix_number :: "nat \<Rightarrow> jstr \<Rightarrow> js_number" where
  "radix_number b s = (if s = [] \<or> list_ex (\<lambda>c. b \<le> radix_digit c) s then NotANumber
     else Exact (int (foldl (\<lambda>n c. b * n + radix_digit c) 0 s)) 0)"

definition number_of_string :: "jstr \<Rightarrow> js_number" where
  "number_of_string s0 = (let s = trim s0 in case s of
     [] \<Rightarrow> Exact 0 0
   | c # r \<Rightarrow>
       if c = 48 \<and> r \<noteq> [] \<and> (hd r = 120 \<or> hd r = 88) then radix_number 16 (tl r)
       else if c = 48 \<and> r \<noteq> [] \<and> (hd r = 111 \<or> hd r = 79) then radix_number 8 (tl r)
       else if c = 48 \<and> r \<noteq> [] \<and> (hd r = 98 \<or> hd r = 66) then radix_number 2 (tl r)
       else if c = 45 then unsigned_number True r
       else if c = 43 then unsigned_number False r
       else unsigned_number False s)"

section \<open>The schema\<close>

record server_env =
  ev_JWT_SECRET :: jstr
  ev_DATABASE_URL :: jstr
  ev_REDIS_URL :: jstr
  ev_CORS_ORIGIN :: jstr
  ev_PORT :: int

text \<open>An issue has the key it is about; its message is the schema's where it gives one.\<close>

datatype env_issue = RequiredIssue jstr | TooShort jstr | NotAUrl jstr | NotANumberIssue jstr | NotAnInteger jstr | NotPositive jstr

definition secret_field :: "jstr option \<Rightarrow> env_issue list" where
  "secret_field v = (case v of None \<Rightarrow> [RequiredIssue (js ''JWT_SECRET'')]
     | Some s \<Rightarrow> if length s < 16 then [TooShort (js ''JWT_SECRET'')] else [])"

definition database_field :: "(jstr \<Rightarrow> bool) \<Rightarrow> jstr option \<Rightarrow> env_issue list" where
  "database_field is_url v = (case v of None \<Rightarrow> [RequiredIssue (js ''DATABASE_URL'')]
     | Some s \<Rightarrow> if is_url s then [] else [NotAUrl (js ''DATABASE_URL'')])"

definition redis_field :: "(jstr \<Rightarrow> bool) \<Rightarrow> jstr \<Rightarrow> env_issue list" where
  "redis_field is_url s = (if is_url s then [] else [NotAUrl (js ''REDIS_URL'')])"

definition port_field :: "js_number \<Rightarrow> env_issue list" where
  "port_field n = (case n of
     NotANumber \<Rightarrow> [NotANumberIssue (js ''PORT'')]
   | InfiniteNumber neg \<Rightarrow> NotAnInteger (js ''PORT'') # (if neg then [NotPositive (js ''PORT'')] else [])
   | Exact m k \<Rightarrow> (if m mod 10 ^ k \<noteq> 0 then [NotAnInteger (js ''PORT'')] else [])
       @ (if m \<le> 0 then [NotPositive (js ''PORT'')] else []))"

definition port_value :: "js_number \<Rightarrow> int" where
  "port_value n = (case n of Exact m k \<Rightarrow> m div 10 ^ k | _ \<Rightarrow> 0)"

definition or_default :: "jstr \<Rightarrow> jstr option \<Rightarrow> jstr" where
  "or_default d v = (case v of None \<Rightarrow> d | Some s \<Rightarrow> s)"

definition env_issues :: "(jstr \<Rightarrow> bool) \<Rightarrow> (jstr \<Rightarrow> jstr option) \<Rightarrow> env_issue list" where
  "env_issues is_url config = secret_field (config (js ''JWT_SECRET''))
     @ database_field is_url (config (js ''DATABASE_URL''))
     @ redis_field is_url (or_default (js ''redis://localhost:6379'') (config (js ''REDIS_URL'')))
     @ (case config (js ''PORT'') of None \<Rightarrow> [] | Some s \<Rightarrow> port_field (number_of_string s))"

definition validate_env :: "(jstr \<Rightarrow> bool) \<Rightarrow> (jstr \<Rightarrow> jstr option) \<Rightarrow> env_issue list + server_env" where
  "validate_env is_url config =
     (if env_issues is_url config \<noteq> [] then Inl (env_issues is_url config)
      else Inr \<lparr>ev_JWT_SECRET = or_default [] (config (js ''JWT_SECRET'')),
        ev_DATABASE_URL = or_default [] (config (js ''DATABASE_URL'')),
        ev_REDIS_URL = or_default (js ''redis://localhost:6379'') (config (js ''REDIS_URL'')),
        ev_CORS_ORIGIN = or_default (js ''http://localhost:8081'') (config (js ''CORS_ORIGIN'')),
        ev_PORT = (case config (js ''PORT'') of None \<Rightarrow> 3001 | Some s \<Rightarrow> port_value (number_of_string s))\<rparr>)"

section \<open>Properties\<close>

text \<open>\<open>Number\<close> reads back the decimal digits of any number.\<close>

lemma number_of_numeral: "number_of_string (dec_nat n) = Exact (int n) 0"
proof -
  obtain c r where cr: "dec_nat n = c # r" by (cases "dec_nat n") simp_all
  have d: "is_digit x" if "x = c \<or> x \<in> set r" for x
    using dec_nat_digits[of x n] that by (auto simp: cr)
  have ws: "is_digit x \<Longrightarrow> \<not> is_ws x" for x
    by (auto simp: is_digit_def is_ws_def word_le_nat_alt)
  have "trim (c # r) = c # r"
    using ws[OF d[of c]] ws[OF d[of "last r"]] by (intro trim_id) (cases r; simp)
  moreover have "scan_mantissa (c # r) = Some (n, 0, [])"
    using scan_dec_nat[of "[]" n] cr by (simp add: scan_mantissa_def)
  moreover have "c # r \<noteq> js ''Infinity''" "\<not> (c = 45)" "\<not> (c = 43)" using d[of c] by (auto simp: js_def is_digit_def word_le_nat_alt)
  moreover have "hd r \<noteq> 120" "hd r \<noteq> 88" "hd r \<noteq> 111" "hd r \<noteq> 79" "hd r \<noteq> 98" "hd r \<noteq> 66" if "r \<noteq> []"
    using d[of "hd r"] that by (auto simp: is_digit_def word_le_nat_alt)
  ultimately show ?thesis
    by (auto simp: number_of_string_def cr unsigned_number_def scan_exponent_def exact_times_def)
qed

text \<open>
  A server that boots has a secret of at least sixteen units, valid URLs and a positive port; it does
  not boot when the secret is missing or too short, or no database is named.
\<close>

theorem booted_env_is_safe:
  "case validate_env is_url config of
     Inl issues \<Rightarrow> issues \<noteq> []
   | Inr e \<Rightarrow> 16 \<le> length (ev_JWT_SECRET e) \<and> is_url (ev_DATABASE_URL e) \<and> is_url (ev_REDIS_URL e) \<and> 0 < ev_PORT e
       \<and> config (js ''JWT_SECRET'') = Some (ev_JWT_SECRET e) \<and> config (js ''DATABASE_URL'') = Some (ev_DATABASE_URL e)"
proof -
  have port: "0 < port_value n" if "port_field n = []" for n
  proof (cases n)
    case (Exact m k)
    then have "m mod 10 ^ k = 0" "0 < m" using that by (auto simp: port_field_def split: if_splits)
    then have "(10::int) ^ k \<le> m" by (intro zdvd_imp_le) auto
    then show ?thesis using Exact by (simp add: port_value_def pos_imp_zdiv_pos_iff)
  qed (use that in \<open>simp_all add: port_field_def\<close>)
  show ?thesis
    using port
    by (auto simp: validate_env_def env_issues_def secret_field_def database_field_def redis_field_def or_default_def
        split: option.splits if_splits)
qed

end
