(* ===== verification/Sodium.thy ===== *)
theory Sodium
  imports Update_Gate Base64
begin

text \<open>
  \<open>react-native-libsodium\<close>, a package the client calls: a parameter with its documented behaviour,
  and a concrete instance of that behaviour for the witnesses.
\<close>

section \<open>libsodium\<close>

text \<open>
  The functions the program calls, \<open>None\<close> for a thrown error. \<open>sd_encrypt\<close> is
  \<open>crypto_aead_xchacha20poly1305_ietf_encrypt\<close> with output format \<open>base64\<close> (plaintext, additional
  data, nonce, key), \<open>sd_decrypt\<close> its inverse on bytes, \<open>sd_seal\<close> \<open>crypto_box_seal\<close> (message,
  recipient's public key, the ephemeral randomness), \<open>sd_seal_open\<close> its inverse (public key, private key),
  \<open>sd_generichash\<close> BLAKE2b-512 in hex,
  \<open>sd_box_keypair\<close> the public and private key made from given randomness.
\<close>

record sodium =
  sd_box_keypair :: "bytes \<Rightarrow> bytes \<times> bytes"
  sd_encrypt :: "jstr \<Rightarrow> jstr \<Rightarrow> bytes \<Rightarrow> bytes \<Rightarrow> jstr"
  sd_decrypt :: "bytes \<Rightarrow> jstr \<Rightarrow> bytes \<Rightarrow> bytes \<Rightarrow> bytes option"
  sd_to_base64 :: "bytes \<Rightarrow> jstr"
  sd_from_base64 :: "jstr \<Rightarrow> bytes option"
  sd_to_string :: "bytes \<Rightarrow> jstr option"
  sd_seal :: "bytes \<Rightarrow> bytes \<Rightarrow> bytes \<Rightarrow> jstr"
  sd_seal_open :: "bytes \<Rightarrow> bytes \<Rightarrow> bytes \<Rightarrow> bytes option"
  sd_generichash :: "jstr \<Rightarrow> jstr"

text \<open>The length of a string in UTF-8: a surrogate pair takes four bytes, a lone surrogate three.\<close>

fun utf8_length :: "jstr \<Rightarrow> nat" where
  "utf8_length [] = 0"
| "utf8_length (c # s) =
     (if c < 0x80 then 1 + utf8_length s
      else if c < 0x800 then 2 + utf8_length s
      else if is_high_surrogate c \<and> s \<noteq> [] \<and> is_low_surrogate (hd s) then 4 + utf8_length (tl s)
      else 3 + utf8_length s)"

text \<open>Strings that UTF-8 represents: no lone surrogate.\<close>

fun utf16_ok :: "jstr \<Rightarrow> bool" where
  "utf16_ok [] = True"
| "utf16_ok (c # s) =
     (if is_high_surrogate c then s \<noteq> [] \<and> is_low_surrogate (hd s) \<and> utf16_ok (tl s)
      else \<not> is_low_surrogate c \<and> utf16_ok s)"

text \<open>The number of characters of unpadded base64 for \<open>n\<close> bytes.\<close>

definition b64_length :: "nat \<Rightarrow> nat" where
  "b64_length n = (4 * n + 2) div 3"

text \<open>
  The documented behaviour of libsodium that the program relies on: what was encrypted decrypts
  under the same key, nonce and additional data, and what was sealed opens with the recipient's
  key pair; the base64 output is the URL-safe alphabet without padding, of the length of its input,
  and the ciphertext is the UTF-8 plaintext and a 16-byte tag.
\<close>

definition base64_laws :: "sodium \<Rightarrow> bool" where
  "base64_laws N \<longleftrightarrow> (\<forall>b. sd_from_base64 N (sd_to_base64 N b) = Some b
     \<and> list_all base64url_char (sd_to_base64 N b) \<and> length (sd_to_base64 N b) = b64_length (length b))"

definition aead_laws :: "sodium \<Rightarrow> bool" where
  "aead_laws N \<longleftrightarrow> (\<forall>p ad n k.
     (utf16_ok p \<longrightarrow> (\<exists>ct b. sd_from_base64 N (sd_encrypt N p ad n k) = Some ct
        \<and> sd_decrypt N ct ad n k = Some b \<and> sd_to_string N b = Some p))
     \<and> list_all base64url_char (sd_encrypt N p ad n k)
     \<and> length (sd_encrypt N p ad n k) = b64_length (utf8_length p + 16))"

definition seal_laws :: "sodium \<Rightarrow> bool" where
  "seal_laws N \<longleftrightarrow> (\<forall>m seed e. case sd_box_keypair N seed of (pk, sk) \<Rightarrow>
     (\<exists>w. sd_from_base64 N (sd_seal N m pk e) = Some w \<and> sd_seal_open N w pk sk = Some m)
     \<and> list_all base64url_char (sd_seal N m pk e) \<and> length (sd_seal N m pk e) = b64_length (length m + 48)
     \<and> length pk = 32 \<and> length sk = 32)"

text \<open>The generic hash is 64 bytes in lower-case hex.\<close>

definition hex_digit :: "jchar \<Rightarrow> bool" where
  "hex_digit c \<longleftrightarrow> (48 \<le> c \<and> c \<le> 57) \<or> (97 \<le> c \<and> c \<le> 102)"

definition hash_laws :: "sodium \<Rightarrow> bool" where
  "hash_laws N \<longleftrightarrow> (\<forall>s. length (sd_generichash N s) = 128
     \<and> list_all hex_digit (sd_generichash N s))"

section \<open>Lengths\<close>

lemma utf8_length_bounds: "length s \<le> utf8_length s \<and> utf8_length s \<le> 3 * length s"
proof (induction s rule: utf8_length.induct)
  case (2 c s)
  then show ?case by (cases s) (auto simp: is_high_surrogate_def)
qed simp

lemma b64_length_not_1: "b64_length n mod 4 \<noteq> 1"
  unfolding b64_length_def by presburger

lemma b64_length_mono: "m \<le> n \<Longrightarrow> b64_length m \<le> b64_length n"
  by (simp add: b64_length_def div_le_mono)

section \<open>A concrete instance, for witnesses\<close>

text \<open>URL-safe unpadded base64 over the polyfill's.\<close>

definition to_url :: "jchar \<Rightarrow> jchar" where "to_url c = (if c = 43 then 45 else if c = 47 then 95 else c)"
definition of_url :: "jchar \<Rightarrow> jchar" where "of_url c = (if c = 45 then 43 else if c = 95 then 47 else c)"

definition b64url_encode :: "bytes \<Rightarrow> jstr" where
  "b64url_encode b = map to_url (filter (\<lambda>c. c \<in> set base64_chars) (uint8_to_base64 b))"

definition b64url_decode :: "jstr \<Rightarrow> bytes" where
  "b64url_decode s = base64_to_uint8 (map of_url s)"

lemma base64_chars_url: "list_all (\<lambda>c. of_url (to_url c) = c \<and> base64url_char (to_url c)) base64_chars"
  by code_simp

lemma b64url_roundtrip: "b64url_decode (b64url_encode b) = b"
proof -
  have "map of_url (b64url_encode b) = filter (\<lambda>c. c \<in> set base64_chars) (uint8_to_base64 b)"
    using base64_chars_url by (auto simp: b64url_encode_def list_all_iff intro!: map_idI)
  then have "b64url_decode (b64url_encode b) = base64_to_uint8 (uint8_to_base64 b)"
    by (simp add: b64url_decode_def base64_to_uint8_def poly_atob_def)
  then show ?thesis by simp
qed

lemma b64url_chars: "list_all base64url_char (b64url_encode b)"
  using base64_chars_url by (auto simp: b64url_encode_def list_all_iff)

lemma length_btoa_unpadded:
  "poly_btoa s = Inr b \<Longrightarrow> length (filter (\<lambda>c. c \<in> set base64_chars) b) = b64_length (length s)"
proof (induction s arbitrary: b rule: poly_btoa.induct)
  case (4 c0 c1 c2 s)
  then obtain r where "poly_btoa s = Inr r"
    "length (filter (\<lambda>c. c \<in> set base64_chars) b) = 4 + length (filter (\<lambda>c. c \<in> set base64_chars) r)"
    "length (filter (\<lambda>c. c \<in> set base64_chars) r) = b64_length (length s)"
    by (auto simp: Let_def bind_result_Inr split: if_splits)
  moreover have "b64_length (length s + 3) = 4 + b64_length (length s)"
    unfolding b64_length_def by presburger
  ultimately show ?case by (simp add: numeral_3_eq_3)
qed (auto simp: Let_def pad_not_base64 b64_length_def split: if_splits)

lemma b64url_length: "length (b64url_encode b) = b64_length (length b)"
proof -
  have "list_all (\<lambda>c. c \<le> 0xff) (map (ucast :: 8 word \<Rightarrow> jchar) b)"
    by (simp add: list_all_iff ucast_byte_le)
  then obtain s where s: "poly_btoa (map ucast b) = Inr s"
    using poly_btoa_valid by blast
  from length_btoa_unpadded[OF s] s show ?thesis
    by (simp add: b64url_encode_def uint8_to_base64_def)
qed

text \<open>UTF-8, on numbers.\<close>

fun utf8_put :: "nat list \<Rightarrow> nat list" where
  "utf8_put [] = []"
| "utf8_put (n # s) =
     (if n < 128 then n # utf8_put s
      else if n < 2048 then (192 + n div 64) # (128 + n mod 64) # utf8_put s
      else if 0xD800 \<le> n \<and> n < 0xDC00 \<and> s \<noteq> [] \<and> 0xDC00 \<le> hd s \<and> hd s < 0xE000 then
        (let p = 65536 + (n - 0xD800) * 1024 + (hd s - 0xDC00)
         in (240 + p div 262144) # (128 + p div 4096 mod 64) # (128 + p div 64 mod 64) # (128 + p mod 64)
            # utf8_put (tl s))
      else (224 + n div 4096) # (128 + n div 64 mod 64) # (128 + n mod 64) # utf8_put s)"

fun utf8_get :: "nat list \<Rightarrow> nat list option" where
  "utf8_get [] = Some []"
| "utf8_get (a # s) =
     (if a < 128 then map_option ((#) a) (utf8_get s)
      else if a < 224 then (case s of b # t \<Rightarrow> map_option ((#) ((a - 192) * 64 + (b - 128))) (utf8_get t) | _ \<Rightarrow> None)
      else if a < 240 then (case s of b # c # t \<Rightarrow>
          map_option ((#) ((a - 224) * 4096 + (b - 128) * 64 + (c - 128))) (utf8_get t) | _ \<Rightarrow> None)
      else (case s of b # c # d # t \<Rightarrow>
          (let p = (a - 240) * 262144 + (b - 128) * 4096 + (c - 128) * 64 + (d - 128) - 65536
           in map_option (\<lambda>r. (0xD800 + p div 1024) # (0xDC00 + p mod 1024) # r) (utf8_get t)) | _ \<Rightarrow> None))"

lemma split_64: "n div 4096 * 4096 + n div 64 mod 64 * 64 + n mod 64 = (n :: nat)"
proof -
  have "n div 4096 = n div 64 div 64"
    by (simp flip: div_mult2_eq)
  with div_mult_mod_eq[of n 64] div_mult_mod_eq[of "n div 64" 64] show ?thesis
    by linarith
qed

lemma split_64_64: "p div 262144 * 262144 + p div 4096 mod 64 * 4096 + p div 64 mod 64 * 64 + p mod 64 = (p :: nat)"
proof -
  have "p div 262144 = p div 4096 div 64"
    by (simp flip: div_mult2_eq)
  with split_64[of p] div_mult_mod_eq[of "p div 4096" 64] show ?thesis
    by linarith
qed

lemma utf8_get_four:
  "utf8_get ((240 + a) # (128 + b) # (128 + c) # (128 + d) # r) =
     (let p = a * 262144 + b * 4096 + c * 64 + d - 65536
      in map_option (\<lambda>r. (0xD800 + p div 1024) # (0xDC00 + p mod 1024) # r) (utf8_get r))"
  by (simp add: Let_def)

lemma utf8_get_put: "list_all (\<lambda>n. n < 65536) s \<Longrightarrow> utf8_get (utf8_put s) = Some s"
proof (induction s rule: utf8_put.induct)
  case (2 n s)
  consider (one) "n < 128" | (two) "128 \<le> n" "n < 2048"
    | (pair) "0xD800 \<le> n" "n < 0xDC00" "s \<noteq> []" "0xDC00 \<le> hd s" "hd s < 0xE000"
    | (three) "2048 \<le> n" "\<not> (0xD800 \<le> n \<and> n < 0xDC00 \<and> s \<noteq> [] \<and> 0xDC00 \<le> hd s \<and> hd s < 0xE000)"
    by linarith
  then show ?case
  proof cases
    case two
    then have "192 + n div 64 < 224" by simp
    with 2 two show ?thesis by simp
  next
    case pair
    obtain m t where s: "s = m # t" using pair(3) by (cases s) auto
    define p where "p = 65536 + (n - 0xD800) * 1024 + (m - 0xDC00)"
    have m: "0xDC00 \<le> m" "m < 0xE000" using pair s by simp_all
    have put: "utf8_put (n # s) = (240 + p div 262144) # (128 + p div 4096 mod 64) # (128 + p div 64 mod 64)
        # (128 + p mod 64) # utf8_put t"
      using pair s by (simp add: Let_def p_def)
    have q: "p - 65536 = (n - 0xD800) * 1024 + (m - 0xDC00)"
      by (simp add: p_def)
    have "(p - 65536) div 1024 = n - 0xD800" "(p - 65536) mod 1024 = m - 0xDC00"
      using m mod_mult_self3[of "n - 0xD800" 1024 "m - 0xDC00"] div_mult_self3[of 1024 "n - 0xD800" "m - 0xDC00"]
      by (simp_all only: q) (auto simp: mod_less)
    moreover have "utf8_get (utf8_put t) = Some t"
      using 2 pair s by simp
    ultimately have "utf8_get (utf8_put (n # s)) = Some (n # m # t)"
      unfolding put utf8_get_four split_64_64 using pair(1) m(1) by (simp only: Let_def option.map) simp
    then show ?thesis by (simp only: s)
  next
    case three
    then have "224 + n div 4096 < 240" using 2 by (simp add: div_less_iff_less_mult)
    with 2 three split_64[of n] show ?thesis by auto
  qed (use 2 in simp)
qed simp

lemma utf8_cases:
  obtains (one) "n < 128" | (two) "\<not> n < 128" "n < 2048"
  | (pair) "\<not> n < 128" "\<not> n < 2048" "0xD800 \<le> n \<and> n < 0xDC00 \<and> s \<noteq> [] \<and> 0xDC00 \<le> hd s \<and> hd s < (0xE000 :: nat)"
  | (three) "\<not> n < 128" "\<not> n < 2048" "\<not> (0xD800 \<le> n \<and> n < 0xDC00 \<and> s \<noteq> [] \<and> 0xDC00 \<le> hd s \<and> hd s < (0xE000 :: nat))"
  by blast

lemma continuation_byte: "128 + k mod 64 < (256 :: nat)"
proof -
  have "k mod 64 < 64" by simp
  then show ?thesis by linarith
qed

lemma utf8_put_bytes: "list_all (\<lambda>n. n < 65536) s \<Longrightarrow> list_all (\<lambda>n. n < 256) (utf8_put s)"
proof (induction s rule: utf8_put.induct)
  case (2 n s)
  note step = utf8_put.simps(2)[of n s]
  have n: "n < 65536" and s: "list_all (\<lambda>n. n < 65536) s" using 2 by simp_all
  show ?case
  proof (cases rule: utf8_cases[where n = n and s = s])
    case one
    then have "utf8_put (n # s) = n # utf8_put s" by (simp only: step if_True)
    with one 2 s show ?thesis by simp
  next
    case two
    then have e: "utf8_put (n # s) = (192 + n div 64) # (128 + n mod 64) # utf8_put s" by (simp only: step if_True if_False)
    have "192 + n div 64 < 256" using two by linarith
    with e two "2.IH"(2)[OF two s] continuation_byte[of n] show ?thesis by simp
  next
    case pair
    let ?p = "65536 + (n - 0xD800) * 1024 + (hd s - 0xDC00)"
    have e: "utf8_put (n # s) = (240 + ?p div 262144) # (128 + ?p div 4096 mod 64) # (128 + ?p div 64 mod 64)
        # (128 + ?p mod 64) # utf8_put (tl s)"
      unfolding step if_not_P[OF pair(1)] if_not_P[OF pair(2)] if_P[OF pair(3)] Let_def by (rule refl)
    have "?p < 1114112" using pair by linarith
    then have "240 + ?p div 262144 < 256" by linarith
    moreover have "list_all (\<lambda>n. n < 65536) (tl s)" using s pair by (cases s) auto
    ultimately show ?thesis
      using "2.IH"(3)[OF pair] continuation_byte unfolding e list.pred_inject by blast
  next
    case three
    then have e: "utf8_put (n # s) = (224 + n div 4096) # (128 + n div 64 mod 64) # (128 + n mod 64) # utf8_put s"
      by (simp only: step if_False)
    have "224 + n div 4096 < 256" using n by linarith
    with "2.IH"(4)[OF three s] continuation_byte show ?thesis unfolding e list.pred_inject by blast
  qed
qed simp

lemma surrogate_pair_nat:
  "is_high_surrogate c \<and> s \<noteq> [] \<and> is_low_surrogate (hd s) \<longleftrightarrow>
    0xD800 \<le> unat c \<and> unat c < 0xDC00 \<and> map unat s \<noteq> [] \<and> 0xDC00 \<le> hd (map unat s) \<and> hd (map unat s) < 0xE000"
  by (cases s) (auto simp: is_high_surrogate_def is_low_surrogate_def word_le_nat_alt)

lemma utf8_put_length: "length (utf8_put (map unat s)) = utf8_length s"
proof (induction s rule: utf8_length.induct)
  case (2 c s)
  have lt: "c < 0x80 \<longleftrightarrow> unat c < 128" "c < 0x800 \<longleftrightarrow> unat c < 2048"
    by (simp_all add: word_less_nat_alt)
  note step = utf8_put.simps(2)[of "unat c" "map unat s"]
  note len = utf8_length.simps(2)[of c s, unfolded lt surrogate_pair_nat]
  note IH = "2.IH"[unfolded lt surrogate_pair_nat]
  show ?case
  proof (cases rule: utf8_cases[where n = "unat c" and s = "map unat s"])
    case one
    with IH(1) show ?thesis unfolding list.map step len by simp
  next
    case two
    then show ?thesis
      unfolding list.map step len if_not_P[OF two(1)] if_P[OF two(2)] using IH(2)[OF two] by simp
  next
    case pair
    then show ?thesis
      unfolding list.map step len if_not_P[OF pair(1)] if_not_P[OF pair(2)] if_P[OF pair(3)] Let_def
      using IH(3)[OF pair] by (simp add: map_tl)
  next
    case three
    then show ?thesis
      unfolding list.map step len if_not_P[OF three(1)] if_not_P[OF three(2)] if_not_P[OF three(3)]
      using IH(4)[OF three] by simp
  qed
qed simp

text \<open>The tag and the seal are zero bytes; the recipient of a seal is named by its public key.\<close>

definition utf8_bytes :: "jstr \<Rightarrow> bytes" where
  "utf8_bytes s = map word_of_nat (utf8_put (map unat s))"

definition bytes_utf8 :: "bytes \<Rightarrow> jstr option" where
  "bytes_utf8 b = map_option (map word_of_nat) (utf8_get (map unat b))"

definition pad_32 :: "bytes \<Rightarrow> bytes" where
  "pad_32 b = take 32 (b @ replicate 32 0)"

definition hex_digest :: "jstr \<Rightarrow> jstr" where
  "hex_digest s = take 128 (concat (map hex4 s) @ replicate 128 48)"

definition sample_sodium :: sodium where
  "sample_sodium = \<lparr>sd_box_keypair = (\<lambda>seed. (pad_32 seed, pad_32 seed)),
     sd_encrypt = (\<lambda>p ad n k. b64url_encode (replicate 16 0 @ utf8_bytes p)),
     sd_decrypt = (\<lambda>ct ad n k. Some (drop 16 ct)),
     sd_to_base64 = b64url_encode, sd_from_base64 = (\<lambda>s. Some (b64url_decode s)),
     sd_to_string = bytes_utf8,
     sd_seal = (\<lambda>m pk e. b64url_encode (pad_32 pk @ replicate 16 0 @ m)),
     sd_seal_open = (\<lambda>w pk sk. if take 32 w = sk then Some (drop 48 w) else None),
     sd_generichash = hex_digest\<rparr>"

lemma length_pad_32 [simp]: "length (pad_32 b) = 32"
  by (simp add: pad_32_def)

lemma take_pad_32 [simp]: "take 32 (pad_32 b) = pad_32 b"
  by simp

lemma bytes_utf8_bytes: "bytes_utf8 (utf8_bytes s) = Some s"
proof -
  have lt: "list_all (\<lambda>n. n < 65536) (map unat s)"
    using unsigned_less[where ?'b = 16 and ?'a = nat] by (simp add: list_all_iff)
  have "map unat (utf8_bytes s) = utf8_put (map unat s)"
    unfolding utf8_bytes_def map_map
    using utf8_put_bytes[OF lt] by (intro map_idI) (simp add: list_all_iff unat_of_nat)
  with utf8_get_put[OF lt] show ?thesis
    by (simp add: bytes_utf8_def comp_def)
qed

lemma pad_32_pad [simp]: "pad_32 (pad_32 b) = pad_32 b"
  using length_pad_32[of b] by (simp add: pad_32_def[of "pad_32 b"])

lemma length_utf8_bytes: "length (utf8_bytes s) = utf8_length s"
  by (simp add: utf8_bytes_def utf8_put_length)

lemma sample_base64_laws [simp]: "base64_laws sample_sodium"
  by (simp add: base64_laws_def sample_sodium_def b64url_roundtrip b64url_chars b64url_length)

lemma sample_aead_laws [simp]: "aead_laws sample_sodium"
  by (simp add: aead_laws_def sample_sodium_def b64url_roundtrip b64url_chars b64url_length bytes_utf8_bytes
      length_utf8_bytes add.commute)

lemma hex_char_lower: "n < 16 \<Longrightarrow> hex_digit (hex_char n)"
  by (simp add: hex_digit_def word_le_nat_alt unat_hex_char)

lemma hex4_lower: "c \<in> set (hex4 u) \<Longrightarrow> hex_digit c"
proof -
  have "unat u div 4096 < 16" using unat16[of u] by linarith
  then show "c \<in> set (hex4 u) \<Longrightarrow> hex_digit c"
    by (auto simp: hex4_def intro: hex_char_lower)
qed

lemma hex_digit_zero: "hex_digit 48"
  by (simp add: hex_digit_def)

lemma sample_hash_laws [simp]: "hash_laws sample_sodium"
  by (auto simp: hash_laws_def sample_sodium_def hex_digest_def list_all_iff hex_digit_zero dest!: in_set_takeD hex4_lower)

lemma sample_seal_laws [simp]: "seal_laws sample_sodium"
  by (simp add: seal_laws_def sample_sodium_def b64url_roundtrip b64url_chars b64url_length add.commute)

end
