(* ===== verification/Content_Cipher.thy ===== *)
theory Content_Cipher
  imports Sodium
begin

text \<open>
  \<open>crypto/LibsodiumContentCipher.ts\<close>, \<open>crypto/renderState.ts\<close>, \<open>crypto/rejectedDraft.ts\<close> and
  \<open>crypto/composerGate.ts\<close>: encrypting and decrypting message contents with the room keys of the
  epochs, and what the app shows of a message. libsodium is a parameter; bytes of randomness are
  inputs.
\<close>

section \<open>The cipher\<close>

record cipher =
  ci_keysByEpoch :: "(nat \<times> bytes) list"
  ci_currentKeyId :: "nat option"
  ci_expectedCurrentEpoch :: "nat option"

datatype cipher_error =
    NoCurrentKey
  | StaleEpoch nat nat
  | NoKeyForEpoch decimal
  | BadEnvelope envelope_error
  | SodiumError

definition nonce_bytes :: nat where "nonce_bytes = 24"

definition new_cipher :: cipher where
  "new_cipher = \<lparr>ci_keysByEpoch = [], ci_currentKeyId = None, ci_expectedCurrentEpoch = None\<rparr>"

definition set_key :: "nat \<Rightarrow> bytes \<Rightarrow> cipher \<Rightarrow> cipher" where
  "set_key keyId key c =
     (let c = c\<lparr>ci_keysByEpoch := AList.update keyId key (ci_keysByEpoch c)\<rparr>
      in case ci_currentKeyId c of
           None \<Rightarrow> c\<lparr>ci_currentKeyId := Some keyId\<rparr>
         | Some k \<Rightarrow> if keyId > k then c\<lparr>ci_currentKeyId := Some keyId\<rparr> else c)"

definition has_key :: "cipher \<Rightarrow> nat \<Rightarrow> bool" where
  "has_key c keyId \<longleftrightarrow> map_of (ci_keysByEpoch c) keyId \<noteq> None"

definition set_expected_current_epoch :: "nat \<Rightarrow> cipher \<Rightarrow> cipher" where
  "set_expected_current_epoch keyId c = c\<lparr>ci_expectedCurrentEpoch := Some keyId\<rparr>"

text \<open>\<open>adToJson\<close>: the wire form of the additional data.\<close>

definition ad_to_json :: "aad \<Rightarrow> jstr" where
  "ad_to_json ad = json_stringify (JObj [(js ''id'', JStr (ad_id ad)), (js ''roomId'', JStr (ad_roomId ad)),
     (js ''userId'', JStr (ad_userId ad)), (js ''username'', JStr (ad_username ad)),
     (js ''createdAt'', JNum (dec_of_int (ad_createdAt ad)))])"

definition cipher_encrypt :: "sodium \<Rightarrow> bytes \<Rightarrow> cipher \<Rightarrow> jstr \<Rightarrow> aad \<Rightarrow> cipher_error + jstr" where
  "cipher_encrypt N nonce c plaintext ad = (case ci_currentKeyId c of
     None \<Rightarrow> Inl NoCurrentKey
   | Some current \<Rightarrow>
       if ci_expectedCurrentEpoch c \<noteq> None \<and> ci_expectedCurrentEpoch c \<noteq> Some current
       then Inl (StaleEpoch current (the (ci_expectedCurrentEpoch c)))
       else (case map_of (ci_keysByEpoch c) current of
               None \<Rightarrow> Inl NoCurrentKey
             | Some key \<Rightarrow> Inr (build_envelope (int current) (sd_to_base64 N nonce)
                 (sd_encrypt N plaintext (ad_to_json ad) nonce key))))"

text \<open>The epoch a number read from an envelope names, if any.\<close>

definition epoch_of_decimal :: "decimal \<Rightarrow> nat option" where
  "epoch_of_decimal d = (if dec_exp d = 0 \<and> 0 \<le> dec_mant d then Some (nat (dec_mant d)) else None)"

definition cached_key :: "cipher \<Rightarrow> decimal \<Rightarrow> bytes option" where
  "cached_key c d = Option.bind (epoch_of_decimal d) (map_of (ci_keysByEpoch c))"

definition cipher_decrypt :: "sodium \<Rightarrow> cipher \<Rightarrow> jstr \<Rightarrow> aad \<Rightarrow> cipher_error + jstr" where
  "cipher_decrypt N c content ad = (case parse_envelope content of
     Inl e \<Rightarrow> Inl (BadEnvelope e)
   | Inr None \<Rightarrow> Inr content
   | Inr (Some env) \<Rightarrow> (case cached_key c (env_keyId env) of
       None \<Rightarrow> Inl (NoKeyForEpoch (env_keyId env))
     | Some key \<Rightarrow>
         (case (sd_from_base64 N (env_nonce env), sd_from_base64 N (env_ciphertext env)) of
            (Some nonce, Some ciphertext) \<Rightarrow>
              (case Option.bind (sd_decrypt N ciphertext (ad_to_json ad) nonce key) (sd_to_string N) of
                 None \<Rightarrow> Inl SodiumError | Some text \<Rightarrow> Inr text)
          | _ \<Rightarrow> Inl SodiumError)))"

section \<open>What is shown\<close>

datatype render_state = RsPlaintext jstr | RsDecrypted jstr | RsKeyUnavailable | RsWaitingForKey

definition resolve_message_render_state ::
  "sodium \<Rightarrow> message \<Rightarrow> cipher option \<Rightarrow> (decimal \<Rightarrow> bool) \<Rightarrow> bool \<Rightarrow> render_state" where
  "resolve_message_render_state N m cipher hasPendingGrantFor roomIsE2eeEnabled =
     (if \<not> roomIsE2eeEnabled then RsPlaintext (m_content m)
      else (case parse_envelope (m_content m) of
          Inl _ \<Rightarrow> RsKeyUnavailable
        | Inr None \<Rightarrow> RsPlaintext (m_content m)
        | Inr (Some env) \<Rightarrow>
            (case cipher of
               None \<Rightarrow> if hasPendingGrantFor (env_keyId env) then RsWaitingForKey else RsKeyUnavailable
             | Some c \<Rightarrow>
                 if cached_key c (env_keyId env) = None
                 then if hasPendingGrantFor (env_keyId env) then RsWaitingForKey else RsKeyUnavailable
                 else (case cipher_decrypt N c (m_content m) (message_aad m) of
                         Inl _ \<Rightarrow> RsKeyUnavailable
                       | Inr text \<Rightarrow> RsDecrypted text))))"

text \<open>
  The draft put back after a rejection; \<open>decrypt\<close> is the room's cipher, and \<open>None\<close> without one.
\<close>

fun draft_texts :: "jstr \<Rightarrow> (jstr \<Rightarrow> aad \<Rightarrow> 'e + jstr) option \<Rightarrow> message list \<Rightarrow> jstr list" where
  "draft_texts me decrypt [] = []"
| "draft_texts me decrypt (m # ms) =
     (if m_userId m \<noteq> me then draft_texts me decrypt ms
      else if \<not> starts_with (m_content m) e2ee_prefix then m_content m # draft_texts me decrypt ms
      else (case decrypt of
          None \<Rightarrow> draft_texts me decrypt ms
        | Some f \<Rightarrow> (case f (m_content m) (message_aad m) of
            Inl _ \<Rightarrow> draft_texts me decrypt ms
          | Inr t \<Rightarrow> t # draft_texts me decrypt ms)))"

definition rejected_draft_text ::
  "message list \<Rightarrow> jstr \<Rightarrow> (jstr \<Rightarrow> aad \<Rightarrow> 'e + jstr) option \<Rightarrow> jstr option" where
  "rejected_draft_text retracted me decrypt =
     (let texts = draft_texts me decrypt retracted
      in if texts \<noteq> [] then Some (join [10] texts) else None)"

section \<open>Whether a room is encrypted, and the composer's gate\<close>

datatype room_e2ee_state = StPlaintext | StE2ee | StUnknown

datatype room_refresh_state = RfPending | RfOk nat | RfOffline | RfError

definition resolve_room_e2ee_state :: "nat \<Rightarrow> room_refresh_state option \<Rightarrow> bool \<Rightarrow> room_e2ee_state" where
  "resolve_room_e2ee_state cachedKeyId refresh everE2ee =
     (if cachedKeyId > 0 \<or> everE2ee then StE2ee
      else (case refresh of
          None \<Rightarrow> StUnknown
        | Some RfPending \<Rightarrow> StUnknown
        | Some (RfOk k) \<Rightarrow> if k > 0 then StE2ee else StPlaintext
        | Some RfOffline \<Rightarrow> StPlaintext
        | Some RfError \<Rightarrow> StUnknown))"

definition is_composer_ready :: "room_e2ee_state \<Rightarrow> nat \<Rightarrow> cipher option \<Rightarrow> bool" where
  "is_composer_ready e2eeState currentKeyId cipher =
     (if e2eeState = StPlaintext then True
      else if e2eeState = StUnknown \<or> currentKeyId = 0 then False
      else (case cipher of None \<Rightarrow> False | Some c \<Rightarrow> has_key c currentKeyId))"

end
