(* ===== verification/Chat_Store.thy ===== *)
theory Chat_Store
  imports Content_Cipher Ws_Provider
begin

text \<open>
  \<open>store/chat.store.ts\<close>: the messages, the socket status, the mount counts and the encryption state of
  every room screen, and the texts the server refused. A cipher is an object shared by reference, here
  of type \<open>'c\<close>.
\<close>

section \<open>State\<close>

record 'c room_crypto_state =
  rc_cipher :: 'c
  rc_pendingEpochsForMe :: "nat set"
  rc_version :: nat

datatype rejection_kind = Restored | Resynced

record e2ee_rejection =
  rj_text :: jstr
  rj_seq :: nat
  rj_kind :: rejection_kind

record 'c chat_state =
  ch_messagesByRoom :: "jstr \<Rightarrow> message list option"
  ch_wsStatusByRoom :: "jstr \<Rightarrow> status option"
  ch_mountCounts :: "jstr \<Rightarrow> nat option"
  ch_roomCryptoByRoom :: "jstr \<Rightarrow> 'c room_crypto_state option"
  ch_e2eeRejectionByRoom :: "jstr \<Rightarrow> e2ee_rejection option"
  ch_e2eeRejectionSeq :: nat
  ch_restoredMessageIds :: "jstr set"

definition new_chat_state :: "'c chat_state" where
  "new_chat_state = \<lparr>ch_messagesByRoom = (\<lambda>_. None), ch_wsStatusByRoom = (\<lambda>_. None), ch_mountCounts = (\<lambda>_. None),
     ch_roomCryptoByRoom = (\<lambda>_. None), ch_e2eeRejectionByRoom = (\<lambda>_. None), ch_e2eeRejectionSeq = 0,
     ch_restoredMessageIds = {}\<rparr>"

section \<open>Actions\<close>

definition set_messages :: "jstr \<Rightarrow> message list \<Rightarrow> 'c chat_state \<Rightarrow> 'c chat_state" where
  "set_messages roomId messages s = s\<lparr>ch_messagesByRoom := (ch_messagesByRoom s)(roomId := Some messages)\<rparr>"

definition set_ws_status :: "jstr \<Rightarrow> status \<Rightarrow> 'c chat_state \<Rightarrow> 'c chat_state" where
  "set_ws_status roomId wsStatus s = s\<lparr>ch_wsStatusByRoom := (ch_wsStatusByRoom s)(roomId := Some wsStatus)\<rparr>"

definition register_mount :: "jstr \<Rightarrow> 'c chat_state \<Rightarrow> 'c chat_state" where
  "register_mount roomId s = s\<lparr>ch_mountCounts := (ch_mountCounts s)(roomId :=
     Some ((case ch_mountCounts s roomId of None \<Rightarrow> 0 | Some n \<Rightarrow> n) + 1))\<rparr>"

definition clear_room :: "jstr \<Rightarrow> 'c chat_state \<Rightarrow> 'c chat_state" where
  "clear_room roomId s =
     (let remaining = (case ch_mountCounts s roomId of None \<Rightarrow> 1 | Some n \<Rightarrow> n) - 1
      in if remaining > 0 then s\<lparr>ch_mountCounts := (ch_mountCounts s)(roomId := Some remaining)\<rparr>
         else s\<lparr>ch_messagesByRoom := (ch_messagesByRoom s)(roomId := None),
                ch_wsStatusByRoom := (ch_wsStatusByRoom s)(roomId := None),
                ch_mountCounts := (ch_mountCounts s)(roomId := None),
                ch_roomCryptoByRoom := (ch_roomCryptoByRoom s)(roomId := None)\<rparr>)"

definition set_room_cipher :: "jstr \<Rightarrow> 'c \<Rightarrow> 'c chat_state \<Rightarrow> 'c chat_state" where
  "set_room_cipher roomId cipher s = s\<lparr>ch_roomCryptoByRoom := (ch_roomCryptoByRoom s)(roomId := Some
     \<lparr>rc_cipher = cipher,
      rc_pendingEpochsForMe = (case ch_roomCryptoByRoom s roomId of None \<Rightarrow> {} | Some x \<Rightarrow> rc_pendingEpochsForMe x),
      rc_version = 0\<rparr>)\<rparr>"

definition set_pending_epochs_for_me :: "jstr \<Rightarrow> nat set \<Rightarrow> 'c chat_state \<Rightarrow> 'c chat_state" where
  "set_pending_epochs_for_me roomId epochs s = (case ch_roomCryptoByRoom s roomId of
     None \<Rightarrow> s
   | Some existing \<Rightarrow> s\<lparr>ch_roomCryptoByRoom := (ch_roomCryptoByRoom s)(roomId := Some
       (existing\<lparr>rc_pendingEpochsForMe := epochs, rc_version := rc_version existing + 1\<rparr>))\<rparr>)"

definition bump_room_crypto :: "jstr \<Rightarrow> 'c chat_state \<Rightarrow> 'c chat_state" where
  "bump_room_crypto roomId s = (case ch_roomCryptoByRoom s roomId of
     None \<Rightarrow> s
   | Some existing \<Rightarrow> s\<lparr>ch_roomCryptoByRoom := (ch_roomCryptoByRoom s)(roomId := Some
       (existing\<lparr>rc_version := rc_version existing + 1\<rparr>))\<rparr>)"

definition note_e2ee_rejection :: "jstr \<Rightarrow> jstr \<Rightarrow> rejection_kind \<Rightarrow> 'c chat_state \<Rightarrow> 'c chat_state" where
  "note_e2ee_rejection roomId text kind s = s\<lparr>ch_e2eeRejectionSeq := ch_e2eeRejectionSeq s + 1,
     ch_e2eeRejectionByRoom := (ch_e2eeRejectionByRoom s)(roomId := Some
       \<lparr>rj_text = text, rj_seq = ch_e2eeRejectionSeq s + 1, rj_kind = kind\<rparr>)\<rparr>"

definition clear_e2ee_rejection :: "jstr \<Rightarrow> 'c chat_state \<Rightarrow> 'c chat_state" where
  "clear_e2ee_rejection roomId s = s\<lparr>ch_e2eeRejectionByRoom := (ch_e2eeRejectionByRoom s)(roomId := None)\<rparr>"

definition clear_all_e2ee_rejections :: "'c chat_state \<Rightarrow> 'c chat_state" where
  "clear_all_e2ee_rejections s = s\<lparr>ch_restoredMessageIds := {}, ch_e2eeRejectionByRoom := (\<lambda>_. None)\<rparr>"

definition claim_restored_messages :: "jstr list \<Rightarrow> 'c chat_state \<Rightarrow> jstr list \<times> 'c chat_state" where
  "claim_restored_messages ids s =
     (let fresh = filter (\<lambda>i. i \<notin> ch_restoredMessageIds s) ids
      in (fresh, s\<lparr>ch_restoredMessageIds := ch_restoredMessageIds s \<union> set fresh\<rparr>))"

section \<open>Selectors\<close>

definition use_room_pending_epochs_for_me :: "jstr \<Rightarrow> 'c chat_state \<Rightarrow> nat set" where
  "use_room_pending_epochs_for_me roomId s =
     (case ch_roomCryptoByRoom s roomId of None \<Rightarrow> {} | Some x \<Rightarrow> rc_pendingEpochsForMe x)"

definition use_room_messages :: "jstr \<Rightarrow> 'c chat_state \<Rightarrow> message list" where
  "use_room_messages roomId s = (case ch_messagesByRoom s roomId of None \<Rightarrow> [] | Some ms \<Rightarrow> ms)"

definition use_room_loaded :: "jstr \<Rightarrow> 'c chat_state \<Rightarrow> bool" where
  "use_room_loaded roomId s \<longleftrightarrow> ch_messagesByRoom s roomId \<noteq> None"

definition use_room_ws_status :: "jstr \<Rightarrow> 'c chat_state \<Rightarrow> status" where
  "use_room_ws_status roomId s = (case ch_wsStatusByRoom s roomId of None \<Rightarrow> StDisconnected | Some w \<Rightarrow> w)"

section \<open>Runs\<close>

datatype 'c chat_event =
    SetMessages jstr "message list"
  | SetWsStatus jstr status
  | RegisterMount jstr
  | ClearRoom jstr
  | SetRoomCipher jstr 'c
  | SetPendingEpochs jstr "nat set"
  | BumpRoomCrypto jstr
  | NoteRejection jstr jstr rejection_kind
  | ClearRejection jstr
  | ClearAllRejections
  | Claim "jstr list"

text \<open>The second component is what a claim returned.\<close>

fun chat_step :: "'c chat_event \<Rightarrow> 'c chat_state \<Rightarrow> 'c chat_state \<times> jstr list" where
  "chat_step (SetMessages r ms) s = (set_messages r ms s, [])"
| "chat_step (SetWsStatus r w) s = (set_ws_status r w s, [])"
| "chat_step (RegisterMount r) s = (register_mount r s, [])"
| "chat_step (ClearRoom r) s = (clear_room r s, [])"
| "chat_step (SetRoomCipher r c) s = (set_room_cipher r c s, [])"
| "chat_step (SetPendingEpochs r ks) s = (set_pending_epochs_for_me r ks s, [])"
| "chat_step (BumpRoomCrypto r) s = (bump_room_crypto r s, [])"
| "chat_step (NoteRejection r t k) s = (note_e2ee_rejection r t k s, [])"
| "chat_step (ClearRejection r) s = (clear_e2ee_rejection r s, [])"
| "chat_step ClearAllRejections s = (clear_all_e2ee_rejections s, [])"
| "chat_step (Claim ids) s = (case claim_restored_messages ids s of (fresh, s) \<Rightarrow> (s, fresh))"

fun chat_run :: "'c chat_event list \<Rightarrow> 'c chat_state \<Rightarrow> 'c chat_state \<times> jstr list" where
  "chat_run [] s = (s, [])"
| "chat_run (e # es) s = (case chat_step e s of (s, xs) \<Rightarrow> (case chat_run es s of (s, ys) \<Rightarrow> (s, xs @ ys)))"

lemmas chat_defs = set_messages_def set_ws_status_def register_mount_def clear_room_def set_room_cipher_def
  set_pending_epochs_for_me_def bump_room_crypto_def note_e2ee_rejection_def clear_e2ee_rejection_def
  clear_all_e2ee_rejections_def claim_restored_messages_def Let_def

text \<open>How many screens of a room are mounted after a sequence of actions; \<open>None\<close> when a screen was
  unmounted that never was mounted.\<close>

fun mounted :: "jstr \<Rightarrow> 'c chat_event list \<Rightarrow> nat \<Rightarrow> nat option" where
  "mounted room [] n = Some n"
| "mounted room (e # es) n = (case e of
     RegisterMount r \<Rightarrow> mounted room es (if r = room then n + 1 else n)
   | ClearRoom r \<Rightarrow> if r = room then (if n = 0 then None else mounted room es (n - 1)) else mounted room es n
   | _ \<Rightarrow> mounted room es n)"

text \<open>The room stays mounted throughout: after each action at least one screen is left.\<close>

fun stays_mounted :: "jstr \<Rightarrow> 'c chat_event list \<Rightarrow> nat \<Rightarrow> bool" where
  "stays_mounted room [] n \<longleftrightarrow> 0 < n"
| "stays_mounted room (e # es) n \<longleftrightarrow> 0 < n \<and> (case e of
     RegisterMount r \<Rightarrow> stays_mounted room es (if r = room then n + 1 else n)
   | ClearRoom r \<Rightarrow> stays_mounted room es (if r = room then n - 1 else n)
   | _ \<Rightarrow> stays_mounted room es n)"

section \<open>Properties\<close>

definition counts :: "jstr \<Rightarrow> nat \<Rightarrow> 'c chat_state \<Rightarrow> bool" where
  "counts room n s \<longleftrightarrow> ch_mountCounts s room = (if n = 0 then None else Some n)"

lemma counts_step:
  assumes "counts room n s" and "mounted room [e] n = Some m"
  shows "counts room m (fst (chat_step e s))"
  using assms by (cases e) (auto simp: counts_def chat_defs split: if_splits option.splits)

lemma mounted_Cons: "mounted room (e # es) n = Option.bind (mounted room [e] n) (mounted room es)"
  by (cases e) simp_all

lemma chat_run_fst: "fst (chat_run (e # es) s) = fst (chat_run es (fst (chat_step e s)))"
  by (simp add: case_prod_beta)

lemma counts_run:
  "counts room n s \<Longrightarrow> mounted room es n = Some m \<Longrightarrow> counts room m (fst (chat_run es s))"
proof (induction es arbitrary: s n)
  case (Cons e es)
  from Cons.prems(2) obtain k where k: "mounted room [e] n = Some k" "mounted room es k = Some m"
    unfolding mounted_Cons[of room e es n] by (auto simp del: mounted.simps split: bind_splits)
  show ?case
    unfolding chat_run_fst by (rule Cons.IH[OF counts_step[OF Cons.prems(1) k(1)] k(2)])
qed simp

lemma kept_run:
  assumes "counts room n s" and "ch_messagesByRoom s room = Some ms"
    and "stays_mounted room es n" and "\<forall>e \<in> set es. case e of SetMessages r _ \<Rightarrow> r \<noteq> room | _ \<Rightarrow> True"
  shows "ch_messagesByRoom (fst (chat_run es s)) room = Some ms"
  using assms
proof (induction es arbitrary: s n)
  case (Cons e es)
  obtain m where m: "mounted room [e] n = Some m" "stays_mounted room es m"
    using Cons.prems(3) by (cases e) (auto split: if_splits)
  then have "0 < m" by (cases es) auto
  with m(1) have "ch_messagesByRoom (fst (chat_step e s)) room = Some ms"
    using Cons.prems by (cases e) (auto simp: counts_def chat_defs split: if_splits option.splits)
  from Cons.IH[OF counts_step[OF Cons.prems(1) m(1)] this m(2)] Cons.prems(4) show ?case
    unfolding chat_run_fst by simp
qed simp

text \<open>A room's data lives exactly as long as a screen of it: while at least one instance is mounted,
  however many others come and go, what was shown stays, and when the last one is unmounted nothing
  of the room is left, while every other room is as it was.\<close>

theorem room_data_lives_with_its_screens:
  assumes "mounted room es 0 = Some n"
    and "chat_run es new_chat_state = (s, xs)"
    and "stays_mounted room fs n" and "\<forall>e \<in> set fs. case e of SetMessages r _ \<Rightarrow> r \<noteq> room | _ \<Rightarrow> True"
  shows "ch_messagesByRoom (fst (chat_run fs (set_messages room ms s))) room = Some ms
    \<and> (n = 1 \<longrightarrow> use_room_loaded room (clear_room room s) = False
         \<and> ch_mountCounts (clear_room room s) room = None \<and> ch_roomCryptoByRoom (clear_room room s) room = None
         \<and> (\<forall>r. r \<noteq> room \<longrightarrow> ch_messagesByRoom (clear_room room s) r = ch_messagesByRoom s r
              \<and> ch_roomCryptoByRoom (clear_room room s) r = ch_roomCryptoByRoom s r))"
proof -
  have "counts room 0 (new_chat_state :: 'a chat_state)"
    by (simp add: counts_def new_chat_state_def)
  from counts_run[OF this assms(1)] have c: "counts room n s"
    by (simp add: assms(2))
  then have "counts room n (set_messages room ms s)" "ch_messagesByRoom (set_messages room ms s) room = Some ms"
    by (simp_all add: counts_def set_messages_def)
  from kept_run[OF this assms(3,4)] c show ?thesis
    by (auto simp: counts_def clear_room_def use_room_loaded_def Let_def)
qed

lemma claimed_once:
  assumes "chat_run es s = (s', xs)" and "ClearAllRejections \<notin> set es"
    and "\<forall>e \<in> set es. case e of Claim ids \<Rightarrow> distinct ids | _ \<Rightarrow> True"
  shows "distinct xs \<and> set xs \<inter> ch_restoredMessageIds s = {}
    \<and> ch_restoredMessageIds s' = ch_restoredMessageIds s \<union> set xs"
  using assms
proof (induction es arbitrary: s xs)
  case (Cons e es)
  obtain q ys zs where q: "chat_step e s = (q, ys)" "chat_run es q = (s', zs)" "xs = ys @ zs"
    using Cons.prems(1) by (auto split: prod.splits)
  have "distinct zs \<and> set zs \<inter> ch_restoredMessageIds q = {} \<and> ch_restoredMessageIds s' = ch_restoredMessageIds q \<union> set zs"
    using Cons.IH[OF q(2)] Cons.prems(2,3) by simp
  moreover have "distinct ys \<and> set ys \<inter> ch_restoredMessageIds s = {} \<and> ch_restoredMessageIds q = ch_restoredMessageIds s \<union> set ys"
    using q(1) Cons.prems(2,3) by (cases e) (auto simp: chat_defs split: option.splits if_splits)
  ultimately show ?case
    using q(3) by auto
qed simp

text \<open>A refused message is handed back to the composer once: over any sequence of actions without a
  logout, all the claims together return each id at most once, none that was handed back before, and
  every id that was asked for has been handed back by the end.\<close>

theorem refused_text_comes_back_once:
  assumes "chat_run es s = (s', xs)" and "ClearAllRejections \<notin> set es"
    and "\<forall>e \<in> set es. case e of Claim ids \<Rightarrow> distinct ids | _ \<Rightarrow> True"
  shows "distinct xs \<and> (\<forall>i \<in> set xs. i \<notin> ch_restoredMessageIds s)
    \<and> (\<forall>ids. Claim ids \<in> set es \<longrightarrow> (\<forall>i \<in> set ids. i \<in> set xs \<or> i \<in> ch_restoredMessageIds s))"
proof -
  have once: "distinct xs" "set xs \<inter> ch_restoredMessageIds s = {}"
    "ch_restoredMessageIds s' = ch_restoredMessageIds s \<union> set xs"
    using claimed_once[OF assms] by simp_all
  have "i \<in> ch_restoredMessageIds s'" if "Claim ids \<in> set es" "i \<in> set ids" for ids i
    using assms that
  proof (induction es arbitrary: s xs)
    case (Cons e es)
    obtain q ys zs where q: "chat_step e s = (q, ys)" "chat_run es q = (s', zs)"
      using Cons.prems(1) by (auto split: prod.splits)
    show ?case
    proof (cases "e = Claim ids")
      case True
      then have "i \<in> ch_restoredMessageIds q"
        using q(1) Cons.prems(5) by (auto simp: chat_defs)
      moreover have "ch_restoredMessageIds s' = ch_restoredMessageIds q \<union> set zs"
        using claimed_once[OF q(2)] Cons.prems(2,3) by simp
      ultimately show ?thesis by simp
    next
      case False
      with Cons.IH[OF q(2)] Cons.prems(2-5) show ?thesis by simp
    qed
  qed simp
  with once show ?thesis by auto
qed

section \<open>Witnesses\<close>

lemma room_data_lives_with_its_screens_witness:
  "ch_messagesByRoom (fst (chat_run [RegisterMount (js ''r''), ClearRoom (js ''r'')]
      (set_messages (js ''r'') [] (fst (chat_run [RegisterMount (js ''r'')] (new_chat_state :: nat chat_state)))))) (js ''r'')
    = Some []"
  using room_data_lives_with_its_screens[of "js ''r''" "[RegisterMount (js ''r'')]" 1
      "fst (chat_run [RegisterMount (js ''r'')] (new_chat_state :: nat chat_state))" "[]"
      "[RegisterMount (js ''r''), ClearRoom (js ''r'')]" "[]"]
  by simp

lemma refused_text_comes_back_once_witness:
  "distinct (snd (chat_run [Claim [js ''a'', js ''b''], BumpRoomCrypto (js ''r''), Claim [js ''b'', js ''c'']]
      (new_chat_state :: nat chat_state)))"
  using refused_text_comes_back_once[of "[Claim [js ''a'', js ''b''], BumpRoomCrypto (js ''r''), Claim [js ''b'', js ''c'']]"
      "new_chat_state :: nat chat_state" _ "snd (chat_run [Claim [js ''a'', js ''b''], BumpRoomCrypto (js ''r''), Claim [js ''b'', js ''c'']]
      (new_chat_state :: nat chat_state))"]
  by (simp del: chat_run.simps add: prod_eq_iff)

end
