(* ===== verification/Dto_Validation.thy ===== *)
theory Dto_Validation
  imports Json Base64
begin

text \<open>
  The request bodies of the REST API and their validators: \<open>rooms/dto\<close>, \<open>users/dto\<close>,
  \<open>auth/dto\<close>, \<open>rooms/reserved-room-names.ts\<close>. A validator maps the JSON body to the DTO, or to
  \<open>None\<close> when class-validator would answer 400. The length that \<open>MinLength\<close> and \<open>MaxLength\<close> of
  the third-party package measure is a parameter \<open>vlen\<close> (it counts a surrogate pair once), as is
  \<open>IsEmail\<close>.
\<close>

section \<open>Decorators\<close>

definition length_between :: "(jstr \<Rightarrow> nat) \<Rightarrow> nat \<Rightarrow> nat \<Rightarrow> jstr \<Rightarrow> bool" where
  "length_between vlen a b s \<longleftrightarrow> a \<le> vlen s \<and> vlen s \<le> b"

text \<open>\<open>vlen\<close> agrees with the number of code units on strings without surrogates.\<close>

definition vlen_law :: "(jstr \<Rightarrow> nat) \<Rightarrow> bool" where
  "vlen_law vlen \<longleftrightarrow> (\<forall>s. list_all (\<lambda>c. c < 0xd800) s \<longrightarrow> vlen s = length s)"

definition is_int_between :: "int \<Rightarrow> int \<Rightarrow> json \<Rightarrow> nat option" where
  "is_int_between lo hi v = (case v of
     JNum d \<Rightarrow> if dec_exp d = 0 \<and> lo \<le> dec_mant d \<and> dec_mant d \<le> hi then Some (nat (dec_mant d)) else None
   | _ \<Rightarrow> None)"

definition room_name_char :: "jchar \<Rightarrow> bool" where
  "room_name_char c \<longleftrightarrow> (97 \<le> c \<and> c \<le> 122) \<or> (48 \<le> c \<and> c \<le> 57) \<or> c = 45"

definition reserved_room_names :: "jstr list" where
  "reserved_room_names = [js ''rooms'', js ''account'', js ''default'']"

text \<open>\<open>/^[a-z0-9-]+$/\<close>, length 2 to 64, not reserved.\<close>

definition room_name_ok :: "(jstr \<Rightarrow> nat) \<Rightarrow> jstr \<Rightarrow> bool" where
  "room_name_ok vlen s \<longleftrightarrow> length_between vlen 2 64 s \<and> s \<noteq> [] \<and> list_all room_name_char s
     \<and> s \<notin> set reserved_room_names"

definition create_room_dto :: "(jstr \<Rightarrow> nat) \<Rightarrow> json \<Rightarrow> jstr option" where
  "create_room_dto vlen body = (case json_get body (js ''name'') of
     Some (JStr s) \<Rightarrow> if room_name_ok vlen s then Some s else None
   | _ \<Rightarrow> None)"

section \<open>Decoded lengths (\<open>e2ee-validators.ts\<close>)\<close>

text \<open>\<open>/^[A-Za-z0-9_=-]+$/\<close>\<close>

definition b64url_or_pad :: "jchar \<Rightarrow> bool" where
  "b64url_or_pad c \<longleftrightarrow> (65 \<le> c \<and> c \<le> 90) \<or> (97 \<le> c \<and> c \<le> 122) \<or> (48 \<le> c \<and> c \<le> 57)
     \<or> c = 95 \<or> c = 61 \<or> c = 45"

text \<open>\<open>Buffer.from(value, 'base64url').length\<close>: six bits for each character that is not padding.\<close>

definition base64url_bytes :: "jstr \<Rightarrow> nat" where
  "base64url_bytes s = 3 * length (filter (\<lambda>c. c \<noteq> 61) s) div 4"

definition decoded_byte_length :: "jstr \<Rightarrow> nat option" where
  "decoded_byte_length s =
     (if s = [] \<or> \<not> list_all b64url_or_pad s then None else Some (base64url_bytes s))"

definition exact_decoded_length :: "nat \<Rightarrow> json option \<Rightarrow> bool" where
  "exact_decoded_length expectedBytes v = (case v of
     Some (JStr s) \<Rightarrow> s \<noteq> [] \<and> decoded_byte_length s = Some expectedBytes
   | _ \<Rightarrow> False)"

definition is_x25519_public_key_base64 :: "json option \<Rightarrow> bool" where
  "is_x25519_public_key_base64 = exact_decoded_length 32"

definition is_wrapped_room_key_base64 :: "json option \<Rightarrow> bool" where
  "is_wrapped_room_key_base64 = exact_decoded_length 80"

definition set_public_key_dto :: "(jstr \<Rightarrow> nat) \<Rightarrow> json \<Rightarrow> jstr option" where
  "set_public_key_dto vlen body = (case json_get body (js ''publicKey'') of
     Some (JStr s) \<Rightarrow> if vlen s \<le> 64 \<and> is_x25519_public_key_base64 (Some (JStr s)) then Some s else None
   | _ \<Rightarrow> None)"

section \<open>Key uploads (\<open>upload-keys.dto.ts\<close>)\<close>

definition max_key_id :: int where "max_key_id = 100000"
definition max_grants_per_request :: nat where "max_grants_per_request = 1000"

record grant_item =
  gi_userId :: jstr
  gi_keyId :: nat
  gi_wrappedKey :: jstr
  gi_recipientKeyFp :: jstr

record upload_keys =
  up_claimEpoch :: "nat option"
  up_grants :: "grant_item list"

definition lower_hex_char :: "jchar \<Rightarrow> bool" where
  "lower_hex_char c \<longleftrightarrow> (48 \<le> c \<and> c \<le> 57) \<or> (97 \<le> c \<and> c \<le> 102)"

definition is_key_fp :: "jstr \<Rightarrow> bool" where
  "is_key_fp s \<longleftrightarrow> length s = 128 \<and> list_all lower_hex_char s"

definition grant_item_dto :: "json \<Rightarrow> grant_item option" where
  "grant_item_dto v =
     (case (json_get v (js ''userId''), Option.bind (json_get v (js ''keyId'')) (is_int_between 1 max_key_id),
            json_get v (js ''wrappedKey''), json_get v (js ''recipientKeyFp'')) of
        (Some (JStr u), Some k, Some (JStr w), Some (JStr f)) \<Rightarrow>
          if is_wrapped_room_key_base64 (Some (JStr w)) \<and> is_key_fp f
          then Some \<lparr>gi_userId = u, gi_keyId = k, gi_wrappedKey = w, gi_recipientKeyFp = f\<rparr> else None
      | _ \<Rightarrow> None)"

fun all_some :: "'a option list \<Rightarrow> 'a list option" where
  "all_some [] = Some []"
| "all_some (None # xs) = None"
| "all_some (Some x # xs) = map_option ((#) x) (all_some xs)"

definition claim_epoch_dto :: "json option \<Rightarrow> nat option option" where
  "claim_epoch_dto v = (case v of None \<Rightarrow> Some None | Some JNull \<Rightarrow> Some None
     | Some c \<Rightarrow> map_option Some (Option.bind (json_get c (js ''expectedCurrentKeyId'')) (is_int_between 0 max_key_id)))"

definition upload_keys_dto :: "json \<Rightarrow> upload_keys option" where
  "upload_keys_dto body =
     (case (claim_epoch_dto (json_get body (js ''claimEpoch'')), json_get body (js ''grants'')) of
        (Some claim, Some (JArr gs)) \<Rightarrow>
          if length gs \<le> max_grants_per_request
          then map_option (\<lambda>items. \<lparr>up_claimEpoch = claim, up_grants = items\<rparr>) (all_some (map grant_item_dto gs))
          else None
      | _ \<Rightarrow> None)"

section \<open>Credentials\<close>

record register_dto =
  rg_email :: jstr
  rg_username :: jstr
  rg_password :: jstr

definition register_body :: "(jstr \<Rightarrow> nat) \<Rightarrow> (jstr \<Rightarrow> bool) \<Rightarrow> json \<Rightarrow> register_dto option" where
  "register_body vlen is_email body =
     (case (json_get body (js ''email''), json_get body (js ''username''), json_get body (js ''password'')) of
        (Some (JStr e), Some (JStr u), Some (JStr p)) \<Rightarrow>
          if is_email e \<and> length_between vlen 2 30 u \<and> 8 \<le> vlen p
          then Some \<lparr>rg_email = e, rg_username = u, rg_password = p\<rparr> else None
      | _ \<Rightarrow> None)"

definition login_body :: "(jstr \<Rightarrow> nat) \<Rightarrow> (jstr \<Rightarrow> bool) \<Rightarrow> json \<Rightarrow> (jstr \<times> jstr) option" where
  "login_body vlen is_email body =
     (case (json_get body (js ''email''), json_get body (js ''password'')) of
        (Some (JStr e), Some (JStr p)) \<Rightarrow> if is_email e \<and> p \<noteq> [] \<and> 8 \<le> vlen p then Some (e, p) else None
      | _ \<Rightarrow> None)"

section \<open>Lemmas\<close>

lemma is_int_between_Some:
  "is_int_between lo hi v = Some n \<Longrightarrow> 0 \<le> lo \<Longrightarrow> nat lo \<le> n \<and> n \<le> nat hi"
  by (auto simp: is_int_between_def split: json.splits if_splits)

lemma all_some_Some: "all_some xs = Some ys \<longleftrightarrow> xs = map Some ys"
proof (induction xs arbitrary: ys)
  case (Cons x xs)
  then show ?case by (cases x; cases ys) auto
qed auto

lemma grant_item_dto_bounds:
  assumes "grant_item_dto v = Some g"
  shows "1 \<le> gi_keyId g \<and> gi_keyId g \<le> 100000 \<and> length (gi_recipientKeyFp g) = 128"
  using assms is_int_between_Some[of 1 max_key_id _ "gi_keyId g"]
  by (auto simp: grant_item_dto_def is_key_fp_def max_key_id_def split: option.splits json.splits if_splits bind_splits)

text \<open>The bounds that the services rely on.\<close>

definition upload_ok :: "upload_keys \<Rightarrow> bool" where
  "upload_ok dto \<longleftrightarrow> length (up_grants dto) \<le> 1000
     \<and> list_all (\<lambda>g. 1 \<le> gi_keyId g \<and> gi_keyId g \<le> 100000 \<and> length (gi_recipientKeyFp g) = 128) (up_grants dto)
     \<and> (case up_claimEpoch dto of None \<Rightarrow> True | Some e \<Rightarrow> e \<le> 100000)"

lemma upload_keys_dto_ok: "upload_keys_dto body = Some dto \<Longrightarrow> upload_ok dto"
proof -
  assume a: "upload_keys_dto body = Some dto"
  then obtain claim gs items where c: "claim_epoch_dto (json_get body (js ''claimEpoch'')) = Some claim"
    and g: "length gs \<le> 1000" "all_some (map grant_item_dto gs) = Some items"
    and d: "dto = \<lparr>up_claimEpoch = claim, up_grants = items\<rparr>"
    by (auto simp: upload_keys_dto_def max_grants_per_request_def split: option.splits json.splits if_splits)
  have items: "map grant_item_dto gs = map Some items"
    using g(2) by (simp add: all_some_Some)
  then have len: "length items = length gs"
    using map_eq_imp_length_eq by metis
  have "1 \<le> gi_keyId x \<and> gi_keyId x \<le> 100000 \<and> length (gi_recipientKeyFp x) = 128"
    if "x \<in> set items" for x
  proof -
    from that have "Some x \<in> set (map grant_item_dto gs)"
      unfolding items by simp
    then show ?thesis using grant_item_dto_bounds by auto
  qed
  moreover have "case claim of None \<Rightarrow> True | Some e \<Rightarrow> e \<le> 100000"
    using c by (auto simp: claim_epoch_dto_def max_key_id_def split: option.splits json.splits bind_splits
        dest: is_int_between_Some)
  ultimately show ?thesis
    using g(1) len by (simp add: d upload_ok_def list_all_iff)
qed

end
