(* ===== verification/Room_Keys.thy ===== *)
theory Room_Keys
  imports Rooms_Service Dto_Validation
begin

text \<open>
  \<open>rooms/room-keys.service.ts\<close>: pending grants, a member's own grants, serving grants and the
  atomic epoch claim. \<open>uploadGrants\<close> is split where it awaits: the checks read one database, the
  write runs on a possibly later one, so a run can interleave other requests between them.
\<close>

section \<open>Reading\<close>

record pending_grant =
  pg_userId :: jstr
  pg_keyId :: nat
  pg_publicKey :: jstr

definition assert_member :: "db \<Rightarrow> jstr \<Rightarrow> jstr \<Rightarrow> service_error + member_row" where
  "assert_member d roomId userId =
     (case find_member d roomId userId of None \<Rightarrow> Inl Forbidden | Some m \<Rightarrow> Inr m)"

definition pending_for :: "grant_row list \<Rightarrow> nat \<Rightarrow> user_row \<Rightarrow> jstr \<Rightarrow> pending_grant list" where
  "pending_for grants currentKeyId user memberId =
     (case (us_publicKey user, us_publicKeyFp user) of
        (Some pk, Some fp) \<Rightarrow>
          if pk = [] \<or> fp = [] then []
          else map (\<lambda>k. \<lparr>pg_userId = memberId, pg_keyId = k, pg_publicKey = pk\<rparr>)
            (filter (\<lambda>k. \<not> list_ex (\<lambda>g. gr_userId g = memberId \<and> gr_keyId g = k \<and> gr_recipientKeyFp g = fp) grants)
              [1..<Suc currentKeyId])
      | _ \<Rightarrow> [])"

definition get_pending :: "db \<Rightarrow> jstr \<Rightarrow> jstr \<Rightarrow> service_error + pending_grant list" where
  "get_pending d roomId requesterId =
     (case room_by_id d roomId of
        None \<Rightarrow> Inl NotFound
      | Some room \<Rightarrow> bind_result (assert_member d roomId requesterId) (\<lambda>_.
          if ro_currentKeyId room = 0 then Inr []
          else Inr (concat (map (\<lambda>m. case user_by_id d (mb_userId m) of None \<Rightarrow> []
                 | Some user \<Rightarrow> pending_for (grants_of d roomId) (ro_currentKeyId room) user (mb_userId m))
               (members_of d roomId)))))"

definition get_members_with_public_keys :: "db \<Rightarrow> jstr \<Rightarrow> jstr \<Rightarrow> service_error + (jstr \<times> jstr) list" where
  "get_members_with_public_keys d roomId requesterId =
     bind_result (assert_member d roomId requesterId) (\<lambda>_.
       Inr (List.map_filter (\<lambda>m. case user_by_id d (mb_userId m) of None \<Rightarrow> None
              | Some user \<Rightarrow> (case us_publicKey user of None \<Rightarrow> None
                  | Some pk \<Rightarrow> if pk = [] then None else Some (mb_userId m, pk)))
            (members_of d roomId)))"

definition get_my_grants :: "db \<Rightarrow> jstr \<Rightarrow> jstr \<Rightarrow> service_error + grant_row list" where
  "get_my_grants d roomId requesterId =
     bind_result (assert_member d roomId requesterId) (\<lambda>_.
       Inr (sort_key gr_keyId (filter (\<lambda>g. gr_userId g = requesterId) (grants_of d roomId))))"

section \<open>Uploading\<close>

text \<open>What the checks of \<open>uploadGrants\<close> settle: serve at the epoch read, or claim the next one.\<close>

datatype plan = Serve nat | Claim nat

definition upload_checks :: "db \<Rightarrow> jstr \<Rightarrow> jstr \<Rightarrow> upload_keys \<Rightarrow> service_error + plan" where
  "upload_checks d roomId actorId dto =
     bind_result (assert_member d roomId actorId) (\<lambda>actor.
       if up_grants dto \<noteq> []
          \<and> \<not> list_all (\<lambda>g. gi_userId g \<in> set (map mb_userId (members_of d roomId))) (up_grants dto)
       then Inl Forbidden
       else (case up_claimEpoch dto of
          None \<Rightarrow> (case room_by_id d roomId of
              None \<Rightarrow> Inl (DbFailure RecordNotFound)
            | Some room \<Rightarrow>
                if list_ex (\<lambda>g. gi_keyId g > ro_currentKeyId room) (up_grants dto) then Inl Forbidden
                else Inr (Serve (ro_currentKeyId room)))
        | Some expected \<Rightarrow>
            if mb_role actor \<noteq> role_admin then Inl Forbidden
            else if list_ex (\<lambda>g. gi_keyId g \<noteq> expected + 1) (up_grants dto) then Inl Forbidden
            else Inr (Claim expected)))"

definition grant_of_item :: "jstr \<Rightarrow> grant_item \<Rightarrow> grant_row" where
  "grant_of_item roomId g = \<lparr>gr_roomId = roomId, gr_userId = gi_userId g, gr_keyId = gi_keyId g,
     gr_wrappedKey = gi_wrappedKey g, gr_recipientKeyFp = gi_recipientKeyFp g\<rparr>"

text \<open>\<open>Promise.all\<close> over the upserts: each row on its own, the first failure reported.\<close>

fun upsert_grants :: "jstr \<Rightarrow> grant_item list \<Rightarrow> db \<Rightarrow> db_error option \<times> db" where
  "upsert_grants roomId [] d = (None, d)"
| "upsert_grants roomId (g # gs) d =
     (case upsert_grant (grant_of_item roomId g) d of
        Inr e \<Rightarrow> upsert_grants roomId gs e
      | Inl err \<Rightarrow> (Some err, snd (upsert_grants roomId gs d)))"

text \<open>
  The write: a serve upserts row by row outside a transaction; a claim increments the epoch if it
  is still the expected one and inserts the grants, all or nothing. The third component is the
  \<open>epochAdvanced\<close> event emitted after the commit.
\<close>

definition upload_commit ::
  "jstr \<Rightarrow> plan \<Rightarrow> grant_item list \<Rightarrow> db \<Rightarrow> (service_error + nat) \<times> db \<times> (jstr \<times> nat) option" where
  "upload_commit roomId p gs d = (case p of
     Serve cur \<Rightarrow> (case upsert_grants roomId gs d of
         (None, e) \<Rightarrow> (Inr cur, e, None)
       | (Some err, e) \<Rightarrow> (Inl (DbFailure err), e, None))
   | Claim expected \<Rightarrow> (case increment_epoch roomId expected d of (count, e) \<Rightarrow>
       if count \<noteq> 1 then (Inl Conflict, d, None)
       else (case upsert_grants roomId gs e of
           (None, f) \<Rightarrow> (Inr (expected + 1), f, Some (roomId, expected + 1))
         | (Some err, _) \<Rightarrow> (Inl (DbFailure err), d, None))))"

definition upload_grants ::
  "jstr \<Rightarrow> jstr \<Rightarrow> upload_keys \<Rightarrow> db \<Rightarrow> (service_error + nat) \<times> db \<times> (jstr \<times> nat) option" where
  "upload_grants roomId actorId dto d = (case upload_checks d roomId actorId dto of
     Inl e \<Rightarrow> (Inl e, d, None)
   | Inr p \<Rightarrow> upload_commit roomId p (up_grants dto) d)"

section \<open>Lemmas\<close>

text \<open>What a plan guarantees of the database it was checked on, and of every later one.\<close>

definition plan_ok :: "db \<Rightarrow> jstr \<Rightarrow> plan \<Rightarrow> grant_item list \<Rightarrow> bool" where
  "plan_ok d roomId p gs \<longleftrightarrow> (\<forall>g \<in> set gs. 1 \<le> gi_keyId g \<and> is_member_id d roomId (gi_userId g)
     \<and> (case p of Serve cur \<Rightarrow> epoch_reached d roomId (gi_keyId g) | Claim e \<Rightarrow> gi_keyId g = e + 1))"

lemma plan_ok_grows: "grows d e \<Longrightarrow> plan_ok d r p gs \<Longrightarrow> plan_ok e r p gs"
  by (auto simp: plan_ok_def grows_def split: plan.splits)

lemma serve_reached:
  "room_by_id d i = Some r \<Longrightarrow> g \<in> set gs \<Longrightarrow> \<forall>g \<in> set gs. gi_keyId g \<le> ro_currentKeyId r
    \<Longrightarrow> epoch_reached d i (gi_keyId g)"
  using room_by_id_Some[of d i r] by (blast intro: epoch_reachedI)

lemma upload_checks_plan_ok:
  assumes "upload_ok dto" and "upload_checks d roomId actor dto = Inr p"
  shows "plan_ok d roomId p (up_grants dto)"
proof (cases "up_grants dto = []")
  case False
  have mem: "gi_userId g \<in> mb_userId ` set (members_of d roomId)" if "g \<in> set (up_grants dto)" for g
    using assms(2) that False by (auto simp: upload_checks_def bind_result_Inr list_all_iff split: if_splits)
  then have mem': "is_member_id d roomId (gi_userId g)" if "g \<in> set (up_grants dto)" for g
    using that by (force simp: is_member_id_def members_of_def)
  have pos: "1 \<le> gi_keyId g" if "g \<in> set (up_grants dto)" for g
    using assms(1) that by (auto simp: upload_ok_def list_all_iff)
  have bound: "case p of Serve cur \<Rightarrow> epoch_reached d roomId (gi_keyId g) | Claim e \<Rightarrow> gi_keyId g = e + 1"
    if "g \<in> set (up_grants dto)" for g
    using assms(2) that serve_reached[OF _ that, of d roomId]
    by (auto simp: upload_checks_def bind_result_Inr list_ex_iff not_less
        split: if_splits option.splits)
  show ?thesis
    using mem' pos bound by (auto simp: plan_ok_def)
qed (simp add: plan_ok_def)

lemma upsert_grants_inv:
  assumes "db_inv d" and "\<forall>g \<in> set gs. 1 \<le> gi_keyId g \<and> is_member_id d roomId (gi_userId g)
    \<and> epoch_reached d roomId (gi_keyId g)"
  shows "db_inv (snd (upsert_grants roomId gs d)) \<and> grows d (snd (upsert_grants roomId gs d))"
  using assms
proof (induction gs arbitrary: d)
  case (Cons g gs)
  show ?case
  proof (cases "upsert_grant (grant_of_item roomId g) d")
    case (Inr e)
    have e: "db_inv e" "grows d e"
      using upsert_grant_inv[OF Cons.prems(1) Inr] Cons.prems(2) by (auto simp: grant_of_item_def)
    then have "\<forall>g \<in> set gs. 1 \<le> gi_keyId g \<and> is_member_id e roomId (gi_userId g) \<and> epoch_reached e roomId (gi_keyId g)"
      using Cons.prems(2) by (auto simp: grows_def)
    from Cons.IH[OF e(1) this] e Inr grows_trans[of d e] show ?thesis by simp
  next
    case (Inl err)
    with Cons show ?thesis by simp
  qed
qed simp

lemma increment_epoch_reached:
  "increment_epoch i k d = (Suc 0, e) \<Longrightarrow> epoch_reached e i (k + 1)"
proof -
  assume a: "increment_epoch i k d = (Suc 0, e)"
  then have "filter (\<lambda>r. ro_id r = i \<and> ro_currentKeyId r = k) (db_rooms d) \<noteq> []"
    by (auto simp: increment_epoch_def)
  then obtain r where r: "r \<in> set (db_rooms d)" "ro_id r = i" "ro_currentKeyId r = k"
    by (auto simp: filter_empty_conv)
  have "r\<lparr>ro_currentKeyId := ro_currentKeyId r + 1\<rparr> \<in> set (db_rooms e)"
    using a r by (force simp: increment_epoch_def)
  then show ?thesis
    by (rule epoch_reachedI) (simp_all add: r)
qed

lemma upload_commit_inv:
  assumes "db_inv d" and "plan_ok d roomId p gs" and "upload_commit roomId p gs d = (r, e, ev)"
  shows "db_inv e \<and> grows d e"
proof (cases p)
  case (Serve cur)
  with assms upsert_grants_inv[of d gs roomId] show ?thesis
    by (auto simp: upload_commit_def plan_ok_def split: prod.splits option.splits)
next
  case (Claim k)
  obtain c f where f: "increment_epoch roomId k d = (c, f)"
    by (cases "increment_epoch roomId k d")
  have fi: "db_inv f" "grows d f"
    using increment_epoch_inv[OF assms(1) f] by simp_all
  show ?thesis
  proof (cases "c = 1")
    case True
    then have "\<forall>g \<in> set gs. 1 \<le> gi_keyId g \<and> is_member_id f roomId (gi_userId g)
      \<and> epoch_reached f roomId (gi_keyId g)"
      using assms(2) Claim fi(2) increment_epoch_reached[of roomId k d f] f
      by (auto simp: plan_ok_def grows_def)
    from upsert_grants_inv[OF fi(1) this] Claim True f assms(1,3) fi grows_trans[OF fi(2)] show ?thesis
      by (auto simp: upload_commit_def split: prod.splits option.splits)
  next
    case False
    with assms Claim f show ?thesis by (simp add: upload_commit_def)
  qed
qed

section \<open>Concurrent requests\<close>

text \<open>
  The database under any interleaving of requests: every write of the services and of the gateway
  is a step, and an upload is two, its checks (which leave their plan) and its write. Validated
  DTOs only: the controllers reject the rest.
\<close>

inductive data_reach :: "db \<Rightarrow> (jstr \<times> plan \<times> grant_item list) set \<Rightarrow> bool" where
  start: "data_reach empty_db {}"
| register: "data_reach d P \<Longrightarrow> create_user u d = Inr e \<Longrightarrow> data_reach e P"
| create: "data_reach d P \<Longrightarrow> create_room i n d = Inr (r, e) \<Longrightarrow> data_reach e P"
| add_member: "data_reach d P \<Longrightarrow> create_member m d = Inr e \<Longrightarrow> data_reach e P"
| open_room: "data_reach d P \<Longrightarrow> upsert_room i n d = Inr (r, e) \<Longrightarrow> data_reach e P"
| save: "data_reach d P \<Longrightarrow> update_room_state n b d = Inr e \<Longrightarrow> data_reach e P"
| publish_key: "data_reach d P \<Longrightarrow> update_user_key u pk fp (delete_grants_of_user u d) = Inr e
    \<Longrightarrow> data_reach e P"
| check: "data_reach d P \<Longrightarrow> upload_keys_dto body = Some dto \<Longrightarrow> upload_checks d r a dto = Inr p
    \<Longrightarrow> data_reach d (insert (r, p, up_grants dto) P)"
| commit: "data_reach d P \<Longrightarrow> (r, p, gs) \<in> P \<Longrightarrow> upload_commit r p gs d = (res, e, ev) \<Longrightarrow> data_reach e P"

lemma data_reach_inv:
  "data_reach d P \<Longrightarrow> db_inv d \<and> (\<forall>(r, p, gs) \<in> P. plan_ok d r p gs)"
proof (induction rule: data_reach.induct)
  case (register d P u e)
  then show ?case using create_user_inv[of d u e] plan_ok_grows by blast
next
  case (create d P i n r e)
  then show ?case using create_room_inv[of d i n r e] plan_ok_grows by blast
next
  case (add_member d P m e)
  then show ?case using create_member_inv[of d m e] plan_ok_grows by blast
next
  case (open_room d P i n r e)
  then show ?case using upsert_room_inv[of d i n r e] plan_ok_grows by blast
next
  case (save d P n b e)
  then show ?case using update_room_state_inv[of d n b e] plan_ok_grows by blast
next
  case (publish_key d P u pk fp e)
  then have "db_inv e \<and> grows d e"
    using delete_grants_inv[of d u] update_user_key_inv[of "delete_grants_of_user u d" u pk fp e]
      grows_trans[of d "delete_grants_of_user u d" e] by blast
  with publish_key show ?case using plan_ok_grows by blast
next
  case (check d P body dto r a p)
  then show ?case using upload_checks_plan_ok[OF upload_keys_dto_ok] by blast
next
  case (commit d P r p gs res e ev)
  then have "db_inv e \<and> grows d e"
    using upload_commit_inv[of d r p gs res e ev] by blast
  with commit show ?case using plan_ok_grows by blast
qed simp

section \<open>Epoch claims\<close>

lemma increment_epoch_count:
  assumes "db_inv d"
  shows "fst (increment_epoch i k d) = (if \<exists>r. room_by_id d i = Some r \<and> ro_currentKeyId r = k then 1 else 0)"
proof -
  have dist: "distinct (db_rooms d)" "inj_on ro_id (set (db_rooms d))"
    using assms by (auto simp: db_inv_def keys_unique_def distinct_map)
  show ?thesis
  proof (cases "\<exists>r. room_by_id d i = Some r \<and> ro_currentKeyId r = k")
    case True
    then obtain r where r: "r \<in> set (db_rooms d)" "ro_id r = i" "ro_currentKeyId r = k"
      using room_by_id_Some by blast
    then have "set (filter (\<lambda>s. ro_id s = i \<and> ro_currentKeyId s = k) (db_rooms d)) = {r}"
      using dist(2) by (auto simp: inj_on_def)
    then have "length (filter (\<lambda>s. ro_id s = i \<and> ro_currentKeyId s = k) (db_rooms d)) = 1"
      using dist(1) distinct_card[OF distinct_filter[OF dist(1)]] by (metis card.empty card_insert_disjoint
          empty_iff finite.emptyI One_nat_def)
    with True show ?thesis by (simp add: increment_epoch_def)
  next
    case False
    then have "\<forall>r \<in> set (db_rooms d). \<not> (ro_id r = i \<and> ro_currentKeyId r = k)"
      using assms room_by_id_unique[of d] by (auto simp: db_inv_def)
    with False show ?thesis by (simp add: increment_epoch_def filter_empty_conv)
  qed
qed

text \<open>A sequence of writes, each a plan checked at some earlier time.\<close>

fun commits :: "(jstr \<times> plan \<times> grant_item list) list \<Rightarrow> db \<Rightarrow> (service_error + nat) list \<times> db" where
  "commits [] d = ([], d)"
| "commits ((r, p, gs) # ps) d = (case upload_commit r p gs d of (res, e, ev) \<Rightarrow>
     (case commits ps e of (rs, f) \<Rightarrow> (res # rs, f)))"

text \<open>How many of them claimed epoch \<open>k + 1\<close> of room \<open>r\<close>.\<close>

fun won_claims :: "jstr \<Rightarrow> nat \<Rightarrow> (jstr \<times> plan \<times> grant_item list) list \<Rightarrow> db \<Rightarrow> nat" where
  "won_claims r k [] d = 0"
| "won_claims r k ((r', p, gs) # ps) d = (case upload_commit r' p gs d of (res, e, ev) \<Rightarrow>
     of_bool (r' = r \<and> p = Claim k \<and> res = Inr (k + 1)) + won_claims r k ps e)"

lemma upsert_grant_tables:
  "upsert_grant g d = Inr e \<Longrightarrow> db_rooms e = db_rooms d \<and> db_users e = db_users d \<and> db_members e = db_members d"
  by (auto simp: upsert_grant_def split: if_splits)

lemma upsert_grants_tables:
  "db_rooms (snd (upsert_grants r gs d)) = db_rooms d \<and> db_users (snd (upsert_grants r gs d)) = db_users d
    \<and> db_members (snd (upsert_grants r gs d)) = db_members d"
proof (induction gs arbitrary: d)
  case (Cons g gs)
  show ?case
  proof (cases "upsert_grant (grant_of_item r g) d")
    case (Inr e)
    with Cons[of e] upsert_grant_tables[OF Inr] show ?thesis by simp
  qed (use Cons in simp)
qed simp

lemma upload_grants_users:
  "upload_grants r u dto d = (res, e, ev) \<Longrightarrow> db_users e = db_users d"
proof -
  have inc: "db_users (snd (increment_epoch r k d)) = db_users d" for k by (simp add: increment_epoch_def)
  have ups: "upsert_grants r gs f = (x, h) \<Longrightarrow> db_users h = db_users f" for gs f x h
    using upsert_grants_tables[of r gs f] by simp
  show "upload_grants r u dto d = (res, e, ev) \<Longrightarrow> db_users e = db_users d"
    using inc by (auto simp: upload_grants_def upload_commit_def dest: ups split: sum.splits plan.splits prod.splits option.splits if_splits)
      (metis snd_conv ups)+
qed

lemma upload_grants_inv:
  assumes "db_inv d" and "upload_keys_dto body = Some dto" and "upload_grants r u dto d = (res, e, ev)"
  shows "db_inv e \<and> grows d e"
  using assms(1,3) upload_commit_inv[OF assms(1) upload_checks_plan_ok[OF upload_keys_dto_ok[OF assms(2)]], of r u]
  by (auto simp: upload_grants_def split: sum.splits)

lemma claim_needs_expected_epoch:
  assumes "db_inv d" and "upload_commit r (Claim k) gs d = (Inr n, e, ev)"
  shows "(\<exists>room. room_by_id d r = Some room \<and> ro_currentKeyId room = k) \<and> n = k + 1
    \<and> epoch_reached e r (k + 1) \<and> ev = Some (r, k + 1)"
proof -
  obtain c f where f: "increment_epoch r k d = (c, f)"
    by (cases "increment_epoch r k d")
  with assms(2) have c: "c = 1" and res: "upsert_grants r gs f = (None, e)" "n = k + 1" "ev = Some (r, k + 1)"
    by (auto simp: upload_commit_def split: prod.splits option.splits if_splits)
  have "epoch_reached f r (k + 1)"
    using increment_epoch_reached[of r k d f] f c by simp
  moreover have "db_rooms e = db_rooms f"
    using upsert_grants_tables[of r gs f] res(1) by simp
  ultimately have e: "epoch_reached e r (k + 1)"
    by (simp add: epoch_reached_def)
  have "\<exists>room. room_by_id d r = Some room \<and> ro_currentKeyId room = k"
  proof (rule ccontr)
    assume "\<not> ?thesis"
    then have "fst (increment_epoch r k d) = 0"
      by (simp only: increment_epoch_count[OF assms(1)] if_False)
    with f c show False by simp
  qed
  with res e show ?thesis by blast
qed

lemma passed_epoch_no_claim:
  assumes "db_inv d" and "epoch_reached d r (k + 1)" and "upload_commit r (Claim k) gs d = (res, e, ev)"
  shows "res \<noteq> Inr n"
proof
  assume "res = Inr n"
  with claim_needs_expected_epoch[OF assms(1), of r k gs n e ev] assms(3)
  obtain room where room: "room_by_id d r = Some room" "ro_currentKeyId room = k"
    by blast
  obtain r' where r': "r' \<in> set (db_rooms d)" "ro_id r' = r" "k + 1 \<le> ro_currentKeyId r'"
    using assms(2) by (auto simp: epoch_reached_iff)
  have "room_by_id d r = Some r'"
    using room_by_id_unique[of d r'] assms(1) r' by (simp add: db_inv_def)
  with room r' show False by simp
qed

lemma won_claims_zero:
  assumes "db_inv d" and "\<forall>(r, p, gs) \<in> set ps. plan_ok d r p gs" and "epoch_reached d r (k + 1)"
  shows "won_claims r k ps d = 0"
  using assms
proof (induction ps arbitrary: d)
  case (Cons x ps)
  obtain r' p gs where x: "x = (r', p, gs)" by (cases x)
  obtain res e ev where c: "upload_commit r' p gs d = (res, e, ev)"
    by (cases "upload_commit r' p gs d")
  have e: "db_inv e" "grows d e"
    using upload_commit_inv[OF Cons.prems(1) _ c] Cons.prems(2) x by auto
  then have rest: "\<forall>(r, p, gs) \<in> set ps. plan_ok e r p gs" "epoch_reached e r (k + 1)"
    using Cons.prems plan_ok_grows[OF e(2)] by (auto simp: grows_def)
  have "\<not> (r' = r \<and> p = Claim k \<and> res = Inr (k + 1))"
    using passed_epoch_no_claim[OF Cons.prems(1,3)] c by blast
  with Cons.IH[OF e(1) rest] c x show ?case by simp
qed simp

section \<open>Pending grants\<close>

lemma pending_grants_set:
  assumes "keys_unique d" and "get_pending d roomId requester = Inr ps" and "room_by_id d roomId = Some room"
  shows "set ps = {\<lparr>pg_userId = us_id u, pg_keyId = k, pg_publicKey = pk\<rparr> | u k pk fp.
    u \<in> set (db_users d) \<and> is_member_id d roomId (us_id u)
    \<and> us_publicKey u = Some pk \<and> us_publicKeyFp u = Some fp \<and> pk \<noteq> [] \<and> fp \<noteq> []
    \<and> 1 \<le> k \<and> k \<le> ro_currentKeyId room
    \<and> \<not> list_ex (\<lambda>g. gr_roomId g = roomId \<and> gr_userId g = us_id u \<and> gr_keyId g = k
        \<and> gr_recipientKeyFp g = fp) (db_grants d)}"
proof -
  have by_id: "user_by_id d i = Some u \<longleftrightarrow> u \<in> set (db_users d) \<and> us_id u = i" for i u
    using assms(1) find_key_unique[of us_id "db_users d" i u] by (simp add: user_by_id_def keys_unique_def)
  have mem: "is_member_id d roomId i \<longleftrightarrow> (\<exists>m \<in> set (members_of d roomId). mb_userId m = i)" for i
    by (force simp: is_member_id_def members_of_def)
  have ps: "ps = (if ro_currentKeyId room = 0 then []
      else concat (map (\<lambda>m. case user_by_id d (mb_userId m) of None \<Rightarrow> []
        | Some user \<Rightarrow> pending_for (grants_of d roomId) (ro_currentKeyId room) user (mb_userId m))
        (members_of d roomId)))"
    using assms(2,3) by (auto simp: get_pending_def bind_result_Inr split: if_splits)
  have "x \<in> set ps \<longleftrightarrow> (\<exists>u. u \<in> set (db_users d) \<and> is_member_id d roomId (us_id u)
      \<and> x \<in> set (pending_for (grants_of d roomId) (ro_currentKeyId room) u (us_id u)))" for x
  proof (cases "ro_currentKeyId room = 0")
    case True
    then show ?thesis by (auto simp: ps pending_for_def split: option.splits)
  next
    case False
    then have "x \<in> set ps \<longleftrightarrow> (\<exists>m \<in> set (members_of d roomId). \<exists>u. user_by_id d (mb_userId m) = Some u
        \<and> x \<in> set (pending_for (grants_of d roomId) (ro_currentKeyId room) u (mb_userId m)))"
    proof -
      have "x \<in> set (case user_by_id d i of None \<Rightarrow> [] | Some user \<Rightarrow> F user) \<longleftrightarrow>
          (\<exists>u. user_by_id d i = Some u \<and> x \<in> set (F u))" for i F
        by (cases "user_by_id d i") simp_all
      with False show ?thesis by (simp add: ps)
    qed
    then show ?thesis
      unfolding by_id mem by metis
  qed
  moreover have "x \<in> set (pending_for (grants_of d roomId) (ro_currentKeyId room) u (us_id u)) \<longleftrightarrow>
      (\<exists>k pk fp. x = \<lparr>pg_userId = us_id u, pg_keyId = k, pg_publicKey = pk\<rparr>
        \<and> us_publicKey u = Some pk \<and> us_publicKeyFp u = Some fp \<and> pk \<noteq> [] \<and> fp \<noteq> []
        \<and> 1 \<le> k \<and> k \<le> ro_currentKeyId room
        \<and> \<not> list_ex (\<lambda>g. gr_roomId g = roomId \<and> gr_userId g = us_id u \<and> gr_keyId g = k
            \<and> gr_recipientKeyFp g = fp) (db_grants d))" for x u
    by (cases "us_publicKey u"; cases "us_publicKeyFp u")
      (auto simp: pending_for_def grants_of_def list_ex_iff less_Suc_eq_le simp del: upt_Suc)
  ultimately show ?thesis by blast
qed

section \<open>Properties\<close>

text \<open>C7. Under every interleaving of registrations, room creations, joins, state saves, key
  publications, served grants and epoch claims, the database keeps its unique keys and references,
  and every stored grant is for an epoch between 1 and the one its room has reached and for a
  member of that room.\<close>

theorem database_integrity:
  assumes "data_reach d P"
  shows "keys_unique d \<and> references_ok d \<and> list_all (\<lambda>g. 1 \<le> gr_keyId g
    \<and> epoch_reached d (gr_roomId g) (gr_keyId g) \<and> is_member_id d (gr_roomId g) (gr_userId g)) (db_grants d)"
  using data_reach_inv[OF assms] by (auto simp: db_inv_def grants_ok_def list_all_iff)

text \<open>C8. An epoch is claimed at most once: of any sequence of writes whose checks all passed at
  some time before, in any order, at most one succeeds in claiming the epoch after \<open>k\<close> of a room,
  whatever grants they carry.\<close>

theorem epoch_claims_are_exclusive:
  assumes "data_reach d P" and "set ps \<subseteq> P"
  shows "won_claims r k ps d \<le> 1"
proof -
  have "db_inv d" "\<forall>(r, p, gs) \<in> set ps. plan_ok d r p gs"
    using data_reach_inv[OF assms(1)] assms(2) by blast+
  then show ?thesis
  proof (induction ps arbitrary: d)
    case (Cons x ps)
    obtain r' p gs where x: "x = (r', p, gs)" by (cases x)
    obtain res e ev where c: "upload_commit r' p gs d = (res, e, ev)"
      by (cases "upload_commit r' p gs d")
    have e: "db_inv e" "grows d e"
      using upload_commit_inv[OF Cons.prems(1) _ c] Cons.prems(2) x by auto
    then have rest: "\<forall>(r, p, gs) \<in> set ps. plan_ok e r p gs"
      using Cons.prems plan_ok_grows[OF e(2)] by auto
    show ?case
    proof (cases "r' = r \<and> p = Claim k \<and> res = Inr (k + 1)")
      case True
      then have "epoch_reached e r (k + 1)"
        using claim_needs_expected_epoch[OF Cons.prems(1), of r k gs "k + 1" e ev] c by simp
      with won_claims_zero[OF e(1) rest] x c show ?thesis by simp
    next
      case False
      then have "of_bool (r' = r \<and> p = Claim k \<and> res = Inr (k + 1)) = (0 :: nat)"
        by simp
      with Cons.IH[OF e(1) rest] x c show ?thesis by (simp only: won_claims.simps prod.case)
    qed
  qed simp
qed

text \<open>C31. \<open>getPending\<close> lists exactly what is missing: one entry for each member with a published key
  and each epoch from 1 to the current one for which no grant is sealed to the member's current
  key, so a grant sealed to a replaced key is offered again.\<close>

theorem pending_grants_exact:
  assumes "keys_unique d" and "get_pending d roomId requester = Inr ps" and "room_by_id d roomId = Some room"
  shows "set ps = {\<lparr>pg_userId = us_id u, pg_keyId = k, pg_publicKey = pk\<rparr> | u k pk fp.
    u \<in> set (db_users d) \<and> is_member_id d roomId (us_id u)
    \<and> us_publicKey u = Some pk \<and> us_publicKeyFp u = Some fp \<and> pk \<noteq> [] \<and> fp \<noteq> []
    \<and> 1 \<le> k \<and> k \<le> ro_currentKeyId room
    \<and> \<not> list_ex (\<lambda>g. gr_roomId g = roomId \<and> gr_userId g = us_id u \<and> gr_keyId g = k
        \<and> gr_recipientKeyFp g = fp) (db_grants d)}"
  using assms by (rule pending_grants_set)

section \<open>Witnesses\<close>

text \<open>One user, the admin of one room, and two checked requests to claim the first epoch.\<close>

definition sample_room :: room_row where
  "sample_room = \<lparr>ro_id = js ''1'', ro_name = js ''team'', ro_yjsState = None, ro_currentKeyId = 0\<rparr>"

definition sample_keys_db :: db where
  "sample_keys_db = empty_db\<lparr>db_users := [sample_user (js ''u'') (Some (js ''pu'')) (Some (js ''fu''))],
     db_rooms := [sample_room],
     db_members := [\<lparr>mb_roomId = js ''1'', mb_userId = js ''u'', mb_role = role_admin\<rparr>]\<rparr>"

definition sample_claim_body :: json where
  "sample_claim_body = JObj [(js ''claimEpoch'', JObj [(js ''expectedCurrentKeyId'', JNum (dec_of_int 0))]),
     (js ''grants'', JArr [])]"

lemma sample_data_reach: "data_reach sample_keys_db {(js ''1'', Claim 0, [])}"
proof -
  have 1: "data_reach (empty_db\<lparr>db_users := [sample_user (js ''u'') (Some (js ''pu'')) (Some (js ''fu''))]\<rparr>) {}"
    by (rule data_reach.register[OF data_reach.start]) (simp add: create_user_def empty_db_def)
  have 2: "data_reach (empty_db\<lparr>db_users := [sample_user (js ''u'') (Some (js ''pu'')) (Some (js ''fu''))],
      db_rooms := [sample_room]\<rparr>) {}"
    by (rule data_reach.create[OF 1, where i = "js ''1''" and n = "js ''team''" and r = sample_room])
      (simp add: create_room_def empty_db_def sample_room_def Let_def)
  have 3: "data_reach sample_keys_db {}"
    by (rule data_reach.add_member[OF 2,
        where m = "\<lparr>mb_roomId = js ''1'', mb_userId = js ''u'', mb_role = role_admin\<rparr>"])
      (simp add: create_member_def sample_keys_db_def empty_db_def find_member_def room_by_id_def
        user_by_id_def sample_room_def sample_user_def)
  have body: "upload_keys_dto sample_claim_body = Some \<lparr>up_claimEpoch = Some 0, up_grants = []\<rparr>"
    by (simp add: upload_keys_dto_def sample_claim_body_def claim_epoch_dto_def is_int_between_def max_key_id_def)
  have "upload_checks sample_keys_db (js ''1'') (js ''u'') \<lparr>up_claimEpoch = Some 0, up_grants = []\<rparr> = Inr (Claim 0)"
    by (simp add: upload_checks_def assert_member_def sample_keys_db_def find_member_def)
  from data_reach.check[OF 3 body this] show ?thesis by simp
qed

lemma database_integrity_witness:
  "keys_unique sample_keys_db \<and> references_ok sample_keys_db"
  using database_integrity[OF sample_data_reach] by blast

lemma epoch_claims_are_exclusive_witness:
  "won_claims (js ''1'') 0 [(js ''1'', Claim 0, []), (js ''1'', Claim 0, [])] sample_keys_db \<le> 1
    \<and> fst (upload_commit (js ''1'') (Claim 0) [] sample_keys_db) = Inr 1"
  using epoch_claims_are_exclusive[OF sample_data_reach,
      of "[(js ''1'', Claim 0, []), (js ''1'', Claim 0, [])]" "js ''1''" 0]
  by (simp add: upload_commit_def increment_epoch_def sample_keys_db_def sample_room_def del: won_claims.simps)

definition sample_enabled_db :: db where
  "sample_enabled_db = sample_keys_db\<lparr>db_rooms := [sample_room\<lparr>ro_currentKeyId := 1\<rparr>]\<rparr>"

lemma pending_grants_exact_witness:
  "\<lparr>pg_userId = js ''u'', pg_keyId = 1, pg_publicKey = js ''pu''\<rparr>
    \<in> (case get_pending sample_enabled_db (js ''1'') (js ''u'') of Inl _ \<Rightarrow> {} | Inr ps \<Rightarrow> set ps)"
proof -
  have "succeeds (get_pending sample_enabled_db (js ''1'') (js ''u''))"
    by code_simp
  then obtain ps where ps: "get_pending sample_enabled_db (js ''1'') (js ''u'') = Inr ps"
    by (auto simp: succeeds_iff)
  have u: "keys_unique sample_enabled_db"
    by (simp add: sample_enabled_db_def sample_keys_db_def sample_room_def keys_unique_def empty_db_def)
  have r: "room_by_id sample_enabled_db (js ''1'') = Some (sample_room\<lparr>ro_currentKeyId := 1\<rparr>)"
    by (simp add: sample_enabled_db_def room_by_id_def sample_room_def)
  show ?thesis
    unfolding ps sum.case pending_grants_exact[OF u ps r]
    by (auto simp: sample_enabled_db_def sample_keys_db_def sample_user_def is_member_id_def empty_db_def)
qed

end
