(* ===== verification/Accounts.thy ===== *)
theory Accounts
  imports Room_Keys
begin

text \<open>
  \<open>auth/auth.service.ts\<close> and \<open>users/users.service.ts\<close>. The hash functions, the token signer and
  Unicode lower-casing are parameters; bcrypt's salt and the clock are inputs. The claims a token carries
  are those \<open>JwtService.sign\<close> documents for the options of \<open>auth.module.ts\<close>: the payload, the second of
  issue and, seven days on, that of expiry.
\<close>

record token_claims =
  tc_sub :: jstr
  tc_username :: jstr
  tc_iat :: int
  tc_exp :: int

record auth_env =
  au_lower :: "jstr \<Rightarrow> jstr"
  au_hash :: "jstr \<Rightarrow> jstr \<Rightarrow> jstr"
  au_compare :: "jstr \<Rightarrow> jstr \<Rightarrow> bool"
  au_sign :: "token_claims \<Rightarrow> jstr"
  au_fp :: "jstr \<Rightarrow> jstr"

text \<open>bcrypt: a password matches its own hash under every salt.\<close>

definition bcrypt_law :: "auth_env \<Rightarrow> bool" where
  "bcrypt_law A \<longleftrightarrow> (\<forall>salt p. au_compare A p (au_hash A salt p))"

record auth_response =
  ar_token :: jstr
  ar_id :: jstr
  ar_email :: jstr
  ar_username :: jstr

section \<open>Operations\<close>

definition normalize_email :: "auth_env \<Rightarrow> jstr \<Rightarrow> jstr" where
  "normalize_email A email = au_lower A (trim email)"

definition token_lifetime_s :: int where "token_lifetime_s = 7 * 24 * 60 * 60"

text \<open>The claims of a token for a user, issued at a time in milliseconds.\<close>

definition claims_of :: "int \<Rightarrow> jstr \<Rightarrow> jstr \<Rightarrow> token_claims" where
  "claims_of now userId username = \<lparr>tc_sub = userId, tc_username = username, tc_iat = now div 1000,
     tc_exp = now div 1000 + token_lifetime_s\<rparr>"

definition auth_response_of :: "auth_env \<Rightarrow> int \<Rightarrow> user_row \<Rightarrow> auth_response" where
  "auth_response_of A now u = \<lparr>ar_token = au_sign A (claims_of now (us_id u) (us_username u)), ar_id = us_id u,
     ar_email = us_email u, ar_username = us_username u\<rparr>"

definition auth_register ::
  "auth_env \<Rightarrow> int \<Rightarrow> jstr \<Rightarrow> jstr \<Rightarrow> register_dto \<Rightarrow> db \<Rightarrow> service_error + auth_response \<times> db" where
  "auth_register A now fresh salt dto d =
     (let email = normalize_email A (rg_email dto)
      in if user_by_email d email \<noteq> None then Inl Conflict
         else let u = \<lparr>us_id = fresh, us_email = email, us_username = trim (rg_username dto),
                        us_password = au_hash A salt (rg_password dto),
                        us_publicKey = None, us_publicKeyFp = None\<rparr>
              in bind_result (db_result (create_user u d)) (\<lambda>d. Inr (auth_response_of A now u, d)))"

definition auth_login :: "auth_env \<Rightarrow> int \<Rightarrow> jstr \<Rightarrow> jstr \<Rightarrow> db \<Rightarrow> service_error + auth_response" where
  "auth_login A now email password d =
     (case user_by_email d (normalize_email A email) of
        None \<Rightarrow> Inl Unauthorized
      | Some u \<Rightarrow> if au_compare A password (us_password u) then Inr (auth_response_of A now u)
                  else Inl Unauthorized)"

definition set_public_key :: "auth_env \<Rightarrow> jstr \<Rightarrow> jstr \<Rightarrow> db \<Rightarrow> service_error + (jstr \<times> jstr) \<times> db" where
  "set_public_key A userId publicKey d =
     (let fp = au_fp A publicKey
      in bind_result (db_result (update_user_key userId publicKey fp (delete_grants_of_user userId d)))
           (\<lambda>d. Inr ((publicKey, fp), d)))"

section \<open>Lemmas\<close>

lemma user_by_email_unique:
  assumes "keys_unique d" and "u \<in> set (db_users d)"
  shows "user_by_email d (us_email u) = Some u"
  using assms find_key_unique[of us_email "db_users d" "us_email u" u]
  by (simp add: user_by_email_def keys_unique_def)

lemma set_public_key_effect:
  assumes "set_public_key A uid pk d = Inr (r, e)"
  shows "db_rooms e = db_rooms d" "db_members e = db_members d"
    and "db_grants e = filter (\<lambda>g. gr_userId g \<noteq> uid) (db_grants d)"
    and "\<exists>u \<in> set (db_users e). us_id u = uid \<and> us_publicKey u = Some pk \<and> us_publicKeyFp u = Some (au_fp A pk)"
proof -
  from assms have w: "update_user_key uid pk (au_fp A pk) (delete_grants_of_user uid d) = Inr e"
    by (auto simp: set_public_key_def bind_result_Inr Let_def)
  then show "db_rooms e = db_rooms d" "db_members e = db_members d"
    "db_grants e = filter (\<lambda>g. gr_userId g \<noteq> uid) (db_grants d)"
    by (auto simp: update_user_key_def delete_grants_of_user_def split: if_splits)
  from w have "uid \<in> us_id ` set (db_users d)"
    using user_by_id_None[of "delete_grants_of_user uid d" uid]
    by (auto simp: update_user_key_def delete_grants_of_user_def split: if_splits)
  then obtain v where "v \<in> set (db_users d)" "us_id v = uid"
    by blast
  with w show "\<exists>u \<in> set (db_users e). us_id u = uid \<and> us_publicKey u = Some pk \<and> us_publicKeyFp u = Some (au_fp A pk)"
    by (intro bexI[of _ "v\<lparr>us_publicKey := Some pk, us_publicKeyFp := Some (au_fp A pk)\<rparr>"])
      (auto simp: update_user_key_def delete_grants_of_user_def split: if_splits)
qed

section \<open>Properties\<close>

text \<open>No service deletes an account or changes what it logs in with.\<close>

definition same_account :: "user_row \<Rightarrow> user_row \<Rightarrow> bool" where
  "same_account u v \<longleftrightarrow> us_id v = us_id u \<and> us_email v = us_email u \<and> us_username v = us_username u
     \<and> us_password v = us_password u"

definition accounts_kept :: "db \<Rightarrow> db \<Rightarrow> bool" where
  "accounts_kept d e \<longleftrightarrow> (\<forall>u \<in> set (db_users d). \<exists>v \<in> set (db_users e). same_account u v)"

lemma accounts_kept_users: "db_users e = db_users d \<Longrightarrow> accounts_kept d e"
  by (auto simp: accounts_kept_def same_account_def)

lemma accounts_kept_refl [simp]: "accounts_kept d d"
  by (simp add: accounts_kept_users)

lemma accounts_kept_trans: "accounts_kept d e \<Longrightarrow> accounts_kept e f \<Longrightarrow> accounts_kept d f"
  unfolding accounts_kept_def same_account_def by metis

lemma accounts_kept_register: "create_user u d = Inr e \<Longrightarrow> accounts_kept d e"
  by (auto simp: create_user_def accounts_kept_def same_account_def split: if_splits)

lemma accounts_kept_map:
  "db_users e = map f (db_users d) \<Longrightarrow> (\<And>v. same_account v (f v)) \<Longrightarrow> accounts_kept d e"
  by (auto simp: accounts_kept_def)

lemma accounts_kept_publish: "update_user_key u pk fp d = Inr e \<Longrightarrow> accounts_kept d e"
  by (rule accounts_kept_map[of _ "\<lambda>v. if us_id v = u then v\<lparr>us_publicKey := Some pk, us_publicKeyFp := Some fp\<rparr> else v"])
    (auto simp: update_user_key_def same_account_def split: if_splits)

lemma set_public_key_inv:
  assumes "db_inv d" and "set_public_key A u pk d = Inr (x, e)"
  shows "db_inv e \<and> grows d e \<and> accounts_kept d e"
proof -
  have w: "update_user_key u pk (au_fp A pk) (delete_grants_of_user u d) = Inr e"
    using assms(2) by (auto simp: set_public_key_def bind_result_Inr Let_def)
  have "accounts_kept d (delete_grants_of_user u d)"
    by (rule accounts_kept_users) (simp add: delete_grants_of_user_def)
  then show ?thesis
    using delete_grants_inv[OF assms(1), of u] update_user_key_inv[OF _ w] accounts_kept_publish[OF w]
      grows_trans accounts_kept_trans by blast
qed

lemma auth_register_inv:
  "db_inv d \<Longrightarrow> auth_register A now i salt dto d = Inr (r, e) \<Longrightarrow> db_inv e \<and> grows d e \<and> accounts_kept d e"
  using create_user_inv accounts_kept_register
  by (auto simp: auth_register_def bind_result_Inr Let_def split: if_splits)

text \<open>Whoever registers can log in: with the password of the registration and any spelling of
  the e-mail address that normalises alike, login at any later time, in any later database that keeps
  the account, returns the registered user with a token issued then; a second registration of that
  address is refused.\<close>

theorem register_then_login:
  assumes "bcrypt_law A" and "auth_register A now i salt dto d = Inr (r, e)"
    and "normalize_email A email = normalize_email A (rg_email dto)"
    and "accounts_kept e f" and "db_inv f"
  shows "auth_login A now' email (rg_password dto) f = Inr (r\<lparr>ar_token := au_sign A (claims_of now' (ar_id r) (ar_username r))\<rparr>)
    \<and> ar_id r = i \<and> ar_username r = trim (rg_username dto) \<and> ar_token r = au_sign A (claims_of now (ar_id r) (ar_username r))
    \<and> auth_register A now' j salt' (dto\<lparr>rg_email := email\<rparr>) f = Inl Conflict"
proof -
  let ?u = "\<lparr>us_id = i, us_email = normalize_email A (rg_email dto), us_username = trim (rg_username dto),
    us_password = au_hash A salt (rg_password dto), us_publicKey = None, us_publicKeyFp = None\<rparr>"
  from assms(2) have c: "create_user ?u d = Inr e" and r: "r = auth_response_of A now ?u"
    by (auto simp: auth_register_def bind_result_Inr Let_def split: if_splits)
  have "?u \<in> set (db_users e)" using c by (auto simp: create_user_def split: if_splits)
  then obtain v where v: "v \<in> set (db_users f)" "same_account ?u v"
    using assms(4) unfolding accounts_kept_def by blast
  then have "user_by_email f (normalize_email A email) = Some v"
    using user_by_email_unique[of f v] assms(3,5) by (simp add: db_inv_def same_account_def)
  then show ?thesis
    using assms(1) r v(2) by (simp add: auth_login_def auth_register_def bcrypt_law_def auth_response_of_def same_account_def)
qed

text \<open>C30. Republishing a public key strands nobody: it deletes all and only that user's grants, and
  then every room of the user offers each of its epochs for that user under the new key.\<close>

theorem republish_requeues_every_epoch:
  assumes "db_inv d" and "set_public_key A uid pk d = Inr (r, e)" and "pk \<noteq> []" and "au_fp A pk \<noteq> []"
    and "room_by_id e roomId = Some room" and "is_member_id d roomId uid"
    and "1 \<le> k" and "k \<le> ro_currentKeyId room"
    and "get_pending e roomId requester = Inr ps"
  shows "\<lparr>pg_userId = uid, pg_keyId = k, pg_publicKey = pk\<rparr> \<in> set ps
    \<and> db_grants e = filter (\<lambda>g. gr_userId g \<noteq> uid) (db_grants d)"
proof -
  note eff = set_public_key_effect[OF assms(2)]
  have "db_inv e"
    using assms(2) delete_grants_inv[OF assms(1), of uid]
      update_user_key_inv[of "delete_grants_of_user uid d" uid pk "au_fp A pk" e]
    by (auto simp: set_public_key_def bind_result_Inr Let_def)
  then have u: "keys_unique e"
    by (simp add: db_inv_def)
  obtain v where v: "v \<in> set (db_users e)" "us_id v = uid" "us_publicKey v = Some pk"
    "us_publicKeyFp v = Some (au_fp A pk)"
    using eff(4) by blast
  have m: "is_member_id e roomId (us_id v)"
    using assms(6) v(2) eff(2) by (simp add: is_member_id_def)
  have none: "\<not> list_ex (\<lambda>g. gr_roomId g = roomId \<and> gr_userId g = us_id v \<and> gr_keyId g = k
      \<and> gr_recipientKeyFp g = au_fp A pk) (db_grants e)"
    using eff(3) v(2) by (auto simp: list_ex_iff)
  show ?thesis
    using v m none assms(3,4,7,8) eff(3) pending_grants_set[OF u assms(9,5)] by blast
qed

text \<open>
  The username is measured before it is trimmed: a registration whose username is two blanks passes
  validation and stores the empty username.
\<close>

definition blank_username_body :: json where
  "blank_username_body = JObj [(js ''email'', JStr (js ''a@b.c'')), (js ''username'', JStr (js ''  '')),
     (js ''password'', JStr (js ''12345678''))]"

lemma blank_username_registers:
  assumes "vlen_law vlen" and "is_email (js ''a@b.c'')"
  shows "case register_body vlen is_email blank_username_body of None \<Rightarrow> False
    | Some dto \<Rightarrow> (case auth_register A now i salt dto empty_db of Inl _ \<Rightarrow> False | Inr (r, _) \<Rightarrow> ar_username r = [])"
proof -
  have "vlen (js ''  '') = 2" "vlen (js ''12345678'') = 8"
    using assms(1) by (auto simp: vlen_law_def js_def)
  moreover have "trim (js ''  '') = []"
    by code_simp
  ultimately show ?thesis
    using assms(2)
    by (simp add: register_body_def blank_username_body_def length_between_def auth_register_def
        user_by_email_def empty_db_def create_user_def auth_response_of_def db_result_def Let_def)
qed

section \<open>Witnesses\<close>

definition sample_auth :: auth_env where
  "sample_auth = \<lparr>au_lower = (\<lambda>s. s), au_hash = (\<lambda>salt p. salt @ p), au_compare = (\<lambda>p h. suffix p h),
     au_sign = (\<lambda>c. tc_sub c @ [of_int (tc_iat c)]), au_fp = (\<lambda>k. js ''f'' @ k)\<rparr>"

lemma sample_auth_law [simp]: "bcrypt_law sample_auth"
  by (simp add: bcrypt_law_def sample_auth_def suffix_def)

definition sample_register :: register_dto where
  "sample_register = \<lparr>rg_email = js ''a'', rg_username = js ''w'', rg_password = js ''12345678''\<rparr>"

lemma register_then_login_witness:
  "case auth_register sample_auth 0 (js ''9'') [] sample_register sample_db of Inl _ \<Rightarrow> False
   | Inr (r, e) \<Rightarrow> auth_login sample_auth 5000 (js '' a'') (js ''12345678'') e
       = Inr (r\<lparr>ar_token := au_sign sample_auth (claims_of 5000 (ar_id r) (ar_username r))\<rparr>)"
proof -
  have "succeeds (auth_register sample_auth 0 (js ''9'') [] sample_register sample_db)"
    by code_simp
  then obtain r e where r: "auth_register sample_auth 0 (js ''9'') [] sample_register sample_db = Inr (r, e)"
    by (auto simp: succeeds_iff)
  then have "db_inv e"
    using create_user_inv[OF sample_db_inv] by (auto simp: auth_register_def bind_result_Inr Let_def split: if_splits)
  moreover have n: "normalize_email sample_auth (js '' a'') = normalize_email sample_auth (rg_email sample_register)"
    by code_simp
  ultimately show ?thesis
    using register_then_login[OF sample_auth_law r n accounts_kept_refl] r
    by (simp add: sample_register_def)
qed

definition sample_granted_db :: db where
  "sample_granted_db = sample_enabled_db\<lparr>db_grants := [\<lparr>gr_roomId = js ''1'', gr_userId = js ''u'',
     gr_keyId = 1, gr_wrappedKey = [], gr_recipientKeyFp = js ''fu''\<rparr>]\<rparr>"

lemma republish_requeues_every_epoch_witness:
  "case set_public_key sample_auth (js ''u'') (js ''new'') sample_granted_db of Inl _ \<Rightarrow> False
   | Inr (r, e) \<Rightarrow> (case get_pending e (js ''1'') (js ''u'') of Inl _ \<Rightarrow> False
       | Inr ps \<Rightarrow> \<lparr>pg_userId = js ''u'', pg_keyId = 1, pg_publicKey = js ''new''\<rparr> \<in> set ps)"
proof -
  have "case set_public_key sample_auth (js ''u'') (js ''new'') sample_granted_db of Inl _ \<Rightarrow> False
    | Inr (r, e) \<Rightarrow> succeeds (get_pending e (js ''1'') (js ''u''))"
    by code_simp
  then obtain r e ps where r: "set_public_key sample_auth (js ''u'') (js ''new'') sample_granted_db = Inr (r, e)"
    and ps: "get_pending e (js ''1'') (js ''u'') = Inr ps"
    by (auto simp: succeeds_iff split: sum.splits)
  have inv: "db_inv sample_granted_db"
    by (simp add: sample_granted_db_def sample_enabled_db_def sample_keys_db_def sample_user_def
        sample_room_def empty_db_def inv_defs epoch_reached_def is_member_id_def)
  have rooms: "db_rooms e = [sample_room\<lparr>ro_currentKeyId := 1\<rparr>]"
    using set_public_key_effect(1)[OF r] by (simp add: sample_granted_db_def sample_enabled_db_def)
  have room: "room_by_id e (js ''1'') = Some (sample_room\<lparr>ro_currentKeyId := 1\<rparr>)"
    by (simp add: room_by_id_def rooms sample_room_def)
  have m: "is_member_id sample_granted_db (js ''1'') (js ''u'')"
    by (simp add: sample_granted_db_def sample_enabled_db_def sample_keys_db_def is_member_id_def)
  show ?thesis
    using republish_requeues_every_epoch[OF inv r _ _ room m _ _ ps, of 1] r ps
    by (simp add: sample_auth_def)
qed

end
