(* ===== verification/Http.thy ===== *)
theory Http
  imports JString Prelude
begin

text \<open>
  The outcome of a \<open>fetch\<close> of the app, what may go wrong on its way, and the error messages it derives from it: \<open>authFetch\<close> of
  \<open>crypto/keyFlows.ts\<close> and \<open>extractErrorMessage\<close> of \<open>store/rooms.store.ts\<close>.
\<close>

text \<open>The \<open>message\<close> of an error body: absent (or no JSON object), a text, or a list of texts.\<close>

datatype message_field = NoMessage | MsgText jstr | MsgList "jstr list"

text \<open>No response, a response that is not ok, one whose body is not the expected JSON, or an answer.\<close>

datatype 'a http = NoResponse | HttpError nat message_field | Garbled | HttpOk 'a

text \<open>
  The way to the server and back. A request is delivered and answered, or fails before its handler ran
  (the network, a guard, the throttler), or the handler ran and its answer did not get through; the
  app sees no response, an error status or a body that is not JSON.
\<close>

datatype failure = NoAnswer | ErrorStatus nat message_field | BrokenBody

datatype delivery = Delivered | NotReached failure | AnswerLost failure

fun seen_as :: "failure \<Rightarrow> 'a http" where
  "seen_as NoAnswer = NoResponse"
| "seen_as (ErrorStatus n m) = HttpError n m"
| "seen_as BrokenBody = Garbled"

fun over_network :: "delivery \<Rightarrow> ('s \<Rightarrow> 'a http \<times> 's) \<Rightarrow> 's \<Rightarrow> 'a http \<times> 's" where
  "over_network Delivered send s = send s"
| "over_network (NotReached f) send s = (seen_as f, s)"
| "over_network (AnswerLost f) send s = (seen_as f, snd (send s))"

lemma seen_as_error [simp]: "seen_as f \<noteq> HttpOk x"
  by (cases f) simp_all

lemma over_network_HttpOk: "over_network w send s = (HttpOk x, s') \<longleftrightarrow> w = Delivered \<and> send s = (HttpOk x, s')"
  by (cases w) simp_all

lemma over_network_state: "snd (over_network w send s) = s \<or> snd (over_network w send s) = snd (send s)"
  by (cases w) simp_all

datatype flow_error = NetworkFailure | RequestFailed jstr | BadResponse | SodiumFailure | IdentityUnreadable

definition auth_fetch :: "'a http \<Rightarrow> flow_error + 'a" where
  "auth_fetch res = (case res of
     NoResponse \<Rightarrow> Inl NetworkFailure
   | HttpError status message \<Rightarrow> Inl (RequestFailed (case message of
         NoMessage \<Rightarrow> js ''E2EE request failed: '' @ dec_nat status
       | MsgText t \<Rightarrow> t
       | MsgList ts \<Rightarrow> join (js '', '') ts))
   | Garbled \<Rightarrow> Inl BadResponse
   | HttpOk x \<Rightarrow> Inr x)"

definition extract_error_message :: "message_field \<Rightarrow> jstr \<Rightarrow> jstr" where
  "extract_error_message message fallback = (case message of
     NoMessage \<Rightarrow> fallback
   | MsgText t \<Rightarrow> t
   | MsgList ts \<Rightarrow> if ts \<noteq> [] then join (js '', '') ts else fallback)"

lemma auth_fetch_Inr [simp]: "auth_fetch res = Inr x \<longleftrightarrow> res = HttpOk x"
  by (cases res) (auto simp: auth_fetch_def)

lemma auth_fetch_HttpOk: "auth_fetch (HttpOk x) = Inr x"
  by simp

end
