(* ===== verification/Storage.thy ===== *)
theory Storage
  imports JString
begin

text \<open>
  The key-value stores of the client behind one interface (\<open>IStorage\<close>, \<open>SecureKeyValueStore\<close>):
  \<open>MemoryStorage\<close> of \<open>SQLitePersistence.ts\<close> and the expo-sqlite adapter of \<open>useSync.ts\<close>, whose
  statements act on a table with a primary key. The promises settle in the order of the calls.
\<close>

record 's kv_ops =
  kv_get :: "jstr \<Rightarrow> 's \<Rightarrow> jstr option"
  kv_set :: "jstr \<Rightarrow> jstr \<Rightarrow> 's \<Rightarrow> 's"
  kv_remove :: "jstr \<Rightarrow> 's \<Rightarrow> 's"

section \<open>The interface\<close>

locale kv_store =
  fixes S :: "'s kv_ops"
  assumes get_set: "kv_get S k (kv_set S k' v s) = (if k = k' then Some v else kv_get S k s)"
    and get_remove: "kv_get S k (kv_remove S k' s) = (if k = k' then None else kv_get S k s)"
begin

lemma frame_set: "k \<noteq> k' \<Longrightarrow> kv_get S k (kv_set S k' v s) = kv_get S k s"
  by (simp add: get_set)

lemma frame_remove: "k \<noteq> k' \<Longrightarrow> kv_get S k (kv_remove S k' s) = kv_get S k s"
  by (simp add: get_remove)

text \<open>Of a sequence of writes the last one to a key is what is read.\<close>

lemma last_write_wins:
  "kv_get S k (fold (\<lambda>(k', v). kv_set S k' v) ws s)
    = (case map_of (rev ws) k of None \<Rightarrow> kv_get S k s | Some v \<Rightarrow> Some v)"
proof (induction ws arbitrary: s)
  case (Cons w ws)
  then show ?case
    by (cases w) (auto simp: get_set map_add_def split: option.split)
qed simp

lemma last_value_wins:
  "kv_get S k (fold (kv_set S k) vs s) = (if vs = [] then kv_get S k s else Some (last vs))"
  by (induction vs arbitrary: s) (simp_all add: get_set)

lemma frame_values: "k \<noteq> k' \<Longrightarrow> kv_get S k (fold (kv_set S k') vs s) = kv_get S k s"
  by (induction vs arbitrary: s) (simp_all add: get_set)

end

section \<open>\<open>MemoryStorage\<close>\<close>

type_synonym memory = "(jstr \<times> jstr) list"

definition memory_get :: "jstr \<Rightarrow> memory \<Rightarrow> jstr option" where
  "memory_get k s = map_of s k"

definition memory_set :: "jstr \<Rightarrow> jstr \<Rightarrow> memory \<Rightarrow> memory" where
  "memory_set k v s = AList.update k v s"

definition memory_remove :: "jstr \<Rightarrow> memory \<Rightarrow> memory" where
  "memory_remove k s = AList.delete k s"

definition memory_storage :: "memory kv_ops" where
  "memory_storage = \<lparr>kv_get = memory_get, kv_set = memory_set, kv_remove = memory_remove\<rparr>"

interpretation memory: kv_store memory_storage
  by unfold_locales (simp_all add: memory_storage_def memory_get_def memory_set_def memory_remove_def)

section \<open>The SQLite adapter\<close>

record kv_row =
  kr_key :: jstr
  kr_value :: jstr

text \<open>\<open>SELECT value FROM yjs_kv WHERE key = ?\<close>, first row.\<close>

definition sqlite_get :: "jstr \<Rightarrow> kv_row list \<Rightarrow> jstr option" where
  "sqlite_get k rows = map_option kr_value (find (\<lambda>r. kr_key r = k) rows)"

text \<open>\<open>INSERT ... ON CONFLICT(key) DO UPDATE SET value = excluded.value\<close>.\<close>

definition sqlite_set :: "jstr \<Rightarrow> jstr \<Rightarrow> kv_row list \<Rightarrow> kv_row list" where
  "sqlite_set k v rows =
     (if list_ex (\<lambda>r. kr_key r = k) rows
      then map (\<lambda>r. if kr_key r = k then r\<lparr>kr_value := v\<rparr> else r) rows
      else rows @ [\<lparr>kr_key = k, kr_value = v\<rparr>])"

definition sqlite_remove :: "jstr \<Rightarrow> kv_row list \<Rightarrow> kv_row list" where
  "sqlite_remove k rows = filter (\<lambda>r. kr_key r \<noteq> k) rows"

definition sqlite_storage :: "kv_row list kv_ops" where
  "sqlite_storage = \<lparr>kv_get = sqlite_get, kv_set = sqlite_set, kv_remove = sqlite_remove\<rparr>"

lemma sqlite_get_simps [simp]:
  "sqlite_get k [] = None"
  "sqlite_get k (r # rows) = (if kr_key r = k then Some (kr_value r) else sqlite_get k rows)"
  by (simp_all add: sqlite_get_def)

lemma sqlite_get_update:
  "list_ex (\<lambda>r. kr_key r = k') rows \<Longrightarrow>
    sqlite_get k (map (\<lambda>r. if kr_key r = k' then r\<lparr>kr_value := v\<rparr> else r) rows)
      = (if k = k' then Some v else sqlite_get k rows)"
proof (induction rows)
  case (Cons r rows)
  have "map (\<lambda>r. if kr_key r = k' then r\<lparr>kr_value := v\<rparr> else r) rows = rows"
    if "\<not> list_ex (\<lambda>r. kr_key r = k') rows"
    using that by (intro map_idI) (auto simp: list_ex_iff)
  with Cons show ?case
    by (cases "list_ex (\<lambda>r. kr_key r = k') rows"; cases "k = k'") simp_all
qed simp

lemma sqlite_get_append:
  "sqlite_get k (rows @ [r]) = (case sqlite_get k rows of None \<Rightarrow> if kr_key r = k then Some (kr_value r) else None
     | Some v \<Rightarrow> Some v)"
  by (induction rows) simp_all

lemma sqlite_get_absent: "\<not> list_ex (\<lambda>r. kr_key r = k) rows \<Longrightarrow> sqlite_get k rows = None"
  by (induction rows) simp_all

lemma sqlite_get_set: "sqlite_get k (sqlite_set k' v rows) = (if k = k' then Some v else sqlite_get k rows)"
  by (simp add: sqlite_set_def sqlite_get_update sqlite_get_append sqlite_get_absent split: option.split)

lemma sqlite_get_remove: "sqlite_get k (sqlite_remove k' rows) = (if k = k' then None else sqlite_get k rows)"
  by (cases "k = k'"; induction rows) (simp_all add: sqlite_remove_def)

interpretation sqlite: kv_store sqlite_storage
  by unfold_locales (simp_all add: sqlite_storage_def sqlite_get_set sqlite_get_remove)

end
