(* ===== verification/Key_Store.thy ===== *)
theory Key_Store
  imports Storage Json
begin

text \<open>
  \<open>crypto/keyStore.ts\<close> and \<open>crypto/e2eeStickyStore.ts\<close>: the device's identity, the room keys of every
  epoch and the flag of rooms seen encrypted, under named keys of one secure key-value store.
\<close>

section \<open>\<open>RoomKeyStore\<close>\<close>

record identity_key_pair =
  ik_publicKey :: jstr
  ik_privateKey :: jstr

definition identity_storage_key :: jstr where
  "identity_storage_key = js ''e2ee.identity''"

definition room_key_storage_key :: "jstr \<Rightarrow> nat \<Rightarrow> jstr" where
  "room_key_storage_key roomId keyId = js ''e2ee.roomKey.'' @ roomId @ [46] @ dec_nat keyId"

definition current_epoch_storage_key :: "jstr \<Rightarrow> jstr" where
  "current_epoch_storage_key roomId = js ''e2ee.currentEpoch.'' @ roomId"

text \<open>
  \<open>getIdentity\<close> casts what \<open>JSON.parse\<close> returns; a stored text that is no JSON object with the two
  strings is \<open>CorruptIdentity\<close> (the parse throws, or the first use of a missing field does).
\<close>

datatype key_store_error = CorruptIdentity

definition identity_to_json :: "identity_key_pair \<Rightarrow> json" where
  "identity_to_json i = JObj [(js ''publicKey'', JStr (ik_publicKey i)), (js ''privateKey'', JStr (ik_privateKey i))]"

definition identity_of_json :: "json \<Rightarrow> identity_key_pair option" where
  "identity_of_json v = (case (json_get v (js ''publicKey''), json_get v (js ''privateKey'')) of
     (Some (JStr pk), Some (JStr sk)) \<Rightarrow> Some \<lparr>ik_publicKey = pk, ik_privateKey = sk\<rparr>
   | _ \<Rightarrow> None)"

definition get_identity :: "'s kv_ops \<Rightarrow> 's \<Rightarrow> key_store_error + identity_key_pair option" where
  "get_identity K s = (case kv_get K identity_storage_key s of
     None \<Rightarrow> Inr None
   | Some raw \<Rightarrow> if raw = [] then Inr None
       else (case Option.bind (json_parse raw) identity_of_json of
               None \<Rightarrow> Inl CorruptIdentity | Some i \<Rightarrow> Inr (Some i)))"

definition set_identity :: "'s kv_ops \<Rightarrow> identity_key_pair \<Rightarrow> 's \<Rightarrow> 's" where
  "set_identity K i = kv_set K identity_storage_key (json_stringify (identity_to_json i))"

definition clear_identity :: "'s kv_ops \<Rightarrow> 's \<Rightarrow> 's" where
  "clear_identity K = kv_remove K identity_storage_key"

definition get_room_key :: "'s kv_ops \<Rightarrow> jstr \<Rightarrow> nat \<Rightarrow> 's \<Rightarrow> jstr option" where
  "get_room_key K roomId keyId = kv_get K (room_key_storage_key roomId keyId)"

text \<open>\<open>null\<close> without an entry, \<open>Some None\<close> when \<open>Number\<close> yields NaN.\<close>

definition get_cached_current_epoch :: "'s kv_ops \<Rightarrow> jstr \<Rightarrow> 's \<Rightarrow> nat option option" where
  "get_cached_current_epoch K roomId s =
     map_option number_of_digits (kv_get K (current_epoch_storage_key roomId) s)"

definition cache_room_key :: "'s kv_ops \<Rightarrow> jstr \<Rightarrow> nat \<Rightarrow> jstr \<Rightarrow> 's \<Rightarrow> 's" where
  "cache_room_key K roomId keyId keyBase64 s0 =
     (let s = kv_set K (room_key_storage_key roomId keyId) keyBase64 s0
      in if (case get_cached_current_epoch K roomId s of
               None \<Rightarrow> True | Some None \<Rightarrow> False | Some (Some current) \<Rightarrow> keyId > current)
         then kv_set K (current_epoch_storage_key roomId) (dec_nat keyId) s
         else s)"

section \<open>\<open>E2eeStickyStore\<close>\<close>

definition sticky_storage_key :: "jstr \<Rightarrow> jstr" where
  "sticky_storage_key room = js ''e2ee-ever.'' @ room"

text \<open>\<open>readable\<close> is false when the store throws.\<close>

definition was_ever_e2ee :: "'s kv_ops \<Rightarrow> bool \<Rightarrow> jstr \<Rightarrow> 's \<Rightarrow> bool" where
  "was_ever_e2ee K readable room s = (if readable then kv_get K (sticky_storage_key room) s = Some (js ''1'') else True)"

definition mark_e2ee :: "'s kv_ops \<Rightarrow> jstr \<Rightarrow> 's \<Rightarrow> 's" where
  "mark_e2ee K room = kv_set K (sticky_storage_key room) (js ''1'')"

section \<open>The names do not collide\<close>

lemma storage_keys_distinct [simp]:
  "room_key_storage_key r k = room_key_storage_key r' k' \<longleftrightarrow> r = r' \<and> k = k'"
  "current_epoch_storage_key r = current_epoch_storage_key r' \<longleftrightarrow> r = r'"
  "sticky_storage_key r = sticky_storage_key r' \<longleftrightarrow> r = r'"
  "room_key_storage_key r k \<noteq> current_epoch_storage_key r'"
  "current_epoch_storage_key r' \<noteq> room_key_storage_key r k"
  "room_key_storage_key r k \<noteq> identity_storage_key" "identity_storage_key \<noteq> room_key_storage_key r k"
  "current_epoch_storage_key r \<noteq> identity_storage_key" "identity_storage_key \<noteq> current_epoch_storage_key r"
  "sticky_storage_key r \<noteq> identity_storage_key" "identity_storage_key \<noteq> sticky_storage_key r"
  "sticky_storage_key r \<noteq> room_key_storage_key r' k" "room_key_storage_key r' k \<noteq> sticky_storage_key r"
  "sticky_storage_key r \<noteq> current_epoch_storage_key r'" "current_epoch_storage_key r' \<noteq> sticky_storage_key r"
  using append_dec_nat_inj[of 46 r k r' k']
  by (auto simp: room_key_storage_key_def current_epoch_storage_key_def identity_storage_key_def
      sticky_storage_key_def js_def is_digit_def)

context kv_store
begin

lemma get_set_identity: "get_identity S (set_identity S i s) = Inr (Some i)"
proof -
  have "json_parse (json_stringify (identity_to_json i)) = Some (identity_to_json i)"
    by (rule json_roundtrip) (simp add: identity_to_json_def)
  moreover have "identity_of_json (identity_to_json i) = Some i"
    by (simp add: identity_of_json_def identity_to_json_def)
  moreover have "json_stringify (identity_to_json i) \<noteq> []"
    by (simp add: identity_to_json_def)
  ultimately show ?thesis
    by (simp add: get_identity_def set_identity_def get_set)
qed

lemma cache_room_key_gets:
  "get_room_key S r k (cache_room_key S r' k' v s) = (if r = r' \<and> k = k' then Some v else get_room_key S r k s)"
  "get_identity S (cache_room_key S r' k' v s) = get_identity S s"
  "kv_get S (sticky_storage_key r) (cache_room_key S r' k' v s) = kv_get S (sticky_storage_key r) s"
  by (simp_all add: get_room_key_def cache_room_key_def get_identity_def get_set Let_def)

lemma cache_room_key_epoch:
  "get_cached_current_epoch S r (cache_room_key S r' k' v s) =
     (if r = r' then (case get_cached_current_epoch S r s of
          None \<Rightarrow> Some (Some k') | Some None \<Rightarrow> Some None | Some (Some k) \<Rightarrow> Some (Some (max k k')))
      else get_cached_current_epoch S r s)"
  by (auto simp: get_cached_current_epoch_def cache_room_key_def get_set Let_def max_def
      split: option.split)

lemma set_identity_keeps: "get_room_key S r k (set_identity S i s) = get_room_key S r k s"
  by (simp add: get_room_key_def set_identity_def get_set)

lemma clear_identity_keeps:
  "get_identity S (clear_identity S s) = Inr None"
  "get_room_key S r k (clear_identity S s) = get_room_key S r k s"
  by (simp_all add: get_identity_def clear_identity_def get_room_key_def get_remove)

lemma was_ever_e2ee_mark:
  "was_ever_e2ee S ok r (mark_e2ee S r' s) \<longleftrightarrow> \<not> ok \<or> r = r' \<or> was_ever_e2ee S ok r s"
  by (simp add: was_ever_e2ee_def mark_e2ee_def get_set)

end

section \<open>Property\<close>

definition cache_room_keys :: "'s kv_ops \<Rightarrow> (jstr \<times> nat \<times> jstr) list \<Rightarrow> 's \<Rightarrow> 's" where
  "cache_room_keys K ws = fold (\<lambda>(r, k, v). cache_room_key K r k v) ws"

definition epochs_of :: "jstr \<Rightarrow> (jstr \<times> nat \<times> jstr) list \<Rightarrow> nat list" where
  "epochs_of r ws = map (fst \<circ> snd) (filter (\<lambda>w. fst w = r) ws)"

lemma cached_keys:
  assumes "kv_store K"
  shows "get_room_key K r k (cache_room_keys K ws s) =
     (case map_of (rev (map (\<lambda>(r, k, v). ((r, k), v)) ws)) (r, k) of
        None \<Rightarrow> get_room_key K r k s | Some v \<Rightarrow> Some v)"
proof (induction ws arbitrary: s)
  case (Cons w ws)
  obtain a b c where "w = (a, b, c)" by (cases w)
  with Cons kv_store.cache_room_key_gets(1)[OF assms] show ?case
    by (auto simp: cache_room_keys_def map_add_def split: option.split)
qed (simp add: cache_room_keys_def)

lemma cached_epoch:
  assumes "kv_store K"
  shows "get_cached_current_epoch K r s = Some (Some n) \<Longrightarrow>
    get_cached_current_epoch K r (cache_room_keys K ws s) = Some (Some (fold max (epochs_of r ws) n))"
proof (induction ws arbitrary: s n)
  case (Cons w ws)
  obtain a b c where w: "w = (a, b, c)" by (cases w)
  have "get_cached_current_epoch K r (cache_room_key K a b c s)
      = Some (Some (if r = a then max n b else n))"
    using Cons.prems by (auto simp: kv_store.cache_room_key_epoch[OF assms])
  from Cons.IH[OF this] w show ?case
    by (simp add: cache_room_keys_def epochs_of_def max.commute)
qed (simp add: cache_room_keys_def epochs_of_def)

text \<open>The key cache keeps every epoch of every room apart: after any sequence of grants, reading a
  key returns the last one cached for exactly that room and epoch, the room's current epoch is the
  highest one cached for it, and the device's identity is untouched.\<close>

theorem key_cache_keeps_every_epoch:
  assumes "kv_store K"
  shows "get_room_key K r k (cache_room_keys K ws s) =
      (case map_of (rev (map (\<lambda>(r, k, v). ((r, k), v)) ws)) (r, k) of
         None \<Rightarrow> get_room_key K r k s | Some v \<Rightarrow> Some v)
    \<and> (get_cached_current_epoch K r s = None \<longrightarrow> get_cached_current_epoch K r (cache_room_keys K ws s) =
         (if epochs_of r ws = [] then None else Some (Some (Max (set (epochs_of r ws))))))
    \<and> get_identity K (cache_room_keys K ws s) = get_identity K s"
proof (intro conjI impI)
  show "get_identity K (cache_room_keys K ws s) = get_identity K s"
    by (induction ws arbitrary: s)
      (auto simp: cache_room_keys_def kv_store.cache_room_key_gets(2)[OF assms])
next
  assume "get_cached_current_epoch K r s = None"
  then show "get_cached_current_epoch K r (cache_room_keys K ws s) =
      (if epochs_of r ws = [] then None else Some (Some (Max (set (epochs_of r ws)))))"
  proof (induction ws arbitrary: s)
    case (Cons w ws)
    obtain a b c where w: "w = (a, b, c)" by (cases w)
    let ?s = "cache_room_key K a b c s"
    have step: "cache_room_keys K (w # ws) s = cache_room_keys K ws ?s"
      by (simp add: cache_room_keys_def w)
    show ?case
    proof (cases "r = a")
      case True
      with Cons.prems have "get_cached_current_epoch K r ?s = Some (Some b)"
        by (simp add: kv_store.cache_room_key_epoch[OF assms])
      moreover have "epochs_of r (w # ws) = b # epochs_of r ws"
        using True w by (simp add: epochs_of_def)
      ultimately show ?thesis
        using cached_epoch[OF assms, where n = b] step by (simp add: Max.set_eq_fold del: set_simps)
    next
      case False
      with Cons.prems have "get_cached_current_epoch K r ?s = None"
        by (simp add: kv_store.cache_room_key_epoch[OF assms])
      from Cons.IH[OF this] False w step show ?thesis
        by (simp add: epochs_of_def)
    qed
  qed (simp add: cache_room_keys_def epochs_of_def)
qed (rule cached_keys[OF assms])

lemma key_cache_keeps_every_epoch_witness:
  "get_room_key memory_storage (js ''r'') 2 (cache_room_keys memory_storage
      [(js ''r'', 2, js ''b''), (js ''q'', 7, js ''x''), (js ''r'', 1, js ''a'')] []) = Some (js ''b'')
    \<and> get_cached_current_epoch memory_storage (js ''r'') (cache_room_keys memory_storage
      [(js ''r'', 2, js ''b''), (js ''q'', 7, js ''x''), (js ''r'', 1, js ''a'')] []) = Some (Some 2)"
proof -
  have "get_cached_current_epoch memory_storage (js ''r'') [] = None"
    by (simp add: get_cached_current_epoch_def memory_storage_def memory_get_def)
  with key_cache_keeps_every_epoch[OF memory.kv_store_axioms, where r = "js ''r''" and k = 2 and s = "[]"
      and ws = "[(js ''r'', 2, js ''b''), (js ''q'', 7, js ''x''), (js ''r'', 1, js ''a'')]"]
  show ?thesis by (simp add: epochs_of_def)
qed

end
