(* ===== verification/Auth_Store.thy ===== *)
theory Auth_Store
  imports Chat_Store Accounts Http Key_Store
begin

text \<open>
  \<open>store/auth.store.ts\<close>: login, registration, logout and the session restored from the secure store,
  for the answers of the server as they arrive.
\<close>

record auth_user =
  ud_id :: jstr
  ud_email :: jstr
  ud_username :: jstr

record auth_state =
  st_token :: "jstr option"
  st_user :: "auth_user option"
  st_isLoading :: bool

definition new_auth_state :: auth_state where
  "new_auth_state = \<lparr>st_token = None, st_user = None, st_isLoading = True\<rparr>"

definition token_key :: jstr where "token_key = js ''auth_token''"

text \<open>The \<open>AuthResponse\<close> as JSON, and read back.\<close>

definition auth_to_json :: "auth_response \<Rightarrow> json" where
  "auth_to_json r = JObj [(js ''token'', JStr (ar_token r)), (js ''user'', JObj [(js ''id'', JStr (ar_id r)),
     (js ''email'', JStr (ar_email r)), (js ''username'', JStr (ar_username r))])]"

definition auth_of_json :: "json \<Rightarrow> (jstr \<times> auth_user) option" where
  "auth_of_json v = (case (json_get v (js ''token''), json_get v (js ''user'')) of
     (Some (JStr t), Some u) \<Rightarrow>
       (case (json_get u (js ''id''), json_get u (js ''email''), json_get u (js ''username'')) of
          (Some (JStr i), Some (JStr e), Some (JStr n)) \<Rightarrow>
            Some (t, \<lparr>ud_id = i, ud_email = e, ud_username = n\<rparr>)
        | _ \<Rightarrow> None)
   | _ \<Rightarrow> None)"

section \<open>Actions\<close>

definition load_from_storage :: "'s kv_ops \<Rightarrow> 's \<Rightarrow> auth_state \<Rightarrow> auth_state" where
  "load_from_storage K s a = (case kv_get K token_key s of
     None \<Rightarrow> a\<lparr>st_isLoading := False\<rparr>
   | Some raw \<Rightarrow>
       if raw = [] then a\<lparr>st_isLoading := False\<rparr>
       else (case Option.bind (json_parse raw) auth_of_json of
               None \<Rightarrow> a\<lparr>st_isLoading := False\<rparr>
             | Some (token, user) \<Rightarrow> \<lparr>st_token = Some token, st_user = Some user, st_isLoading = False\<rparr>))"

text \<open>The error of a refused request: the body's message, a list joined as JavaScript prints it, or the fallback.\<close>

definition auth_error :: "message_field \<Rightarrow> jstr \<Rightarrow> jstr" where
  "auth_error message fallback = (case message of NoMessage \<Rightarrow> fallback | MsgText t \<Rightarrow> t | MsgList ts \<Rightarrow> join [44] ts)"

definition session_begins ::
  "'s kv_ops \<Rightarrow> jstr \<Rightarrow> auth_response http \<Rightarrow> 's \<Rightarrow> auth_state \<Rightarrow> (jstr option + unit) \<times> 's \<times> auth_state" where
  "session_begins K fallback res s a = (case res of
     HttpOk data \<Rightarrow> (Inr (), kv_set K token_key (json_stringify (auth_to_json data)) s,
       a\<lparr>st_token := Some (ar_token data),
          st_user := Some \<lparr>ud_id = ar_id data, ud_email = ar_email data, ud_username = ar_username data\<rparr>\<rparr>)
   | HttpError _ m \<Rightarrow> (Inl (Some (auth_error m fallback)), s, a)
   | NoResponse \<Rightarrow> (Inl None, s, a)
   | Garbled \<Rightarrow> (Inl None, s, a))"

definition login_end where "login_end K = session_begins K (js ''Login failed'')"
definition register_end where "register_end K = session_begins K (js ''Register failed'')"

definition logout :: "'s kv_ops \<Rightarrow> 's \<Rightarrow> 'c chat_state \<Rightarrow> auth_state \<Rightarrow> 's \<times> 'c chat_state \<times> auth_state" where
  "logout K s chat a = (kv_remove K token_key s, clear_all_e2ee_rejections chat, a\<lparr>st_token := None, st_user := None\<rparr>)"

section \<open>Properties\<close>

lemma auth_json_roundtrip:
  "Option.bind (json_parse (json_stringify (auth_to_json r))) auth_of_json =
     Some (ar_token r, \<lparr>ud_id = ar_id r, ud_email = ar_email r, ud_username = ar_username r\<rparr>)"
proof -
  have "json_parse (json_stringify (auth_to_json r)) = Some (auth_to_json r)"
    by (rule json_roundtrip) (simp add: auth_to_json_def)
  then show ?thesis by (simp add: auth_to_json_def auth_of_json_def)
qed

lemma auth_json_nonempty: "json_stringify (auth_to_json r) \<noteq> []"
  by (simp add: auth_to_json_def)

text \<open>A session survives a restart and ends with logout: after a successful login or registration a
  fresh start of the app restores the same token and user, whatever else was stored, and after a logout
  it restores none and no refused text is left for the next account; the device's identity and room
  keys stay.\<close>

theorem session_restored_until_logout:
  assumes "kv_store K" and "session_begins K fallback (HttpOk r) s a = (Inr (), s', a')"
  shows "load_from_storage K s' new_auth_state = a'\<lparr>st_isLoading := False\<rparr>
    \<and> st_token a' = Some (ar_token r)
    \<and> (case logout K s' chat a' of (s'', chat', a'') \<Rightarrow>
         st_token (load_from_storage K s'' new_auth_state) = None \<and> st_user (load_from_storage K s'' new_auth_state) = None
         \<and> (\<forall>room. ch_e2eeRejectionByRoom chat' room = None)
         \<and> get_identity K s'' = get_identity K s \<and> get_room_key K room k s'' = get_room_key K room k s)"
proof -
  have s': "s' = kv_set K token_key (json_stringify (auth_to_json r)) s"
    and a': "st_token a' = Some (ar_token r)"
      "st_user a' = Some \<lparr>ud_id = ar_id r, ud_email = ar_email r, ud_username = ar_username r\<rparr>"
    using assms(2) by (auto simp: session_begins_def)
  have names: "token_key \<noteq> identity_storage_key" "token_key \<noteq> room_key_storage_key room k"
    by (auto simp: token_key_def identity_storage_key_def room_key_storage_key_def js_def)
  have restored: "load_from_storage K s' new_auth_state = a'\<lparr>st_isLoading := False\<rparr>"
    using a' auth_json_nonempty[of r]
    by (simp add: load_from_storage_def s' kv_store.get_set[OF assms(1)] auth_json_roundtrip)
  show ?thesis
    using restored a' names
    by (auto simp: logout_def load_from_storage_def kv_store.get_remove[OF assms(1)] new_auth_state_def
        clear_all_e2ee_rejections_def get_identity_def get_room_key_def s' kv_store.get_set[OF assms(1)])
qed

lemma session_restored_until_logout_witness:
  "case session_begins memory_storage [] (HttpOk \<lparr>ar_token = js ''t'', ar_id = js ''u'', ar_email = js ''e'', ar_username = js ''n''\<rparr>)
      [] new_auth_state of (res, s', a') \<Rightarrow> st_token (load_from_storage memory_storage s' new_auth_state) = Some (js ''t'')"
proof -
  let ?r = "\<lparr>ar_token = js ''t'', ar_id = js ''u'', ar_email = js ''e'', ar_username = js ''n''\<rparr>"
  obtain s' a' where run: "session_begins memory_storage [] (HttpOk ?r) [] new_auth_state = (Inr (), s', a')"
    by (simp add: session_begins_def)
  from session_restored_until_logout[OF memory.kv_store_axioms run, where room = "[]" and k = 0 and chat = "new_chat_state :: nat chat_state"]
  have "load_from_storage memory_storage s' new_auth_state = a'\<lparr>st_isLoading := False\<rparr> \<and> st_token a' = Some (js ''t'')"
    by simp
  with run show ?thesis by simp
qed

end
