(* ===== verification/Room_Refresher.thy ===== *)
theory Room_Refresher
  imports Content_Cipher Rooms_Service Ws_Provider
begin

text \<open>
  \<open>crypto/roomRefresher.ts\<close>: the refresh of a room's summary behind its end-to-end state, with its
  deduplication, its retries and the drop of late results, cut at each await; and the sequencing of
  the requests for the rooms list.
\<close>

section \<open>State\<close>

definition refresher_base_retry_ms :: nat where "refresher_base_retry_ms = 1000"
definition refresher_max_retry_ms :: nat where "refresher_max_retry_ms = 30000"

text \<open>The outcome of \<open>fetchRooms\<close>.\<close>

datatype rooms_fetch_result = FetchOk "room_summary list" | FetchHttpError nat | FetchNetworkError

record room_entry =
  en_generation :: nat
  en_inFlight :: "nat option"
  en_retryTimer :: "nat option"
  en_failures :: nat

text \<open>An asynchronous run of \<open>refresh\<close> and a retry timer, with what their closures captured.\<close>

record refresh_run =
  rn_room :: jstr
  rn_entry :: nat
  rn_generation :: nat
  rn_flagRead :: bool

record retry_timer =
  rt_room :: jstr
  rt_entry :: nat
  rt_generation :: nat
  rt_delay :: nat

text \<open>Entries are objects: \<open>rf_entries\<close> names those in the map, \<open>rf_heap\<close> holds them all.\<close>

record refresher =
  rf_entries :: "jstr \<Rightarrow> nat option"
  rf_heap :: "nat \<Rightarrow> room_entry"
  rf_runs :: "nat \<Rightarrow> refresh_run option"
  rf_timers :: "nat \<Rightarrow> retry_timer option"
  rf_fresh :: nat

datatype refresher_effect =
    OnRefresh jstr "room_refresh_state option"
  | OnEverE2ee jstr
  | OnRooms "room_summary list"

definition new_entry :: room_entry where
  "new_entry = \<lparr>en_generation = 0, en_inFlight = None, en_retryTimer = None, en_failures = 0\<rparr>"

definition new_refresher :: refresher where
  "new_refresher = \<lparr>rf_entries = (\<lambda>_. None), rf_heap = (\<lambda>_. new_entry), rf_runs = (\<lambda>_. None),
     rf_timers = (\<lambda>_. None), rf_fresh = 0\<rparr>"

section \<open>Operations\<close>

definition entry_for :: "jstr \<Rightarrow> refresher \<Rightarrow> nat \<times> refresher" where
  "entry_for room r = (case rf_entries r room of
     Some i \<Rightarrow> (i, r)
   | None \<Rightarrow> (rf_fresh r, r\<lparr>rf_heap := (rf_heap r)(rf_fresh r := new_entry),
                           rf_entries := (rf_entries r)(room := Some (rf_fresh r)), rf_fresh := rf_fresh r + 1\<rparr>))"

definition classify :: "jstr \<Rightarrow> rooms_fetch_result \<Rightarrow> status option \<Rightarrow> room_refresh_state" where
  "classify room result socketState = (case result of
     FetchOk rooms \<Rightarrow> (case find (\<lambda>s. sm_name s = room) rooms of
         Some summary \<Rightarrow> RfOk (sm_currentKeyId summary)
       | None \<Rightarrow> RfError)
   | FetchNetworkError \<Rightarrow> if socketState = Some StDisconnected then RfOffline else RfError
   | FetchHttpError _ \<Rightarrow> RfError)"

definition set_entry :: "nat \<Rightarrow> room_entry \<Rightarrow> refresher \<Rightarrow> refresher" where
  "set_entry i e r = r\<lparr>rf_heap := (rf_heap r)(i := e)\<rparr>"

definition clear_retry :: "nat \<Rightarrow> refresher \<Rightarrow> refresher" where
  "clear_retry i r = (case en_retryTimer (rf_heap r i) of
     None \<Rightarrow> r
   | Some t \<Rightarrow> set_entry i ((rf_heap r i)\<lparr>en_retryTimer := None\<rparr>) (r\<lparr>rf_timers := (rf_timers r)(t := None)\<rparr>))"

definition start_run :: "jstr \<Rightarrow> nat \<Rightarrow> refresher \<Rightarrow> refresher" where
  "start_run room i r =
     (let run = \<lparr>rn_room = room, rn_entry = i, rn_generation = en_generation (rf_heap r i), rn_flagRead = False\<rparr>
      in set_entry i ((rf_heap r i)\<lparr>en_inFlight := Some (rf_fresh r)\<rparr>)
           (r\<lparr>rf_runs := (rf_runs r)(rf_fresh r := Some run), rf_fresh := rf_fresh r + 1\<rparr>))"

definition refresh :: "jstr \<Rightarrow> refresher \<Rightarrow> refresher \<times> refresher_effect list" where
  "refresh room r = (case entry_for room r of (i, r) \<Rightarrow>
     if en_inFlight (rf_heap r i) \<noteq> None then (r, [])
     else (start_run room i (clear_retry i r), [OnRefresh room (Some RfPending)]))"

text \<open>The first await: the persisted flag.\<close>

definition flag_read :: "nat \<Rightarrow> bool \<Rightarrow> refresher \<Rightarrow> refresher \<times> refresher_effect list" where
  "flag_read k ever r = (case rf_runs r k of
     None \<Rightarrow> (r, [])
   | Some run \<Rightarrow>
       if rn_flagRead run then (r, [])
       else (r\<lparr>rf_runs := (rf_runs r)(k := Some (run\<lparr>rn_flagRead := True\<rparr>))\<rparr>,
             if ever then [OnEverE2ee (rn_room run)] else []))"

definition is_current :: "refresher \<Rightarrow> jstr \<Rightarrow> nat \<Rightarrow> nat \<Rightarrow> bool" where
  "is_current r room i generation \<longleftrightarrow> rf_entries r room = Some i \<and> en_generation (rf_heap r i) = generation"

definition arm_retry :: "jstr \<Rightarrow> nat \<Rightarrow> nat \<Rightarrow> refresher \<Rightarrow> refresher" where
  "arm_retry room i generation r =
     (let e = rf_heap r i;
          delay = min (refresher_base_retry_ms * 2 ^ en_failures e) refresher_max_retry_ms
      in set_entry i (e\<lparr>en_failures := en_failures e + 1, en_retryTimer := Some (rf_fresh r)\<rparr>)
           (r\<lparr>rf_timers := (rf_timers r)(rf_fresh r := Some
                \<lparr>rt_room = room, rt_entry = i, rt_generation = generation, rt_delay = delay\<rparr>),
              rf_fresh := rf_fresh r + 1\<rparr>))"

text \<open>The \<open>finally\<close> of a run.\<close>

definition end_run :: "nat \<Rightarrow> nat \<Rightarrow> refresher \<Rightarrow> refresher" where
  "end_run k i r = (if en_inFlight (rf_heap r i) = Some k
     then set_entry i ((rf_heap r i)\<lparr>en_inFlight := None\<rparr>) r else r)"

text \<open>The second await: the rooms list.\<close>

definition fetched ::
  "nat \<Rightarrow> rooms_fetch_result \<Rightarrow> status option \<Rightarrow> refresher \<Rightarrow> refresher \<times> refresher_effect list" where
  "fetched k result socketState r = (case rf_runs r k of
     None \<Rightarrow> (r, [])
   | Some run \<Rightarrow>
       if \<not> rn_flagRead run then (r, [])
       else (let room = rn_room run; i = rn_entry run; r = r\<lparr>rf_runs := (rf_runs r)(k := None)\<rparr>
         in if \<not> is_current r room i (rn_generation run) then (end_run k i r, [])
            else (let state = classify room result socketState;
                      r = (case state of
                             RfOk _ \<Rightarrow> set_entry i ((rf_heap r i)\<lparr>en_failures := 0\<rparr>) r
                           | _ \<Rightarrow> arm_retry room i (rn_generation run) r)
                  in (end_run k i r,
                      (case result of FetchOk rooms \<Rightarrow> [OnRooms rooms] | _ \<Rightarrow> []) @ [OnRefresh room (Some state)]))))"

definition retry_fires :: "nat \<Rightarrow> refresher \<Rightarrow> refresher \<times> refresher_effect list" where
  "retry_fires t r = (case rf_timers r t of
     None \<Rightarrow> (r, [])
   | Some tm \<Rightarrow>
       (let i = rt_entry tm;
            r = set_entry i ((rf_heap r i)\<lparr>en_retryTimer := None\<rparr>) (r\<lparr>rf_timers := (rf_timers r)(t := None)\<rparr>)
        in if is_current r (rt_room tm) i (rt_generation tm) then refresh (rt_room tm) r else (r, [])))"

definition stop :: "jstr \<Rightarrow> refresher \<Rightarrow> refresher \<times> refresher_effect list" where
  "stop room r = (case rf_entries r room of
     None \<Rightarrow> (r, [OnRefresh room None])
   | Some i \<Rightarrow>
       (let r = (case en_retryTimer (rf_heap r i) of None \<Rightarrow> r | Some t \<Rightarrow> r\<lparr>rf_timers := (rf_timers r)(t := None)\<rparr>)
        in (r\<lparr>rf_entries := (rf_entries r)(room := None)\<rparr>, [OnRefresh room None])))"

section \<open>Runs\<close>

datatype refresher_event =
    Refresh jstr
  | FlagRead nat bool
  | Fetched nat rooms_fetch_result "status option"
  | RetryFires nat
  | Stop jstr

fun rf_step :: "refresher_event \<Rightarrow> refresher \<Rightarrow> refresher \<times> refresher_effect list" where
  "rf_step (Refresh room) = refresh room"
| "rf_step (FlagRead k ever) = flag_read k ever"
| "rf_step (Fetched k result socketState) = fetched k result socketState"
| "rf_step (RetryFires t) = retry_fires t"
| "rf_step (Stop room) = stop room"

fun rf_run :: "refresher_event list \<Rightarrow> refresher \<Rightarrow> refresher \<times> refresher_effect list" where
  "rf_run [] r = (r, [])"
| "rf_run (e # es) r = (case rf_step e r of (r, xs) \<Rightarrow> (case rf_run es r of (r, ys) \<Rightarrow> (r, xs @ ys)))"

text \<open>The state of a room last reported, as the rooms store keeps it.\<close>

fun reported :: "refresher_effect list \<Rightarrow> (jstr \<Rightarrow> room_refresh_state option) \<Rightarrow> jstr \<Rightarrow> room_refresh_state option" where
  "reported [] rep = rep"
| "reported (OnRefresh room st # xs) rep = reported xs (rep(room := st))"
| "reported (_ # xs) rep = reported xs rep"

section \<open>The sequence of rooms-list requests\<close>

record latest_wins =
  lw_started :: nat
  lw_applied :: nat

definition new_latest_wins :: latest_wins where
  "new_latest_wins = \<lparr>lw_started = 0, lw_applied = 0\<rparr>"

definition lw_begin :: "latest_wins \<Rightarrow> nat \<times> latest_wins" where
  "lw_begin l = (lw_started l + 1, l\<lparr>lw_started := lw_started l + 1\<rparr>)"

definition try_apply :: "nat \<Rightarrow> latest_wins \<Rightarrow> bool \<times> latest_wins" where
  "try_apply seq l = (if seq \<le> lw_applied l then (False, l) else (True, l\<lparr>lw_applied := seq\<rparr>))"

section \<open>The invariant\<close>

definition entry_ok :: "refresher \<Rightarrow> jstr \<Rightarrow> nat \<Rightarrow> room_refresh_state option \<Rightarrow> bool" where
  "entry_ok r room i st \<longleftrightarrow> (let e = rf_heap r i in case st of
     None \<Rightarrow> False
   | Some RfPending \<Rightarrow> en_retryTimer e = None
       \<and> (\<exists>k run. en_inFlight e = Some k \<and> rf_runs r k = Some run \<and> rn_room run = room \<and> rn_entry run = i)
   | Some (RfOk _) \<Rightarrow> en_inFlight e = None \<and> en_retryTimer e = None \<and> en_failures e = 0
   | Some _ \<Rightarrow> en_inFlight e = None \<and> (\<exists>t tm. en_retryTimer e = Some t \<and> rf_timers r t = Some tm
       \<and> rt_room tm = room \<and> rt_entry tm = i \<and> 0 < en_failures e
       \<and> rt_delay tm = capped_backoff refresher_base_retry_ms refresher_max_retry_ms (en_failures e - 1)))"

text \<open>What belongs to one room: its entry, the runs and the timers that hold that entry.\<close>

definition visit_ok :: "refresher \<Rightarrow> jstr \<Rightarrow> nat \<Rightarrow> room_refresh_state option \<Rightarrow> bool" where
  "visit_ok r room i st \<longleftrightarrow> entry_ok r room i st
   \<and> (\<forall>k run. rf_runs r k = Some run \<longrightarrow> rn_entry run = i \<longrightarrow> rn_room run = room \<and> en_inFlight (rf_heap r i) = Some k)
   \<and> (\<forall>t tm. rf_timers r t = Some tm \<longrightarrow> rt_entry tm = i \<longrightarrow> rt_room tm = room \<and> en_retryTimer (rf_heap r i) = Some t)"

definition struct_inv :: "refresher \<Rightarrow> bool" where
  "struct_inv r \<longleftrightarrow> (\<forall>i. en_generation (rf_heap r i) = 0)
   \<and> (\<forall>room i. rf_entries r room = Some i \<longrightarrow> i < rf_fresh r)
   \<and> (\<forall>room room' i. rf_entries r room = Some i \<longrightarrow> rf_entries r room' = Some i \<longrightarrow> room = room')
   \<and> (\<forall>k run. rf_runs r k = Some run \<longrightarrow> k < rf_fresh r \<and> rn_entry run < rf_fresh r \<and> rn_generation run = 0)
   \<and> (\<forall>t tm. rf_timers r t = Some tm \<longrightarrow> t < rf_fresh r \<and> rt_entry tm < rf_fresh r \<and> rt_generation tm = 0)"

definition rf_inv :: "refresher \<Rightarrow> (jstr \<Rightarrow> room_refresh_state option) \<Rightarrow> bool" where
  "rf_inv r rep \<longleftrightarrow> struct_inv r
   \<and> (\<forall>room. rf_entries r room = None \<longrightarrow> rep room = None)
   \<and> (\<forall>room i. rf_entries r room = Some i \<longrightarrow> visit_ok r room i (rep room))"

lemma rf_inv_new [simp]: "rf_inv new_refresher (\<lambda>_. None)"
  by (simp add: rf_inv_def struct_inv_def new_refresher_def new_entry_def)

text \<open>A step that touches only what belongs to entry \<open>i\<close>.\<close>

definition touches :: "nat \<Rightarrow> refresher \<Rightarrow> refresher \<Rightarrow> bool" where
  "touches i r r' \<longleftrightarrow> (\<forall>j. j \<noteq> i \<longrightarrow> rf_heap r' j = rf_heap r j)
   \<and> (\<forall>k run. rn_entry run \<noteq> i \<longrightarrow> rf_runs r' k = Some run \<longleftrightarrow> rf_runs r k = Some run)
   \<and> (\<forall>t tm. rt_entry tm \<noteq> i \<longrightarrow> rf_timers r' t = Some tm \<longleftrightarrow> rf_timers r t = Some tm)"

lemma visit_ok_touches:
  assumes "touches i r r'" and "j \<noteq> i" and "visit_ok r room j st"
  shows "visit_ok r' room j st"
proof -
  have h: "rf_heap r' j = rf_heap r j"
    and k: "\<And>k run. rn_entry run = j \<Longrightarrow> rf_runs r' k = Some run \<longleftrightarrow> rf_runs r k = Some run"
    and t: "\<And>t tm. rt_entry tm = j \<Longrightarrow> rf_timers r' t = Some tm \<longleftrightarrow> rf_timers r t = Some tm"
    using assms(1,2) by (auto simp: touches_def)
  have "entry_ok r room j st"
    using assms(3) by (simp add: visit_ok_def)
  then have "entry_ok r' room j st"
    unfolding entry_ok_def Let_def h using k t
    by (cases st; simp split: room_refresh_state.splits; blast)
  with assms(3) show ?thesis
    unfolding visit_ok_def h using k t by blast
qed

lemma rf_inv_touch:
  assumes "rf_inv r rep" and "touches i r r'" and "struct_inv r'" and "rf_entries r' room = Some i"
    and "\<And>room'. room' \<noteq> room \<Longrightarrow> rf_entries r' room' = rf_entries r room'"
    and "visit_ok r' room i st"
  shows "rf_inv r' (rep(room := st))"
  unfolding rf_inv_def
proof (intro conjI allI impI)
  fix room' assume "rf_entries r' room' = None"
  with assms(1,4,5) show "(rep(room := st)) room' = None"
    by (cases "room' = room") (auto simp: rf_inv_def)
next
  fix room' j assume j: "rf_entries r' room' = Some j"
  show "visit_ok r' room' j ((rep(room := st)) room')"
  proof (cases "room' = room")
    case False
    then have "visit_ok r room' j (rep room')"
      using assms(1) assms(5)[OF False] j by (simp add: rf_inv_def)
    moreover have "j \<noteq> i"
      using j assms(3,4) False by (auto simp: struct_inv_def)
    ultimately show ?thesis
      using False visit_ok_touches[OF assms(2)] by simp
  qed (use assms(4,6) j in simp)
qed (rule assms(3))

lemma rf_inv_room:
  assumes "rf_inv r rep" and "rf_entries r room = Some i"
  shows "visit_ok r room i (rep room)" and "struct_inv r"
  using assms by (simp_all add: rf_inv_def)

section \<open>Every step keeps it\<close>

text \<open>An entry that nothing refers to: what \<open>refresh\<close> starts a run on.\<close>

definition idle :: "refresher \<Rightarrow> nat \<Rightarrow> bool" where
  "idle r i \<longleftrightarrow> en_inFlight (rf_heap r i) = None \<and> en_retryTimer (rf_heap r i) = None
   \<and> (\<forall>k run. rf_runs r k = Some run \<longrightarrow> rn_entry run \<noteq> i) \<and> (\<forall>t tm. rf_timers r t = Some tm \<longrightarrow> rt_entry tm \<noteq> i)"

lemma start_run_ok:
  assumes "struct_inv r" and "idle r i" and "rf_entries r room = Some i"
  shows "struct_inv (start_run room i r)" and "touches i r (start_run room i r)"
    and "visit_ok (start_run room i r) room i (Some RfPending)"
    and "rf_entries (start_run room i r) = rf_entries r"
proof -
  show "struct_inv (start_run room i r)"
    using assms(1,3) by (auto simp: struct_inv_def start_run_def set_entry_def Let_def less_SucI)
  have free: "rf_runs r (rf_fresh r) = None"
    using assms(1) by (cases "rf_runs r (rf_fresh r)") (auto simp: struct_inv_def)
  then show "touches i r (start_run room i r)"
    by (auto simp: touches_def start_run_def set_entry_def Let_def)
  show "visit_ok (start_run room i r) room i (Some RfPending)"
    using assms(2) by (auto simp: visit_ok_def entry_ok_def start_run_def set_entry_def Let_def idle_def)
qed (simp add: start_run_def set_entry_def Let_def)


lemma visit_ok_armed:
  assumes "visit_ok r room i st" and "en_retryTimer (rf_heap r i) = Some t"
  shows "\<exists>tm. rf_timers r t = Some tm \<and> rt_entry tm = i"
proof -
  have "entry_ok r room i st" using assms(1) by (simp add: visit_ok_def)
  with assms(2) show ?thesis
    unfolding entry_ok_def Let_def by (cases st; simp split: room_refresh_state.splits; blast)
qed

lemma clear_retry_idle:
  assumes "struct_inv r" and "visit_ok r room i st" and "en_inFlight (rf_heap r i) = None"
  shows "struct_inv (clear_retry i r) \<and> touches i r (clear_retry i r) \<and> idle (clear_retry i r) i
    \<and> rf_entries (clear_retry i r) = rf_entries r"
proof -
  have runs: "rn_entry run \<noteq> i" if "rf_runs r k = Some run" for k run
    using assms(2,3) that by (auto simp: visit_ok_def)
  have timers: "en_retryTimer (rf_heap r i) = Some t" if "rf_timers r t = Some tm" "rt_entry tm = i" for t tm
    using assms(2) that by (auto simp: visit_ok_def)
  show ?thesis
  proof (cases "en_retryTimer (rf_heap r i)")
    case None
    then have "clear_retry i r = r" by (simp add: clear_retry_def)
    moreover have "idle r i"
      using None assms(3) runs timers unfolding idle_def by fastforce
    ultimately show ?thesis
      using assms(1) by (simp add: touches_def)
  next
    case (Some t)
    define c where "c = clear_retry i r"
    have c: "c = set_entry i ((rf_heap r i)\<lparr>en_retryTimer := None\<rparr>) (r\<lparr>rf_timers := (rf_timers r)(t := None)\<rparr>)"
      using Some by (simp add: c_def clear_retry_def)
    obtain tm where tm: "rf_timers r t = Some tm" "rt_entry tm = i"
      using visit_ok_armed[OF assms(2) Some] by blast
    have "struct_inv c"
      using assms(1) unfolding c by (simp add: struct_inv_def set_entry_def)
    moreover have "touches i r c"
      using tm unfolding c by (auto simp: touches_def set_entry_def)
    moreover have "rt_entry x \<noteq> i" if "rf_timers c s = Some x" for s x
    proof
      assume "rt_entry x = i"
      moreover have "s \<noteq> t" "rf_timers r s = Some x"
        using that unfolding c by (auto simp: set_entry_def split: if_splits)
      ultimately show False using timers[of s x] Some by simp
    qed
    then have "idle c i"
      using assms(3) runs unfolding idle_def by (simp add: c set_entry_def)
    ultimately show ?thesis
      by (simp add: c_def[symmetric] c set_entry_def)
  qed
qed

lemma touches_trans: "touches i r r' \<Longrightarrow> touches i r' r'' \<Longrightarrow> touches i r r''"
  by (simp add: touches_def)

lemma entry_for_ok:
  assumes "rf_inv r rep" and "entry_for room r = (i, r')"
  shows "struct_inv r'" and "touches i r r'" and "rf_entries r' room = Some i"
    and "\<And>room'. room' \<noteq> room \<Longrightarrow> rf_entries r' room' = rf_entries r room'"
    and "visit_ok r' room i (rep room) \<or> idle r' i"
proof -
  have s: "struct_inv r" using assms(1) by (simp add: rf_inv_def)
  have free: "rf_entries r room' \<noteq> Some (rf_fresh r)" for room'
    using s by (auto simp: struct_inv_def)
  show "struct_inv r'" "touches i r r'" "rf_entries r' room = Some i"
    "\<And>room'. room' \<noteq> room \<Longrightarrow> rf_entries r' room' = rf_entries r room'"
    using s assms(2) free
    by (auto simp: entry_for_def struct_inv_def touches_def new_entry_def less_SucI split: option.splits if_splits)
  show "visit_ok r' room i (rep room) \<or> idle r' i"
  proof (cases "rf_entries r room")
    case None
    have "\<And>k run. rf_runs r k = Some run \<Longrightarrow> rn_entry run < rf_fresh r" "\<And>t tm. rf_timers r t = Some tm \<Longrightarrow> rt_entry tm < rf_fresh r"
      using s by (auto simp: struct_inv_def)
    with None assms(2) show ?thesis
      by (fastforce simp: entry_for_def idle_def new_entry_def)
  next
    case (Some j)
    with assms rf_inv_room[OF assms(1) Some] show ?thesis
      by (auto simp: entry_for_def)
  qed
qed

lemma refresh_inv:
  assumes "rf_inv r rep" and "refresh room r = (r', xs)"
  shows "rf_inv r' (reported xs rep)"
proof -
  obtain i q where e: "entry_for room r = (i, q)"
    by (cases "entry_for room r")
  note q = entry_for_ok[OF assms(1) e]
  show ?thesis
  proof (cases "en_inFlight (rf_heap q i) = None")
    case True
    define c where "c = clear_retry i q"
    have c: "struct_inv c" "touches i q c" "idle c i" "rf_entries c = rf_entries q"
    proof -
      have "idle q i \<Longrightarrow> clear_retry i q = q"
        by (simp add: idle_def clear_retry_def)
      with q(1,5) clear_retry_idle[OF q(1) _ True, of room "rep room"] show "struct_inv c" "touches i q c" "idle c i" "rf_entries c = rf_entries q"
        by (auto simp: c_def touches_def)
    qed
    have rc: "rf_entries c room = Some i" using c(4) q(3) by simp
    note s = start_run_ok[OF c(1,3) rc]
    have r': "r' = start_run room i c" "xs = [OnRefresh room (Some RfPending)]"
      using assms(2) e True by (auto simp: refresh_def c_def)
    have "rf_inv r' (rep(room := Some RfPending))"
    proof (rule rf_inv_touch[OF assms(1)])
      show "touches i r r'"
        using touches_trans[OF q(2) touches_trans[OF c(2) s(2)]] r' by simp
    qed (use s c(4) q(3,4) r' in simp_all)
    then show ?thesis by (simp add: r')
  next
    case False
    then have "visit_ok q room i (rep room)" using q(5) by (auto simp: idle_def)
    from rf_inv_touch[OF assms(1) q(2,1,3,4) this] False e assms(2) show ?thesis
      by (auto simp: refresh_def)
  qed
qed

lemma flag_read_inv:
  assumes "rf_inv r rep" and "flag_read k ever r = (r', xs)"
  shows "rf_inv r' (reported xs rep)"
proof (cases "rf_runs r k")
  case (Some run)
  show ?thesis
  proof (cases "rn_flagRead run")
    case False
    have r': "r' = r\<lparr>rf_runs := (rf_runs r)(k := Some (run\<lparr>rn_flagRead := True\<rparr>))\<rparr>" and "reported xs rep = rep"
      using assms(2) Some False by (auto simp: flag_read_def)
    have runs: "rf_runs r' j = Some x \<Longrightarrow> \<exists>y. rf_runs r j = Some y \<and> rn_entry y = rn_entry x \<and> rn_room y = rn_room x"
      "rf_runs r j = Some y \<Longrightarrow> \<exists>x. rf_runs r' j = Some x \<and> rn_entry x = rn_entry y \<and> rn_room x = rn_room y" for j x y
      using Some by (auto simp: r' split: if_splits)
    have "visit_ok r' room i st" if ok: "visit_ok r room i st" for room i st
    proof -
      have same: "rf_heap r' = rf_heap r" "rf_timers r' = rf_timers r" by (simp_all add: r')
      have "entry_ok r room i st" using ok by (simp add: visit_ok_def)
      then have "entry_ok r' room i st"
        unfolding entry_ok_def Let_def same using runs
        by (cases st; simp split: room_refresh_state.splits; metis)
      with ok show ?thesis
        unfolding visit_ok_def same using runs(1) by metis
    qed
    moreover have "struct_inv r'"
      using assms(1) Some by (auto simp: r' rf_inv_def struct_inv_def)
    ultimately show ?thesis
      using assms(1) \<open>reported xs rep = rep\<close> by (auto simp: r' rf_inv_def split: option.splits)
  qed (use assms Some in \<open>auto simp: flag_read_def\<close>)
qed (use assms in \<open>auto simp: flag_read_def\<close>)

lemma rep_same: "rep(room := rep room) = rep"
  by simp

text \<open>Dropping a run whose entry is no longer the room's.\<close>

lemma stale_ok:
  assumes "rf_inv r rep" and "\<And>room. rf_entries r room \<noteq> Some i" and "touches i r r'" and "struct_inv r'"
    and "rf_entries r' = rf_entries r"
  shows "rf_inv r' rep"
  unfolding rf_inv_def
proof (intro conjI allI impI)
  fix room j assume "rf_entries r' room = Some j"
  with assms(1,2,5) show "visit_ok r' room j (rep room)"
    using visit_ok_touches[OF assms(3)] by (metis rf_inv_def)
qed (use assms(1,4,5) in \<open>simp_all add: rf_inv_def\<close>)

lemma fetched_inv:
  assumes "rf_inv r rep" and "fetched k result so r = (r', xs)"
  shows "rf_inv r' (reported xs rep)"
proof (cases "\<exists>run. rf_runs r k = Some run \<and> rn_flagRead run")
  case True
  then obtain run where run: "rf_runs r k = Some run" "rn_flagRead run" by blast
  let ?i = "rn_entry run" and ?room = "rn_room run"
  define q where "q = r\<lparr>rf_runs := (rf_runs r)(k := None)\<rparr>"
  have s: "struct_inv r" using assms(1) by (simp add: rf_inv_def)
  have gen: "rn_generation run = 0" "en_generation (rf_heap r ?i) = 0"
    using s run by (auto simp: struct_inv_def)
  have q: "struct_inv q" "touches ?i r q" "rf_entries q = rf_entries r" "rf_heap q = rf_heap r"
    using s run by (auto simp: q_def struct_inv_def touches_def)
  show ?thesis
  proof (cases "rf_entries r ?room = Some ?i")
    case False
    have "rf_entries r room \<noteq> Some ?i" for room
    proof
      assume i: "rf_entries r room = Some ?i"
      from rf_inv_room(1)[OF assms(1) i] run(1) have "?room = room" by (auto simp: visit_ok_def)
      with i False show False by simp
    qed
    moreover have "r' = end_run k ?i q" "xs = []"
      using assms(2) run False gen by (auto simp: fetched_def Let_def is_current_def q_def[symmetric] q)
    moreover have "touches ?i r (end_run k ?i q)" "struct_inv (end_run k ?i q)" "rf_entries (end_run k ?i q) = rf_entries r"
      using q by (auto simp: end_run_def set_entry_def touches_def struct_inv_def)
    ultimately show ?thesis
      using stale_ok[OF assms(1), of ?i r'] by simp
  next
    case i: True
    note ok = rf_inv_room(1)[OF assms(1) i]
    have fl: "en_inFlight (rf_heap r ?i) = Some k"
      using ok run(1) by (simp add: visit_ok_def)
    have runs: "rn_entry x \<noteq> ?i" if "rf_runs q j = Some x" for j x
    proof
      assume e: "rn_entry x = ?i"
      have "j \<noteq> k" "rf_runs r j = Some x" using that by (auto simp: q_def split: if_splits)
      with ok fl e show False by (auto simp: visit_ok_def)
    qed
    have "entry_ok r ?room ?i (rep ?room)" using ok by (simp add: visit_ok_def)
    with fl have idle_timer: "en_retryTimer (rf_heap r ?i) = None"
      unfolding entry_ok_def Let_def by (cases "rep ?room"; simp split: room_refresh_state.splits)
    have timers: "rt_entry x \<noteq> ?i" if "rf_timers q t = Some x" for t x
      using ok that idle_timer by (auto simp: visit_ok_def q_def)
    define st where "st = classify ?room result so"
    define p where "p = (case st of RfOk _ \<Rightarrow> set_entry ?i ((rf_heap q ?i)\<lparr>en_failures := 0\<rparr>) q
      | _ \<Rightarrow> arm_retry ?room ?i (rn_generation run) q)"
    have r': "r' = end_run k ?i p" "reported xs rep = rep(?room := Some st)"
      using assms(2) run i gen
      by (auto simp: fetched_def Let_def is_current_def q_def[symmetric] q p_def st_def split: rooms_fetch_result.splits)
    have st: "st \<noteq> RfPending"
      by (auto simp: st_def classify_def split: rooms_fetch_result.splits option.splits)
    have free: "rf_timers q (rf_fresh q) = None"
      using q(1) by (cases "rf_timers q (rf_fresh q)") (auto simp: struct_inv_def)
    have "rf_inv r' (rep(?room := Some st))"
    proof (rule rf_inv_touch[OF assms(1)])
      show "touches ?i r r'"
      proof (rule touches_trans[OF q(2)])
        show "touches ?i q r'"
          using free unfolding r' p_def
          by (cases st) (auto simp: end_run_def set_entry_def arm_retry_def Let_def touches_def)
      qed
      show "struct_inv r'"
        using q(1) i unfolding r' p_def
        by (cases st) (auto simp: end_run_def set_entry_def arm_retry_def Let_def struct_inv_def less_SucI q gen)
      show "rf_entries r' ?room = Some ?i" "rf_entries r' room' = rf_entries r room'" for room'
        using i unfolding r' p_def by (cases st; simp add: end_run_def set_entry_def arm_retry_def Let_def q)+
      show "visit_ok r' ?room ?i (Some st)"
        using runs timers fl st idle_timer unfolding r' p_def
        by (cases st) (auto simp: visit_ok_def entry_ok_def end_run_def set_entry_def arm_retry_def Let_def q
            capped_backoff_def)
    qed
    then show ?thesis by (simp add: r')
  qed
qed (use assms in \<open>auto simp: fetched_def split: option.splits if_splits\<close>)

lemma retry_fires_inv:
  assumes "rf_inv r rep" and "retry_fires t r = (r', xs)"
  shows "rf_inv r' (reported xs rep)"
proof (cases "rf_timers r t")
  case (Some tm)
  let ?i = "rt_entry tm" and ?room = "rt_room tm"
  define q where "q = set_entry ?i ((rf_heap r ?i)\<lparr>en_retryTimer := None\<rparr>) (r\<lparr>rf_timers := (rf_timers r)(t := None)\<rparr>)"
  have s: "struct_inv r" using assms(1) by (simp add: rf_inv_def)
  have gen: "rt_generation tm = 0" "en_generation (rf_heap r ?i) = 0"
    using s Some by (auto simp: struct_inv_def)
  have q: "struct_inv q" "touches ?i r q" "rf_entries q = rf_entries r"
    using s Some by (auto simp: q_def set_entry_def struct_inv_def touches_def)
  show ?thesis
  proof (cases "rf_entries r ?room = Some ?i")
    case False
    have "rf_entries r room \<noteq> Some ?i" for room
    proof
      assume i: "rf_entries r room = Some ?i"
      from rf_inv_room(1)[OF assms(1) i] Some have "?room = room" by (auto simp: visit_ok_def)
      with i False show False by simp
    qed
    moreover have "r' = q" "xs = []"
      using assms(2) Some False q(3) by (auto simp: retry_fires_def Let_def is_current_def q_def[symmetric])
    ultimately show ?thesis
      using stale_ok[OF assms(1) _ q(2,1,3)] by simp
  next
    case i: True
    note ok = rf_inv_room(1)[OF assms(1) i]
    have t: "en_retryTimer (rf_heap r ?i) = Some t"
      using ok Some by (simp add: visit_ok_def)
    have "entry_ok r ?room ?i (rep ?room)" using ok by (simp add: visit_ok_def)
    with t have fl: "en_inFlight (rf_heap r ?i) = None"
      unfolding entry_ok_def Let_def by (cases "rep ?room"; simp split: room_refresh_state.splits)
    have "idle q ?i"
      unfolding idle_def
    proof (intro conjI allI impI)
      show "en_inFlight (rf_heap q ?i) = None" "en_retryTimer (rf_heap q ?i) = None"
        using fl by (simp_all add: q_def set_entry_def)
    next
      fix k run assume "rf_runs q k = Some run"
      with ok fl show "rn_entry run \<noteq> ?i" by (auto simp: visit_ok_def q_def set_entry_def)
    next
      fix u x assume x: "rf_timers q u = Some x"
      then have "u \<noteq> t" "rf_timers r u = Some x" by (auto simp: q_def set_entry_def split: if_splits)
      moreover have "rf_timers r u = Some x \<Longrightarrow> rt_entry x = ?i \<Longrightarrow> en_retryTimer (rf_heap r ?i) = Some u"
        using ok by (simp add: visit_ok_def)
      ultimately show "rt_entry x \<noteq> ?i" using t by auto
    qed
    have cq: "clear_retry ?i q = q"
      by (simp add: clear_retry_def q_def set_entry_def)
    have rq: "rf_entries q ?room = Some ?i" using i q(3) by simp
    have "retry_fires t r = refresh ?room q"
      using Some rq gen by (simp add: retry_fires_def is_current_def q_def set_entry_def Let_def)
    also have "\<dots> = (start_run ?room ?i q, [OnRefresh ?room (Some RfPending)])"
      using rq \<open>idle q ?i\<close> cq by (simp add: refresh_def entry_for_def idle_def)
    finally have "r' = start_run ?room ?i q" "xs = [OnRefresh ?room (Some RfPending)]"
      using assms(2) by simp_all
    note s = start_run_ok[OF q(1) \<open>idle q ?i\<close> rq]
    have "rf_inv r' (rep(?room := Some RfPending))"
      by (rule rf_inv_touch[OF assms(1) touches_trans[OF q(2)]])
        (use s rq q(3) \<open>r' = _\<close> in simp_all)
    then show ?thesis by (simp add: \<open>xs = _\<close>)
  qed
qed (use assms in \<open>simp add: retry_fires_def\<close>)

lemma stop_inv:
  assumes "rf_inv r rep" and "stop room r = (r', xs)"
  shows "rf_inv r' (reported xs rep)"
proof (cases "rf_entries r room")
  case None
  then have "reported xs rep = rep"
    using assms by (auto simp: stop_def rf_inv_def fun_eq_iff)
  with None assms show ?thesis by (simp add: stop_def)
next
  case (Some i)
  note ok = rf_inv_room(1)[OF assms(1) Some]
  have s: "struct_inv r" using assms(1) by (simp add: rf_inv_def)
  have r': "xs = [OnRefresh room None]" "rf_entries r' = (rf_entries r)(room := None)" "rf_heap r' = rf_heap r"
    "rf_runs r' = rf_runs r" "rf_fresh r' = rf_fresh r"
    "rf_timers r' = (case en_retryTimer (rf_heap r i) of None \<Rightarrow> rf_timers r | Some t \<Rightarrow> (rf_timers r)(t := None))"
    using assms(2) Some by (auto simp: stop_def Let_def split: option.splits)
  have touch: "touches i r r'"
    using visit_ok_armed[OF ok] unfolding touches_def r' by (auto split: option.splits)
  have "struct_inv r'"
    using s unfolding struct_inv_def r' by (auto split: option.splits if_splits)
  moreover have "visit_ok r' room' j (rep room')" if "room' \<noteq> room" "rf_entries r room' = Some j" for room' j
  proof -
    have "j \<noteq> i" using that Some s unfolding struct_inv_def by blast
    then show ?thesis
      by (rule visit_ok_touches[OF touch _ rf_inv_room(1)[OF assms(1) that(2)]])
  qed
  ultimately show ?thesis
    using assms(1) by (auto simp: rf_inv_def r' split: option.splits)
qed

lemma rf_step_inv: "rf_inv r rep \<Longrightarrow> rf_step e r = (r', xs) \<Longrightarrow> rf_inv r' (reported xs rep)"
  by (cases e) (auto intro: refresh_inv flag_read_inv fetched_inv retry_fires_inv stop_inv)

lemma reported_append: "reported (xs @ ys) rep = reported ys (reported xs rep)"
proof (induction xs arbitrary: rep)
  case (Cons x xs)
  then show ?case by (cases x) (simp_all add: fun_upd_def)
qed simp

lemma rf_run_inv: "rf_inv r rep \<Longrightarrow> rf_run es r = (r', xs) \<Longrightarrow> rf_inv r' (reported xs rep)"
proof (induction es arbitrary: r rep xs)
  case (Cons e es)
  then show ?case
    using rf_step_inv[OF Cons.prems(1)] by (fastforce simp: reported_append split: prod.splits)
qed simp

section \<open>Properties\<close>

interpretation refresher_retry: retry_delay
  "capped_backoff refresher_base_retry_ms refresher_max_retry_ms" refresher_base_retry_ms refresher_max_retry_ms
  by (rule capped_backoff_retry_delay) (simp_all add: refresher_base_retry_ms_def refresher_max_retry_ms_def)

text \<open>C29. A room's refresh state is truthful and never stuck: whatever sequence of refreshes, answers, timers
  and stops happened, a room that was left reports nothing, however late an answer comes; a pending
  room has a request under way; a failed or offline one has exactly one retry armed, after 1 to 30
  seconds and never sooner for more failures; and a confirmed one has neither.\<close>

theorem refresh_state_is_truthful:
  assumes "rf_run es new_refresher = (r, xs)"
  shows "case rf_entries r room of
     None \<Rightarrow> reported xs (\<lambda>_. None) room = None
   | Some i \<Rightarrow> (case reported xs (\<lambda>_. None) room of
       None \<Rightarrow> False
     | Some RfPending \<Rightarrow> (\<exists>k run. rf_runs r k = Some run \<and> rn_room run = room \<and> rn_entry run = i)
         \<and> (\<forall>t tm. rf_timers r t = Some tm \<longrightarrow> rt_entry tm \<noteq> i)
     | Some (RfOk _) \<Rightarrow> (\<forall>k run. rf_runs r k = Some run \<longrightarrow> rn_entry run \<noteq> i)
         \<and> (\<forall>t tm. rf_timers r t = Some tm \<longrightarrow> rt_entry tm \<noteq> i)
     | Some _ \<Rightarrow> (\<forall>k run. rf_runs r k = Some run \<longrightarrow> rn_entry run \<noteq> i)
         \<and> (\<exists>t tm. rf_timers r t = Some tm \<and> rt_entry tm = i \<and> 1000 \<le> rt_delay tm \<and> rt_delay tm \<le> 30000
              \<and> rt_delay tm = capped_backoff 1000 30000 (en_failures (rf_heap r i) - 1)
              \<and> (\<forall>t' tm'. rf_timers r t' = Some tm' \<longrightarrow> rt_entry tm' = i \<longrightarrow> t' = t)))"
proof -
  have inv: "rf_inv r (reported xs (\<lambda>_. None))"
    by (rule rf_run_inv[OF rf_inv_new assms])
  show ?thesis
  proof (cases "rf_entries r room")
    case None
    with inv show ?thesis by (simp add: rf_inv_def)
  next
    case (Some i)
    note ok = rf_inv_room(1)[OF inv Some]
    have e: "entry_ok r room i (reported xs (\<lambda>_. None) room)" using ok by (simp add: visit_ok_def)
    have runs: "rf_runs r k = Some run \<Longrightarrow> rn_entry run = i \<Longrightarrow> en_inFlight (rf_heap r i) = Some k"
      and timers: "rf_timers r t = Some tm \<Longrightarrow> rt_entry tm = i \<Longrightarrow> en_retryTimer (rf_heap r i) = Some t" for k run t tm
      using ok by (simp_all add: visit_ok_def)
    have bounds: "1000 \<le> capped_backoff 1000 30000 n" "capped_backoff 1000 30000 n \<le> 30000" for n
      using refresher_retry.within[of n] by (simp_all add: refresher_base_retry_ms_def refresher_max_retry_ms_def)
    show ?thesis
    proof (cases "reported xs (\<lambda>_. None) room")
      case None
      with e show ?thesis by (simp add: entry_ok_def)
    next
      case st: (Some st)
      have no_timer: "en_retryTimer (rf_heap r i) = None \<Longrightarrow> \<forall>t tm. rf_timers r t = Some tm \<longrightarrow> rt_entry tm \<noteq> i"
        and no_run: "en_inFlight (rf_heap r i) = None \<Longrightarrow> \<forall>k run. rf_runs r k = Some run \<longrightarrow> rn_entry run \<noteq> i"
        and one_timer: "en_retryTimer (rf_heap r i) = Some t \<Longrightarrow> \<forall>t' tm'. rf_timers r t' = Some tm' \<longrightarrow> rt_entry tm' = i \<longrightarrow> t' = t" for t
        using runs timers by (metis option.distinct(1), metis option.distinct(1), metis option.inject)
      have failed: "\<exists>t tm. rf_timers r t = Some tm \<and> rt_entry tm = i \<and> 1000 \<le> rt_delay tm \<and> rt_delay tm \<le> 30000
          \<and> rt_delay tm = capped_backoff 1000 30000 (en_failures (rf_heap r i) - 1)
          \<and> (\<forall>t' tm'. rf_timers r t' = Some tm' \<longrightarrow> rt_entry tm' = i \<longrightarrow> t' = t)"
        if f: "st = RfOffline \<or> st = RfError"
      proof -
        obtain t tm where "en_retryTimer (rf_heap r i) = Some t" "rf_timers r t = Some tm" "rt_entry tm = i"
          "rt_delay tm = capped_backoff 1000 30000 (en_failures (rf_heap r i) - 1)"
          using e f unfolding st
          by (auto simp: entry_ok_def Let_def refresher_base_retry_ms_def refresher_max_retry_ms_def)
        with one_timer bounds show ?thesis by metis
      qed
      have shapes: "st = RfPending \<Longrightarrow> en_retryTimer (rf_heap r i) = None
            \<and> (\<exists>k run. rf_runs r k = Some run \<and> rn_room run = room \<and> rn_entry run = i)"
        "st \<noteq> RfPending \<Longrightarrow> en_inFlight (rf_heap r i) = None"
        "st = RfOk n \<Longrightarrow> en_retryTimer (rf_heap r i) = None" for n
        using e unfolding st entry_ok_def Let_def by (auto split: room_refresh_state.splits)
      show ?thesis
        unfolding Some st option.case using shapes no_timer no_run failed by (cases st) simp_all
    qed
  qed
qed

section \<open>Witnesses\<close>

text \<open>A room entered while the server is unreachable, left before the retry and entered again.\<close>

definition sample_visits :: "refresher_event list" where
  "sample_visits = [Refresh (js ''r''), FlagRead 1 False, Stop (js ''r''), Refresh (js ''r''),
     Fetched 1 (FetchOk []) None, FlagRead 3 True, Fetched 3 (FetchHttpError 500) None]"

lemma refresh_state_is_truthful_witness:
  "case rf_run sample_visits new_refresher of (r, xs) \<Rightarrow>
     reported xs (\<lambda>_. None) (js ''r'') = Some RfError
     \<and> (\<exists>t tm. rf_timers r t = Some tm \<and> rt_delay tm \<le> 30000)"
proof -
  obtain r xs where run: "rf_run sample_visits new_refresher = (r, xs)"
    by (cases "rf_run sample_visits new_refresher")
  have "case rf_run sample_visits new_refresher of (r, xs) \<Rightarrow> rf_entries r (js ''r'') = Some 2
      \<and> reported xs (\<lambda>_. None) (js ''r'') = Some RfError"
    by (simp add: sample_visits_def new_refresher_def refresh_def entry_for_def clear_retry_def start_run_def
        set_entry_def flag_read_def stop_def fetched_def is_current_def end_run_def classify_def arm_retry_def
        new_entry_def Let_def)
  with run refresh_state_is_truthful[OF run, of "js ''r''"] show ?thesis
    by auto
qed

end
