(* ===== verification/Rooms_Store.thy ===== *)
theory Rooms_Store
  imports Room_Refresher Key_Store Http
begin

text \<open>
  \<open>store/rooms.store.ts\<close>: the rooms list and its requests, the refresh state of every room, and the
  flag of rooms ever seen encrypted with its persistent copy. The state of the key-value store that
  holds the flags is part of the state.
\<close>

record 's rooms_state =
  rm_rooms :: "room_summary list"
  rm_isLoading :: bool
  rm_error :: "jstr option"
  rm_refreshByRoom :: "jstr \<Rightarrow> room_refresh_state option"
  rm_everE2eeByRoom :: "jstr \<Rightarrow> bool option"
  rm_roomsRequests :: latest_wins
  rm_sticky :: 's

definition new_rooms_state :: "'s \<Rightarrow> 's rooms_state" where
  "new_rooms_state sticky = \<lparr>rm_rooms = [], rm_isLoading = False, rm_error = None, rm_refreshByRoom = (\<lambda>_. None),
     rm_everE2eeByRoom = (\<lambda>_. None), rm_roomsRequests = new_latest_wins, rm_sticky = sticky\<rparr>"

section \<open>Requests for the list\<close>

definition remember_e2ee_rooms :: "'s kv_ops \<Rightarrow> room_summary list \<Rightarrow> 's rooms_state \<Rightarrow> 's rooms_state" where
  "remember_e2ee_rooms K rooms s =
     (let enabled = map sm_name (filter (\<lambda>r. sm_currentKeyId r > 0) rooms)
      in if enabled = [] then s
         else s\<lparr>rm_everE2eeByRoom := (\<lambda>n. if n \<in> set enabled then Some True else rm_everE2eeByRoom s n),
                rm_sticky := fold (mark_e2ee K) enabled (rm_sticky s)\<rparr>)"

text \<open>\<open>requestRooms\<close> up to its \<open>fetch\<close>: without a token no request is made.\<close>

definition request_rooms_begin :: "bool \<Rightarrow> 's rooms_state \<Rightarrow> (rooms_fetch_result + nat) \<times> 's rooms_state" where
  "request_rooms_begin hasToken s =
     (if \<not> hasToken then (Inl (FetchHttpError 401), s)
      else (case lw_begin (rm_roomsRequests s) of (seq, l) \<Rightarrow> (Inr seq, s\<lparr>rm_roomsRequests := l\<rparr>)))"

text \<open>The rest of it, when the answer arrives; \<open>None\<close> when \<open>res.json()\<close> throws.\<close>

definition request_rooms_end ::
  "'s kv_ops \<Rightarrow> nat \<Rightarrow> room_summary list http \<Rightarrow> 's rooms_state \<Rightarrow> rooms_fetch_result option \<times> 's rooms_state" where
  "request_rooms_end K seq res s = (case res of
     NoResponse \<Rightarrow> (Some FetchNetworkError, s)
   | HttpError status _ \<Rightarrow> (Some (FetchHttpError status), s)
   | Garbled \<Rightarrow> (None, s)
   | HttpOk rooms \<Rightarrow> (case try_apply seq (rm_roomsRequests s) of (newest, l) \<Rightarrow>
       (Some (FetchOk rooms),
        (if newest then remember_e2ee_rooms K rooms (s\<lparr>rm_roomsRequests := l, rm_rooms := rooms\<rparr>) else s))))"

section \<open>Actions\<close>

definition fetch_rooms_begin :: "bool \<Rightarrow> 's rooms_state \<Rightarrow> nat option \<times> 's rooms_state" where
  "fetch_rooms_begin hasToken s =
     (if \<not> hasToken \<or> rm_isLoading s then (None, s)
      else (case request_rooms_begin hasToken (s\<lparr>rm_isLoading := True, rm_error := None\<rparr>) of
          (Inl _, s) \<Rightarrow> (None, s)
        | (Inr seq, s) \<Rightarrow> (Some seq, s)))"

definition fetch_rooms_end :: "'s kv_ops \<Rightarrow> nat \<Rightarrow> room_summary list http \<Rightarrow> 's rooms_state \<Rightarrow> 's rooms_state" where
  "fetch_rooms_end K seq res s = (case request_rooms_end K seq res s of
     (None, s) \<Rightarrow> s
   | (Some (FetchOk _), s) \<Rightarrow> s\<lparr>rm_isLoading := False\<rparr>
   | (Some (FetchHttpError status), s) \<Rightarrow>
       s\<lparr>rm_isLoading := False, rm_error := Some (js ''Failed to load rooms ('' @ dec_nat status @ js '')'')\<rparr>
   | (Some FetchNetworkError, s) \<Rightarrow> s\<lparr>rm_isLoading := False, rm_error := Some (js ''Failed to load rooms'')\<rparr>)"

text \<open>The dependencies the refresher is given.\<close>

definition apply_refresher_effect :: "refresher_effect \<Rightarrow> 's rooms_state \<Rightarrow> 's rooms_state" where
  "apply_refresher_effect x s = (case x of
     OnEverE2ee room \<Rightarrow> s\<lparr>rm_everE2eeByRoom := (rm_everE2eeByRoom s)(room := Some True)\<rparr>
   | OnRooms _ \<Rightarrow> s
   | OnRefresh room st \<Rightarrow> s\<lparr>rm_refreshByRoom := (rm_refreshByRoom s)(room := st)\<rparr>)"

definition note_room_epoch :: "'s kv_ops \<Rightarrow> jstr \<Rightarrow> nat \<Rightarrow> 's rooms_state \<Rightarrow> 's rooms_state" where
  "note_room_epoch K name keyId s =
     (if keyId = 0 then s
      else (let known = (case rm_refreshByRoom s name of Some (RfOk k) \<Rightarrow> k | _ \<Rightarrow> 0)
        in s\<lparr>rm_rooms := map (\<lambda>r. if sm_name r = name then r\<lparr>sm_currentKeyId := max (sm_currentKeyId r) keyId\<rparr> else r)
               (rm_rooms s),
             rm_refreshByRoom := (rm_refreshByRoom s)(name := Some (RfOk (max known keyId))),
             rm_everE2eeByRoom := (rm_everE2eeByRoom s)(name := Some True),
             rm_sticky := mark_e2ee K name (rm_sticky s)\<rparr>))"

text \<open>\<open>createRoom\<close> and \<open>joinRoom\<close>, from the answer on: the room, or the message of the error thrown.\<close>

definition create_room_end :: "room_summary http \<Rightarrow> 's rooms_state \<Rightarrow> (jstr + room_summary) \<times> 's rooms_state" where
  "create_room_end res s = (case res of
     HttpOk room \<Rightarrow> (Inr room, s\<lparr>rm_rooms := rm_rooms s @ [room]\<rparr>)
   | HttpError _ m \<Rightarrow> (Inl (extract_error_message m (js ''Failed to create room'')), s)
   | NoResponse \<Rightarrow> (Inl [], s)
   | Garbled \<Rightarrow> (Inl [], s))"

definition join_room_end :: "room_summary http \<Rightarrow> 's rooms_state \<Rightarrow> (jstr + room_summary) \<times> 's rooms_state" where
  "join_room_end res s = (case res of
     HttpOk room \<Rightarrow> (Inr room, s\<lparr>rm_rooms :=
       (if list_ex (\<lambda>r. sm_name r = sm_name room) (rm_rooms s) then rm_rooms s else rm_rooms s @ [room])\<rparr>)
   | HttpError _ m \<Rightarrow> (Inl (extract_error_message m (js ''Failed to join room'')), s)
   | NoResponse \<Rightarrow> (Inl [], s)
   | Garbled \<Rightarrow> (Inl [], s))"

definition use_room_e2ee_state :: "jstr \<Rightarrow> 's rooms_state \<Rightarrow> room_e2ee_state" where
  "use_room_e2ee_state name s =
     (if name = default_room then StPlaintext
      else resolve_room_e2ee_state
        (case find (\<lambda>r. sm_name r = name) (rm_rooms s) of None \<Rightarrow> 0 | Some r \<Rightarrow> sm_currentKeyId r)
        (rm_refreshByRoom s name)
        (case rm_everE2eeByRoom s name of None \<Rightarrow> False | Some b \<Rightarrow> b))"

section \<open>Runs\<close>

datatype rooms_event =
    FetchRooms bool
  | FetchRoomsAnswered nat "room_summary list http"
  | RequestRooms bool
  | RequestRoomsAnswered nat "room_summary list http"
  | RefresherReports refresher_effect
  | NoteRoomEpoch jstr nat
  | CreateRoomAnswered "room_summary http"
  | JoinRoomAnswered "room_summary http"

fun rooms_step :: "'s kv_ops \<Rightarrow> rooms_event \<Rightarrow> 's rooms_state \<Rightarrow> 's rooms_state" where
  "rooms_step K (FetchRooms tok) s = snd (fetch_rooms_begin tok s)"
| "rooms_step K (FetchRoomsAnswered seq res) s = fetch_rooms_end K seq res s"
| "rooms_step K (RequestRooms tok) s = snd (request_rooms_begin tok s)"
| "rooms_step K (RequestRoomsAnswered seq res) s = snd (request_rooms_end K seq res s)"
| "rooms_step K (RefresherReports x) s = apply_refresher_effect x s"
| "rooms_step K (NoteRoomEpoch name k) s = note_room_epoch K name k s"
| "rooms_step K (CreateRoomAnswered res) s = snd (create_room_end res s)"
| "rooms_step K (JoinRoomAnswered res) s = snd (join_room_end res s)"

text \<open>An event that shows the room encrypted: a frame of the socket, the persisted flag, a list that is applied.\<close>

fun shows_e2ee :: "jstr \<Rightarrow> rooms_event \<Rightarrow> 's rooms_state \<Rightarrow> bool" where
  "shows_e2ee name (NoteRoomEpoch n k) s \<longleftrightarrow> n = name \<and> 0 < k"
| "shows_e2ee name (RefresherReports (OnEverE2ee n)) s \<longleftrightarrow> n = name"
| "shows_e2ee name (FetchRoomsAnswered seq (HttpOk rooms)) s \<longleftrightarrow> lw_applied (rm_roomsRequests s) < seq
     \<and> (\<exists>r \<in> set rooms. sm_name r = name \<and> 0 < sm_currentKeyId r)"
| "shows_e2ee name (RequestRoomsAnswered seq (HttpOk rooms)) s \<longleftrightarrow> lw_applied (rm_roomsRequests s) < seq
     \<and> (\<exists>r \<in> set rooms. sm_name r = name \<and> 0 < sm_currentKeyId r)"
| "shows_e2ee name _ s \<longleftrightarrow> False"

definition rooms_run :: "'s kv_ops \<Rightarrow> rooms_event list \<Rightarrow> 's rooms_state \<Rightarrow> 's rooms_state" where
  "rooms_run K es s = fold (rooms_step K) es s"

section \<open>Lemmas\<close>

lemma remember_fields:
  "rm_everE2eeByRoom (remember_e2ee_rooms K rooms s) n =
     (if \<exists>r \<in> set rooms. sm_name r = n \<and> 0 < sm_currentKeyId r then Some True else rm_everE2eeByRoom s n)"
  "rm_sticky (remember_e2ee_rooms K rooms s) =
     fold (mark_e2ee K) (map sm_name (filter (\<lambda>r. sm_currentKeyId r > 0) rooms)) (rm_sticky s)"
  "rm_rooms (remember_e2ee_rooms K rooms s) = rm_rooms s"
  "rm_roomsRequests (remember_e2ee_rooms K rooms s) = rm_roomsRequests s"
  by (auto simp: remember_e2ee_rooms_def Let_def filter_empty_conv)

lemma marked:
  assumes "kv_store K"
  shows "was_ever_e2ee K True n (fold (mark_e2ee K) names s) \<longleftrightarrow> n \<in> set names \<or> was_ever_e2ee K True n s"
  by (induction names arbitrary: s) (auto simp: kv_store.was_ever_e2ee_mark[OF assms])

lemma ever_step:
  "rm_everE2eeByRoom s n = Some True \<Longrightarrow> rm_everE2eeByRoom (rooms_step K e s) n = Some True"
  by (cases e) (auto simp: fetch_rooms_begin_def request_rooms_begin_def fetch_rooms_end_def request_rooms_end_def
      try_apply_def apply_refresher_effect_def note_room_epoch_def create_room_end_def join_room_end_def
      remember_fields Let_def split: http.splits sum.splits prod.splits refresher_effect.splits)

lemma sticky_step:
  assumes "kv_store K" and "was_ever_e2ee K True n (rm_sticky s)"
  shows "was_ever_e2ee K True n (rm_sticky (rooms_step K e s))"
  using assms(2)
  by (cases e) (auto simp: fetch_rooms_begin_def request_rooms_begin_def fetch_rooms_end_def request_rooms_end_def
      try_apply_def apply_refresher_effect_def note_room_epoch_def create_room_end_def join_room_end_def
      remember_fields marked[OF assms(1)] kv_store.was_ever_e2ee_mark[OF assms(1)] Let_def
      split: http.splits sum.splits prod.splits refresher_effect.splits)

lemma ever_run:
  "rm_everE2eeByRoom s n = Some True \<Longrightarrow> rm_everE2eeByRoom (rooms_run K es s) n = Some True"
  unfolding rooms_run_def by (induction es arbitrary: s) (simp_all add: ever_step)

lemma sticky_run:
  "kv_store K \<Longrightarrow> was_ever_e2ee K True n (rm_sticky s) \<Longrightarrow> was_ever_e2ee K True n (rm_sticky (rooms_run K es s))"
  unfolding rooms_run_def by (induction es arbitrary: s) (simp_all add: sticky_step)

lemma shown_ever:
  "shows_e2ee n e s \<Longrightarrow> rm_everE2eeByRoom (rooms_step K e s) n = Some True"
  by (cases "(n, e, s)" rule: shows_e2ee.cases)
    (auto simp: note_room_epoch_def apply_refresher_effect_def fetch_rooms_end_def request_rooms_end_def try_apply_def
      remember_fields Let_def)

lemma shown_sticky:
  assumes "kv_store K" and "shows_e2ee n e s" and "\<forall>m. e \<noteq> RefresherReports (OnEverE2ee m)"
  shows "was_ever_e2ee K True n (rm_sticky (rooms_step K e s))"
  using assms(2,3)
  by (cases "(n, e, s)" rule: shows_e2ee.cases)
    (auto simp: note_room_epoch_def fetch_rooms_end_def request_rooms_end_def try_apply_def remember_fields
      marked[OF assms(1)] kv_store.was_ever_e2ee_mark[OF assms(1)] Let_def)

section \<open>Properties\<close>

text \<open>C19. A room once seen encrypted is never treated as plaintext again: after a socket frame, the
  persisted flag or an applied rooms list has shown it, no sequence of stale lists, failed or offline
  refreshes, joins or late answers makes the screen read it as anything but encrypted, and unless it
  was the flag itself that showed it, the flag is stored for the next start of the app.\<close>

theorem encrypted_rooms_never_downgrade:
  assumes "kv_store K" and "name \<noteq> default_room" and "shows_e2ee name e s"
  shows "use_room_e2ee_state name (rooms_run K es (rooms_step K e s)) = StE2ee
    \<and> ((\<forall>m. e \<noteq> RefresherReports (OnEverE2ee m)) \<longrightarrow>
         was_ever_e2ee K True name (rm_sticky (rooms_run K es (rooms_step K e s))))"
  using ever_run[OF shown_ever[OF assms(3)]] sticky_run[OF assms(1) shown_sticky[OF assms(1,3)]] assms(2)
  by (auto simp: use_room_e2ee_state_def resolve_room_e2ee_state_def)

text \<open>A run of answers to requests for the list.\<close>

fun answers :: "'s kv_ops \<Rightarrow> (nat \<times> room_summary list http) list \<Rightarrow> 's rooms_state \<Rightarrow> 's rooms_state" where
  "answers K [] s = s"
| "answers K ((seq, res) # xs) s = answers K xs (snd (request_rooms_end K seq res s))"

definition ok_answers :: "(nat \<times> room_summary list http) list \<Rightarrow> nat list" where
  "ok_answers xs = map fst (filter (\<lambda>x. case snd x of HttpOk _ \<Rightarrow> True | _ \<Rightarrow> False) xs)"

lemma ok_answers_mem: "k \<in> set (ok_answers xs) \<longleftrightarrow> (\<exists>rs. (k, HttpOk rs) \<in> set xs)"
proof
  assume "k \<in> set (ok_answers xs)"
  then obtain res where "(k, res) \<in> set xs" "case res of HttpOk _ \<Rightarrow> True | _ \<Rightarrow> False"
    by (auto simp: ok_answers_def)
  then show "\<exists>rs. (k, HttpOk rs) \<in> set xs" by (cases res) auto
qed (force simp: ok_answers_def)

lemma answers_applied:
  "lw_applied (rm_roomsRequests (answers K xs s)) = fold max (ok_answers xs) (lw_applied (rm_roomsRequests s))
   \<and> (\<forall>seq rooms. distinct (map fst xs) \<longrightarrow> (seq, HttpOk rooms) \<in> set xs
        \<longrightarrow> lw_applied (rm_roomsRequests s) < seq \<longrightarrow> (\<forall>k \<in> set (ok_answers xs). k \<le> seq) \<longrightarrow> rm_rooms (answers K xs s) = rooms)
   \<and> ((\<forall>k \<in> set (ok_answers xs). k \<le> lw_applied (rm_roomsRequests s)) \<longrightarrow> rm_rooms (answers K xs s) = rm_rooms s)"
proof (induction xs arbitrary: s)
  case (Cons x xs)
  obtain k res where x: "x = (k, res)" by (cases x)
  let ?s = "snd (request_rooms_end K k res s)"
  have ap: "lw_applied (rm_roomsRequests ?s) = (case res of HttpOk _ \<Rightarrow> max k (lw_applied (rm_roomsRequests s)) | _ \<Rightarrow> lw_applied (rm_roomsRequests s))"
    and rooms: "rm_rooms ?s = (case res of HttpOk rs \<Rightarrow> if lw_applied (rm_roomsRequests s) < k then rs else rm_rooms s | _ \<Rightarrow> rm_rooms s)"
    by (auto simp: request_rooms_end_def try_apply_def remember_fields max_def split: http.split)
  have ok: "ok_answers (x # xs) = (case res of HttpOk _ \<Rightarrow> [k] | _ \<Rightarrow> []) @ ok_answers xs"
    by (simp add: ok_answers_def x split: http.split)
  note IH = Cons.IH[of ?s]
  show ?case
  proof (intro conjI allI impI)
    show "lw_applied (rm_roomsRequests (answers K (x # xs) s)) = fold max (ok_answers (x # xs)) (lw_applied (rm_roomsRequests s))"
      using IH by (simp add: x ok[unfolded x] ap split: http.split)
  next
    fix seq rs
    assume d: "distinct (map fst (x # xs))" and m: "(seq, HttpOk rs) \<in> set (x # xs)"
      and lt: "lw_applied (rm_roomsRequests s) < seq" and le: "\<forall>j \<in> set (ok_answers (x # xs)). j \<le> seq"
    show "rm_rooms (answers K (x # xs) s) = rs"
    proof (cases "(seq, HttpOk rs) \<in> set xs")
      case True
      then have "seq \<noteq> k" using d x by force
      then have "lw_applied (rm_roomsRequests ?s) < seq"
        using lt le unfolding ap ok by (auto split: http.splits)
      with IH True d le show ?thesis
        by (simp add: x ok[unfolded x])
    next
      case False
      with m x have eq: "k = seq" "res = HttpOk rs" by auto
      moreover have "\<forall>j \<in> set (ok_answers xs). j \<le> seq"
        using le unfolding ok by simp
      ultimately show ?thesis
        using IH lt unfolding ap rooms by (simp add: x max_def)
    qed
  next
    assume le: "\<forall>j \<in> set (ok_answers (x # xs)). j \<le> lw_applied (rm_roomsRequests s)"
    then have "rm_rooms ?s = rm_rooms s" "lw_applied (rm_roomsRequests ?s) = lw_applied (rm_roomsRequests s)"
      unfolding ap rooms ok by (auto split: http.splits)
    with IH le show "rm_rooms (answers K (x # xs) s) = rm_rooms s"
      by (simp add: x ok[unfolded x])
  qed
qed (simp add: ok_answers_def)

text \<open>The rooms list is the newest one asked for: in whatever order overlapping requests are answered,
  and whichever of them fail, the list shown at the end is the answer to the request started last among
  those that succeeded, and an answer to an older one never replaces it.\<close>

theorem newest_rooms_list_wins:
  assumes "distinct (map fst xs)" and "(seq, HttpOk rooms) \<in> set xs" and "lw_applied (rm_roomsRequests s) < seq"
    and "\<forall>(k, res) \<in> set xs. (\<exists>rs. res = HttpOk rs) \<longrightarrow> k \<le> seq"
  shows "rm_rooms (answers K xs s) = rooms \<and> (\<forall>k rs. k \<le> seq \<longrightarrow>
    rm_rooms (snd (request_rooms_end K k (HttpOk rs) (answers K xs s))) = rooms)"
proof -
  have le: "\<forall>k \<in> set (ok_answers xs). k \<le> seq"
    using assms(4) by (fastforce simp: ok_answers_mem)
  have list: "rm_rooms (answers K xs s) = rooms"
    using answers_applied[of K xs s] assms(1-3) le by blast
  have "seq \<in> set (ok_answers xs)"
    using assms(2) by (auto simp: ok_answers_mem)
  then have "seq \<le> fold max (ok_answers xs) (lw_applied (rm_roomsRequests s))"
    by (metis Max.set_eq_fold Max_ge List.finite_set list.set_intros(2))
  with answers_applied[of K xs s] list show ?thesis
    by (simp add: request_rooms_end_def try_apply_def)
qed

section \<open>Witnesses\<close>

definition sample_summary :: "nat \<Rightarrow> room_summary" where
  "sample_summary k = \<lparr>sm_id = js ''1'', sm_name = js ''team'', sm_role = role_member, sm_currentKeyId = k\<rparr>"

lemma encrypted_rooms_never_downgrade_witness:
  "use_room_e2ee_state (js ''team'') (rooms_run memory_storage
     [RefresherReports (OnRefresh (js ''team'') (Some RfOffline)),
      RequestRoomsAnswered 9 (HttpOk [sample_summary 0])]
     (rooms_step memory_storage (NoteRoomEpoch (js ''team'') 1) (new_rooms_state []))) = StE2ee"
proof -
  have "js ''team'' \<noteq> default_room" "shows_e2ee (js ''team'') (NoteRoomEpoch (js ''team'') 1) (new_rooms_state [])"
    by (simp_all add: default_room_def)
  from encrypted_rooms_never_downgrade[OF memory.kv_store_axioms this] show ?thesis by blast
qed

lemma newest_rooms_list_wins_witness:
  "rm_rooms (answers memory_storage [(2, HttpOk [sample_summary 1]), (1, HttpOk [sample_summary 0]), (3, NoResponse)]
     (new_rooms_state [])) = [sample_summary 1]"
  using newest_rooms_list_wins[of "[(2, HttpOk [sample_summary 1]), (1, HttpOk [sample_summary 0]), (3, NoResponse)]"
      2 "[sample_summary 1]" "new_rooms_state []" memory_storage]
  by (simp add: new_rooms_state_def new_latest_wins_def)

end
