(* ===== verification/Rest_Api.thy ===== *)
theory Rest_Api
  imports Accounts Http
begin

text \<open>
  The REST endpoints: the controllers of \<open>rooms\<close>, \<open>users\<close> and \<open>auth\<close>, the JWT strategy and the global
  \<open>ValidationPipe\<close> of \<open>main.ts\<close>, from the text of a request body to the response and the new database.
  Checking a token's signature and expiry, at the time of the request, is a parameter, as are the
  wordings of error messages; the throttler is left out.
\<close>

record rest_env =
  re_auth :: auth_env
  re_vlen :: "jstr \<Rightarrow> nat"
  re_is_email :: "jstr \<Rightarrow> bool"
  re_verify :: "jstr \<Rightarrow> (jstr \<times> jstr) option"
  re_explain :: "service_error \<Rightarrow> message_field"
  re_invalid :: message_field
  re_unauthorized :: message_field

section \<open>Guard, pipe and errors\<close>

record request_user =
  ru_userId :: jstr
  ru_username :: jstr

text \<open>\<open>validate\<close> of the JWT strategy; the payload is subject and username.\<close>

definition jwt_validate :: "jstr \<times> jstr \<Rightarrow> request_user" where
  "jwt_validate payload = \<lparr>ru_userId = fst payload, ru_username = snd payload\<rparr>"

definition guarded :: "rest_env \<Rightarrow> jstr \<Rightarrow> (request_user \<Rightarrow> 'a http \<times> db) \<Rightarrow> db \<Rightarrow> 'a http \<times> db" where
  "guarded R token handler d = (case re_verify R token of
     None \<Rightarrow> (HttpError 401 (re_unauthorized R), d)
   | Some payload \<Rightarrow> handler (jwt_validate payload))"

fun status_of :: "service_error \<Rightarrow> nat" where
  "status_of NotFound = 404"
| "status_of Forbidden = 403"
| "status_of Conflict = 409"
| "status_of Unauthorized = 401"
| "status_of (DbFailure e) = 500"

definition respond :: "rest_env \<Rightarrow> (service_error + 'a) \<Rightarrow> 'a http" where
  "respond R r = (case r of Inl e \<Rightarrow> HttpError (status_of e) (re_explain R e) | Inr x \<Rightarrow> HttpOk x)"

text \<open>
  A service whose error comes before its only write, or out of a transaction: the database stays.
  \<open>create\<close> of the rooms is not one of them.
\<close>

definition respond_with :: "rest_env \<Rightarrow> (service_error + 'a \<times> db) \<Rightarrow> db \<Rightarrow> 'a http \<times> db" where
  "respond_with R r d = (case r of
     Inl e \<Rightarrow> (HttpError (status_of e) (re_explain R e), d)
   | Inr (x, e) \<Rightarrow> (HttpOk x, e))"

text \<open>\<open>whitelist\<close> and \<open>forbidNonWhitelisted\<close>: no property beside the decorated ones.\<close>

definition only_keys :: "string list \<Rightarrow> json \<Rightarrow> bool" where
  "only_keys ks body \<longleftrightarrow> (case body of JObj kvs \<Rightarrow> list_all (\<lambda>kv. fst kv \<in> set (map js ks)) kvs | _ \<Rightarrow> False)"

definition validated ::
  "rest_env \<Rightarrow> (json \<Rightarrow> bool) \<Rightarrow> (json \<Rightarrow> 'b option) \<Rightarrow> jstr \<Rightarrow> ('b \<Rightarrow> 'a http \<times> db) \<Rightarrow> db \<Rightarrow> 'a http \<times> db" where
  "validated R whitelisted dto text handler d =
     (case Option.bind (json_parse text) (\<lambda>body. if whitelisted body then dto body else None) of
        None \<Rightarrow> (HttpError 400 (re_invalid R), d)
      | Some x \<Rightarrow> handler x)"

definition upload_keys_whitelist :: "json \<Rightarrow> bool" where
  "upload_keys_whitelist body \<longleftrightarrow> only_keys [''claimEpoch'', ''grants''] body
     \<and> (case json_get body (js ''claimEpoch'') of None \<Rightarrow> True | Some JNull \<Rightarrow> True
        | Some c \<Rightarrow> only_keys [''expectedCurrentKeyId''] c)
     \<and> (case json_get body (js ''grants'') of
          Some (JArr gs) \<Rightarrow> list_all (only_keys [''userId'', ''keyId'', ''wrappedKey'', ''recipientKeyFp'']) gs
        | _ \<Rightarrow> True)"

section \<open>Rooms\<close>

definition get_rooms :: "rest_env \<Rightarrow> jstr \<Rightarrow> db \<Rightarrow> room_summary list http \<times> db" where
  "get_rooms R token d = guarded R token (\<lambda>user. (HttpOk (list_for_user d (ru_userId user)), d)) d"

definition post_rooms :: "rest_env \<Rightarrow> jstr \<Rightarrow> jstr \<Rightarrow> jstr \<Rightarrow> db \<Rightarrow> room_summary http \<times> db" where
  "post_rooms R fresh token body d = guarded R token (\<lambda>user.
     validated R (only_keys [''name'']) (create_room_dto (re_vlen R)) body (\<lambda>name.
       case rooms_create fresh name (ru_userId user) d of (res, e) \<Rightarrow> (respond R res, e)) d) d"

definition post_join :: "rest_env \<Rightarrow> jstr \<Rightarrow> jstr \<Rightarrow> db \<Rightarrow> room_summary http \<times> db" where
  "post_join R token name d = guarded R token (\<lambda>user. respond_with R (rooms_join name (ru_userId user) d) d) d"

section \<open>Room keys\<close>

definition get_keys :: "rest_env \<Rightarrow> jstr \<Rightarrow> jstr \<Rightarrow> db \<Rightarrow> grant_row list http \<times> db" where
  "get_keys R token roomId d = guarded R token (\<lambda>user. (respond R (get_my_grants d roomId (ru_userId user)), d)) d"

definition get_keys_pending :: "rest_env \<Rightarrow> jstr \<Rightarrow> jstr \<Rightarrow> db \<Rightarrow> pending_grant list http \<times> db" where
  "get_keys_pending R token roomId d =
     guarded R token (\<lambda>user. (respond R (get_pending d roomId (ru_userId user)), d)) d"

definition get_keys_members :: "rest_env \<Rightarrow> jstr \<Rightarrow> jstr \<Rightarrow> db \<Rightarrow> (jstr \<times> jstr) list http \<times> db" where
  "get_keys_members R token roomId d =
     guarded R token (\<lambda>user. (respond R (get_members_with_public_keys d roomId (ru_userId user)), d)) d"

definition post_keys :: "rest_env \<Rightarrow> jstr \<Rightarrow> jstr \<Rightarrow> jstr \<Rightarrow> db \<Rightarrow> nat http \<times> db" where
  "post_keys R token roomId body d = guarded R token (\<lambda>user.
     validated R upload_keys_whitelist upload_keys_dto body (\<lambda>dto.
       case upload_grants roomId (ru_userId user) dto d of (res, e, _) \<Rightarrow> (respond R res, e)) d) d"

section \<open>Accounts\<close>

definition put_public_key :: "rest_env \<Rightarrow> jstr \<Rightarrow> jstr \<Rightarrow> db \<Rightarrow> (jstr \<times> jstr) http \<times> db" where
  "put_public_key R token body d = guarded R token (\<lambda>user.
     validated R (only_keys [''publicKey'']) (set_public_key_dto (re_vlen R)) body (\<lambda>pk.
       respond_with R (set_public_key (re_auth R) (ru_userId user) pk d) d) d) d"

definition post_register :: "rest_env \<Rightarrow> int \<Rightarrow> jstr \<Rightarrow> jstr \<Rightarrow> jstr \<Rightarrow> db \<Rightarrow> auth_response http \<times> db" where
  "post_register R now fresh salt body d =
     validated R (only_keys [''email'', ''username'', ''password'']) (register_body (re_vlen R) (re_is_email R)) body
       (\<lambda>dto. respond_with R (auth_register (re_auth R) now fresh salt dto d) d) d"

definition post_login :: "rest_env \<Rightarrow> int \<Rightarrow> jstr \<Rightarrow> db \<Rightarrow> auth_response http \<times> db" where
  "post_login R now body d =
     validated R (only_keys [''email'', ''password'']) (login_body (re_vlen R) (re_is_email R)) body
       (\<lambda>(email, password). (respond R (auth_login (re_auth R) now email password d), d)) d"

section \<open>Lemmas\<close>

lemma respond_HttpOk [simp]: "respond R r = HttpOk x \<longleftrightarrow> r = Inr x"
  by (cases r) (simp_all add: respond_def)

lemma guarded_HttpOk:
  "guarded R token handler d = (HttpOk x, e) \<longleftrightarrow>
    (\<exists>p. re_verify R token = Some p \<and> handler (jwt_validate p) = (HttpOk x, e))"
  by (auto simp: guarded_def split: option.split)

lemma validated_HttpOk:
  "validated R wl dto text handler d = (HttpOk x, e) \<longleftrightarrow>
    (\<exists>body y. json_parse text = Some body \<and> wl body \<and> dto body = Some y \<and> handler y = (HttpOk x, e))"
  by (auto simp: validated_def split: option.split bind_splits if_splits)

lemma respond_with_HttpOk: "respond_with R r d = (HttpOk x, e) \<longleftrightarrow> r = Inr (x, e)"
  by (auto simp: respond_with_def split: sum.split prod.split)

lemma validated_printed:
  "printable body \<Longrightarrow> wl body \<Longrightarrow> dto body = Some y \<Longrightarrow>
    validated R wl dto (json_stringify body) handler d = handler y"
  by (simp add: validated_def json_roundtrip)

section \<open>Requests\<close>

text \<open>
  What the endpoints do to the database, one request after another. Ids, salts and the clock come with
  the request.
\<close>

datatype request =
    ListRooms jstr
  | CreateRoom jstr jstr jstr
  | JoinRoom jstr jstr
  | MyKeys jstr jstr
  | PendingKeys jstr jstr
  | MemberKeys jstr jstr
  | UploadKeys jstr jstr jstr
  | PublishKey jstr jstr
  | Register int jstr jstr jstr
  | Login int jstr

fun serve_request :: "rest_env \<Rightarrow> request \<Rightarrow> db \<Rightarrow> db" where
  "serve_request R (ListRooms token) d = snd (get_rooms R token d)"
| "serve_request R (CreateRoom fresh token body) d = snd (post_rooms R fresh token body d)"
| "serve_request R (JoinRoom token name) d = snd (post_join R token name d)"
| "serve_request R (MyKeys token roomId) d = snd (get_keys R token roomId d)"
| "serve_request R (PendingKeys token roomId) d = snd (get_keys_pending R token roomId d)"
| "serve_request R (MemberKeys token roomId) d = snd (get_keys_members R token roomId d)"
| "serve_request R (UploadKeys token roomId body) d = snd (post_keys R token roomId body d)"
| "serve_request R (PublishKey token body) d = snd (put_public_key R token body d)"
| "serve_request R (Register now fresh salt body) d = snd (post_register R now fresh salt body d)"
| "serve_request R (Login now body) d = snd (post_login R now body d)"

text \<open>A property of the old and the new database that holds when nothing changes, and for the handler.\<close>

lemma guarded_keeps:
  "Q d d \<Longrightarrow> (\<And>user. Q d (snd (handler user))) \<Longrightarrow> Q d (snd (guarded R token handler d))"
  by (simp add: guarded_def split: option.split)

lemma validated_keeps:
  "Q d d \<Longrightarrow> (\<And>x body. dto body = Some x \<Longrightarrow> Q d (snd (handler x))) \<Longrightarrow> Q d (snd (validated R wl dto text handler d))"
  by (auto simp: validated_def split: option.splits bind_splits if_splits)

definition served_ok :: "db \<Rightarrow> db \<Rightarrow> bool" where
  "served_ok d e \<longleftrightarrow> (db_inv d \<longrightarrow> db_inv e \<and> grows d e \<and> accounts_kept d e)"

lemma served_ok_refl [simp]: "served_ok d d"
  by (simp add: served_ok_def)

lemma served_ok_trans: "served_ok d e \<Longrightarrow> served_ok e f \<Longrightarrow> served_ok d f"
  using grows_trans accounts_kept_trans unfolding served_ok_def by blast

lemma respond_with_ok: "(\<And>x e. r = Inr (x, e) \<Longrightarrow> served_ok d e) \<Longrightarrow> served_ok d (snd (respond_with R r d))"
  by (auto simp: respond_with_def split: sum.split)

lemma rooms_ok:
  "rooms_create i n u d = (res, e) \<Longrightarrow> served_ok d e"
  "rooms_join n u d = Inr (x, e) \<Longrightarrow> served_ok d e"
proof -
  have "db_users e = db_users d" if "rooms_create i n u d = (res, e)"
    using that by (auto simp: rooms_create_def create_room_def create_member_def Let_def split: sum.splits if_splits)
  then show "rooms_create i n u d = (res, e) \<Longrightarrow> served_ok d e"
    using rooms_create_inv[of d i n u res e] accounts_kept_users[of e d] by (simp add: served_ok_def)
  have "db_users e = db_users d" if "rooms_join n u d = Inr (x, e)"
    using that by (auto simp: rooms_join_def create_member_def bind_result_Inr split: option.splits if_splits)
  then show "rooms_join n u d = Inr (x, e) \<Longrightarrow> served_ok d e"
    using rooms_join_inv[of d n u x e] accounts_kept_users[of e d] by (cases x) (simp add: served_ok_def)
qed

lemma upload_ok_served:
  "upload_keys_dto body = Some dto \<Longrightarrow> upload_grants r u dto d = (res, e, ev) \<Longrightarrow> served_ok d e"
  using upload_grants_inv upload_grants_users accounts_kept_users by (auto simp: served_ok_def)

lemma accounts_ok:
  "set_public_key A u pk d = Inr (y, e) \<Longrightarrow> served_ok d e"
  "auth_register A now i salt dto d = Inr (r, e) \<Longrightarrow> served_ok d e"
  unfolding served_ok_def using set_public_key_inv auth_register_inv by blast+

lemma serve_request_ok: "served_ok d (serve_request R q d)"
  by (cases q)
    (auto simp: get_rooms_def post_rooms_def post_join_def get_keys_def get_keys_pending_def get_keys_members_def
      post_keys_def put_public_key_def post_register_def post_login_def split: prod.split
      intro!: guarded_keeps[where Q = served_ok] validated_keeps[where Q = served_ok] respond_with_ok
      intro: rooms_ok upload_ok_served accounts_ok)

end
