(* ===== verification/App_Shell.thy ===== *)
theory App_Shell
  imports Auth_Store Rooms_Store Rest_Api
begin

text \<open>
  The screens around the chat: \<open>AuthGate\<close> of \<open>app/_layout.tsx\<close> with the index screens that only redirect,
  the login and registration forms, the rooms list and the account sheet. A handler is a function of
  the screen's state and says what it asks for; the stores and the server's endpoints answer.
\<close>

section \<open>Routes and redirects\<close>

datatype route = RootIndex | AuthLogin | AuthRegister | ChatIndex | ChatRoom jstr | ChatRooms | ChatAccount

text \<open>A token is present when it is neither \<open>null\<close> nor empty.\<close>

definition signed_in :: "auth_state \<Rightarrow> bool" where
  "signed_in a \<longleftrightarrow> (case st_token a of None \<Rightarrow> False | Some t \<Rightarrow> t \<noteq> [])"

definition in_auth :: "route \<Rightarrow> bool" where
  "in_auth r \<longleftrightarrow> (case r of AuthLogin \<Rightarrow> True | AuthRegister \<Rightarrow> True | _ \<Rightarrow> False)"

definition auth_gate :: "auth_state \<Rightarrow> route \<Rightarrow> route option" where
  "auth_gate a r =
     (if st_isLoading a then None
      else if \<not> signed_in a \<and> \<not> in_auth r then Some AuthLogin
      else if signed_in a \<and> in_auth r then Some ChatIndex
      else None)"

definition index_redirect :: "route \<Rightarrow> route option" where
  "index_redirect r = (if r = RootIndex then Some AuthLogin else None)"

definition chat_index_redirect :: "route \<Rightarrow> route option" where
  "chat_index_redirect r = (if r = ChatIndex then Some (ChatRoom default_room) else None)"

text \<open>Which of the effects runs first is React's choice; each sees the route as it then is.\<close>

definition redirects :: "auth_state \<Rightarrow> route \<Rightarrow> route \<Rightarrow> bool" where
  "redirects a r r' \<longleftrightarrow> auth_gate a r = Some r' \<or> index_redirect r = Some r' \<or> chat_index_redirect r = Some r'"

fun redirect_chain :: "auth_state \<Rightarrow> route \<Rightarrow> route list \<Rightarrow> bool" where
  "redirect_chain a r [] \<longleftrightarrow> True"
| "redirect_chain a r (q # qs) \<longleftrightarrow> redirects a r q \<and> redirect_chain a q qs"

text \<open>Where the user ends up.\<close>

definition landing :: "auth_state \<Rightarrow> route \<Rightarrow> route" where
  "landing a r =
     (if st_isLoading a then (case r of RootIndex \<Rightarrow> AuthLogin | ChatIndex \<Rightarrow> ChatRoom default_room | _ \<Rightarrow> r)
      else if signed_in a then (case r of ChatRoom _ \<Rightarrow> r | ChatRooms \<Rightarrow> r | ChatAccount \<Rightarrow> r | _ \<Rightarrow> ChatRoom default_room)
      else if in_auth r then r else AuthLogin)"

section \<open>The forms\<close>

text \<open>An alert's text is \<open>None\<close> where the platform words it; \<open>Submit\<close> carries the body of the request.\<close>

datatype form_effect = ShowAlert jstr "jstr option" | Submit json

record login_form =
  lf_email :: jstr
  lf_password :: jstr
  lf_loading :: bool

definition login_payload :: "jstr \<Rightarrow> jstr \<Rightarrow> json" where
  "login_payload email password = JObj [(js ''email'', JStr email), (js ''password'', JStr password)]"

definition handle_login :: "login_form \<Rightarrow> login_form \<times> form_effect list" where
  "handle_login f =
     (if lf_loading f then (f, [])
      else let e = trim (lf_email f); p = lf_password f
        in if e = [] \<or> p = [] then (f, [ShowAlert (js ''Error'') (Some (js ''Email and password are required''))])
           else (f\<lparr>lf_loading := True\<rparr>, [Submit (login_payload e p)]))"

definition login_settled :: "(jstr option + unit) \<Rightarrow> login_form \<Rightarrow> login_form \<times> form_effect list" where
  "login_settled out f = (f\<lparr>lf_loading := False\<rparr>,
     case out of Inl m \<Rightarrow> [ShowAlert (js ''Login failed'') m] | Inr _ \<Rightarrow> [])"

record register_form =
  gf_email :: jstr
  gf_username :: jstr
  gf_password :: jstr
  gf_loading :: bool

definition register_payload :: "jstr \<Rightarrow> jstr \<Rightarrow> jstr \<Rightarrow> json" where
  "register_payload email username password =
     JObj [(js ''email'', JStr email), (js ''username'', JStr username), (js ''password'', JStr password)]"

definition handle_register :: "register_form \<Rightarrow> register_form \<times> form_effect list" where
  "handle_register f =
     (let e = trim (gf_email f); u = trim (gf_username f); p = gf_password f
      in if e = [] \<or> u = [] \<or> p = [] then (f, [ShowAlert (js ''Error'') (Some (js ''All fields are required''))])
         else if length p < 8
           then (f, [ShowAlert (js ''Error'') (Some (js ''Password must be at least 8 characters''))])
         else (f\<lparr>gf_loading := True\<rparr>, [Submit (register_payload e u p)]))"

definition register_settled :: "(jstr option + unit) \<Rightarrow> register_form \<Rightarrow> register_form \<times> form_effect list" where
  "register_settled out f = (f\<lparr>gf_loading := False\<rparr>,
     case out of Inl m \<Rightarrow> [ShowAlert (js ''Registration failed'') m] | Inr _ \<Rightarrow> [])"

text \<open>A press answered by a server: \<open>send\<close> is the request with the text of its body.\<close>

definition sign_in ::
  "'s kv_ops \<Rightarrow> (jstr \<Rightarrow> db \<Rightarrow> auth_response http \<times> db) \<Rightarrow> login_form \<Rightarrow> 's \<Rightarrow> auth_state \<Rightarrow> db
    \<Rightarrow> (login_form \<times> form_effect list) \<times> 's \<times> auth_state \<times> db" where
  "sign_in K send f s a d = (case handle_login f of
     (f, [Submit body]) \<Rightarrow>
       (case send (json_stringify body) d of (res, d) \<Rightarrow>
        case login_end K res s a of (out, s, a) \<Rightarrow> (login_settled out f, s, a, d))
   | r \<Rightarrow> (r, s, a, d))"

definition sign_up ::
  "'s kv_ops \<Rightarrow> (jstr \<Rightarrow> db \<Rightarrow> auth_response http \<times> db) \<Rightarrow> register_form \<Rightarrow> 's \<Rightarrow> auth_state \<Rightarrow> db
    \<Rightarrow> (register_form \<times> form_effect list) \<times> 's \<times> auth_state \<times> db" where
  "sign_up K send f s a d = (case handle_register f of
     (f, [Submit body]) \<Rightarrow>
       (case send (json_stringify body) d of (res, d) \<Rightarrow>
        case register_end K res s a of (out, s, a) \<Rightarrow> (register_settled out f, s, a, d))
   | r \<Rightarrow> (r, s, a, d))"

section \<open>The rooms list\<close>

record rooms_screen =
  rv_nameDraft :: jstr
  rv_actionError :: "jstr option"

definition open_room :: "room_summary \<Rightarrow> route" where
  "open_room room = ChatRoom (sm_name room)"

text \<open>Both buttons: the name to create or join, unless it is blank.\<close>

definition handle_create :: "rooms_screen \<Rightarrow> rooms_screen \<times> jstr option" where
  "handle_create s = (let name = trim (rv_nameDraft s)
     in if name = [] then (s, None) else (s\<lparr>rv_actionError := None\<rparr>, Some name))"

definition handle_join :: "rooms_screen \<Rightarrow> rooms_screen \<times> jstr option" where
  "handle_join s = (let name = trim (rv_nameDraft s)
     in if name = [] then (s, None) else (s\<lparr>rv_actionError := None\<rparr>, Some name))"

text \<open>The promise settles: the room is opened, or the message of the error is shown.\<close>

definition room_action_settled :: "(jstr + room_summary) \<Rightarrow> rooms_screen \<Rightarrow> rooms_screen \<times> route option" where
  "room_action_settled out s = (case out of
     Inl m \<Rightarrow> (s\<lparr>rv_actionError := Some m\<rparr>, None) | Inr room \<Rightarrow> (s, Some (open_room room)))"

definition room_payload :: "jstr \<Rightarrow> json" where
  "room_payload name = JObj [(js ''name'', JStr name)]"

definition not_authenticated :: jstr where "not_authenticated = js ''Not authenticated''"

text \<open>\<open>createRoom\<close> and \<open>joinRoom\<close> of the store with the request each makes.\<close>

definition create_room_at ::
  "(jstr \<Rightarrow> jstr \<Rightarrow> db \<Rightarrow> room_summary http \<times> db) \<Rightarrow> auth_state \<Rightarrow> jstr \<Rightarrow> 's rooms_state \<Rightarrow> db
    \<Rightarrow> (jstr + room_summary) \<times> 's rooms_state \<times> db" where
  "create_room_at send a name s d =
     (if \<not> signed_in a then (Inl not_authenticated, s, d)
      else case send (the (st_token a)) (json_stringify (room_payload name)) d of
        (res, d) \<Rightarrow> case create_room_end res s of (out, s) \<Rightarrow> (out, s, d))"

definition join_room_at ::
  "(jstr \<Rightarrow> jstr \<Rightarrow> db \<Rightarrow> room_summary http \<times> db) \<Rightarrow> auth_state \<Rightarrow> jstr \<Rightarrow> 's rooms_state \<Rightarrow> db
    \<Rightarrow> (jstr + room_summary) \<times> 's rooms_state \<times> db" where
  "join_room_at send a name s d =
     (if \<not> signed_in a then (Inl not_authenticated, s, d)
      else case send (the (st_token a)) name d of
        (res, d) \<Rightarrow> case join_room_end res s of (out, s) \<Rightarrow> (out, s, d))"

definition press_room_action ::
  "(rooms_screen \<Rightarrow> rooms_screen \<times> jstr option)
    \<Rightarrow> (jstr \<Rightarrow> 's rooms_state \<Rightarrow> db \<Rightarrow> (jstr + room_summary) \<times> 's rooms_state \<times> db)
    \<Rightarrow> rooms_screen \<Rightarrow> 's rooms_state \<Rightarrow> db \<Rightarrow> (rooms_screen \<times> route option) \<times> 's rooms_state \<times> db" where
  "press_room_action handle act v s d = (case handle v of
     (v, None) \<Rightarrow> ((v, None), s, d)
   | (v, Some name) \<Rightarrow> (case act name s d of (out, s, d) \<Rightarrow> (room_action_settled out v, s, d)))"

text \<open>What the list shows: the rows, the hint of an empty list, and the errors under it.\<close>

definition rooms_list :: "'s rooms_state \<Rightarrow> rooms_screen \<Rightarrow> (jstr \<times> jstr) list \<times> bool \<times> jstr list" where
  "rooms_list s v = (map (\<lambda>r. (js ''# '' @ sm_name r, sm_role r)) (rm_rooms s),
     rm_rooms s = [] \<and> \<not> rm_isLoading s,
     concat (map (\<lambda>e. case e of None \<Rightarrow> [] | Some m \<Rightarrow> if m = [] then [] else [m]) [rm_error s, rv_actionError v]))"

section \<open>The account sheet\<close>

definition account_texts :: "auth_state \<Rightarrow> jstr option \<times> jstr" where
  "account_texts a =
     ((case st_user a of None \<Rightarrow> None | Some u \<Rightarrow> if ud_username u = [] then None else Some (ud_username u)),
      (case st_user a of None \<Rightarrow> js ''Not signed in'' | Some u \<Rightarrow> ud_email u))"

definition handle_rooms :: route where "handle_rooms = ChatRooms"

section \<open>Redirects end\<close>

lemma redirects_cases:
  "redirects a r q \<longleftrightarrow>
     (\<not> st_isLoading a \<and> \<not> signed_in a \<and> \<not> in_auth r \<and> q = AuthLogin)
   \<or> (\<not> st_isLoading a \<and> signed_in a \<and> in_auth r \<and> q = ChatIndex)
   \<or> (r = RootIndex \<and> q = AuthLogin) \<or> (r = ChatIndex \<and> q = ChatRoom default_room)"
  by (auto simp: redirects_def auth_gate_def index_redirect_def chat_index_redirect_def)

lemma landing_redirect: "redirects a r q \<Longrightarrow> landing a q = landing a r"
  by (auto simp: redirects_cases landing_def in_auth_def split: route.splits)

text \<open>How many redirects are left at most.\<close>

definition redirects_left :: "auth_state \<Rightarrow> route \<Rightarrow> nat" where
  "redirects_left a r = (case r of
     RootIndex \<Rightarrow> if signed_in a \<and> \<not> st_isLoading a then 3 else 1
   | ChatIndex \<Rightarrow> if signed_in a \<or> st_isLoading a then 1 else 2
   | AuthLogin \<Rightarrow> if signed_in a \<and> \<not> st_isLoading a then 2 else 0
   | AuthRegister \<Rightarrow> if signed_in a \<and> \<not> st_isLoading a then 2 else 0
   | _ \<Rightarrow> if signed_in a \<or> st_isLoading a then 0 else 1)"

lemma redirect_decreases: "redirects a r q \<Longrightarrow> redirects_left a q < redirects_left a r"
  by (auto simp: redirects_cases redirects_left_def in_auth_def split: route.splits)

lemma chain_bounded: "redirect_chain a r qs \<Longrightarrow> length qs + redirects_left a (last (r # qs)) \<le> redirects_left a r"
proof (induction qs arbitrary: r)
  case (Cons q qs)
  then have "redirect_chain a q qs" "redirects_left a q < redirects_left a r"
    using redirect_decreases[of a r q] by simp_all
  with Cons.IH[of q] show ?case by simp
qed simp

lemma chain_landing: "redirect_chain a r qs \<Longrightarrow> landing a (last (r # qs)) = landing a r"
proof (induction qs arbitrary: r)
  case (Cons q qs)
  then show ?case using landing_redirect[of a r q] by auto
qed simp

lemma settled_landing: "(\<forall>q. \<not> redirects a r q) \<Longrightarrow> landing a r = r"
  by (auto simp: redirects_cases landing_def in_auth_def split: route.splits)

lemma redirects_left_le: "redirects_left a r \<le> 3"
  by (simp add: redirects_left_def split: route.split)

lemma landing_settled: "\<not> redirects a (landing a r) q"
  by (auto simp: redirects_cases landing_def in_auth_def split: route.splits)

text \<open>C36. Redirecting ends: from any screen, whichever of the effects runs first, at most three redirects
  follow one another, and when none is left the user is at the one screen meant for them. Once the
  stored session is read, that is a sign-in screen exactly for whoever has no token.\<close>
theorem redirects_end:
  assumes "redirect_chain a r qs"
  shows "length qs \<le> 3
    \<and> ((\<forall>q. \<not> redirects a (last (r # qs)) q) \<longrightarrow> last (r # qs) = landing a r)
    \<and> (\<not> st_isLoading a \<longrightarrow> (in_auth (landing a r) \<longleftrightarrow> \<not> signed_in a))"
proof (intro conjI impI)
  show "length qs \<le> 3" using chain_bounded[OF assms] redirects_left_le[of a r] by linarith
  show "last (r # qs) = landing a r" if "\<forall>q. \<not> redirects a (last (r # qs)) q"
    using settled_landing[OF that] chain_landing[OF assms] by simp
  show "in_auth (landing a r) \<longleftrightarrow> \<not> signed_in a" if "\<not> st_isLoading a"
    using that by (auto simp: landing_def in_auth_def split: route.splits)
qed

section \<open>What the forms refuse\<close>

lemma login_body_payload:
  "login_body vlen is_email (login_payload e p) = (if is_email e \<and> p \<noteq> [] \<and> 8 \<le> vlen p then Some (e, p) else None)"
  by (simp add: login_body_def login_payload_def)

lemma register_body_payload:
  "register_body vlen is_email (register_payload e u p) =
     (if is_email e \<and> length_between vlen 2 30 u \<and> 8 \<le> vlen p
      then Some \<lparr>rg_email = e, rg_username = u, rg_password = p\<rparr> else None)"
  by (simp add: register_body_def register_payload_def)

lemma post_login_payload:
  "post_login R now (json_stringify (login_payload e p)) d =
     (if re_is_email R e \<and> p \<noteq> [] \<and> 8 \<le> re_vlen R p
      then (respond R (auth_login (re_auth R) now e p d), d) else (HttpError 400 (re_invalid R), d))"
proof -
  have "json_parse (json_stringify (login_payload e p)) = Some (login_payload e p)"
    by (rule json_roundtrip) (simp add: login_payload_def)
  then show ?thesis
    by (simp add: post_login_def validated_def login_body_payload) (simp add: only_keys_def login_payload_def)
qed

lemma post_register_payload:
  "post_register R now i salt (json_stringify (register_payload e u p)) d =
     (if re_is_email R e \<and> length_between (re_vlen R) 2 30 u \<and> 8 \<le> re_vlen R p
      then respond_with R (auth_register (re_auth R) now i salt \<lparr>rg_email = e, rg_username = u, rg_password = p\<rparr> d) d
      else (HttpError 400 (re_invalid R), d))"
proof -
  have "json_parse (json_stringify (register_payload e u p)) = Some (register_payload e u p)"
    by (rule json_roundtrip) (simp add: register_payload_def)
  then show ?thesis
    by (simp add: post_register_def validated_def register_body_payload) (simp add: only_keys_def register_payload_def)
qed

text \<open>The forms refuse nothing the server would take: a registration or a login the form answers with an
  alert of its own, the server would have refused as invalid too, without touching the database.\<close>
theorem forms_refuse_no_more_than_server:
  assumes "\<forall>s. re_vlen R s \<le> length s" and "\<not> re_is_email R []"
  shows "(snd (handle_register f) = [ShowAlert title m]
       \<longrightarrow> post_register R now i salt (json_stringify (register_payload (trim (gf_email f)) (trim (gf_username f)) (gf_password f))) d
           = (HttpError 400 (re_invalid R), d))
    \<and> (snd (handle_login g) = [ShowAlert title m]
       \<longrightarrow> post_login R now (json_stringify (login_payload (trim (lf_email g)) (lf_password g))) d
           = (HttpError 400 (re_invalid R), d))"
proof -
  have "re_vlen R [] = 0" using assms(1) by (metis le_zero_eq list.size(3))
  moreover have "length (gf_password f) < 8 \<Longrightarrow> \<not> 8 \<le> re_vlen R (gf_password f)"
    using assms(1) by (metis le_trans not_le)
  ultimately show ?thesis using assms(2)
    by (auto simp: handle_register_def handle_login_def post_register_payload post_login_payload Let_def
        length_between_def split: if_splits)
qed

section \<open>From the first press to the next login\<close>

lemma handle_register_submit:
  "snd (handle_register f) = [Submit body] \<longleftrightarrow> trim (gf_email f) \<noteq> [] \<and> trim (gf_username f) \<noteq> [] \<and> gf_password f \<noteq> []
     \<and> \<not> length (gf_password f) < 8
     \<and> body = register_payload (trim (gf_email f)) (trim (gf_username f)) (gf_password f)"
  by (auto simp: handle_register_def Let_def)

text \<open>A press that signs the user in did so by an answer of the server that it stored.\<close>

lemma session_begins_signs_in:
  assumes "session_begins K fallback res s a = (out, s', a')" and "\<not> signed_in a" and "signed_in a'"
  shows "\<exists>r. res = HttpOk r \<and> out = Inr ()"
  using assms by (auto simp: session_begins_def split: http.splits)

lemma session_begins_ok:
  "session_begins K fallback (HttpOk r) s a = (Inr (), kv_set K token_key (json_stringify (auth_to_json r)) s,
     a\<lparr>st_token := Some (ar_token r),
        st_user := Some \<lparr>ud_id = ar_id r, ud_email = ar_email r, ud_username = ar_username r\<rparr>\<rparr>)"
  by (simp add: session_begins_def)

lemma sign_up_signs_in:
  assumes "sign_up K (post_register R now i salt) f s a d = ((f', fx), s', a', d')" and "\<not> signed_in a" and "signed_in a'"
  shows "\<exists>r dto. auth_register (re_auth R) now i salt dto d = Inr (r, d')
    \<and> dto = \<lparr>rg_email = trim (gf_email f), rg_username = trim (gf_username f), rg_password = gf_password f\<rparr>
    \<and> 8 \<le> re_vlen R (gf_password f) \<and> gf_password f \<noteq> []
    \<and> fx = [] \<and> session_begins K (js ''Register failed'') (HttpOk r) s a = (Inr (), s', a')"
proof (cases "\<exists>body. snd (handle_register f) = [Submit body]")
  case False
  then have "a' = a" using assms(1)
    by (cases "handle_register f") (auto simp: sign_up_def split: list.splits form_effect.splits)
  then show ?thesis using assms(2,3) by simp
next
  case True
  then obtain body g where h: "handle_register f = (g, [Submit body])" by (cases "handle_register f") auto
  then have b: "body = register_payload (trim (gf_email f)) (trim (gf_username f)) (gf_password f)" "gf_password f \<noteq> []"
    using handle_register_submit[of f body] by auto
  obtain res e where p: "post_register R now i salt (json_stringify body) d = (res, e)" by fastforce
  obtain out t b' where q: "session_begins K (js ''Register failed'') res s a = (out, t, b')" by (metis prod_cases3)
  have eq: "fx = snd (register_settled out g)" "t = s'" "b' = a'" "e = d'"
    using assms(1) h p q by (auto simp: sign_up_def register_end_def prod_eq_iff)
  obtain r where r: "res = HttpOk r" "out = Inr ()"
    using session_begins_signs_in[OF q assms(2)] assms(3) eq by auto
  show ?thesis
    using p q r eq b by (auto simp: post_register_payload respond_with_HttpOk register_settled_def split: if_splits)
qed

lemma sign_in_accepted:
  assumes "\<not> lf_loading g" and "trim (lf_email g) \<noteq> []" and "lf_password g \<noteq> []" and "re_is_email R (trim (lf_email g))"
    and "8 \<le> re_vlen R (lf_password g)" and "auth_login (re_auth R) now (trim (lf_email g)) (lf_password g) d = Inr r"
  shows "sign_in K (post_login R now) g s a d =
    ((g\<lparr>lf_loading := False\<rparr>, []), kv_set K token_key (json_stringify (auth_to_json r)) s,
     a\<lparr>st_token := Some (ar_token r),
        st_user := Some \<lparr>ud_id = ar_id r, ud_email = ar_email r, ud_username = ar_username r\<rparr>\<rparr>, d)"
  using assms
  by (simp add: sign_in_def handle_login_def Let_def post_login_payload respond_def login_end_def session_begins_ok login_settled_def)

lemma load_after_session:
  assumes "kv_store K"
  shows "load_from_storage K (kv_set K token_key (json_stringify (auth_to_json r)) s) new_auth_state =
    \<lparr>st_token = Some (ar_token r), st_user = Some \<lparr>ud_id = ar_id r, ud_email = ar_email r, ud_username = ar_username r\<rparr>,
     st_isLoading = False\<rparr>"
  using auth_json_nonempty[of r]
  by (simp add: load_from_storage_def kv_store.get_set[OF assms] auth_json_roundtrip)

lemma load_after_logout:
  assumes "kv_store K"
  shows "load_from_storage K (kv_remove K token_key s) new_auth_state = new_auth_state\<lparr>st_isLoading := False\<rparr>"
  by (simp add: load_from_storage_def kv_store.get_remove[OF assms])

text \<open>What else happens to the database: requests served, and a gateway's own writes.\<close>

datatype activity = Calls rest_env request | OpensRoom jstr jstr | SavesRoom jstr bytes

fun happens :: "activity \<Rightarrow> db \<Rightarrow> db" where
  "happens (Calls R q) d = serve_request R q d"
| "happens (OpensRoom fresh name) d = (case upsert_room fresh name d of Inl _ \<Rightarrow> d | Inr (_, e) \<Rightarrow> e)"
| "happens (SavesRoom name state) d = (case update_room_state name state d of Inl _ \<Rightarrow> d | Inr e \<Rightarrow> e)"

lemma happens_ok: "served_ok d (happens x d)"
proof (cases x)
  case (Calls R q)
  then show ?thesis by (simp add: serve_request_ok)
next
  case (OpensRoom fresh name)
  have "served_ok d e" if "upsert_room fresh name d = Inr (r, e)" for r e
    using that upsert_room_inv[of d fresh name r e] accounts_kept_users[of e d]
    by (auto simp: served_ok_def upsert_room_def create_room_def Let_def split: option.splits if_splits)
  with OpensRoom show ?thesis by (auto split: sum.split)
next
  case (SavesRoom name state)
  have "served_ok d e" if "update_room_state name state d = Inr e" for e
    using that update_room_state_inv[of d name state e] accounts_kept_users[of e d]
    by (auto simp: served_ok_def update_room_state_def split: if_splits)
  with SavesRoom show ?thesis by (auto split: sum.split)
qed

lemma all_happens_ok: "served_ok d (fold happens xs d)"
  by (induction xs arbitrary: d) (auto intro: served_ok_trans[OF happens_ok])

text \<open>C34. An account's life on one device, from the forms through the server and back: whoever's
  registration signs them in gets no alert, lands in the lobby and is still signed in after a restart;
  after a logout every screen leads to the sign-in screens, also after a restart; and whatever requests
  the server serves meanwhile, logging in with the same password and any spelling of the address that
  normalises alike restores the same user, with a token for the same account issued at that time, and
  lands in the lobby again.\<close>
theorem account_journey:
  assumes "kv_store K" and "bcrypt_law (re_auth R)" and "db_inv d" and "\<forall>c. au_sign (re_auth R) c \<noteq> []"
    and "\<not> st_isLoading a" and "\<not> signed_in a"
    and up: "sign_up K (post_register R now i salt) f s a d = ((f1, fx1), s1, a1, d1)" and "signed_in a1"
    and out: "logout K s1 chat a1 = (s2, chat2, a2)"
    and "\<not> lf_loading g" and "lf_password g = gf_password f" and "re_is_email R (trim (lf_email g))" and "trim (lf_email g) \<noteq> []"
    and "normalize_email (re_auth R) (lf_email g) = normalize_email (re_auth R) (gf_email f)"
    and inn: "sign_in K (post_login R later) g s2 a2 (fold happens others d1) = ((g3, fx3), s3, a3, d3)"
  shows "fx1 = [] \<and> landing a1 AuthRegister = ChatRoom default_room
      \<and> load_from_storage K s1 new_auth_state = a1
      \<and> in_auth (landing a2 r) \<and> in_auth (landing (load_from_storage K s2 new_auth_state) r)
      \<and> fx3 = [] \<and> landing a3 AuthLogin = ChatRoom default_room
      \<and> load_from_storage K s3 new_auth_state = a3
      \<and> (\<exists>user. ud_id user = i \<and> st_user a1 = Some user \<and> st_user a3 = Some user
          \<and> st_token a1 = Some (au_sign (re_auth R) (claims_of now i (ud_username user)))
          \<and> st_token a3 = Some (au_sign (re_auth R) (claims_of later i (ud_username user))))"
proof -
  obtain u dto where reg: "auth_register (re_auth R) now i salt dto d = Inr (u, d1)"
    and dto: "dto = \<lparr>rg_email = trim (gf_email f), rg_username = trim (gf_username f), rg_password = gf_password f\<rparr>"
    and pw: "8 \<le> re_vlen R (gf_password f)" "gf_password f \<noteq> []" and fx1: "fx1 = []"
    and begun: "session_begins K (js ''Register failed'') (HttpOk u) s a = (Inr (), s1, a1)"
    using sign_up_signs_in[OF up assms(6) assms(8)] by auto
  let ?d2 = "fold happens others d1"
  let ?v = "u\<lparr>ar_token := au_sign (re_auth R) (claims_of later (ar_id u) (ar_username u))\<rparr>"
  have norm: "normalize_email (re_auth R) (trim (lf_email g)) = normalize_email (re_auth R) (rg_email dto)"
    using assms(14) by (simp add: normalize_email_def dto)
  have kept: "accounts_kept d1 ?d2" "db_inv ?d2"
    using auth_register_inv[OF assms(3) reg] all_happens_ok[of d1 others] by (auto simp: served_ok_def)
  note login = register_then_login[OF assms(2) reg norm kept, of later]
  have "auth_login (re_auth R) later (trim (lf_email g)) (lf_password g) ?d2 = Inr ?v"
    and u: "ar_id u = i" "ar_token u = au_sign (re_auth R) (claims_of now i (ar_username u))"
    using login assms(11) by (simp_all add: dto)
  note ins = sign_in_accepted[OF assms(10,13) _ assms(12) _ this(1), where K = K and s = s2 and a = a2]
  let ?user = "\<lparr>ud_id = ar_id u, ud_email = ar_email u, ud_username = ar_username u\<rparr>"
  have a1: "a1 = \<lparr>st_token = Some (ar_token u), st_user = Some ?user, st_isLoading = False\<rparr>"
    and s1: "s1 = kv_set K token_key (json_stringify (auth_to_json u)) s"
    using begun assms(5) by (auto simp: session_begins_ok)
  have a2: "a2 = \<lparr>st_token = None, st_user = None, st_isLoading = False\<rparr>" and s2: "s2 = kv_remove K token_key s1"
    using out a1 by (auto simp: logout_def)
  have a3: "a3 = \<lparr>st_token = Some (ar_token ?v), st_user = Some ?user, st_isLoading = False\<rparr>"
    and s3: "s3 = kv_set K token_key (json_stringify (auth_to_json ?v)) s2" and fx3: "fx3 = []"
    using ins inn pw assms(11) by (simp_all add: a2)
  have "signed_in a1" "\<not> signed_in a2" "signed_in a3" "\<not> signed_in (new_auth_state\<lparr>st_isLoading := False\<rparr>)"
    using assms(4,8) by (simp_all add: a2 a3 signed_in_def new_auth_state_def)
  then have land: "landing a1 AuthRegister = ChatRoom default_room" "landing a3 AuthLogin = ChatRoom default_room"
    "in_auth (landing a2 r)" "in_auth (landing (new_auth_state\<lparr>st_isLoading := False\<rparr>) r)"
    using redirects_end[of a2 r "[]"] redirects_end[of "new_auth_state\<lparr>st_isLoading := False\<rparr>" r "[]"]
    by (auto simp: landing_def a1 a2 a3)
  have "load_from_storage K s1 new_auth_state = a1" "load_from_storage K s3 new_auth_state = a3"
    unfolding s1 s3 a1 a3 using load_after_session[OF assms(1)] by auto
  moreover have "\<exists>user. ud_id user = i \<and> st_user a1 = Some user \<and> st_user a3 = Some user
      \<and> st_token a1 = Some (au_sign (re_auth R) (claims_of now i (ud_username user)))
      \<and> st_token a3 = Some (au_sign (re_auth R) (claims_of later i (ud_username user)))"
    using u by (intro exI[of _ ?user]) (simp add: a1 a3)
  ultimately show ?thesis
    using fx1 fx3 land load_after_logout[OF assms(1), of s1] by (simp add: s2)
qed

section \<open>Opened rooms\<close>

lemma rooms_create_member:
  assumes "db_inv d" and "rooms_create i n u d = (Inr s, e)"
  shows "is_member e n u \<and> sm_name s = n"
proof -
  from assms(2) obtain r f where r: "create_room i n d = Inr (r, f)" "s = summary_of r role_admin"
    and m: "create_member \<lparr>mb_roomId = ro_id r, mb_userId = u, mb_role = role_admin\<rparr> f = Inr e"
    by (auto simp: rooms_create_Inr)
  have rows: "db_rooms e = db_rooms f" and mem: "is_member_id e (ro_id r) u"
    using m by (auto simp: create_member_def is_member_id_def split: if_splits)
  have ks: "keys_unique e" using rooms_create_inv[OF assms] by (simp add: db_inv_def)
  have "r \<in> set (db_rooms e)" "ro_name r = n" using create_room_inv[OF assms(1) r(1)] rows by auto
  then show ?thesis
    using is_member_by_id[OF ks, of n r u] room_by_name_unique[OF ks, of r] mem r(2) by (simp add: summary_of_def)
qed

lemma rooms_join_member:
  assumes "db_inv d" and "rooms_join n u d = Inr (s, e)"
  shows "is_member e n u \<and> sm_name s = n"
proof -
  from assms(2) obtain r where r: "room_by_name d n = Some r"
    by (auto simp: rooms_join_def split: option.splits)
  have mem: "is_member_id e (ro_id r) u" and rows: "db_rooms e = db_rooms d" and s: "sm_name s = ro_name r"
    using assms(2) r find_member_iff[of d "ro_id r" u]
    by (auto simp: rooms_join_def bind_result_Inr create_member_def is_member_id_def summary_of_def split: option.splits if_splits)
  have "keys_unique e" using rooms_join_inv[OF assms] by (simp add: db_inv_def)
  moreover have "room_by_name e n = Some r" using r rows by (simp add: room_by_name_def)
  ultimately show ?thesis using is_member_by_id[of e n r u] mem s room_by_name_Some[OF r] by simp
qed

text \<open>The two buttons of the rooms list, and what becomes of the request.\<close>

fun press_button ::
  "rest_env \<Rightarrow> delivery \<Rightarrow> jstr option \<Rightarrow> auth_state \<Rightarrow> rooms_screen \<Rightarrow> 's rooms_state \<Rightarrow> db
    \<Rightarrow> (rooms_screen \<times> route option) \<times> 's rooms_state \<times> db" where
  "press_button R w (Some fresh) a v s d =
     press_room_action handle_create (create_room_at (\<lambda>token body. over_network w (post_rooms R fresh token body)) a) v s d"
| "press_button R w None a v s d =
     press_room_action handle_join (join_room_at (\<lambda>token name. over_network w (post_join R token name)) a) v s d"

text \<open>The server lets the token's user into the room, or refuses; a failed creation may leave the room's row.\<close>

definition lets_in :: "rest_env \<Rightarrow> jstr \<Rightarrow> jstr \<Rightarrow> db \<Rightarrow> bool" where
  "lets_in R token name e \<longleftrightarrow> (\<exists>u n. re_verify R token = Some (u, n) \<and> is_member e name u)"

definition strands :: "jstr option \<Rightarrow> jstr \<Rightarrow> db \<Rightarrow> db \<Rightarrow> bool" where
  "strands button name d e \<longleftrightarrow> (\<exists>i row. button = Some i \<and> create_room i name d = Inr (row, e))"

definition room_outcome :: "rest_env \<Rightarrow> jstr option \<Rightarrow> jstr \<Rightarrow> jstr \<Rightarrow> db \<Rightarrow> room_summary http \<Rightarrow> db \<Rightarrow> bool" where
  "room_outcome R button token name d res e \<longleftrightarrow> db_inv e \<and> grows d e \<and> (case res of
     HttpOk room \<Rightarrow> sm_name room = name \<and> lets_in R token name e
   | _ \<Rightarrow> e = d \<or> strands button name d e)"

lemma post_rooms_outcome:
  assumes "db_inv d" and "post_rooms R i token (json_stringify (room_payload name)) d = (res, e)"
  shows "room_outcome R (Some i) token name d res e"
proof -
  let ?dto = "create_room_dto (re_vlen R) (room_payload name)"
  have "json_parse (json_stringify (room_payload name)) = Some (room_payload name)" "only_keys [''name''] (room_payload name)"
    by (rule json_roundtrip) (simp_all add: room_payload_def only_keys_def)
  then have v: "validated R (only_keys [''name'']) (create_room_dto (re_vlen R)) (json_stringify (room_payload name)) h d
      = (case ?dto of None \<Rightarrow> (HttpError 400 (re_invalid R), d) | Some n \<Rightarrow> h n)" for h :: "jstr \<Rightarrow> room_summary http \<times> db"
    by (simp add: validated_def)
  have dto: "?dto = Some n \<Longrightarrow> n = name" for n
    by (simp add: create_room_dto_def room_payload_def split: if_splits)
  consider "e = d" "\<forall>x. res \<noteq> HttpOk x"
    | u n r where "re_verify R token = Some (u, n)" "rooms_create i name u d = (r, e)" "res = respond R r"
  proof (cases "re_verify R token")
    case None
    then show ?thesis using assms(2) that(1) by (auto simp: post_rooms_def guarded_def)
  next
    case (Some p)
    then show ?thesis
      using assms(2) dto that(1) that(2)[of "fst p" "snd p" "fst (rooms_create i name (fst p) d)"]
      by (cases ?dto) (auto simp: post_rooms_def guarded_def v jwt_validate_def split: prod.splits)
  qed
  then show ?thesis
  proof cases
    case 1
    then show ?thesis using assms(1) by (cases res) (simp_all add: room_outcome_def)
  next
    case (2 u n r)
    show ?thesis
    proof (cases r)
      case (Inl err)
      then show ?thesis
        using 2 rooms_create_inv[OF assms(1) 2(2)] rooms_create_Inl[of i name u d err e]
        by (auto simp: room_outcome_def strands_def respond_def)
    next
      case (Inr room)
      then show ?thesis
        using 2 rooms_create_inv[OF assms(1) 2(2)] rooms_create_member[OF assms(1), of i name u room e]
        by (auto simp: room_outcome_def lets_in_def respond_def)
    qed
  qed
qed

lemma post_join_outcome:
  assumes "db_inv d" and "post_join R token name d = (res, e)"
  shows "room_outcome R None token name d res e"
proof (cases "re_verify R token")
  case None
  then show ?thesis using assms by (auto simp: room_outcome_def post_join_def guarded_def)
next
  case (Some p)
  then have r: "respond_with R (rooms_join name (fst p) d) d = (res, e)"
    using assms(2) by (simp add: post_join_def guarded_def jwt_validate_def)
  show ?thesis
  proof (cases "rooms_join name (fst p) d")
    case (Inl err)
    then show ?thesis using assms(1) r by (auto simp: room_outcome_def respond_with_def)
  next
    case (Inr x)
    then show ?thesis
      using r Some rooms_join_inv[OF assms(1), of name "fst p"] rooms_join_member[OF assms(1), of name "fst p"]
      by (cases x; cases p) (auto simp: room_outcome_def respond_with_def lets_in_def)
  qed
qed

lemma over_network_outcome:
  assumes "db_inv d" and "\<And>res e. send d = (res, e) \<Longrightarrow> room_outcome R button token name d res e"
    and "over_network w send d = (res, e)"
  shows "db_inv e \<and> grows d e \<and> (case res of
     HttpOk room \<Rightarrow> sm_name room = name \<and> lets_in R token name e
   | _ \<Rightarrow> e = d \<or> strands button name d e \<or> (\<exists>f. w = AnswerLost f) \<and> lets_in R token name e)"
proof -
  obtain r f where s: "send d = (r, f)" by fastforce
  show ?thesis
  proof (cases w)
    case Delivered
    then show ?thesis using assms(2)[OF s] assms(3) s by (auto simp: room_outcome_def split: http.splits)
  next
    case (NotReached x)
    then show ?thesis using assms(1,3) by (cases x) auto
  next
    case (AnswerLost x)
    then show ?thesis using assms(2)[OF s] assms(3) s by (cases x; cases r) (auto simp: room_outcome_def)
  qed
qed

text \<open>C35. The rooms list never opens a room its user may not enter: a press of either button opens a room
  only when the server created or joined the one of the trimmed name, of which the token's user is then a
  member for the gateway's check and which is in the list. Otherwise the list stays and a name that was
  asked for leaves an error; the database is as it was, but for the room whose creator could not be
  made a member, and for what a server did whose answer was lost. Nothing is ever taken from it.\<close>
theorem opened_rooms_admit:
  assumes "db_inv d" and "press_button R w button a v s d = ((v', go), s', d')"
  shows "db_inv d' \<and> grows d d' \<and> (case go of
      Some r \<Rightarrow> r = ChatRoom (trim (rv_nameDraft v)) \<and> trim (rv_nameDraft v) \<noteq> [] \<and> signed_in a
        \<and> lets_in R (the (st_token a)) (trim (rv_nameDraft v)) d'
        \<and> (\<exists>x \<in> set (rm_rooms s'). sm_name x = trim (rv_nameDraft v)) \<and> rv_actionError v' = None
    | None \<Rightarrow> rm_rooms s' = rm_rooms s \<and> (trim (rv_nameDraft v) \<noteq> [] \<longrightarrow> rv_actionError v' \<noteq> None)
        \<and> (d' = d \<or> signed_in a \<and> trim (rv_nameDraft v) \<noteq> []
             \<and> (strands button (trim (rv_nameDraft v)) d d'
                \<or> (\<exists>f. w = AnswerLost f) \<and> lets_in R (the (st_token a)) (trim (rv_nameDraft v)) d')))"
proof (cases "trim (rv_nameDraft v) = [] \<or> \<not> signed_in a")
  case True
  then show ?thesis using assms
    by (cases button) (auto simp: press_room_action_def handle_create_def handle_join_def create_room_at_def
        join_room_at_def room_action_settled_def Let_def split: if_splits)
next
  case False
  let ?name = "trim (rv_nameDraft v)" and ?token = "the (st_token a)"
  show ?thesis
  proof (cases button)
    case (Some i)
    obtain res e where p: "over_network w (post_rooms R i ?token (json_stringify (room_payload ?name))) d = (res, e)" by fastforce
    note out = over_network_outcome[OF assms(1) post_rooms_outcome[OF assms(1)] p]
    show ?thesis
      using assms(2) Some False p out
      by (cases res) (auto simp: press_room_action_def handle_create_def create_room_at_def create_room_end_def
          room_action_settled_def open_room_def Let_def)
  next
    case None
    obtain res e where p: "over_network w (post_join R ?token ?name) d = (res, e)" by fastforce
    note out = over_network_outcome[OF assms(1) post_join_outcome[OF assms(1)] p]
    show ?thesis
      using assms(2) None False p out
      by (cases res) (auto simp: press_room_action_def handle_join_def join_room_at_def join_room_end_def list_ex_iff
          room_action_settled_def open_room_def Let_def)
  qed
qed

section \<open>The theorems at concrete runs\<close>

definition sample_api :: rest_env where
  "sample_api = \<lparr>re_auth = sample_auth\<lparr>au_sign := (\<lambda>c. js ''t'' @ tc_sub c)\<rparr>, re_vlen = length, re_is_email = (\<lambda>e. e \<noteq> []),
     re_verify = (\<lambda>t. if t = js ''tu'' then Some (js ''u'', js ''u'') else None), re_explain = (\<lambda>_. NoMessage),
     re_invalid = NoMessage, re_unauthorized = NoMessage\<rparr>"

definition sample_registration :: register_form where
  "sample_registration = \<lparr>gf_email = js '' a'', gf_username = js ''w'' @ js ''w'', gf_password = js ''12345678'', gf_loading = False\<rparr>"

definition sample_login :: login_form where
  "sample_login = \<lparr>lf_email = js ''a '', lf_password = js ''12345678'', lf_loading = False\<rparr>"

abbreviation "signed_out \<equiv> new_auth_state\<lparr>st_isLoading := False\<rparr>"

lemma redirects_end_witness:
  "landing signed_out ChatIndex = AuthLogin"
  using redirects_end[of signed_out ChatIndex "[ChatRoom default_room, AuthLogin]"]
  by (auto simp: redirects_cases in_auth_def signed_in_def new_auth_state_def)

lemma forms_refuse_no_more_than_server_witness:
  "post_register sample_api 0 [] [] (json_stringify (register_payload (js ''a'') (js ''ww'') (js ''short''))) empty_db
     = (HttpError 400 NoMessage, empty_db)"
proof -
  let ?f = "sample_registration\<lparr>gf_password := js ''short''\<rparr>"
  have f: "trim (gf_email ?f) = js ''a''" "trim (gf_username ?f) = js ''ww''"
    by code_simp+
  then have "snd (handle_register ?f) = [ShowAlert (js ''Error'') (Some (js ''Password must be at least 8 characters''))]"
    by (simp add: handle_register_def js_def)
  with forms_refuse_no_more_than_server[of sample_api ?f "js ''Error''"
      "Some (js ''Password must be at least 8 characters'')" 0 "[]" "[]" empty_db sample_login] f
  show ?thesis by (simp add: sample_api_def)
qed

lemma account_journey_witness:
  "case sign_up memory_storage (post_register sample_api 0 (js ''1'') []) sample_registration [] signed_out sample_db of
     ((f1, fx1), s1, a1, d1) \<Rightarrow> fx1 = [] \<and> load_from_storage memory_storage s1 new_auth_state = a1"
proof -
  obtain f1 fx1 s1 a1 d1 where up: "sign_up memory_storage (post_register sample_api 0 (js ''1'') []) sample_registration []
    signed_out sample_db = ((f1, fx1), s1, a1, d1)" by (metis prod_cases3 surj_pair)
  have "case sign_up memory_storage (post_register sample_api 0 (js ''1'') []) sample_registration [] signed_out sample_db of
    ((f1, fx1), s1, a1, d1) \<Rightarrow> signed_in a1"
    by code_simp
  then have ok: "signed_in a1" by (simp add: up)
  obtain s2 chat2 a2 where out: "logout memory_storage s1 (new_chat_state :: nat chat_state) a1 = (s2, chat2, a2)"
    by (metis prod_cases3)
  let ?others = "[Calls sample_api (PublishKey (js ''tu'') (js ''k'')), OpensRoom (js ''2'') (js ''team'')]"
  obtain g3 fx3 s3 a3 d3 where inn: "sign_in memory_storage (post_login sample_api 5000) sample_login s2 a2 (fold happens ?others d1)
    = ((g3, fx3), s3, a3, d3)"
    by (metis prod_cases3 surj_pair)
  have laws: "bcrypt_law (re_auth sample_api)" "\<forall>c. au_sign (re_auth sample_api) c \<noteq> []"
    by (simp_all add: sample_api_def sample_auth_def bcrypt_law_def suffix_def)
  have form: "trim (lf_email sample_login) = js ''a''" by code_simp
  have norm: "normalize_email (re_auth sample_api) (lf_email sample_login) = normalize_email (re_auth sample_api) (gf_email sample_registration)"
    by code_simp
  have start: "\<not> st_isLoading signed_out" "\<not> signed_in signed_out"
    by (simp_all add: new_auth_state_def signed_in_def)
  have typed: "\<not> lf_loading sample_login" "lf_password sample_login = gf_password sample_registration"
    "re_is_email sample_api (trim (lf_email sample_login))" "trim (lf_email sample_login) \<noteq> []"
    unfolding form by (simp_all add: sample_login_def sample_registration_def sample_api_def js_def)
  from account_journey[OF memory.kv_store_axioms laws(1) sample_db_inv laws(2) start up ok out typed norm inn, of AuthLogin]
  show ?thesis unfolding up by simp
qed

lemma opened_rooms_admit_witness:
  "case press_button sample_api Delivered (Some (js ''9'')) (signed_out\<lparr>st_token := Some (js ''tu'')\<rparr>)
      \<lparr>rv_nameDraft = js '' team'', rv_actionError = None\<rparr> (new_rooms_state (0::nat)) sample_db of
    ((v', go), s', d') \<Rightarrow> go = Some (ChatRoom (js ''team'')) \<and> is_member d' (js ''team'') (js ''u'')"
proof -
  let ?a = "signed_out\<lparr>st_token := Some (js ''tu'')\<rparr>"
  let ?v = "\<lparr>rv_nameDraft = js '' team'', rv_actionError = None\<rparr>"
  obtain v' go s' d' where run: "press_button sample_api Delivered (Some (js ''9'')) ?a ?v (new_rooms_state (0::nat)) sample_db = ((v', go), s', d')"
    by (metis prod_cases3 surj_pair)
  have "case press_button sample_api Delivered (Some (js ''9'')) ?a ?v (new_rooms_state (0::nat)) sample_db of
    ((v', go), s', d') \<Rightarrow> \<not> Option.is_none go"
    by code_simp
  then have "\<not> Option.is_none go" unfolding run by simp
  then obtain r where go: "go = Some r" by (auto simp: Option.is_none_def)
  have name: "trim (js '' team'') = js ''team''" by code_simp
  have tok: "re_verify sample_api (the (st_token ?a)) = Some (js ''u'', js ''u'')" by (simp add: sample_api_def)
  from opened_rooms_admit[OF sample_db_inv run] tok show ?thesis
    unfolding run by (simp add: go name lets_in_def)
qed

end
