(* ===== verification/Bench_Report.thy ===== *)
theory Bench_Report
  imports Complex_Main Json
begin

text \<open>
  The latency bench's arithmetic, \<open>src/apps/server/bench\<close>: \<open>percentiles.ts\<close>, \<open>latency-payload.ts\<close>,
  \<open>report.ts\<close>, and of \<open>server-process.ts\<close> the tail of a server's output and the wait until it answers.
  Latencies are rational numbers, the rounding of doubles is not modelled.
\<close>

section \<open>Percentiles\<close>

datatype bench_error =
  EmptySamples
| PercentileRange rat
| NoLatencies
| NotJson jstr
| MissingFields jstr

definition percentile :: "rat list \<Rightarrow> rat \<Rightarrow> bench_error + rat" where
  "percentile xs p =
     (if xs = [] then Inl EmptySamples
      else if p < 0 \<or> p > 100 then Inl (PercentileRange p)
      else if length xs = 1 then Inr (xs ! 0)
      else let rank = (p / 100) * of_nat (length xs - 1);
               lowerIndex = nat \<lfloor>rank\<rfloor>;
               upperIndex = nat \<lceil>rank\<rceil>
           in if lowerIndex = upperIndex then Inr (xs ! lowerIndex)
              else let weight = rank - of_nat lowerIndex
                   in Inr (xs ! lowerIndex + (xs ! upperIndex - xs ! lowerIndex) * weight))"

record latency_summary =
  lm_count :: nat
  lm_p50 :: rat
  lm_p95 :: rat
  lm_p99 :: rat
  lm_min :: rat
  lm_max :: rat
  lm_meanMs :: rat

definition summarize_latencies_ms :: "rat list \<Rightarrow> bench_error + latency_summary" where
  "summarize_latencies_ms latenciesMs =
     (if latenciesMs = [] then Inl NoLatencies
      else let sorted = sort latenciesMs; sm = fold (\<lambda>v total. total + v) sorted 0
           in bind_result (percentile sorted 50) (\<lambda>p50. bind_result (percentile sorted 95) (\<lambda>p95.
              bind_result (percentile sorted 99) (\<lambda>p99.
              Inr \<lparr>lm_count = length sorted, lm_p50 = p50, lm_p95 = p95, lm_p99 = p99, lm_min = sorted ! 0,
                   lm_max = sorted ! (length sorted - 1), lm_meanMs = sm / of_nat (length sorted)\<rparr>))))"

section \<open>Timestamped payloads\<close>

record timestamped_payload =
  tp_seq :: decimal
  tp_sentAt :: decimal

definition decimal_value :: "decimal \<Rightarrow> rat" where
  "decimal_value d = of_int (dec_mant d) / 10 ^ dec_exp d"

definition encode_timestamped_payload :: "decimal \<Rightarrow> decimal \<Rightarrow> jstr" where
  "encode_timestamped_payload n sentAt = json_stringify (JObj [(js ''seq'', JNum n), (js ''sentAt'', JNum sentAt)])"

definition as_timestamped_payload :: "json \<Rightarrow> timestamped_payload option" where
  "as_timestamped_payload v = (case (json_get v (js ''seq''), json_get v (js ''sentAt'')) of
     (Some (JNum n), Some (JNum t)) \<Rightarrow> Some \<lparr>tp_seq = n, tp_sentAt = t\<rparr>
   | _ \<Rightarrow> None)"

definition decode_timestamped_payload :: "jstr \<Rightarrow> bench_error + timestamped_payload" where
  "decode_timestamped_payload raw = (case json_parse raw of
     None \<Rightarrow> Inl (NotJson raw)
   | Some parsed \<Rightarrow> (case as_timestamped_payload parsed of
        None \<Rightarrow> Inl (MissingFields raw) | Some p \<Rightarrow> Inr p))"

definition latency_ms :: "rat \<Rightarrow> rat \<Rightarrow> rat" where
  "latency_ms sentAt receivedAt = receivedAt - sentAt"

definition latency_from_payload :: "jstr \<Rightarrow> rat \<Rightarrow> bench_error + rat" where
  "latency_from_payload raw receivedAt =
     bind_result (decode_timestamped_payload raw) (\<lambda>p. Inr (latency_ms (decimal_value (tp_sentAt p)) receivedAt))"

section \<open>The report\<close>

text \<open>\<open>toFixed(1)\<close>, and of NaN, which is \<open>None\<close>.\<close>

definition to_fixed1 :: "rat \<Rightarrow> jstr" where
  "to_fixed1 x = (let n = nat \<lfloor>\<bar>x\<bar> * 10 + 1 / 2\<rfloor>
     in (if x < 0 then js ''-'' else []) @ dec_nat (n div 10) @ js ''.'' @ dec_nat (n mod 10))"

definition fixed1 :: "rat option \<Rightarrow> jstr" where
  "fixed1 x = (case x of None \<Rightarrow> js ''NaN'' | Some x \<Rightarrow> to_fixed1 x)"

text \<open>\<open>rw_summary\<close> is \<open>None\<close> for the summary of no samples, whose numbers are NaN.\<close>

record report_row =
  rw_topology :: jstr
  rw_condition :: jstr
  rw_summary :: "latency_summary option"
  rw_deliveredSamples :: nat
  rw_expectedSamples :: nat
  rw_achievedRatePerSec :: rat
  rw_failed :: bool

definition report_line :: "report_row \<Rightarrow> jstr" where
  "report_line row = (let s = rw_summary row; bar = js '' | '' in
     js ''| '' @ rw_topology row @ bar @ rw_condition row @ bar @ dec_nat (rw_deliveredSamples row) @ js ''/''
       @ dec_nat (rw_expectedSamples row) @ bar @ to_fixed1 (rw_achievedRatePerSec row) @ bar
       @ fixed1 (map_option lm_p50 s) @ bar @ fixed1 (map_option lm_p95 s) @ bar @ fixed1 (map_option lm_p99 s) @ bar
       @ fixed1 (map_option lm_min s) @ js '' / '' @ fixed1 (map_option lm_max s) @ bar
       @ (if rw_failed row then js ''FAILED'' else js ''ok'') @ js '' |'')"

definition report_header :: jstr where
  "report_header = js ''| Topology | Condition | Delivered/Expected | Achieved Rate (msg/s) | P50 (ms) | P95 (ms) | P99 (ms) | Min / Max (ms) | Status |''"

definition report_divider :: jstr where
  "report_divider = js ''|---|---|---|---|---|---|---|---|---|''"

definition format_markdown_report :: "report_row list \<Rightarrow> jstr" where
  "format_markdown_report rows = join [10] (report_header # report_divider # map report_line rows)"

section \<open>A server's output and readiness\<close>

definition tail_max_lines :: nat where "tail_max_lines = 200"
definition ready_poll_interval_ms :: int where "ready_poll_interval_ms = 250"

record tail_buffer =
  tb_lines :: "jstr list"
  tb_carry :: jstr

definition new_tail :: tail_buffer where
  "new_tail = \<lparr>tb_lines = [], tb_carry = []\<rparr>"

fun push_lines :: "jstr list \<Rightarrow> jstr list \<Rightarrow> jstr list" where
  "push_lines [] ls = ls"
| "push_lines (l # parts) ls =
     push_lines parts (let ls = ls @ [l] in if length ls > tail_max_lines then tl ls else ls)"

text \<open>A chunk is given decoded.\<close>

definition tail_write :: "jstr \<Rightarrow> tail_buffer \<Rightarrow> tail_buffer" where
  "tail_write chunk b =
     (let parts = split_on 10 (tb_carry b @ chunk)
      in \<lparr>tb_lines = push_lines (butlast parts) (tb_lines b), tb_carry = last parts\<rparr>)"

definition tail_to_string :: "tail_buffer \<Rightarrow> jstr" where
  "tail_to_string b =
     (let rest = (if tb_carry b \<noteq> [] then [tb_carry b] else []);
          s = join [10] (tb_lines b @ rest)
      in if s \<noteq> [] then s else js ''(no output captured)'')"

text \<open>
  The loop of \<open>waitUntilReady\<close>: \<open>clock n\<close> is \<open>Date.now()\<close> before the request number \<open>n\<close>, which answers
  unless \<open>failure n\<close>. The result is the number of requests made with the last error, or readiness.
\<close>

partial_function (option) ready_loop ::
  "int \<Rightarrow> (nat \<Rightarrow> int) \<Rightarrow> (nat \<Rightarrow> 'e option) \<Rightarrow> nat \<Rightarrow> 'e option \<Rightarrow> (nat \<times> 'e option + nat) option" where
  "ready_loop deadline clock failure n lastError =
     (if clock n < deadline
      then (case failure n of
              None \<Rightarrow> Some (Inr (Suc n))
            | Some err \<Rightarrow> ready_loop deadline clock failure (Suc n) (Some err))
      else Some (Inl (n, lastError)))"

definition wait_until_ready ::
  "int \<Rightarrow> int \<Rightarrow> (nat \<Rightarrow> int) \<Rightarrow> (nat \<Rightarrow> 'e option) \<Rightarrow> (nat \<times> 'e option + nat) option" where
  "wait_until_ready start timeoutMs clock failure = ready_loop (start + timeoutMs) clock failure 0 None"

section \<open>Percentiles are monotone\<close>

definition interpolate :: "rat list \<Rightarrow> rat \<Rightarrow> rat" where
  "interpolate xs r = xs ! nat \<lfloor>r\<rfloor> + (xs ! nat \<lceil>r\<rceil> - xs ! nat \<lfloor>r\<rfloor>) * (r - of_int \<lfloor>r\<rfloor>)"

lemma percentile_interpolate:
  assumes "xs \<noteq> []" "0 \<le> p" "p \<le> 100"
  shows "percentile xs p = Inr (interpolate xs ((p / 100) * of_nat (length xs - 1)))"
proof (cases "length xs = 1")
  case True
  then show ?thesis using assms by (simp add: percentile_def interpolate_def)
next
  case False
  let ?r = "(p / 100) * of_nat (length xs - 1)"
  have r: "0 \<le> ?r" using assms by simp
  then have "of_nat (nat \<lfloor>?r\<rfloor>) = (of_int \<lfloor>?r\<rfloor> :: rat)" by simp
  then show ?thesis
    using assms False by (auto simp: percentile_def interpolate_def Let_def)
qed

lemma interpolate_between:
  assumes "sorted xs" "0 \<le> r" "r \<le> of_nat (length xs - 1)" "xs \<noteq> []"
  shows "xs ! nat \<lfloor>r\<rfloor> \<le> interpolate xs r" "interpolate xs r \<le> xs ! nat \<lceil>r\<rceil>"
proof -
  let ?lo = "nat \<lfloor>r\<rfloor>" and ?hi = "nat \<lceil>r\<rceil>" and ?w = "r - of_int \<lfloor>r\<rfloor>"
  have "\<lceil>r\<rceil> \<le> int (length xs - 1)"
    using assms(3) by (simp add: ceiling_le_iff)
  then have hi: "?hi < length xs"
    using assms(4) by (cases xs) auto
  have "?lo \<le> ?hi" by (intro nat_mono floor_le_ceiling)
  with hi have le: "xs ! ?lo \<le> xs ! ?hi" by (intro sorted_nth_mono[OF assms(1)])
  have w: "0 \<le> ?w" "?w \<le> 1" by linarith+
  from le w(1) show "xs ! ?lo \<le> interpolate xs r" by (simp add: interpolate_def)
  have "(xs ! ?hi - xs ! ?lo) * ?w \<le> (xs ! ?hi - xs ! ?lo) * 1"
    using le w(2) by (intro mult_left_mono) simp_all
  then show "interpolate xs r \<le> xs ! ?hi" by (simp add: interpolate_def)
qed

lemma interpolate_mono:
  assumes "sorted xs" "0 \<le> r" "r \<le> q" "q \<le> of_nat (length xs - 1)" "xs \<noteq> []"
  shows "interpolate xs r \<le> interpolate xs q"
proof (cases "\<lfloor>r\<rfloor> = \<lfloor>q\<rfloor>")
  case same: True
  show ?thesis
  proof (cases "r = of_int \<lfloor>r\<rfloor>")
    case True
    then have "interpolate xs r = xs ! nat \<lfloor>q\<rfloor>" by (simp add: interpolate_def same)
    also have "\<dots> \<le> interpolate xs q" using assms by (intro interpolate_between) simp_all
    finally show ?thesis .
  next
    case False
    have c: "\<lceil>r\<rceil> = \<lfloor>r\<rfloor> + 1" using False by (simp add: ceiling_altdef)
    have "q \<noteq> of_int \<lfloor>q\<rfloor>"
      using False same assms(3) by (metis of_int_floor_le order_antisym)
    then have cq: "\<lceil>q\<rceil> = \<lfloor>r\<rfloor> + 1" using same by (simp add: ceiling_altdef)
    have "\<lceil>r\<rceil> \<le> int (length xs - 1)"
      using assms(3,4) by (simp add: ceiling_le_iff)
    then have "nat \<lceil>r\<rceil> < length xs" using assms(5) by (cases xs) auto
    moreover have "nat \<lfloor>r\<rfloor> \<le> nat \<lceil>r\<rceil>" by (intro nat_mono floor_le_ceiling)
    ultimately have "xs ! nat \<lfloor>r\<rfloor> \<le> xs ! nat \<lceil>r\<rceil>" by (intro sorted_nth_mono[OF assms(1)])
    then show ?thesis
      using assms(3) unfolding interpolate_def c cq same[symmetric] by (intro add_left_mono mult_left_mono) simp_all
  qed
next
  case False
  with assms(3) have "\<lfloor>r\<rfloor> < \<lfloor>q\<rfloor>" using floor_mono[OF assms(3)] by linarith
  then have c: "\<lceil>r\<rceil> \<le> \<lfloor>q\<rfloor>" by linarith
  have "interpolate xs r \<le> xs ! nat \<lceil>r\<rceil>"
    using assms by (intro interpolate_between) simp_all
  also have "\<dots> \<le> xs ! nat \<lfloor>q\<rfloor>"
  proof (rule sorted_nth_mono[OF assms(1)])
    show "nat \<lceil>r\<rceil> \<le> nat \<lfloor>q\<rfloor>" using c by (rule nat_mono)
    have "\<lfloor>q\<rfloor> \<le> int (length xs - 1)"
      using assms(4) by (metis floor_mono floor_of_nat)
    then show "nat \<lfloor>q\<rfloor> < length xs" using assms(5) by (cases xs) auto
  qed
  also have "\<dots> \<le> interpolate xs q" using assms by (intro interpolate_between) simp_all
  finally show ?thesis .
qed

lemma interpolate_ends:
  "interpolate xs 0 = xs ! 0" "interpolate xs (of_nat n) = xs ! n"
  by (simp_all add: interpolate_def)

lemma fold_sum: "fold (\<lambda>v total. total + v) xs s = s + sum_list (xs :: rat list)"
  by (induction xs arbitrary: s) (simp_all add: algebra_simps)

lemma sum_list_bounds:
  fixes a b :: rat
  assumes "list_all (\<lambda>x. a \<le> x \<and> x \<le> b) xs"
  shows "of_nat (length xs) * a \<le> sum_list xs" "sum_list xs \<le> of_nat (length xs) * b"
  using assms by (induction xs) (auto simp: algebra_simps)

text \<open>A summary is ordered and depends on the sorted samples only: it exists exactly when there is
  a sample, its minimum, median, 95th and 99th percentile and maximum ascend, the mean lies
  between the ends, both ends are samples, and it counts every sample.\<close>
theorem summary_is_ordered:
  "case summarize_latencies_ms ls of
     Inl _ \<Rightarrow> ls = []
   | Inr s \<Rightarrow> lm_count s = length ls \<and> lm_min s \<le> lm_p50 s \<and> lm_p50 s \<le> lm_p95 s \<and> lm_p95 s \<le> lm_p99 s
       \<and> lm_p99 s \<le> lm_max s \<and> lm_min s \<le> lm_meanMs s \<and> lm_meanMs s \<le> lm_max s
       \<and> lm_min s = Min (set ls) \<and> lm_max s = Max (set ls)
       \<and> summarize_latencies_ms (sort ls) = Inr s"
proof (cases "ls = []")
  case True
  then show ?thesis by (simp add: summarize_latencies_ms_def)
next
  case False
  let ?x = "sort ls" and ?n = "length (sort ls)"
  have ne: "?x \<noteq> []" using False by (metis length_0_conv length_sort)
  let ?m = "of_nat (?n - 1) :: rat"
  define f where "f = interpolate ?x"
  let ?s = "\<lparr>lm_count = ?n, lm_p50 = f (50 / 100 * ?m), lm_p95 = f (95 / 100 * ?m), lm_p99 = f (99 / 100 * ?m),
    lm_min = ?x ! 0, lm_max = ?x ! (?n - 1), lm_meanMs = sum_list ?x / of_nat ?n\<rparr>"
  have eq: "summarize_latencies_ms ks = Inr ?s" if "sort ks = ?x" "ks \<noteq> []" for ks
    using that ne by (simp add: summarize_latencies_ms_def Let_def percentile_interpolate f_def fold_sum)
  have mono: "r \<le> q \<Longrightarrow> 0 \<le> r \<Longrightarrow> q \<le> ?m \<Longrightarrow> f r \<le> f q" for r q
    unfolding f_def by (rule interpolate_mono) (simp_all add: ne)
  have m: "0 \<le> ?m" by simp
  have ends: "f 0 = ?x ! 0" "f ?m = ?x ! (?n - 1)"
    unfolding f_def by (simp_all only: interpolate_ends)
  have ord: "?x ! 0 \<le> f (50 / 100 * ?m)" "f (50 / 100 * ?m) \<le> f (95 / 100 * ?m)"
    "f (95 / 100 * ?m) \<le> f (99 / 100 * ?m)" "f (99 / 100 * ?m) \<le> ?x ! (?n - 1)"
    unfolding ends[symmetric] by (rule mono; use m in simp)+
  have lo: "?x ! 0 = Min (set ls)"
  proof (rule Min_eqI[symmetric])
    show "?x ! 0 \<in> set ls" using ne by (metis length_greater_0_conv nth_mem set_sort)
    show "?x ! 0 \<le> y" if "y \<in> set ls" for y
    proof -
      from that obtain i where "i < ?n" "?x ! i = y" by (metis in_set_conv_nth set_sort)
      then show ?thesis using sorted_nth_mono[OF sorted_sort, of 0 i ls] by simp
    qed
  qed simp
  have hi: "?x ! (?n - 1) = Max (set ls)"
  proof (rule Max_eqI[symmetric])
    show "?x ! (?n - 1) \<in> set ls" using ne by (metis diff_less length_greater_0_conv nth_mem set_sort zero_less_one)
    show "y \<le> ?x ! (?n - 1)" if "y \<in> set ls" for y
    proof -
      from that obtain i where "i < ?n" "?x ! i = y" by (metis in_set_conv_nth set_sort)
      then show ?thesis using sorted_nth_mono[OF sorted_sort, of i "?n - 1" ls] by simp
    qed
  qed simp
  have "list_all (\<lambda>x. ?x ! 0 \<le> x \<and> x \<le> ?x ! (?n - 1)) ?x"
    unfolding lo hi by (simp add: list_all_iff)
  note b = sum_list_bounds[OF this]
  have n: "0 < (of_nat ?n :: rat)" using ne by (simp del: length_sort)
  have mean: "?x ! 0 \<le> sum_list ?x / of_nat ?n" "sum_list ?x / of_nat ?n \<le> ?x ! (?n - 1)"
    using b n by (simp_all only: pos_le_divide_eq pos_divide_le_eq mult.commute)
  have "sort ?x = ?x"
    by (rule sorted_sort_id) (rule sorted_sort)
  with eq[of ?x] eq[of ls] False ne ord lo hi mean show ?thesis
    by simp
qed


section \<open>The tail is the last lines of the output\<close>

definition last_lines :: "'a list \<Rightarrow> 'a list" where
  "last_lines ls = drop (length ls - tail_max_lines) ls"

lemma push_lines_last: "push_lines ps (last_lines ls) = last_lines (ls @ ps)"
proof (induction ps arbitrary: ls)
  case (Cons p ps)
  have "(let l = last_lines ls @ [p] in if length l > tail_max_lines then tl l else l) = last_lines (ls @ [p])"
  proof (cases "200 \<le> length ls")
    case True
    then have n: "length ls - 199 = Suc (length ls - 200)" by simp
    have "drop (length ls - 200) ls \<noteq> []" using True by simp
    then show ?thesis
      using True by (simp add: last_lines_def Let_def tail_max_lines_def n drop_Suc tl_drop)
  qed (simp add: last_lines_def Let_def tail_max_lines_def)
  with Cons.IH[of "ls @ [p]"] show ?case by simp
qed simp

definition tail_run :: "jstr list \<Rightarrow> tail_buffer" where
  "tail_run chunks = fold tail_write chunks new_tail"

definition tail_of :: "jstr \<Rightarrow> tail_buffer" where
  "tail_of output = \<lparr>tb_lines = last_lines (butlast (split_on 10 output)), tb_carry = last (split_on 10 output)\<rparr>"

lemma tail_write_of: "tail_write chunk (tail_of s) = tail_of (s @ chunk)"
proof -
  have "butlast (split_on 10 (s @ chunk)) = butlast (split_on 10 s) @ butlast (split_on 10 (last (split_on 10 s) @ chunk))"
    by (subst split_on_append) (simp add: butlast_append)
  moreover have "last (split_on 10 (s @ chunk)) = last (split_on 10 (last (split_on 10 s) @ chunk))"
    by (subst split_on_append) simp
  ultimately show ?thesis
    by (simp add: tail_write_def tail_of_def Let_def push_lines_last)
qed

lemma tail_fold: "fold tail_write chunks (tail_of s) = tail_of (s @ concat chunks)"
  by (induction chunks arbitrary: s) (simp_all add: tail_write_of)

text \<open>However a server's output is cut into chunks, the tail buffer holds exactly the last 200
  complete lines of the whole output and the unfinished line after them, never more.\<close>
theorem tail_is_last_lines:
  "tb_lines (tail_run chunks) = last_lines (butlast (split_on 10 (concat chunks)))
    \<and> tb_carry (tail_run chunks) = last (split_on 10 (concat chunks))
    \<and> length (tb_lines (tail_run chunks)) = min 200 (length (split_on 10 (concat chunks)) - 1)"
proof -
  have "tail_run chunks = tail_of (concat chunks)"
    using tail_fold[of chunks "[]"] by (simp add: tail_run_def tail_of_def new_tail_def last_lines_def)
  then show ?thesis
    by (simp add: tail_of_def last_lines_def tail_max_lines_def)
qed

section \<open>The wait for a server ends\<close>

lemma ready_loop_ends:
  assumes adv: "\<And>n. clock n + ready_poll_interval_ms \<le> clock (Suc n)" and "deadline - clock n \<le> int k * ready_poll_interval_ms"
  shows "\<exists>r. ready_loop deadline clock failure n e = Some r
    \<and> (case r of Inr m \<Rightarrow> n < m \<and> m \<le> n + k \<and> failure (m - 1) = None
       | Inl (m, e') \<Rightarrow> n \<le> m \<and> m \<le> n + k \<and> deadline \<le> clock m \<and> (e' = (if m = n then e else failure (m - 1))))"
  using assms(2)
proof (induction k arbitrary: n e)
  case 0
  then show ?case by (subst ready_loop.simps) simp
next
  case (Suc k)
  show ?case
  proof (cases "clock n < deadline \<and> failure n \<noteq> None")
    case True
    then obtain err where err: "failure n = Some err" by blast
    have step: "ready_loop deadline clock failure n e = ready_loop deadline clock failure (Suc n) (Some err)"
      using True err by (subst ready_loop.simps) simp
    have "deadline - clock (Suc n) \<le> int k * ready_poll_interval_ms"
      using adv[of n] Suc.prems by (simp add: algebra_simps)
    from Suc.IH[OF this, of "Some err"] err show ?thesis
      unfolding step by (force split: sum.splits)
  next
    case False
    then show ?thesis by (subst ready_loop.simps) auto
  qed
qed

text \<open>Waiting for a server always ends: when the clock advances by at least the poll interval from
  one request to the next, the loop returns after at most one request for every interval of the time
  allowed, ready exactly after a request that was answered, and otherwise past its deadline with the
  error of its last request.\<close>
theorem wait_until_ready_ends:
  assumes "\<And>n. clock n + ready_poll_interval_ms \<le> clock (Suc n)" and "start \<le> clock 0"
  shows "\<exists>r. wait_until_ready start timeoutMs clock failure = Some r
    \<and> (case r of
        Inr m \<Rightarrow> 0 < m \<and> m \<le> nat (timeoutMs div 250) + 1 \<and> failure (m - 1) = None
      | Inl (m, e) \<Rightarrow> m \<le> nat (timeoutMs div 250) + 1 \<and> start + timeoutMs \<le> clock m
          \<and> e = (if m = 0 then None else failure (m - 1)))"
proof -
  have "(start + timeoutMs) - clock 0 \<le> int (nat (timeoutMs div 250) + 1) * ready_poll_interval_ms"
  proof -
    have "timeoutMs \<le> (timeoutMs div 250 + 1) * 250"
      using div_mult_mod_eq[of timeoutMs 250] pos_mod_bound[of "250 :: int" timeoutMs] by simp
    also have "\<dots> \<le> (int (nat (timeoutMs div 250)) + 1) * 250" by simp
    finally show ?thesis using assms(2) by (simp add: ready_poll_interval_ms_def)
  qed
  from ready_loop_ends[of clock, OF assms(1) this, of failure None]
  obtain r where r: "ready_loop (start + timeoutMs) clock failure 0 None = Some r"
    and c: "case r of Inr m \<Rightarrow> 0 < m \<and> m \<le> 0 + (nat (timeoutMs div 250) + 1) \<and> failure (m - 1) = None
       | Inl (m, e') \<Rightarrow> 0 \<le> m \<and> m \<le> 0 + (nat (timeoutMs div 250) + 1) \<and> start + timeoutMs \<le> clock m
           \<and> (e' = (if m = 0 then None else failure (m - 1)))"
    by blast
  show ?thesis
    using r c by (cases r) (simp_all add: wait_until_ready_def split: prod.splits)
qed

lemma wait_until_ready_ends_witness:
  "\<exists>r. wait_until_ready 0 20000 (\<lambda>n. 300 * int n) (\<lambda>n. if n < 3 then Some ''refused'' else None) = Some r
    \<and> (case r of Inr m \<Rightarrow> 0 < m \<and> m \<le> 81 \<and> 3 < m | Inl (m, e) \<Rightarrow> m \<le> 81 \<and> 20000 \<le> 300 * int m)"
  using wait_until_ready_ends[of "\<lambda>n. 300 * int n" 0 20000 "\<lambda>n. if n < 3 then Some ''refused'' else None"]
  by (fastforce simp: ready_poll_interval_ms_def split: sum.splits if_splits)

end
