(* ===== verification/Bench_Client.thy ===== *)
theory Bench_Client
  imports Bench_Report Yjs
begin

text \<open>
  The bench's sync client and its load runs: \<open>src/apps/server/bench\<close>, \<open>ws-bench-client.ts\<close>, \<open>scenarios.ts\<close>
  and the scoring of \<open>run.ts\<close>. The client is a state machine over the events of its socket and timers;
  Yjs and lib0 are parameters, the array of strings being a view of the document. Times are rational
  milliseconds of \<open>performance.now()\<close>.
\<close>

section \<open>The client\<close>

datatype promise = Waiting | Resolved | Rejected

definition settle :: "promise \<Rightarrow> promise \<Rightarrow> promise" where
  "settle outcome p = (if p = Waiting then outcome else p)"

record latency_sample =
  lt_seq :: decimal
  lt_sentAt :: decimal
  lt_receivedAt :: rat

record 'd bench_env =
  be_yjs :: "'d yjs"
  be_lib :: "'d lib0"
  be_array :: "'d \<Rightarrow> jstr list"
  be_push :: "jstr \<Rightarrow> 'd \<Rightarrow> 'd"
  be_artificialDelayMs :: int

text \<open>
  \<open>bc_delayed\<close> holds the frames whose timers run, \<open>bc_baseline\<close> the baseline of the attached observer
  and \<open>bc_samples\<close> what it reported.
\<close>

record 'd bench_client =
  bc_doc :: 'd
  bc_socket :: bool
  bc_ready :: promise
  bc_readyResolved :: bool
  bc_closed :: bool
  bc_closeCode :: "nat option"
  bc_delayed :: "bytes list"
  bc_baseline :: "nat option"
  bc_samples :: "latency_sample list"

datatype client_effect = SendFrame bytes | CloseTransport

definition new_client :: "'d bench_env \<Rightarrow> 'd bench_client" where
  "new_client E = \<lparr>bc_doc = y_new (be_yjs E), bc_socket = False, bc_ready = Waiting, bc_readyResolved = False,
     bc_closed = False, bc_closeCode = None, bc_delayed = [], bc_baseline = None, bc_samples = []\<rparr>"

definition client_send :: "'d bench_env \<Rightarrow> bytes \<Rightarrow> 'd bench_client \<Rightarrow> 'd bench_client \<times> client_effect list" where
  "client_send E data c =
     (if be_artificialDelayMs E \<le> 0 then (c, if bc_socket c then [SendFrame data] else [])
      else (c\<lparr>bc_delayed := bc_delayed c @ [data]\<rparr>, []))"

definition delay_fires :: "'d bench_client \<Rightarrow> 'd bench_client \<times> client_effect list" where
  "delay_fires c = (case bc_delayed c of
     [] \<Rightarrow> (c, [])
   | data # rest \<Rightarrow> (c\<lparr>bc_delayed := rest\<rparr>, if \<not> bc_closed c \<and> bc_socket c then [SendFrame data] else []))"

definition client_send_update :: "'d bench_env \<Rightarrow> bytes \<Rightarrow> 'd bench_client \<Rightarrow> 'd bench_client \<times> client_effect list" where
  "client_send_update E u c = client_send E (l_put_uint (be_lib E) msg_sync @ l_update (be_lib E) u) c"

text \<open>The observer of \<open>observeLatencies\<close>: entries that do not decode are skipped.\<close>

definition sample_of :: "rat \<Rightarrow> jstr \<Rightarrow> latency_sample option" where
  "sample_of receivedAt raw = (case decode_timestamped_payload raw of
     Inl _ \<Rightarrow> None | Inr p \<Rightarrow> Some \<lparr>lt_seq = tp_seq p, lt_sentAt = tp_sentAt p, lt_receivedAt = receivedAt\<rparr>)"

definition observe_handler :: "rat \<Rightarrow> jstr list \<Rightarrow> 'd bench_client \<Rightarrow> 'd bench_client" where
  "observe_handler receivedAt arr c = (case bc_baseline c of
     None \<Rightarrow> c
   | Some baseline \<Rightarrow> c\<lparr>bc_samples := bc_samples c @ List.map_filter (sample_of receivedAt) (drop baseline arr),
       bc_baseline := Some (length arr)\<rparr>)"

definition observe_latencies :: "'d bench_env \<Rightarrow> 'd bench_client \<Rightarrow> 'd bench_client" where
  "observe_latencies E c = c\<lparr>bc_baseline := Some (length (be_array E (bc_doc c)))\<rparr>"

text \<open>The array's observer fires for a transaction that changed the array.\<close>

definition doc_becomes :: "'d bench_env \<Rightarrow> rat \<Rightarrow> 'd \<Rightarrow> 'd bench_client \<Rightarrow> 'd bench_client" where
  "doc_becomes E now d c = (let changed = be_array E (bc_doc c) \<noteq> be_array E d; c = c\<lparr>bc_doc := d\<rparr>
     in if changed then observe_handler now (be_array E d) c else c)"

text \<open>\<open>connect\<close>: the socket opened, or did not.\<close>

definition connect_ok :: "'d bench_env \<Rightarrow> 'd bench_client \<Rightarrow> 'd bench_client \<times> client_effect list" where
  "connect_ok E c =
     (if bc_closed c then (c, [CloseTransport])
      else let c = c\<lparr>bc_socket := True\<rparr>
           in client_send E (l_put_uint (be_lib E) msg_sync @ l_step1 (be_lib E) (bc_doc c)) c)"

definition connect_failed :: "'d bench_client \<Rightarrow> 'd bench_client" where
  "connect_failed c = (if \<not> bc_readyResolved c then c\<lparr>bc_ready := settle Rejected (bc_ready c)\<rparr> else c)"

definition transport_closed :: "nat \<Rightarrow> 'd bench_client \<Rightarrow> 'd bench_client" where
  "transport_closed code c = (let c = c\<lparr>bc_closed := True, bc_closeCode := Some code\<rparr> in
     if \<not> bc_readyResolved c then c\<lparr>bc_ready := settle Rejected (bc_ready c)\<rparr> else c)"

definition client_handle_message :: "'d bench_env \<Rightarrow> rat \<Rightarrow> bytes \<Rightarrow> 'd bench_client \<Rightarrow> 'd bench_client \<times> client_effect list" where
  "client_handle_message E now data c = (case l_get_uint (be_lib E) data of
     None \<Rightarrow> (c, [])
   | Some (msgType, r) \<Rightarrow>
       if msgType = msg_sync then
         (case l_read_sync (be_lib E) r (bc_doc c) of
            None \<Rightarrow> (c, [])
          | Some (_, reply, d) \<Rightarrow>
              let c = doc_becomes E now d c;
                  out = l_put_uint (be_lib E) msg_sync @ reply;
                  (c, fx) = (if length out > 1 then client_send E out c else (c, []))
              in if \<not> bc_readyResolved c
                 then (c\<lparr>bc_readyResolved := True, bc_ready := settle Resolved (bc_ready c)\<rparr>, fx) else (c, fx))
       else (c, []))"

text \<open>\<open>publish\<close> throws on a closed client; otherwise the transaction's update is sent.\<close>

definition publish :: "'d bench_env \<Rightarrow> decimal \<Rightarrow> decimal \<Rightarrow> rat \<Rightarrow> 'd bench_client
    \<Rightarrow> ('d bench_client \<times> client_effect list) option" where
  "publish E n sentAt now c =
     (if bc_closed c then None
      else let d = be_push E (encode_timestamped_payload n sentAt) (bc_doc c);
               u = y_delta (be_yjs E) (bc_doc c) d;
               c = doc_becomes E now d c
           in Some (case u of None \<Rightarrow> (c, []) | Some u \<Rightarrow> client_send_update E u c))"

definition client_close :: "'d bench_client \<Rightarrow> 'd bench_client \<times> client_effect list" where
  "client_close c = (c\<lparr>bc_closed := True\<rparr>, if bc_socket c then [CloseTransport] else [])"

section \<open>Load runs and their score\<close>

record load_config =
  ld_messageCount :: nat
  ld_intervalMs :: int
  ld_drainMs :: int

record load_result =
  lr_samples :: "latency_sample list"
  lr_expectedSamples :: nat
  lr_deliveredSamples :: nat
  lr_publishDurationMs :: rat
  lr_achievedRatePerSec :: rat
  lr_rateLimitedClients :: nat

definition rate_limit_close_code :: nat where "rate_limit_close_code = 4029"

text \<open>The result of \<open>runLoad\<close>, from the clients as they are when the drain is over.\<close>

definition load_result_of ::
  "load_config \<Rightarrow> rat \<Rightarrow> 'd bench_client \<Rightarrow> 'd bench_client list \<Rightarrow> latency_sample list \<Rightarrow> load_result" where
  "load_result_of config publishDurationMs publisher subscribers samples =
     \<lparr>lr_samples = samples,
      lr_expectedSamples = ld_messageCount config * length subscribers,
      lr_deliveredSamples = length samples,
      lr_publishDurationMs = publishDurationMs,
      lr_achievedRatePerSec = (if publishDurationMs > 0 then (of_nat (ld_messageCount config) / publishDurationMs) * 1000 else 0),
      lr_rateLimitedClients = length (filter (\<lambda>c. bc_closed c \<and> bc_closeCode c = Some rate_limit_close_code)
        (publisher # subscribers))\<rparr>"

definition baseline_load :: load_config where
  "baseline_load = \<lparr>ld_messageCount = 100, ld_intervalMs = 100, ld_drainMs = 5000\<rparr>"

definition burst_load :: load_config where
  "burst_load = \<lparr>ld_messageCount = 250, ld_intervalMs = 18, ld_drainMs = 8000\<rparr>"

definition load_failed :: "load_result \<Rightarrow> bool" where
  "load_failed r \<longleftrightarrow> lr_deliveredSamples r < lr_expectedSamples r \<or> lr_rateLimitedClients r > 0"

definition topology_row :: "jstr \<Rightarrow> jstr \<Rightarrow> load_result \<Rightarrow> report_row" where
  "topology_row name condition r =
     \<lparr>rw_topology = name, rw_condition = condition,
      rw_summary = (if lr_deliveredSamples r > 0
        then (case summarize_latencies_ms
                (map (\<lambda>s. latency_ms (decimal_value (lt_sentAt s)) (lt_receivedAt s)) (lr_samples r)) of
                Inl _ \<Rightarrow> None | Inr s \<Rightarrow> Some s)
        else None),
      rw_deliveredSamples = lr_deliveredSamples r, rw_expectedSamples = lr_expectedSamples r,
      rw_achievedRatePerSec = lr_achievedRatePerSec r, rw_failed = load_failed r\<rparr>"

text \<open>One topology: both conditions, given the load each of them ran.\<close>

definition run_topology :: "jstr \<Rightarrow> (load_config \<Rightarrow> load_result) \<Rightarrow> report_row list \<times> bool" where
  "run_topology name run =
     fold (\<lambda>(condition, load) (rows, anyFailed).
         let r = run load in (rows @ [topology_row name condition r], anyFailed \<or> load_failed r))
       [(js ''baseline'', baseline_load), (js ''burst'', burst_load)] ([], False)"

text \<open>\<open>main\<close>: every topology in turn, then the report and the exit code.\<close>

definition bench_main :: "(jstr \<times> (load_config \<Rightarrow> load_result)) list \<Rightarrow> jstr \<times> nat" where
  "bench_main topologies =
     (let (rows, anyFailed) = fold (\<lambda>(name, run) (rows, anyFailed).
            case run_topology name run of (rs, failed) \<Rightarrow> (rows @ rs, anyFailed \<or> failed)) topologies ([], False)
      in (format_markdown_report rows, if anyFailed then 1 else 0))"

section \<open>Every entry is sampled once\<close>

definition stamp :: "latency_sample \<Rightarrow> decimal \<times> decimal" where
  "stamp s = (lt_seq s, lt_sentAt s)"

definition stamp_of :: "jstr \<Rightarrow> (decimal \<times> decimal) option" where
  "stamp_of raw = map_option stamp (sample_of 0 raw)"

lemma stamps: "map stamp (List.map_filter (sample_of now) raws) = List.map_filter stamp_of raws"
  by (induction raws) (auto simp: map_filter_simps stamp_of_def sample_of_def stamp_def split: sum.splits)

lemma map_filter_append: "List.map_filter f (xs @ ys) = List.map_filter f xs @ List.map_filter f ys"
  by (simp add: List.map_filter_def)

fun array_grows :: "'d bench_env \<Rightarrow> 'd \<Rightarrow> (rat \<times> 'd) list \<Rightarrow> bool" where
  "array_grows E d [] = True"
| "array_grows E d ((now, e) # es) = (prefix (be_array E d) (be_array E e) \<and> array_grows E e es)"

definition replay :: "'d bench_env \<Rightarrow> (rat \<times> 'd) list \<Rightarrow> 'd bench_client \<Rightarrow> 'd bench_client" where
  "replay E es c = fold (\<lambda>(now, d). doc_becomes E now d) es c"

lemma doc_becomes_samples:
  assumes "bc_baseline c = Some (length (be_array E (bc_doc c)))" and "prefix (be_array E (bc_doc c)) (be_array E d)"
  shows "bc_baseline (doc_becomes E now d c) = Some (length (be_array E d))"
    and "bc_doc (doc_becomes E now d c) = d"
    and "map stamp (bc_samples (doc_becomes E now d c)) = map stamp (bc_samples c)
      @ List.map_filter stamp_of (drop (length (be_array E (bc_doc c))) (be_array E d))"
  using assms by (auto simp: doc_becomes_def observe_handler_def Let_def stamps map_filter_simps)

lemma replay_samples:
  assumes "bc_baseline c = Some (length (be_array E (bc_doc c)))" and "array_grows E (bc_doc c) es"
  shows "map stamp (bc_samples (replay E es c)) = map stamp (bc_samples c)
      @ List.map_filter stamp_of (drop (length (be_array E (bc_doc c))) (be_array E (bc_doc (replay E es c))))
    \<and> prefix (be_array E (bc_doc c)) (be_array E (bc_doc (replay E es c)))"
  using assms
proof (induction es arbitrary: c)
  case Nil
  then show ?case by (simp add: replay_def map_filter_simps)
next
  case (Cons e es)
  obtain now d where e: "e = (now, d)" by (cases e)
  let ?c = "doc_becomes E now d c"
  have pre: "prefix (be_array E (bc_doc c)) (be_array E d)" using Cons.prems(2) e by simp
  note s = doc_becomes_samples[OF Cons.prems(1) pre, of now]
  have r: "replay E (e # es) c = replay E es ?c" by (simp add: replay_def e)
  have "array_grows E (bc_doc ?c) es" using Cons.prems(2) e s(2) by simp
  note ih = Cons.IH[OF _ this, unfolded s(1,2), OF refl]
  let ?a = "be_array E (bc_doc c)" and ?b = "be_array E d" and ?z = "be_array E (bc_doc (replay E es ?c))"
  from pre obtain u where u: "?b = ?a @ u" by (auto simp: prefix_def)
  from ih obtain v where v: "?z = ?b @ v" by (auto simp: prefix_def)
  from ih s(3) show ?case
    unfolding r by (simp add: u v map_filter_append)
qed

text \<open>A subscriber samples every entry exactly once: whatever the array held when the observer was
  attached is left out, and however the later entries are grouped into updates, the samples are the
  decoded entries appended since then, in order.\<close>
theorem entries_sampled_once:
  assumes "bc_samples c = []" and "array_grows E (bc_doc c) es"
  shows "map stamp (bc_samples (replay E es (observe_latencies E c)))
    = List.map_filter stamp_of (drop (length (be_array E (bc_doc c))) (be_array E (bc_doc (replay E es (observe_latencies E c)))))"
  using replay_samples[of "observe_latencies E c" E es] assms by (simp add: observe_latencies_def)

section \<open>The exit code\<close>

lemma run_topology_eq: "run_topology name run =
   ([topology_row name (js ''baseline'') (run baseline_load), topology_row name (js ''burst'') (run burst_load)],
    load_failed (run baseline_load) \<or> load_failed (run burst_load))"
  by (simp add: run_topology_def Let_def)

lemma bench_fold:
  "fold (\<lambda>(name, run) (rows, anyFailed). case run_topology name run of (rs, failed) \<Rightarrow> (rows @ rs, anyFailed \<or> failed))
     ts (rows, f) = (rows @ concat (map (\<lambda>(name, run). fst (run_topology name run)) ts),
       f \<or> list_ex rw_failed (concat (map (\<lambda>(name, run). fst (run_topology name run)) ts)))"
  by (induction ts arbitrary: rows f) (auto simp: run_topology_eq topology_row_def)

text \<open>The exit code of a run: 1 exactly when some row of the report says FAILED.\<close>
theorem exit_code_tells_report:
  "let rows = concat (map (\<lambda>(name, run). fst (run_topology name run)) ts)
   in bench_main ts = (format_markdown_report rows, if list_ex rw_failed rows then 1 else 0)"
  by (simp add: bench_main_def bench_fold Let_def)

lemma delivered_all_iff:
  "rw_failed (topology_row name condition r)
    \<longleftrightarrow> rw_deliveredSamples (topology_row name condition r) < rw_expectedSamples (topology_row name condition r)
      \<or> 0 < lr_rateLimitedClients r"
  by (simp add: topology_row_def load_failed_def)

end
