(* ===== verification/Bench_Setup.thy ===== *)
theory Bench_Setup
  imports App_Shell Bench_Client Gateway_Inv
begin

text \<open>
  How the latency bench gets its users, rooms and sockets, \<open>src/apps/server/bench\<close>: \<open>rest-client.ts\<close> and
  the setup functions of \<open>run.ts\<close>, run against this server's endpoints. The clock and the random suffix
  of a name are inputs; a room's name reaches the server as it was written, percent-encoding and
  decoding cancel out.
\<close>

section \<open>The REST client\<close>

text \<open>No response, one that is not ok with the action and the status, or a body that is not the expected JSON.\<close>

datatype rest_failure = Unreachable | ActionFailed jstr nat message_field | UnexpectedBody

definition assert_ok :: "jstr \<Rightarrow> 'a http \<Rightarrow> rest_failure + 'a" where
  "assert_ok action res = (case res of
     NoResponse \<Rightarrow> Inl Unreachable
   | HttpError status body \<Rightarrow> Inl (ActionFailed action status body)
   | Garbled \<Rightarrow> Inl UnexpectedBody
   | HttpOk x \<Rightarrow> Inr x)"

record authed_user =
  au_token :: jstr
  au_userId :: jstr
  au_email :: jstr
  au_username :: jstr

definition register_user ::
  "(jstr \<Rightarrow> db \<Rightarrow> auth_response http \<times> db) \<Rightarrow> jstr \<Rightarrow> jstr \<Rightarrow> jstr \<Rightarrow> db \<Rightarrow> (rest_failure + authed_user) \<times> db" where
  "register_user post email username password d =
     (case post (json_stringify (register_payload email username password)) d of (res, d) \<Rightarrow>
        (map_sum id (\<lambda>r. \<lparr>au_token = ar_token r, au_userId = ar_id r, au_email = ar_email r, au_username = ar_username r\<rparr>)
           (assert_ok (js ''registerUser('' @ email @ js '')'') res), d))"

definition bench_create_room ::
  "(jstr \<Rightarrow> jstr \<Rightarrow> db \<Rightarrow> room_summary http \<times> db) \<Rightarrow> jstr \<Rightarrow> jstr \<Rightarrow> db \<Rightarrow> (rest_failure + room_summary) \<times> db" where
  "bench_create_room post token name d =
     (case post token (json_stringify (room_payload name)) d of (res, d) \<Rightarrow>
        (assert_ok (js ''createRoom('' @ name @ js '')'') res, d))"

definition bench_join_room ::
  "(jstr \<Rightarrow> jstr \<Rightarrow> db \<Rightarrow> room_summary http \<times> db) \<Rightarrow> jstr \<Rightarrow> jstr \<Rightarrow> db \<Rightarrow> (rest_failure + room_summary) \<times> db" where
  "bench_join_room post token name d =
     (case post token name d of (res, d) \<Rightarrow> (assert_ok (js ''joinRoom('' @ name @ js '')'') res, d))"

section \<open>Identities and rooms\<close>

definition unique_slug :: "jstr \<Rightarrow> nat \<Rightarrow> jstr \<Rightarrow> jstr" where
  "unique_slug tag now rnd = tag @ js ''-'' @ dec_nat now @ js ''-'' @ rnd"

definition register_bench_user ::
  "(jstr \<Rightarrow> db \<Rightarrow> auth_response http \<times> db) \<Rightarrow> jstr \<Rightarrow> nat \<Rightarrow> jstr \<Rightarrow> db \<Rightarrow> (rest_failure + authed_user) \<times> db" where
  "register_bench_user post tag now rnd d =
     (let slug = unique_slug tag now rnd
      in register_user post (js ''bench-'' @ slug @ js ''@example.com'') (take 30 (js ''bench-'' @ slug))
           (js ''bench-password-1234'') d)"

record bench_identities =
  id_pub :: authed_user
  id_sub :: authed_user

text \<open>Both requests run; the first failure is the one that is thrown.\<close>

definition register_identities ::
  "(jstr \<Rightarrow> db \<Rightarrow> auth_response http \<times> db) \<Rightarrow> (jstr \<Rightarrow> db \<Rightarrow> auth_response http \<times> db)
    \<Rightarrow> nat \<times> jstr \<Rightarrow> nat \<times> jstr \<Rightarrow> db \<Rightarrow> (rest_failure + bench_identities) \<times> db" where
  "register_identities post_pub post_sub pub_slug sub_slug d =
     (case register_bench_user post_pub (js ''pub'') (fst pub_slug) (snd pub_slug) d of (pub, d) \<Rightarrow>
      case register_bench_user post_sub (js ''sub'') (fst sub_slug) (snd sub_slug) d of (sub, d) \<Rightarrow>
        (case (pub, sub) of
           (Inl e, _) \<Rightarrow> Inl e
         | (Inr p, Inl e) \<Rightarrow> Inl e
         | (Inr p, Inr s) \<Rightarrow> Inr \<lparr>id_pub = p, id_sub = s\<rparr>, d))"

fun join_all ::
  "(jstr \<Rightarrow> jstr \<Rightarrow> db \<Rightarrow> room_summary http \<times> db) \<Rightarrow> jstr \<Rightarrow> authed_user list \<Rightarrow> db \<Rightarrow> (rest_failure + unit) \<times> db" where
  "join_all post name [] d = (Inr (), d)"
| "join_all post name (u # us) d = (case bench_join_room post (au_token u) name d of
     (Inl e, d) \<Rightarrow> (Inl e, d) | (Inr _, d) \<Rightarrow> join_all post name us d)"

definition setup_room ::
  "(jstr \<Rightarrow> jstr \<Rightarrow> db \<Rightarrow> room_summary http \<times> db) \<Rightarrow> (jstr \<Rightarrow> jstr \<Rightarrow> db \<Rightarrow> room_summary http \<times> db)
    \<Rightarrow> jstr \<Rightarrow> authed_user list \<Rightarrow> db \<Rightarrow> (rest_failure + unit) \<times> db" where
  "setup_room create enter name users d = (case bench_create_room create (au_token (hd users)) name d of
     (Inl e, d) \<Rightarrow> (Inl e, d) | (Inr _, d) \<Rightarrow> join_all enter name (tl users) d)"

section \<open>The three topologies\<close>

datatype bench_instance = InstanceA | InstanceB

text \<open>A socket: the instance it dials, its room and token, and the delay of its frames.\<close>

record bench_socket =
  so_instance :: bench_instance
  so_room :: jstr
  so_token :: jstr
  so_delayMs :: int

record topology_setup =
  tp_publisher :: bench_socket
  tp_subscribers :: "bench_socket list"

definition connect_client :: "bench_instance \<Rightarrow> jstr \<Rightarrow> jstr \<Rightarrow> int \<Rightarrow> bench_socket" where
  "connect_client i room token delay = \<lparr>so_instance = i, so_room = room, so_token = token, so_delayMs = delay\<rparr>"

datatype topology = SameInstance | RedisHop | FanOut nat

fun topology_room :: "topology \<Rightarrow> jstr" where
  "topology_room SameInstance = js ''bench-same-instance''"
| "topology_room RedisHop = js ''bench-redis-hop''"
| "topology_room (FanOut k) = js ''bench-fanout''"

fun topology_subscribers :: "topology \<Rightarrow> jstr \<Rightarrow> bench_identities \<Rightarrow> bench_socket list" where
  "topology_subscribers SameInstance room ids = [connect_client InstanceA room (au_token (id_sub ids)) 0]"
| "topology_subscribers RedisHop room ids = [connect_client InstanceB room (au_token (id_sub ids)) 0]"
| "topology_subscribers (FanOut k) room ids = replicate k (connect_client InstanceA room (au_token (id_sub ids)) 0)"

text \<open>\<open>setupSameInstance\<close>, \<open>setupRedisHop\<close> and \<open>setupFanOut\<close>.\<close>

definition setup_topology ::
  "(jstr \<Rightarrow> jstr \<Rightarrow> db \<Rightarrow> room_summary http \<times> db) \<Rightarrow> (jstr \<Rightarrow> jstr \<Rightarrow> db \<Rightarrow> room_summary http \<times> db)
    \<Rightarrow> topology \<Rightarrow> bench_identities \<Rightarrow> nat \<times> jstr \<Rightarrow> int \<Rightarrow> db \<Rightarrow> (rest_failure + topology_setup) \<times> db" where
  "setup_topology create enter t ids slug delay d =
     (let room = unique_slug (topology_room t) (fst slug) (snd slug)
      in case setup_room create enter room [id_pub ids, id_sub ids] d of
           (Inl e, d) \<Rightarrow> (Inl e, d)
         | (Inr _, d) \<Rightarrow> (Inr \<lparr>tp_publisher = connect_client InstanceA room (au_token (id_pub ids)) delay,
             tp_subscribers = topology_subscribers t room ids\<rparr>, d))"

section \<open>Every socket is let in\<close>

lemma assert_ok_Inr [simp]: "assert_ok action res = Inr x \<longleftrightarrow> res = HttpOk x"
  by (simp add: assert_ok_def split: http.split)

lemma post_join_ok:
  assumes "post_join R token name d = (HttpOk room, e)"
  shows "\<exists>p. re_verify R token = Some p \<and> rooms_join name (fst p) d = Inr (room, e)"
  using assms by (auto simp: post_join_def guarded_HttpOk respond_with_HttpOk jwt_validate_def)

lemma join_all_members:
  assumes "join_all (post_join R) name us d = (Inr (), e)" and "db_inv d"
  shows "db_inv e \<and> grows d e \<and> (\<forall>u \<in> set us. \<exists>p. re_verify R (au_token u) = Some p \<and> is_member e name (fst p))"
  using assms
proof (induction us arbitrary: d)
  case (Cons u us)
  then obtain room f where j: "post_join R (au_token u) name d = (HttpOk room, f)"
    and r: "join_all (post_join R) name us f = (Inr (), e)"
    by (auto simp: bench_join_room_def split: prod.splits sum.splits)
  obtain p where p: "re_verify R (au_token u) = Some p" "rooms_join name (fst p) d = Inr (room, f)"
    using post_join_ok[OF j] by blast
  have f: "db_inv f" "grows d f" "is_member f name (fst p)"
    using rooms_join_inv[OF Cons.prems(2) p(2)] rooms_join_member[OF Cons.prems(2) p(2)] by simp_all
  have e: "db_inv e" "grows f e" "\<forall>u \<in> set us. \<exists>p. re_verify R (au_token u) = Some p \<and> is_member e name (fst p)"
    using Cons.IH[OF r f(1)] by simp_all
  show ?case
    using e p(1) is_member_grows[OF f(1) e(1,2) f(3)] grows_trans[OF f(2) e(2)] by (cases p) auto
qed simp

lemma setup_room_members:
  assumes "setup_room (post_rooms R i) (post_join R) name (u # us) d = (Inr (), e)" and "db_inv d"
  shows "db_inv e \<and> (\<forall>v \<in> set (u # us). \<exists>p. re_verify R (au_token v) = Some p \<and> is_member e name (fst p))"
proof -
  from assms(1) obtain room f where c: "post_rooms R i (au_token u) (json_stringify (room_payload name)) d = (HttpOk room, f)"
    and j: "join_all (post_join R) name us f = (Inr (), e)"
    by (auto simp: setup_room_def bench_create_room_def split: prod.splits sum.splits)
  obtain p where p: "re_verify R (au_token u) = Some p" and f: "db_inv f" "is_member f name (fst p)"
    using post_rooms_outcome[OF assms(2) c] by (auto simp: room_outcome_def lets_in_def)
  note e = join_all_members[OF j f(1)]
  then show ?thesis using p is_member_grows[OF f(1) _ _ f(2), of e] by (cases p) auto
qed

text \<open>
  When a topology was set up, the token of every socket verifies and its user is a member of the room
  the socket dials, so the gateway's membership check lets all of them in, on either instance.
\<close>

theorem bench_sockets_are_admitted:
  assumes "setup_topology (post_rooms R i) (post_join R) t ids slug delay d = (Inr setup, e)" and "db_inv d"
    and "s \<in> set (tp_publisher setup # tp_subscribers setup)" and "gw_db g = e"
  shows "\<exists>p. re_verify R (so_token s) = Some p
    \<and> gw_conn (check_member c (so_room s) (fst p) g) c = Some (MemberKnown (so_room s) True)"
proof -
  let ?room = "unique_slug (topology_room t) (fst slug) (snd slug)"
  have s: "setup_room (post_rooms R i) (post_join R) ?room [id_pub ids, id_sub ids] d = (Inr (), e)"
    and set: "setup = \<lparr>tp_publisher = connect_client InstanceA ?room (au_token (id_pub ids)) delay,
             tp_subscribers = topology_subscribers t ?room ids\<rparr>"
    using assms(1) by (auto simp: setup_topology_def Let_def split: prod.splits sum.splits)
  have "so_room s = ?room \<and> so_token s \<in> {au_token (id_pub ids), au_token (id_sub ids)}"
    using assms(3) by (cases t) (auto simp: set connect_client_def split: if_splits)
  with setup_room_members[OF s assms(2)] show ?thesis
    using assms(4) by (auto simp: check_member_def)
qed

text \<open>A bench user's name keeps within the server's limit, whatever the clock and the suffix.\<close>

lemma bench_username_fits: "length (take 30 (js ''bench-'' @ unique_slug tag now rnd)) \<le> 30"
  by simp

end
