(* ===== verification/Engine_Subscriptions.thy ===== *)
theory Engine_Subscriptions
  imports Sync_Engine
begin

text \<open>
  The rest of \<open>packages/sync-engine/src/SyncEngine.ts\<close>: the engine as an object with its document, the
  observers of its message array and its set of subscriptions, from the constructor to \<open>destroy\<close>. A
  handler is a fresh closure for every \<open>subscribe\<close>, numbered here; observers that others put on the
  array are not the engine's.
\<close>

record 'd engine =
  en_config :: config
  en_doc :: 'd
  en_observers :: "nat list"
  en_subscriptions :: "nat list"
  en_next :: nat
  en_docDestroyed :: bool

definition new_engine :: "'d yjs \<Rightarrow> config \<Rightarrow> 'd engine" where
  "new_engine Y cfg = \<lparr>en_config = cfg, en_doc = y_new Y, en_observers = [], en_subscriptions = [], en_next = 0,
     en_docDestroyed = False\<rparr>"

definition engine_room_id :: "'d engine \<Rightarrow> jstr" where
  "engine_room_id e = cfg_roomId (en_config e)"

definition get_messages :: "'d yjs \<Rightarrow> 'd engine \<Rightarrow> message list" where
  "get_messages Y e = y_messages Y (en_doc e)"

text \<open>\<open>subscribe\<close> returns the handler that the closure it hands out will remove.\<close>

definition subscribe :: "'d engine \<Rightarrow> nat \<times> 'd engine" where
  "subscribe e = (let handler = en_next e
     in (handler, e\<lparr>en_subscriptions := set_add handler (en_subscriptions e),
           en_observers := en_observers e @ [handler], en_next := Suc handler\<rparr>))"

definition unsubscribe :: "nat \<Rightarrow> 'd engine \<Rightarrow> 'd engine" where
  "unsubscribe handler e = e\<lparr>en_observers := filter (\<lambda>h. h \<noteq> handler) (en_observers e),
     en_subscriptions := set_delete handler (en_subscriptions e)\<rparr>"

definition encode_state :: "'d yjs \<Rightarrow> 'd engine \<Rightarrow> bytes" where
  "encode_state Y e = y_encode Y (en_doc e)"

definition encode_state_vector :: "'d yjs \<Rightarrow> 'd engine \<Rightarrow> bytes" where
  "encode_state_vector Y e = y_state_vector Y (en_doc e)"

definition encode_state_diff :: "'d yjs \<Rightarrow> bytes \<Rightarrow> 'd engine \<Rightarrow> bytes" where
  "encode_state_diff Y remote e = y_diff Y (en_doc e) remote"

text \<open>
  A transaction takes the document to \<open>d\<close>; the array calls its observers, in order, when the
  transaction touched it, which is Yjs's to say (\<open>touched\<close>), and every handler reads the messages
  again. \<open>applyUpdate\<close> is such a transaction, or throws.
\<close>

definition engine_becomes :: "'d yjs \<Rightarrow> ('d \<Rightarrow> 'd \<Rightarrow> bool) \<Rightarrow> 'd \<Rightarrow> 'd engine \<Rightarrow> 'd engine \<times> (nat \<times> message list) list" where
  "engine_becomes Y touched d e =
     (let e' = e\<lparr>en_doc := d\<rparr>
      in (e', if \<not> touched (en_doc e) d then []
              else map (\<lambda>h. (h, get_messages Y e')) (en_observers e)))"

definition apply_update :: "'d yjs \<Rightarrow> ('d \<Rightarrow> 'd \<Rightarrow> bool) \<Rightarrow> bytes \<Rightarrow> 'd engine \<Rightarrow> ('d engine \<times> (nat \<times> message list) list) option" where
  "apply_update Y touched u e = map_option (\<lambda>d. engine_becomes Y touched d e) (y_apply Y u (en_doc e))"

definition engine_destroy :: "'d engine \<Rightarrow> 'd engine" where
  "engine_destroy e = e\<lparr>en_observers := fold (\<lambda>handler. filter (\<lambda>h. h \<noteq> handler)) (en_subscriptions e) (en_observers e),
     en_subscriptions := [], en_docDestroyed := True\<rparr>"

section \<open>Who is called\<close>

datatype 'd engine_event = Subscribe | Unsubscribe nat | Becomes 'd | DestroyEngine

definition engine_step :: "'d yjs \<Rightarrow> ('d \<Rightarrow> 'd \<Rightarrow> bool) \<Rightarrow> 'd engine_event \<Rightarrow> 'd engine \<Rightarrow> 'd engine \<times> (nat \<times> message list) list" where
  "engine_step Y touched ev e = (case ev of
     Subscribe \<Rightarrow> (snd (subscribe e), [])
   | Unsubscribe h \<Rightarrow> (unsubscribe h e, [])
   | Becomes d \<Rightarrow> engine_becomes Y touched d e
   | DestroyEngine \<Rightarrow> (engine_destroy e, []))"

fun engine_run :: "'d yjs \<Rightarrow> ('d \<Rightarrow> 'd \<Rightarrow> bool) \<Rightarrow> 'd engine_event list \<Rightarrow> 'd engine \<Rightarrow> 'd engine" where
  "engine_run Y touched [] e = e"
| "engine_run Y touched (ev # evs) e = engine_run Y touched evs (fst (engine_step Y touched ev e))"

definition engine_inv :: "'d engine \<Rightarrow> bool" where
  "engine_inv e \<longleftrightarrow> en_observers e = en_subscriptions e \<and> distinct (en_subscriptions e)
     \<and> list_all (\<lambda>h. h < en_next e) (en_subscriptions e)"

lemma remove_each: "fold (\<lambda>k. filter (\<lambda>h. h \<noteq> k)) ks xs = filter (\<lambda>h. h \<notin> set ks) xs"
  by (induction ks arbitrary: xs) (auto intro: filter_cong)

lemma engine_step_inv: "engine_inv e \<Longrightarrow> engine_inv (fst (engine_step Y touched ev e))"
  by (cases ev)
    (auto simp: engine_inv_def engine_step_def subscribe_def unsubscribe_def engine_becomes_def engine_destroy_def remove_each
      set_add_def set_delete_def Let_def list_all_iff less_Suc_eq)

lemma engine_run_inv: "engine_inv e \<Longrightarrow> engine_inv (engine_run Y touched evs e)"
  by (induction evs arbitrary: e) (simp_all add: engine_step_inv)

text \<open>
  A change of the messages' array is told exactly once to every subscriber who has not unsubscribed, with the
  messages as they are then, and to nobody after \<open>destroy\<close>, in whatever order subscriptions, changes
  and unsubscriptions came.
\<close>

theorem subscribers_hear_changes:
  assumes "engine_run Y touched evs (new_engine Y cfg) = e" and "engine_becomes Y touched d e = (e', calls)"
    and "touched (en_doc e) d"
  shows "calls = map (\<lambda>h. (h, y_messages Y d)) (en_subscriptions e) \<and> distinct (map fst calls)
    \<and> (case engine_becomes Y touched d (engine_destroy e) of (e'', after) \<Rightarrow> after = [])"
proof -
  have "engine_inv (new_engine Y cfg)" by (simp add: engine_inv_def new_engine_def)
  then have inv: "engine_inv e" using engine_run_inv assms(1) by blast
  have calls: "calls = map (\<lambda>h. (h, y_messages Y d)) (en_subscriptions e)"
    using assms(2,3) inv by (auto simp: engine_becomes_def get_messages_def engine_inv_def Let_def)
  moreover have "en_observers (engine_destroy e) = []"
    using inv by (simp add: engine_destroy_def remove_each engine_inv_def)
  ultimately show ?thesis using inv by (simp add: engine_inv_def comp_def engine_becomes_def Let_def)
qed

end
