(* ===== verification/Gateway_Limits.thy ===== *)
theory Gateway_Limits
  imports Gateway_Properties Gateway_Kept
begin

text \<open>
  How fast a client may send and when a dead socket goes: the fixed-window rate limit of
  \<open>isRateLimited\<close> over a client's whole stream of messages, and the heartbeat sweep over any
  interleaving of the gateway's steps.
\<close>

section \<open>The rate limit\<close>

text \<open>The verdicts on a client's messages, by the times at which they arrive.\<close>

fun limit_run :: "nat \<Rightarrow> nat list \<Rightarrow> ('d, 'a) gateway \<Rightarrow> bool list \<times> ('d, 'a) gateway" where
  "limit_run c [] g = ([], g)"
| "limit_run c (t # ts) g = (case is_rate_limited t c g of (limited, g) \<Rightarrow>
     case limit_run c ts g of (vs, g) \<Rightarrow> (limited # vs, g))"

fun limit_state :: "nat \<Rightarrow> rate_state option \<Rightarrow> bool \<times> rate_state" where
  "limit_state now None = (False, \<lparr>rt_count = 1, rt_windowStart = now\<rparr>)"
| "limit_state now (Some s) = (if now - rt_windowStart s \<ge> 1000 then (False, \<lparr>rt_count = 1, rt_windowStart = now\<rparr>)
     else (rt_count s + 1 > 60, s\<lparr>rt_count := rt_count s + 1\<rparr>))"

lemma is_rate_limited_state:
  "is_rate_limited now c g = (case limit_state now (gw_clientRate g c) of (b, s) \<Rightarrow>
     (b, g\<lparr>gw_clientRate := (gw_clientRate g)(c \<mapsto> s)\<rparr>))"
  by (auto simp: is_rate_limited_def rate_limit_window_ms_def rate_limit_max_msgs_def split: option.splits)

fun verdicts :: "nat list \<Rightarrow> rate_state option \<Rightarrow> bool list" where
  "verdicts [] s = []"
| "verdicts (t # ts) s = (case limit_state t s of (b, s) \<Rightarrow> b # verdicts ts (Some s))"

lemma limit_run_verdicts: "fst (limit_run c ts g) = verdicts ts (gw_clientRate g c)"
  by (induction ts arbitrary: g) (simp_all add: is_rate_limited_state split_def)

lemma length_verdicts [simp]: "length (verdicts ts s) = length ts"
  by (induction ts s rule: verdicts.induct) (auto split: prod.splits)

text \<open>All accepted: sixty in every window begun, and windows begin a second apart.\<close>

lemma accepted_bound:
  assumes "sorted ts" and "True \<notin> set (verdicts ts (Some s))" and "list_all (\<lambda>t. rt_windowStart s \<le> t) ts"
    and "rt_count s \<le> 60" and "ts \<noteq> []"
  shows "rt_count s + length ts \<le> 60 * ((last ts - rt_windowStart s) div 1000 + 1)"
  using assms
proof (induction ts arbitrary: s)
  case (Cons t ts)
  show ?case
  proof (cases "t - rt_windowStart s \<ge> 1000")
    case new: True
    let ?s = "\<lparr>rt_count = 1, rt_windowStart = t\<rparr>"
    have "t \<le> last (t # ts)" using Cons.prems(1) by (auto simp: last_ConsR)
    then have "last (t # ts) - t + 1000 \<le> last (t # ts) - rt_windowStart s"
      using new by simp
    from div_le_mono[OF this, of 1000]
    have shift: "(last (t # ts) - t) div 1000 + 1 \<le> (last (t # ts) - rt_windowStart s) div 1000"
      by simp
    show ?thesis
    proof (cases "ts = []")
      case True
      then show ?thesis using Cons.prems(4) shift by simp
    next
      case False
      have "rt_count ?s + length ts \<le> 60 * ((last ts - t) div 1000 + 1)"
        using Cons.IH[of ?s] Cons.prems new False by (auto simp: list_all_iff)
      then show ?thesis using shift False Cons.prems(4) by simp
    qed
  next
    case False
    let ?s = "s\<lparr>rt_count := rt_count s + 1\<rparr>"
    have ok: "rt_count s + 1 \<le> 60" "True \<notin> set (verdicts ts (Some ?s))"
      using Cons.prems(2) False by (auto simp: not_less)
    show ?thesis
    proof (cases "ts = []")
      case True
      then show ?thesis using ok(1) by simp
    next
      case False
      then show ?thesis using Cons.IH[of ?s] Cons.prems ok by simp
    qed
  qed
qed simp


text \<open>Never sixty-one messages in less than a second.\<close>

definition spaced :: "nat list \<Rightarrow> bool" where
  "spaced ts \<longleftrightarrow> (\<forall>i. i + 60 < length ts \<longrightarrow> ts ! i + 1000 \<le> ts ! (i + 60))"

lemma spaced_suffix:
  assumes "spaced (xs @ ts)"
  shows "spaced ts"
  unfolding spaced_def
proof (intro allI impI)
  fix i assume "i + 60 < length ts"
  then have "(length xs + i) + 60 < length (xs @ ts)" by simp
  then have "(xs @ ts) ! (length xs + i) + 1000 \<le> (xs @ ts) ! (length xs + i + 60)"
    using assms unfolding spaced_def by blast
  moreover have "length xs + i + 60 = length xs + (i + 60)" by simp
  ultimately show "ts ! i + 1000 \<le> ts ! (i + 60)" by (simp only: nth_append_length_plus)
qed

lemma spaced_accepted:
  assumes "spaced (ws @ ts)" and "ws \<noteq> []" and "rt_windowStart s = hd ws" and "rt_count s = length ws"
    and "length ws \<le> 60"
  shows "True \<notin> set (verdicts ts (Some s))"
  using assms
proof (induction ts arbitrary: ws s)
  case (Cons t ts)
  show ?case
  proof (cases "t - rt_windowStart s \<ge> 1000")
    case True
    have "spaced ([t] @ ts)" using spaced_suffix[of ws "t # ts"] Cons.prems(1) by simp
    from Cons.IH[OF this, of "\<lparr>rt_count = 1, rt_windowStart = t\<rparr>"] True show ?thesis by simp
  next
    case False
    have "length ws \<noteq> 60"
    proof
      assume n: "length ws = 60"
      then have "(ws @ t # ts) ! 0 + 1000 \<le> (ws @ t # ts) ! (0 + 60)"
        using Cons.prems(1) unfolding spaced_def by (metis add.left_neutral add_Suc_right length_append length_Cons less_add_Suc1)
      then have "hd ws + 1000 \<le> t" using n Cons.prems(2) by (simp add: nth_append hd_conv_nth)
      then show False using False Cons.prems(3) by simp
    qed
    then have "length ws < 60" using Cons.prems(5) by simp
    moreover have "True \<notin> set (verdicts ts (Some (s\<lparr>rt_count := rt_count s + 1\<rparr>)))"
      by (rule Cons.IH[of "ws @ [t]"]) (use Cons.prems \<open>length ws < 60\<close> in simp_all)
    ultimately show ?thesis using False Cons.prems(4) by simp
  qed
qed simp

text \<open>C17. The rate limit from both sides, for the whole stream of a client's messages: a client that
  never sends more than sixty messages within a second is never limited, and a client none of whose
  messages was limited has sent at most sixty for every second begun since its first.\<close>
theorem rate_limit_two_sided:
  assumes "sorted (t # ts)" and "gw_clientRate g c = None"
  shows "(spaced (t # ts) \<longrightarrow> True \<notin> set (fst (limit_run c (t # ts) g)))
    \<and> (True \<notin> set (fst (limit_run c (t # ts) g))
       \<longrightarrow> length (t # ts) \<le> 60 * ((last (t # ts) - t) div 1000 + 1))"
proof -
  let ?s = "\<lparr>rt_count = 1, rt_windowStart = t\<rparr>"
  have v: "fst (limit_run c (t # ts) g) = False # verdicts ts (Some ?s)"
    using assms(2) by (simp only: limit_run_verdicts) simp
  have "spaced (t # ts) \<Longrightarrow> True \<notin> set (verdicts ts (Some ?s))"
    using spaced_accepted[of "[t]" ts ?s] by simp
  moreover have "length (t # ts) \<le> 60 * ((last (t # ts) - t) div 1000 + 1)"
    if "True \<notin> set (verdicts ts (Some ?s))"
  proof (cases "ts = []")
    case False
    then show ?thesis using accepted_bound[of ts ?s] that assms(1) by (simp add: list_all_iff)
  qed simp
  ultimately show ?thesis unfolding v by simp
qed

section \<open>Heartbeats\<close>

text \<open>What a heartbeat is about: the liveness flags, the sockets with listeners, the closed sockets.\<close>

definition pulse :: "('d, 'a) gateway \<Rightarrow> (nat \<Rightarrow> bool option) \<times> (nat \<Rightarrow> nat option) \<times> (nat \<Rightarrow> bool)" where
  "pulse g = (gw_alive g, gw_listening g, \<lambda>c. gw_socket g c = Some Closed)"

lemma pulse_fields:
  "pulse (g\<lparr>gw_heap := hp\<rparr>) = pulse g" "pulse (g\<lparr>gw_next := nx\<rparr>) = pulse g" "pulse (g\<lparr>gw_rooms := rs\<rparr>) = pulse g"
  "pulse (g\<lparr>gw_roomInitMap := ri\<rparr>) = pulse g" "pulse (g\<lparr>gw_clientRoom := cr\<rparr>) = pulse g"
  "pulse (g\<lparr>gw_conn := cn\<rparr>) = pulse g" "pulse (g\<lparr>gw_user := us\<rparr>) = pulse g" "pulse (g\<lparr>gw_db := d\<rparr>) = pulse g"
  "pulse (set_room r s g) = pulse g"
  by (simp_all add: pulse_def set_room_def)

lemma kept_pulse: "kept h = kept g \<Longrightarrow> pulse h = pulse g"
  by (simp add: kept_def pulse_def fun_eq_iff)

lemma pulse_connect: "gw_socket g c = None \<Longrightarrow> pulse (g\<lparr>gw_socket := (gw_socket g)(c \<mapsto> Open)\<rparr>) = pulse g"
  by (auto simp: pulse_def fun_eq_iff)

lemma pulse_close: "pulse (fst (close_client c code g)) = pulse g"
  by (rule kept_pulse[OF kept_close])

lemma pulse_connections:
  "pulse (await_room E c name g) = pulse g" "pulse (check_member c name u g) = pulse g"
  "pulse (fst (member_known E c name b g)) = pulse g" "pulse (join_failed c g) = pulse g"
  "gw_socket g c = None \<Longrightarrow> pulse (fst (handle_connection E c room header g)) = pulse g"
proof -
  show await: "pulse (await_room E c name g) = pulse g" for name g
    by (simp add: await_room_def get_or_create_room_def pulse_fields Let_def split: option.split)
  show "pulse (check_member c name u g) = pulse g" "pulse (fst (member_known E c name b g)) = pulse g"
    "pulse (join_failed c g) = pulse g"
    by (simp_all add: check_member_def member_known_def join_failed_def pulse_fields pulse_close await)
  show "gw_socket g c = None \<Longrightarrow> pulse (fst (handle_connection E c room header g)) = pulse g"
    by (simp add: handle_connection_def Let_def pulse_fields pulse_close pulse_connect await split: option.split)
qed

lemma pulse_gc: "pulse (fst (gc_timer E i g)) = pulse g"
proof -
  have "pulse (fst (gc_fire E n r h)) = pulse h" for n r and h :: "('a, 'b) gateway"
    by (auto simp: gc_fire_def destroy_room_def Let_def andThen_def split_def pulse_fields
        kept_pulse[OF kept_change_awareness] kept_pulse[OF kept_small(1)] kept_pulse[OF kept_persist(1)]
        kept_pulse[OF kept_fields(1)] split: option.split)
  then show ?thesis by (simp add: gc_timer_def kept_pulse[OF kept_fields(8)] split: prod.split)
qed

lemma pulseD:
  assumes "pulse h = pulse g"
  shows "gw_alive h c = gw_alive g c" "gw_listening h c = gw_listening g c" "gw_socket h c = Some Closed \<longleftrightarrow> gw_socket g c = Some Closed"
  using assms by (simp_all add: pulse_def fun_eq_iff)

text \<open>A step between two sweeps: the socket's flag is raised by its pong and by its being let in, only.\<close>

definition beats :: "nat \<Rightarrow> bool \<Rightarrow> ('d, 'a) gateway \<Rightarrow> ('d, 'a) gateway \<Rightarrow> bool" where
  "beats c answered g h \<longleftrightarrow> (gw_socket h c \<noteq> Some Closed \<longrightarrow> gw_socket g c \<noteq> Some Closed
     \<and> (gw_listening g c \<noteq> None \<longrightarrow> gw_listening h c \<noteq> None)
     \<and> gw_alive h c = (if answered \<or> gw_listening g c = None \<and> gw_listening h c \<noteq> None then Some True else gw_alive g c))"

lemma beats_pulse: "pulse h = pulse g \<Longrightarrow> beats c False g h"
  by (auto simp: beats_def pulse_def fun_eq_iff)

lemma beats_trans: "beats c a g h \<Longrightarrow> beats c b h k \<Longrightarrow> beats c (a \<or> b) g k"
  by (auto simp: beats_def)

lemma beats_join:
  assumes "gw_inv g" and "gw_conn g d = Some (AwaitingRoom n r)"
  shows "beats c False g (fst (join_room E d n r g))"
proof -
  have "d \<notin> set (rs_clients (room_at g q))" if "q < gw_next g" for q
    using gw_invD(4)[OF assms(1)] assms(2) that by (auto simp: clients_ok_def)
  then have "gw_listening g d = None"
    using gw_invD(9)[OF assms(1)] by (cases "gw_listening g d") (auto simp: listen_ok_def)
  then show ?thesis
    by (auto simp: beats_def join_room_def Let_def set_room_def count_metric_def)
qed

lemma beats_closed: "beats c False g (fst (socket_closed E d g))"
proof -
  let ?g = "g\<lparr>gw_socket := (gw_socket g)(d \<mapsto> Closed), gw_listening := (gw_listening g)(d := None)\<rparr>"
  have "pulse (fst (handle_disconnect E d ?g)) = pulse ?g"
    using kept_pulse[OF kept_disconnect[of E d ?g]] by (simp add: pulse_fields split: option.split)
  from pulseD[OF this, of c] show ?thesis
    by (auto simp: beats_def socket_closed_def split: if_splits)
qed

lemma step_beats:
  assumes "g_step E known e g = Some (h, fx)" and "e \<noteq> ESweep" and "gw_inv g"
  shows "beats c (e = EPong c) g h"
proof (cases "keeps e")
  case True
  then show ?thesis
    using beats_pulse[OF kept_pulse[OF untouched_step[OF assms(1) True]], of c] True by (cases "e = EPong c") (auto simp: keeps_def)
next
  case False
  note assms(1,3)
  with False assms(2) show ?thesis
  proof (cases e)
    case (EJoin d)
    with assms beats_join[OF assms(3), of d _ _ c E] show ?thesis
      by (auto simp: g_step_def pulse_connections intro!: beats_pulse split: option.splits conn_phase.splits load_state.splits)
  next
    case (EClosed d)
    with assms beats_closed[of c g E d] show ?thesis by (auto simp: g_step_def split: if_splits)
  next
    case (EPong d)
    with assms show ?thesis by (auto simp: g_step_def beats_def on_pong_def split: if_splits)
  next
    case (EConnect d room header)
    with assms pulse_connections(5)[of g d E room header] show ?thesis
      by (auto simp: g_step_def intro!: beats_pulse split: if_splits)
  next
    case (EMemberKnown d)
    with assms pulse_connections(3)[of E d _ _ g] show ?thesis
      by (auto simp: g_step_def intro!: beats_pulse split: option.splits conn_phase.splits) (metis fst_conv)
  next
    case (EGcTimer i)
    with assms pulse_gc[of E i g] show ?thesis by (auto simp: g_step_def intro!: beats_pulse split: if_splits)
  qed (use assms in \<open>auto simp: g_step_def keeps_def pulse_connections intro!: beats_pulse split: option.splits conn_phase.splits\<close>)
qed

text \<open>Whatever may happen between two sweeps: any steps, and the database growing.\<close>

inductive until_sweep :: "('d, 'a) gateway_env \<Rightarrow> nat list \<Rightarrow> ('d, 'a) gateway \<Rightarrow> g_event list \<Rightarrow> ('d, 'a) gateway \<Rightarrow> bool"
  for E known g where
  nothing: "until_sweep E known g [] g"
| database: "until_sweep E known g evs h \<Longrightarrow> grows (gw_db h) d \<Longrightarrow> db_inv d \<Longrightarrow> until_sweep E known g evs (h\<lparr>gw_db := d\<rparr>)"
| step: "until_sweep E known g evs h \<Longrightarrow> e \<noteq> ESweep \<Longrightarrow> g_step E known e h = Some (k, fx) \<Longrightarrow> until_sweep E known g (evs @ [e]) k"

lemma until_sweep_beats:
  "until_sweep E known g evs h \<Longrightarrow> gw_inv g \<Longrightarrow> gw_inv h \<and> beats c (EPong c \<in> set evs) g h"
proof (induction rule: until_sweep.induct)
  case nothing
  then show ?case using beats_pulse[of g g c] by simp
next
  case (database evs h d)
  have "beats c False h (h\<lparr>gw_db := d\<rparr>)" by (rule beats_pulse) (simp add: pulse_fields)
  with database show ?case using beats_trans[of c _ g h False] quiet_inv[OF quiet_db[OF database.hyps(3,2)]] by auto
next
  case (step evs h e k fx)
  then have "beats c (e = EPong c) h k" "gw_inv k" using step_beats step_inv by blast+
  moreover have "EPong c \<in> set (evs @ [e]) \<longleftrightarrow> EPong c \<in> set evs \<or> e = EPong c" by auto
  ultimately show ?case using step.IH[OF step.prems] beats_trans[of c "EPong c \<in> set evs" g h "e = EPong c" k] by simp
qed

lemma sweep_effects:
  assumes "distinct cs"
  shows "(TerminateClient c \<in> set (snd (sweep_loop cs g)) \<longleftrightarrow> c \<in> set cs \<and> gw_alive g c = Some False)
    \<and> (c \<in> set cs \<longrightarrow> gw_alive (fst (sweep_loop cs g)) c = Some False)
    \<and> (c \<notin> set cs \<longrightarrow> gw_alive (fst (sweep_loop cs g)) c = gw_alive g c)"
  using assms
  by (induction cs arbitrary: g) (auto simp: andThen_def split_def terminate_client_def)

text \<open>C18. A socket that stops answering goes, and only such a one. In any reachable state of the server, and
  whatever happens until the next heartbeat sweep: a socket that is not closed is terminated by that
  sweep exactly when it has not answered the ping of the one before and was not let into a room since
  then, which is when its pongs begin to count.\<close>
theorem silent_sockets_go:
  assumes "g_reach E known d0 g es" and "db_inv d0" and "distinct known"
    and "g_step E known ESweep g = Some (g1, fx1)" and "until_sweep E known g1 evs g2"
    and "c \<in> set (server_clients g known)" and "c \<in> set (server_clients g2 known)"
    and "g_step E known ESweep g2 = Some (g3, fx3)"
  shows "TerminateClient c \<in> set fx3 \<longleftrightarrow>
    EPong c \<notin> set evs \<and> \<not> (gw_listening g1 c = None \<and> gw_listening g2 c \<noteq> None)"
proof -
  have d: "distinct (server_clients h known)" for h :: "('a, 'b) gateway"
    using assms(3) by (simp add: server_clients_def)
  have "gw_inv g1" using step_inv[OF g_reach_inv[OF assms(1,2)] assms(4)] .
  then have b: "beats c (EPong c \<in> set evs) g1 g2" using until_sweep_beats[OF assms(5)] by blast
  have "gw_alive g1 c = Some False"
    using assms(4,6) sweep_effects[OF d, of c g g] by (simp add: g_step_def sweep_heartbeats_def)
  moreover have "gw_socket g2 c \<noteq> Some Closed"
    using assms(7) by (simp add: server_clients_def)
  moreover have "fx3 = snd (sweep_loop (server_clients g2 known) g2)"
    using assms(8) by (simp add: g_step_def sweep_heartbeats_def)
  ultimately show ?thesis
    using b sweep_effects[OF d, of c g2 g2] assms(7) by (auto simp: beats_def)
qed

section \<open>The theorems at concrete runs\<close>

lemma sample_sockets:
  "gw_socket sample_gateway 1 = Some Open" "gw_socket sample_gateway 2 = Some Open"
  "gw_alive sample_gateway 1 = Some True" "gw_alive sample_gateway 2 = Some True"
  "gw_clientRate sample_gateway 2 = None"
proof -
  have "case g_run sample_gateway_env [1, 2] sample_trace (empty_gateway sample_team_db) of None \<Rightarrow> False
   | Some (g, es) \<Rightarrow> gw_socket g 1 = Some Open \<and> gw_socket g 2 = Some Open \<and> gw_alive g 1 = Some True
       \<and> gw_alive g 2 = Some True \<and> Option.is_none (gw_clientRate g 2)"
    by code_simp
  then show "gw_socket sample_gateway 1 = Some Open" "gw_socket sample_gateway 2 = Some Open"
    "gw_alive sample_gateway 1 = Some True" "gw_alive sample_gateway 2 = Some True"
    "gw_clientRate sample_gateway 2 = None"
    by (auto simp: sample_outcome_def Option.is_none_def split: option.splits)
qed

text \<open>Sixty-one messages a millisecond apart are too many; three in two seconds are not.\<close>
lemma rate_limit_two_sided_witness:
  "True \<in> set (fst (limit_run 2 [0..<61] sample_gateway))
    \<and> True \<notin> set (fst (limit_run 2 [0, 700, 2000] sample_gateway))"
proof
  have "[0..<61] = (0::nat) # [1..<61]" by (simp add: upt_conv_Cons)
  moreover have "last (0 # [1..<61]) = (60::nat)" by simp
  ultimately show "True \<in> set (fst (limit_run 2 [0..<61] sample_gateway))"
    using rate_limit_two_sided[of 0 "[1..<61]" sample_gateway 2] by (simp add: sample_sockets split: if_splits)
  show "True \<notin> set (fst (limit_run 2 [0, 700, 2000] sample_gateway))"
    using rate_limit_two_sided[of 0 "[700, 2000]" sample_gateway 2]
    by (simp add: sample_sockets spaced_def split: if_splits)
qed

lemma sample_listening: "gw_listening sample_gateway 1 \<noteq> None" "gw_listening sample_gateway 2 \<noteq> None"
proof -
  have "case g_run sample_gateway_env [1, 2] sample_trace (empty_gateway sample_team_db) of None \<Rightarrow> False
   | Some (g, es) \<Rightarrow> \<not> Option.is_none (gw_listening g 1) \<and> \<not> Option.is_none (gw_listening g 2)"
    by code_simp
  then show "gw_listening sample_gateway 1 \<noteq> None" "gw_listening sample_gateway 2 \<noteq> None"
    by (auto simp: sample_outcome_def Option.is_none_def split: option.splits)
qed

lemma silent_sockets_go_witness:
  "TerminateClient 2 \<in> set (snd (sweep_heartbeats [1, 2] (on_pong 1 (fst (sweep_heartbeats [1, 2] sample_gateway)))))"
proof -
  let ?g1 = "fst (sweep_heartbeats [1, 2] sample_gateway)"
  let ?g2 = "on_pong 1 ?g1"
  note [simp] = sample_sockets sample_sockets[unfolded One_nat_def]
  have known: "server_clients sample_gateway [1, 2] = [1, 2]" by (simp add: server_clients_def)
  have g1: "gw_listening ?g1 = gw_listening sample_gateway" "gw_socket ?g1 = gw_socket sample_gateway"
    by (simp_all add: sweep_heartbeats_def andThen_def split_def)
  then have known2: "server_clients ?g2 [1, 2] = [1, 2]" by (simp add: server_clients_def on_pong_def)
  have first: "g_step sample_gateway_env [1, 2] ESweep sample_gateway = Some (?g1, snd (sweep_heartbeats [1, 2] sample_gateway))"
    by (simp add: g_step_def known[unfolded One_nat_def])
  have pong: "g_step sample_gateway_env [1, 2] (EPong 1) ?g1 = Some (?g2, [])"
    using g1 sample_listening[unfolded One_nat_def] by (auto simp: g_step_def)
  have until_sweep: "until_sweep sample_gateway_env [1, 2] ?g1 [EPong 1] ?g2"
    using until_sweep.step[OF until_sweep.nothing _ pong] by simp
  have second: "g_step sample_gateway_env [1, 2] ESweep ?g2 = Some (fst (sweep_heartbeats [1, 2] ?g2), snd (sweep_heartbeats [1, 2] ?g2))"
    by (simp add: g_step_def known2[unfolded One_nat_def])
  have still: "gw_listening ?g2 2 = gw_listening ?g1 2" by (simp add: on_pong_def)
  from silent_sockets_go[OF sample_gateway_reach sample_team_db_inv _ first until_sweep _ _ second, of 2] show ?thesis
    using still sample_listening(2) g1(1) by (simp add: known[unfolded One_nat_def] known2[unfolded One_nat_def])
qed

end
