(* ===== verification/Persistence.thy ===== *)
theory Persistence
  imports Yjs Base64 Storage Envelope
begin

text \<open>
  \<open>packages/sync-engine/src/SQLitePersistence.ts\<close> and the adoption policy it is given by
  \<open>crypto/legacyDocPolicy.ts\<close>: one room's document on the device. \<open>load\<close> is cut after its storage
  accesses, a write is in flight between its call and its landing, and writes land in the order
  they were made. The store is a parameter through \<^typ>\<open>'s kv_ops\<close>.
\<close>

section \<open>State and keys\<close>

definition persist_debounce_ms :: nat where "persist_debounce_ms = 500"

definition storage_key :: "jstr \<Rightarrow> jstr \<Rightarrow> jstr" where
  "storage_key scope roomId =
     (if scope \<noteq> [] then js ''yjs:'' @ scope @ js '':'' @ roomId else js ''yjs:'' @ roomId)"

text \<open>
  \<open>ps_loading\<close> is a suspended \<open>load\<close> with what it read; \<open>ps_subscribed\<close> whether the document's
  update handler is registered; \<open>ps_timer\<close> whether the debounce timer is armed; \<open>ps_writes\<close> the
  values of the \<open>setItem\<close> calls in flight; \<open>ps_discarding\<close> a \<open>discard\<close> waiting for them.
\<close>

record ('d, 's) persistence =
  ps_scope :: jstr
  ps_roomId :: jstr
  ps_loaded :: bool
  ps_destroyed :: bool
  ps_loading :: "jstr option option"
  ps_subscribed :: bool
  ps_timer :: bool
  ps_writes :: "jstr list"
  ps_discarding :: bool
  ps_doc :: 'd
  ps_store :: 's

definition ps_key :: "('d, 's) persistence \<Rightarrow> jstr" where
  "ps_key p = storage_key (ps_scope p) (ps_roomId p)"

definition new_persistence :: "jstr \<Rightarrow> jstr \<Rightarrow> 'd \<Rightarrow> 's \<Rightarrow> ('d, 's) persistence" where
  "new_persistence scope roomId d s = \<lparr>ps_scope = scope, ps_roomId = roomId, ps_loaded = False,
     ps_destroyed = False, ps_loading = None, ps_subscribed = False, ps_timer = False, ps_writes = [],
     ps_discarding = False, ps_doc = d, ps_store = s\<rparr>"

section \<open>Operations\<close>

text \<open>\<open>shouldAdoptLegacyDoc\<close>.\<close>

definition should_adopt_legacy_doc :: "jstr \<Rightarrow> message list \<Rightarrow> bool" where
  "should_adopt_legacy_doc myUserId ms =
     list_all (\<lambda>m. m_userId m = myUserId \<or> starts_with (m_content m) e2ee_prefix) ms"

text \<open>
  \<open>migrateLegacy\<close>: what \<open>load\<close> goes on with, and the store afterwards. The policy sees the messages
  of the legacy document; one that does not apply is not adopted.
\<close>

definition migrate_legacy ::
  "'d yjs \<Rightarrow> 's kv_ops \<Rightarrow> (message list \<Rightarrow> bool) \<Rightarrow> jstr \<Rightarrow> jstr \<Rightarrow> 's \<Rightarrow> jstr option \<times> 's" where
  "migrate_legacy Y S adoptLegacy scope roomId s =
     (let legacyKey = storage_key [] roomId
      in case kv_get S legacyKey s of
           None \<Rightarrow> (None, s)
         | Some legacy \<Rightarrow>
             if legacy = [] then (None, s)
             else
               let adopt = (case y_apply Y (base64_to_uint8 legacy) (y_new Y) of
                              None \<Rightarrow> False | Some probe \<Rightarrow> adoptLegacy (y_messages Y probe));
                   s = (if adopt then kv_set S (storage_key scope roomId) legacy s else s)
               in (if adopt then Some legacy else None, kv_remove S legacyKey s))"

definition load_read ::
  "'d yjs \<Rightarrow> 's kv_ops \<Rightarrow> (message list \<Rightarrow> bool) \<Rightarrow> ('d, 's) persistence \<Rightarrow> ('d, 's) persistence" where
  "load_read Y S adoptLegacy p =
     (if ps_loaded p then p
      else let raw = kv_get S (ps_key p) (ps_store p)
           in if raw = None \<and> ps_scope p \<noteq> []
              then (case migrate_legacy Y S adoptLegacy (ps_scope p) (ps_roomId p) (ps_store p) of
                      (raw, s) \<Rightarrow> p\<lparr>ps_store := s, ps_loading := Some raw\<rparr>)
              else p\<lparr>ps_loading := Some raw\<rparr>)"

text \<open>The rest of \<open>load\<close>; \<open>None\<close> when \<open>Y.applyUpdate\<close> throws and the promise is rejected.\<close>

definition load_finish :: "'d yjs \<Rightarrow> jstr option \<Rightarrow> ('d, 's) persistence \<Rightarrow> ('d, 's) persistence option" where
  "load_finish Y raw p =
     (let p = p\<lparr>ps_loading := None\<rparr>
      in if ps_destroyed p then Some p
         else map_option (\<lambda>d. p\<lparr>ps_doc := d, ps_subscribed := True, ps_loaded := True\<rparr>)
           (case raw of
              None \<Rightarrow> Some (ps_doc p)
            | Some r \<Rightarrow> if r = [] then Some (ps_doc p) else y_apply Y (base64_to_uint8 r) (ps_doc p)))"

text \<open>The document changes; a registered handler (re)arms the debounce timer.\<close>

definition doc_changed :: "'d \<Rightarrow> ('d, 's) persistence \<Rightarrow> ('d, 's) persistence" where
  "doc_changed d p = p\<lparr>ps_doc := d, ps_timer := ps_timer p \<or> ps_subscribed p\<rparr>"

definition persist :: "'d yjs \<Rightarrow> ('d, 's) persistence \<Rightarrow> ('d, 's) persistence" where
  "persist Y p =
     (if ps_destroyed p then p
      else p\<lparr>ps_writes := ps_writes p @ [uint8_to_base64 (y_encode Y (ps_doc p))]\<rparr>)"

definition timer_fires :: "'d yjs \<Rightarrow> ('d, 's) persistence \<Rightarrow> ('d, 's) persistence" where
  "timer_fires Y p = persist Y (p\<lparr>ps_timer := False\<rparr>)"

text \<open>The oldest write in flight settles; a failed one is dropped.\<close>

definition write_settles :: "'s kv_ops \<Rightarrow> bool \<Rightarrow> ('d, 's) persistence \<Rightarrow> ('d, 's) persistence" where
  "write_settles S ok p = (case ps_writes p of
     [] \<Rightarrow> p
   | v # vs \<Rightarrow> p\<lparr>ps_writes := vs, ps_store := (if ok then kv_set S (ps_key p) v (ps_store p) else ps_store p)\<rparr>)"

definition ps_destroy :: "'d yjs \<Rightarrow> ('d, 's) persistence \<Rightarrow> ('d, 's) persistence" where
  "ps_destroy Y p =
     (let p = p\<lparr>ps_subscribed := False\<rparr>;
          p = (if ps_timer p then persist Y (p\<lparr>ps_timer := False\<rparr>) else p)
      in p\<lparr>ps_destroyed := True\<rparr>)"

definition ps_discard :: "('d, 's) persistence \<Rightarrow> ('d, 's) persistence" where
  "ps_discard p = p\<lparr>ps_subscribed := False, ps_timer := False, ps_destroyed := True, ps_discarding := True\<rparr>"

text \<open>\<open>discard\<close> after its await.\<close>

definition discard_removes :: "'s kv_ops \<Rightarrow> ('d, 's) persistence \<Rightarrow> ('d, 's) persistence" where
  "discard_removes S p = p\<lparr>ps_store := kv_remove S (ps_key p) (ps_store p), ps_discarding := False\<rparr>"

section \<open>Steps\<close>

datatype 'd ps_event =
    PsLoadRead
  | PsLoadFinish
  | PsEdit 'd
  | PsTimer
  | PsWrite bool
  | PsDestroy
  | PsDiscard
  | PsRemove

definition ps_step ::
  "'d yjs \<Rightarrow> 's kv_ops \<Rightarrow> (message list \<Rightarrow> bool) \<Rightarrow> 'd ps_event \<Rightarrow> ('d, 's) persistence \<Rightarrow> ('d, 's) persistence option" where
  "ps_step Y S adoptLegacy e p = (case e of
     PsLoadRead \<Rightarrow> Some (load_read Y S adoptLegacy p)
   | PsLoadFinish \<Rightarrow> (case ps_loading p of None \<Rightarrow> None | Some raw \<Rightarrow> load_finish Y raw p)
   | PsEdit d \<Rightarrow> Some (doc_changed d p)
   | PsTimer \<Rightarrow> if ps_timer p then Some (timer_fires Y p) else None
   | PsWrite ok \<Rightarrow> if ps_writes p \<noteq> [] then Some (write_settles S ok p) else None
   | PsDestroy \<Rightarrow> Some (ps_destroy Y p)
   | PsDiscard \<Rightarrow> Some (ps_discard p)
   | PsRemove \<Rightarrow> if ps_discarding p \<and> ps_writes p = [] then Some (discard_removes S p) else None)"

fun ps_run ::
  "'d yjs \<Rightarrow> 's kv_ops \<Rightarrow> (message list \<Rightarrow> bool) \<Rightarrow> 'd ps_event list \<Rightarrow> ('d, 's) persistence \<Rightarrow> ('d, 's) persistence option" where
  "ps_run Y S adoptLegacy [] p = Some p"
| "ps_run Y S adoptLegacy (e # es) p =
     (case ps_step Y S adoptLegacy e p of None \<Rightarrow> None | Some q \<Rightarrow> ps_run Y S adoptLegacy es q)"

section \<open>Lemmas\<close>

lemma storage_key_legacy: "scope \<noteq> [] \<Longrightarrow> storage_key scope r \<noteq> storage_key [] r"
proof
  assume "scope \<noteq> []" "storage_key scope r = storage_key [] r"
  then have "length (storage_key scope r) = length (storage_key [] r)" by simp
  with \<open>scope \<noteq> []\<close> show False by (simp add: storage_key_def js_def)
qed

lemma append_sep_eq:
  assumes "c \<notin> set a" and "c \<notin> set b"
  shows "a @ c # x = b @ c # y \<longleftrightarrow> a = b \<and> x = y"
  using assms
proof (induction a arbitrary: b)
  case Nil
  then show ?case by (cases b) auto
next
  case (Cons z a)
  then show ?case by (cases b) auto
qed

lemma storage_key_eq:
  assumes "58 \<notin> set s" and "58 \<notin> set t" and "s \<noteq> []" and "t \<noteq> []"
  shows "storage_key s r = storage_key t q \<longleftrightarrow> s = t \<and> r = q"
  using append_sep_eq[OF assms(1,2), of r q] assms(3,4) by (simp add: storage_key_def js_def)

lemma storage_key_not_legacy:
  assumes "t \<noteq> []" and "58 \<notin> set r"
  shows "storage_key t q \<noteq> storage_key [] r"
proof
  assume "storage_key t q = storage_key [] r"
  then have "t @ js '':'' @ q = r"
    using assms(1) by (simp add: storage_key_def)
  then have "58 \<in> set r"
    by (auto simp: js_def)
  with assms(2) show False by simp
qed

lemmas ps_op_defs = load_read_def load_finish_def doc_changed_def persist_def timer_fires_def write_settles_def
  ps_destroy_def ps_discard_def discard_removes_def

lemma ps_step_identity:
  assumes "ps_step Y S adopt e p = Some q"
  shows "ps_scope q = ps_scope p \<and> ps_roomId q = ps_roomId p"
  using assms
  by (cases e) (auto simp: ps_step_def ps_op_defs Let_def split: if_splits option.splits list.splits prod.splits)

lemma ps_run_identity:
  "ps_run Y S adopt es p = Some q \<Longrightarrow> ps_scope q = ps_scope p \<and> ps_roomId q = ps_roomId p"
proof (induction es arbitrary: p)
  case (Cons e es)
  then show ?case using ps_step_identity by (fastforce split: option.splits)
qed simp

lemma ps_run_append:
  "ps_run Y S adopt (es @ fs) p = Option.bind (ps_run Y S adopt es p) (ps_run Y S adopt fs)"
  by (induction es arbitrary: p) (simp_all split: option.split)

context kv_store
begin

lemma migrate_frame:
  assumes "k \<noteq> storage_key scope r" and "k \<noteq> storage_key [] r"
  shows "kv_get S k (snd (migrate_legacy Y S adopt scope r s)) = kv_get S k s"
  using assms by (simp add: migrate_legacy_def Let_def get_set get_remove split: option.split)

lemma step_frame:
  assumes "ps_step Y S adopt e p = Some q" and "k \<noteq> ps_key p" and "k \<noteq> storage_key [] (ps_roomId p)"
  shows "kv_get S k (ps_store q) = kv_get S k (ps_store p)"
  using assms migrate_frame[of k "ps_scope p" "ps_roomId p" Y adopt "ps_store p"]
  by (cases e) (auto simp: ps_step_def ps_op_defs ps_key_def Let_def get_set get_remove
      split: if_splits option.splits list.splits prod.splits)

lemma run_frame:
  assumes "ps_run Y S adopt es p = Some q" and "k \<noteq> ps_key p" and "k \<noteq> storage_key [] (ps_roomId p)"
  shows "kv_get S k (ps_store q) = kv_get S k (ps_store p)"
  using assms
proof (induction es arbitrary: p)
  case (Cons e es)
  then obtain p' where p': "ps_step Y S adopt e p = Some p'" "ps_run Y S adopt es p' = Some q"
    by (auto split: option.splits)
  with Cons.IH[OF p'(2)] ps_step_identity[OF p'(1)] step_frame[OF p'(1) Cons.prems(2,3)] Cons.prems
  show ?case by (simp add: ps_key_def)
qed simp


end

text \<open>What a stored value gives back to a fresh document.\<close>

definition restores :: "'d yjs \<Rightarrow> jstr option \<Rightarrow> 'd \<Rightarrow> bool" where
  "restores Y v d \<longleftrightarrow> (case v of
     None \<Rightarrow> y_messages Y d = []
   | Some r \<Rightarrow> if r = [] then y_messages Y d = []
       else (\<exists>f. y_apply Y (base64_to_uint8 r) (y_new Y) = Some f \<and> y_messages Y f = y_messages Y d))"

definition latest :: "'s kv_ops \<Rightarrow> ('d, 's) persistence \<Rightarrow> jstr option" where
  "latest S p = (if ps_writes p = [] then kv_get S (ps_key p) (ps_store p) else Some (last (ps_writes p)))"

definition migrated :: "'s kv_ops \<Rightarrow> ('d, 's) persistence \<Rightarrow> bool" where
  "migrated S p \<longleftrightarrow> ps_scope p = [] \<or> kv_get S (ps_key p) (ps_store p) \<noteq> None
     \<or> kv_get S (storage_key [] (ps_roomId p)) (ps_store p) \<in> {None, Some []}"

text \<open>The outcomes of the writes that settled, in order, and whether the latest of them, if any, succeeded.\<close>

fun outcomes :: "'d ps_event list \<Rightarrow> bool list" where
  "outcomes [] = []"
| "outcomes (PsWrite ok # es) = ok # outcomes es"
| "outcomes (e # es) = outcomes es"

lemma outcomes_append [simp]: "outcomes (es @ fs) = outcomes es @ outcomes fs"
  by (induction es rule: outcomes.induct) simp_all

lemma outcomes_Cons: "outcomes (e # es) = outcomes [e] @ outcomes es"
  by (cases e) simp_all

lemma outcomes_writes [simp]: "outcomes (map PsWrite oks) = oks"
  by (induction oks) simp_all

definition last_ok :: "bool list \<Rightarrow> bool" where
  "last_ok os \<longleftrightarrow> os = [] \<or> last os"

text \<open>
  A loaded persistence; and its document is saved: what was written last gives it back, unless the timer
  is still to save it, or no write is left in flight and the last one failed.
\<close>

definition watching :: "('d, 's) persistence \<Rightarrow> bool" where
  "watching p \<longleftrightarrow> ps_loaded p \<and> ps_subscribed p \<and> \<not> ps_destroyed p \<and> \<not> ps_discarding p \<and> ps_loading p = None"

definition kept_on_device :: "'d yjs \<Rightarrow> 's kv_ops \<Rightarrow> bool list \<Rightarrow> ('d, 's) persistence \<Rightarrow> bool" where
  "kept_on_device Y S os p \<longleftrightarrow> migrated S p
     \<and> (ps_timer p \<or> ps_writes p = [] \<and> \<not> last_ok os \<or> restores Y (latest S p) (ps_doc p))"

text \<open>What happens between the load and leaving the room.\<close>

fun in_room :: "'d ps_event \<Rightarrow> bool" where
  "in_room PsDestroy = False"
| "in_room PsDiscard = False"
| "in_room _ = True"

text \<open>The state of any document applies to a fresh one and is never the empty byte string.\<close>

definition encode_laws :: "'d yjs \<Rightarrow> bool" where
  "encode_laws Y \<longleftrightarrow> state_laws Y \<and> (\<forall>d. y_encode Y d \<noteq> [])"

lemma base64_nonempty: "bs \<noteq> [] \<Longrightarrow> uint8_to_base64 bs \<noteq> []"
  using uint8_base64_roundtrip[of bs] by (auto simp: base64_to_uint8_def poly_atob_def)

lemma encoded_restores: "encode_laws Y \<Longrightarrow> restores Y (Some (uint8_to_base64 (y_encode Y d))) d"
  using base64_nonempty[of "y_encode Y d"]
  by (auto simp: encode_laws_def state_laws_def restores_def)

context kv_store
begin

lemma kept_on_device_write:
  assumes "kept_on_device Y S os p" and "ps_step Y S adopt (PsWrite ok) p = Some q"
  shows "kept_on_device Y S (os @ [ok]) q \<and> ps_timer q = ps_timer p \<and> ps_doc q = ps_doc p \<and> (watching p \<longrightarrow> watching q)"
proof -
  obtain v vs where vs: "ps_writes p = v # vs"
    using assms(2) by (cases "ps_writes p") (auto simp: ps_step_def)
  then have q: "q = p\<lparr>ps_writes := vs, ps_store := (if ok then kv_set S (ps_key p) v (ps_store p) else ps_store p)\<rparr>"
    using assms(2) by (simp add: ps_step_def write_settles_def)
  have "latest S q = latest S p" if "vs \<noteq> [] \<or> ok"
    using that vs by (auto simp: q latest_def ps_key_def get_set)
  moreover have "migrated S q"
    using assms(1) vs by (auto simp: q kept_on_device_def migrated_def ps_key_def get_set)
  ultimately show ?thesis
    using assms(1) vs by (cases "vs = []") (auto simp: q kept_on_device_def last_ok_def watching_def)
qed

lemma kept_on_device_step:
  assumes "encode_laws Y" and "watching p" and "kept_on_device Y S os p" and "in_room e" and "ps_step Y S adopt e p = Some q"
  shows "watching q \<and> kept_on_device Y S (os @ outcomes [e]) q"
proof (cases e)
  case (PsWrite ok)
  with kept_on_device_write[OF assms(3), of adopt ok q] assms(2,5) show ?thesis by simp
next
  case PsTimer
  with assms(2,5) have "q = p\<lparr>ps_timer := False, ps_writes := ps_writes p @ [uint8_to_base64 (y_encode Y (ps_doc p))]\<rparr>"
    by (auto simp: ps_step_def ps_op_defs watching_def split: if_splits)
  with assms(2,3) encoded_restores[OF assms(1), of "ps_doc p"] PsTimer show ?thesis
    by (simp add: kept_on_device_def watching_def latest_def migrated_def ps_key_def)
next
  case (PsEdit d)
  with assms(2,3,5) show ?thesis
    by (auto simp: ps_step_def ps_op_defs kept_on_device_def watching_def migrated_def ps_key_def)
qed (use assms in \<open>auto simp: ps_step_def ps_op_defs watching_def split: if_splits\<close>)

lemma kept_on_device_run:
  assumes "encode_laws Y" and "watching p" and "kept_on_device Y S os p" and "list_all in_room es" and "ps_run Y S adopt es p = Some q"
  shows "watching q \<and> kept_on_device Y S (os @ outcomes es) q"
  using assms(2-5)
proof (induction es arbitrary: p os)
  case (Cons e es)
  then obtain p' where p': "ps_step Y S adopt e p = Some p'" "ps_run Y S adopt es p' = Some q"
    by (auto split: option.splits)
  have "watching p' \<and> kept_on_device Y S (os @ outcomes [e]) p'"
    using kept_on_device_step[OF assms(1) Cons.prems(1,2) _ p'(1)] Cons.prems(3) by simp
  then show ?case
    using Cons.IH[of p' "os @ outcomes [e]"] Cons.prems(3) p'(2) by (simp add: outcomes_Cons[of e es])
qed simp

text \<open>\<open>destroy\<close> saves what the timer had left to save.\<close>

lemma kept_on_device_destroy:
  assumes "encode_laws Y" and "watching p" and "kept_on_device Y S os p"
  shows "kept_on_device Y S os (ps_destroy Y p) \<and> \<not> ps_timer (ps_destroy Y p) \<and> ps_doc (ps_destroy Y p) = ps_doc p"
  using assms(2,3) encoded_restores[OF assms(1), of "ps_doc p"]
  by (auto simp: ps_destroy_def persist_def kept_on_device_def watching_def latest_def migrated_def ps_key_def Let_def)

lemma kept_on_device_settle:
  assumes "ps_run Y S adopt (map PsWrite oks) p = Some q" and "kept_on_device Y S os p"
  shows "kept_on_device Y S (os @ oks) q \<and> ps_timer q = ps_timer p \<and> ps_doc q = ps_doc p"
  using assms
proof (induction oks arbitrary: p os)
  case (Cons ok oks)
  then obtain p' where p': "ps_step Y S adopt (PsWrite ok) p = Some p'" "ps_run Y S adopt (map PsWrite oks) p' = Some q"
    by (auto split: option.splits)
  from kept_on_device_write[OF Cons.prems(2) p'(1)] Cons.IH[OF p'(2), of "os @ [ok]"] show ?case by simp
qed simp

lemma migrate_result:
  assumes "scope \<noteq> []" and "migrate_legacy Y S adopt scope r s = (raw, s')" and "kv_get S (storage_key scope r) s = None"
  shows "kv_get S (storage_key scope r) s' = raw" and "kv_get S (storage_key [] r) s' \<in> {None, Some []}"
    and "raw \<noteq> None \<Longrightarrow> \<exists>d. y_apply Y (base64_to_uint8 (the raw)) (y_new Y) = Some d \<and> adopt (y_messages Y d)"
  using assms(2,3) storage_key_legacy[OF assms(1), of r]
  by (auto simp: migrate_legacy_def Let_def get_set get_remove split: option.splits if_splits)

lemma load_fresh:
  assumes "encode_laws Y"
    and "ps_run Y S adopt [PsLoadRead, PsLoadFinish] (new_persistence scope r (y_new Y) s) = Some p"
  shows "watching p \<and> kept_on_device Y S [] p \<and> ps_scope p = scope \<and> ps_roomId p = r \<and> ps_writes p = []"
proof -
  let ?p = "load_read Y S adopt (new_persistence scope r (y_new Y) s)"
  from assms(2) obtain raw where raw: "ps_loading ?p = Some raw" "load_finish Y raw ?p = Some p"
    by (auto simp: ps_step_def split: option.splits)
  have fields: "ps_doc ?p = y_new Y" "ps_scope ?p = scope" "ps_roomId ?p = r" "ps_writes ?p = []"
    "\<not> ps_destroyed ?p" "\<not> ps_discarding ?p"
    by (auto simp: load_read_def new_persistence_def Let_def split: prod.split)
  have "kv_get S (storage_key scope r) (ps_store ?p) = raw \<and> (scope = [] \<or> raw \<noteq> None
      \<or> kv_get S (storage_key [] r) (ps_store ?p) \<in> {None, Some []})"
    using raw(1) migrate_result(1,2)[of scope Y adopt r s]
    by (cases "migrate_legacy Y S adopt scope r s")
      (auto simp: load_read_def new_persistence_def ps_key_def Let_def split: if_splits)
  moreover have "restores Y raw (ps_doc p)"
    using raw(2) fields assms(1)
    by (auto simp: encode_laws_def state_laws_def load_finish_def restores_def Let_def split: option.splits if_splits)
  ultimately show ?thesis
    using raw(2) fields
    by (auto simp: load_finish_def watching_def kept_on_device_def latest_def migrated_def ps_key_def Let_def split: option.splits)
qed

lemma reload:
  assumes "encode_laws Y" and "restores Y (kv_get S (storage_key scope r) s) d"
    and "scope = [] \<or> kv_get S (storage_key scope r) s \<noteq> None \<or> kv_get S (storage_key [] r) s \<in> {None, Some []}"
  shows "case ps_run Y S adopt [PsLoadRead, PsLoadFinish] (new_persistence scope r (y_new Y) s) of
    None \<Rightarrow> False | Some t \<Rightarrow> y_messages Y (ps_doc t) = y_messages Y d"
proof (cases "kv_get S (storage_key scope r) s")
  case None
  have "y_messages Y (y_new Y) = []"
    using assms(1) by (simp add: encode_laws_def state_laws_def)
  with None assms(2,3) show ?thesis
    by (auto simp: ps_step_def load_read_def load_finish_def new_persistence_def ps_key_def Let_def restores_def
        migrate_legacy_def)
next
  case (Some v)
  with assms(1,2) show ?thesis
    by (auto simp: ps_step_def load_read_def load_finish_def new_persistence_def ps_key_def Let_def restores_def
        encode_laws_def state_laws_def split: if_splits)
qed

lemma destroy_then_reload:
  assumes "encode_laws Y" and "list_all in_room es"
    and "ps_run Y S adopt (PsLoadRead # PsLoadFinish # es @ PsDestroy # map PsWrite oks)
      (new_persistence scope r (y_new Y) s) = Some q" and "ps_writes q = []" and "last_ok (outcomes es @ oks)"
  shows "case ps_run Y S adopt [PsLoadRead, PsLoadFinish] (new_persistence scope r (y_new Y) (ps_store q)) of
    None \<Rightarrow> False | Some t \<Rightarrow> y_messages Y (ps_doc t) = y_messages Y (ps_doc q)"
proof -
  have run: "ps_run Y S adopt ([PsLoadRead, PsLoadFinish] @ es @ [PsDestroy] @ map PsWrite oks)
      (new_persistence scope r (y_new Y) s) = Some q"
    using assms(3) by simp
  then obtain p1 p2 where p: "ps_run Y S adopt [PsLoadRead, PsLoadFinish] (new_persistence scope r (y_new Y) s) = Some p1"
    "ps_run Y S adopt es p1 = Some p2" "ps_run Y S adopt (map PsWrite oks) (ps_destroy Y p2) = Some q"
    unfolding ps_run_append by (auto simp: bind_eq_Some_conv ps_step_def)
  have "watching p2" "kept_on_device Y S (outcomes es) p2"
    using load_fresh[OF assms(1) p(1)] kept_on_device_run[OF assms(1) _ _ assms(2) p(2), of "[]"] by simp_all
  note d = kept_on_device_destroy[OF assms(1) this]
  have "kept_on_device Y S (outcomes es @ oks) q" "\<not> ps_timer q"
    using kept_on_device_settle[OF p(3), of "outcomes es"] d by simp_all
  then have "restores Y (kv_get S (ps_key q) (ps_store q)) (ps_doc q)" "migrated S q"
    using assms(4,5) by (simp_all add: kept_on_device_def latest_def)
  moreover have "ps_scope q = scope" "ps_roomId q = r"
    using ps_run_identity[OF run] by (simp_all add: new_persistence_def)
  ultimately show ?thesis
    using reload[OF assms(1), of scope r "ps_store q" "ps_doc q" adopt] by (auto simp: ps_key_def migrated_def)
qed

end


text \<open>After \<open>discard\<close>: nothing more is written once what was in flight has settled.\<close>

definition discarded :: "'s kv_ops \<Rightarrow> ('d, 's) persistence \<Rightarrow> bool" where
  "discarded S p \<longleftrightarrow> ps_loaded p \<and> ps_destroyed p \<and> \<not> ps_timer p \<and> \<not> ps_subscribed p \<and> ps_loading p = None
     \<and> (ps_discarding p \<or> (ps_writes p = [] \<and> kv_get S (ps_key p) (ps_store p) = None))"

context kv_store
begin

lemma discarded_step:
  assumes "discarded S p" and "ps_step Y S adopt e p = Some q"
  shows "discarded S q"
  using assms by (cases e) (auto simp: ps_step_def ps_op_defs discarded_def ps_key_def get_remove Let_def
      split: if_splits list.splits)

lemma discarded_run:
  "discarded S p \<Longrightarrow> ps_run Y S adopt es p = Some q \<Longrightarrow> discarded S q"
proof (induction es arbitrary: p)
  case (Cons e es)
  then show ?case using discarded_step by (fastforce split: option.splits)
qed simp

end

section \<open>Properties\<close>

text \<open>C24. Leaving a room saves it, as long as the last write succeeds. Whatever was edited since \<open>load\<close>,
  however the debounce timer and the writes fell and whichever earlier writes failed: once \<open>destroy\<close> has
  run and its writes have settled, the last of all writes with success or without there having been any,
  loading the room again into a fresh document shows the messages of the one that was left.\<close>

theorem destroy_flushes_everything:
  assumes "encode_laws Y" and "list_all in_room es"
    and "ps_run Y sqlite_storage adopt (PsLoadRead # PsLoadFinish # es @ PsDestroy # map PsWrite oks)
      (new_persistence scope roomId (y_new Y) s) = Some q" and "ps_writes q = []"
    and "last_ok (outcomes es @ oks)"
  shows "case ps_run Y sqlite_storage adopt [PsLoadRead, PsLoadFinish]
      (new_persistence scope roomId (y_new Y) (ps_store q)) of
    None \<Rightarrow> False | Some t \<Rightarrow> y_messages Y (ps_doc t) = y_messages Y (ps_doc q)"
  using sqlite.destroy_then_reload[OF assms] .

text \<open>Accounts on one device never share a local document: whatever one account's persistence
  does, the stored value of every other account's document, and of every other room of the same
  account, stays what it was.\<close>

theorem local_documents_are_isolated:
  assumes "ps_run Y sqlite_storage adopt es p = Some q" and "ps_scope p \<noteq> []" and "58 \<notin> set (ps_scope p)"
    and "58 \<notin> set (ps_roomId p)" and "scope \<noteq> []" and "58 \<notin> set scope"
    and "(scope, roomId) \<noteq> (ps_scope p, ps_roomId p)"
  shows "sqlite_get (storage_key scope roomId) (ps_store q) = sqlite_get (storage_key scope roomId) (ps_store p)"
  using sqlite.run_frame[OF assms(1), of "storage_key scope roomId"] storage_key_not_legacy[OF assms(5,4), of roomId]
    storage_key_eq[OF assms(6,3,5,2), of roomId "ps_roomId p"] assms(7)
  by (auto simp: ps_key_def sqlite_storage_def)

text \<open>The document from before accounts were separated is decided on once: it is adopted only when
  every message in it is the account's own or encrypted, it is stored under the account's key as it
  was, and in either case nothing of it is left under the shared key for the next account.\<close>

theorem legacy_document_decided_once:
  assumes "scope \<noteq> []" and "kv_get sqlite_storage (storage_key scope roomId) s = None"
    and "migrate_legacy Y sqlite_storage (should_adopt_legacy_doc me) scope roomId s = (raw, s')"
  shows "sqlite_get (storage_key [] roomId) s' \<in> {None, Some []}
    \<and> sqlite_get (storage_key scope roomId) s' = raw
    \<and> (case raw of None \<Rightarrow> True
       | Some v \<Rightarrow> (\<exists>d. y_apply Y (base64_to_uint8 v) (y_new Y) = Some d
           \<and> (\<forall>m \<in> set (y_messages Y d). m_userId m \<noteq> me \<longrightarrow> starts_with (m_content m) e2ee_prefix)))"
  using sqlite.migrate_result[OF assms(1,3,2)]
  by (auto 0 4 simp: sqlite_storage_def should_adopt_legacy_doc_def list_all_iff split: option.split)

text \<open>C33. A discarded document stays discarded: once \<open>discard\<close> has run on a loaded room, in whatever
  state its timer and writes were, no later event writes it back, and when \<open>discard\<close> has finished
  its row is gone.\<close>

theorem discard_is_final:
  assumes "ps_loaded p" and "ps_loading p = None"
    and "ps_run Y sqlite_storage adopt (PsDiscard # es) p = Some q"
  shows "ps_discarding q \<or> (ps_writes q = [] \<and> sqlite_get (ps_key q) (ps_store q) = None)"
proof -
  have "discarded sqlite_storage (ps_discard p)"
    using assms(1,2) by (simp add: discarded_def ps_discard_def)
  moreover have "ps_run Y sqlite_storage adopt es (ps_discard p) = Some q"
    using assms(3) by (simp add: ps_step_def)
  ultimately have "discarded sqlite_storage q"
    by (rule sqlite.discarded_run)
  then show ?thesis by (simp add: discarded_def sqlite_storage_def)
qed

section \<open>Witnesses\<close>

text \<open>A document that is the set of the bytes added to it, each a message.\<close>

definition byte_message :: "8 word \<Rightarrow> message" where
  "byte_message b = \<lparr>m_id = [ucast b], m_roomId = [], m_userId = js ''u'', m_username = [], m_content = [], m_createdAt = 0\<rparr>"

definition set_yjs :: "bytes yjs" where
  "set_yjs = \<lparr>y_new = [], y_apply = (\<lambda>u d. Some (fold set_add (tl u) d)),
     y_delta = (\<lambda>d d'. if d = d' then None else Some d'),
     y_encode = (\<lambda>d. 0 # d), y_state_vector = (\<lambda>_. []), y_diff = (\<lambda>d _. d),
     y_messages = (\<lambda>d. map byte_message (fold set_add d [])), y_push = (\<lambda>_ d. d), y_delete = (\<lambda>_ d. d)\<rparr>"

lemma fold_set_add_absorb: "set ys \<subseteq> set xs \<Longrightarrow> fold set_add ys xs = xs"
  by (induction ys) (simp_all add: set_add_def)

lemma fold_set_add_distinct: "distinct (xs @ ys) \<Longrightarrow> fold set_add ys xs = xs @ ys"
proof (induction ys arbitrary: xs)
  case (Cons y ys)
  then have "set_add y xs = xs @ [y]" by (simp add: set_add_def)
  with Cons.IH[of "xs @ [y]"] Cons.prems show ?case by simp
qed simp

lemma set_yjs_laws: "encode_laws set_yjs"
proof -
  have "distinct (fold set_add d [])" for d :: bytes
    by (rule distinct_fold_set_add) simp
  then have "fold set_add (fold set_add d []) [] = fold set_add d []" for d :: bytes
    by (subst fold_set_add_distinct) simp_all
  then show ?thesis
    by (auto simp: encode_laws_def state_laws_def set_yjs_def fold_set_add_absorb fold_set_add)
qed

text \<open>The first write fails; the next one, which \<open>destroy\<close> makes, succeeds.\<close>

definition sample_room_events :: "bytes ps_event list" where
  "sample_room_events = [PsEdit [7], PsTimer, PsWrite False, PsEdit [7, 8]]"

lemma destroy_flushes_everything_witness:
  "case ps_run set_yjs sqlite_storage (\<lambda>_. False)
      (PsLoadRead # PsLoadFinish # sample_room_events @ PsDestroy # map PsWrite [True])
      (new_persistence (js ''u'') (js ''team'') (y_new set_yjs) []) of None \<Rightarrow> False
    | Some q \<Rightarrow> (case ps_run set_yjs sqlite_storage (\<lambda>_. False) [PsLoadRead, PsLoadFinish]
          (new_persistence (js ''u'') (js ''team'') (y_new set_yjs) (ps_store q)) of None \<Rightarrow> False
        | Some t \<Rightarrow> y_messages set_yjs (ps_doc t) = map byte_message [7, 8])"
proof -
  let ?run = "ps_run set_yjs sqlite_storage (\<lambda>_. False)
      (PsLoadRead # PsLoadFinish # sample_room_events @ PsDestroy # map PsWrite [True])
      (new_persistence (js ''u'') (js ''team'') (y_new set_yjs) [])"
  have "case ?run of None \<Rightarrow> False | Some q \<Rightarrow> ps_writes q = [] \<and> ps_doc q = [7, 8]"
    by code_simp
  then obtain q where q: "?run = Some q" "ps_writes q = []" "ps_doc q = [7, 8]"
    by (auto split: option.splits)
  have ev: "y_messages set_yjs [7, 8] = map byte_message [7, 8]" "list_all in_room sample_room_events"
    "last_ok (outcomes sample_room_events @ [True])"
    by code_simp+
  from destroy_flushes_everything[OF set_yjs_laws ev(2) q(1,2) ev(3)] q ev(1) show ?thesis
    by (simp del: ps_run.simps split: option.splits)
qed

text \<open>
  A failed write is not made again: \<open>persist\<close> leaves it to the next write, and without a further edit
  neither the timer nor \<open>destroy\<close> makes one, so the edit is missing on the device.
\<close>

theorem failed_last_write_is_lost:
  "case ps_run set_yjs sqlite_storage (\<lambda>_. False)
      [PsLoadRead, PsLoadFinish, PsEdit [7], PsTimer, PsWrite False, PsDestroy]
      (new_persistence (js ''u'') (js ''team'') (y_new set_yjs) []) of None \<Rightarrow> False
    | Some q \<Rightarrow> ps_doc q = [7] \<and> ps_writes q = [] \<and> ps_store q = []"
  by code_simp

lemma local_documents_are_isolated_witness:
  "case ps_run set_yjs sqlite_storage (\<lambda>_. False) [PsLoadRead, PsLoadFinish, PsEdit [7], PsTimer, PsWrite True]
      (new_persistence (js ''u'') (js ''team'') (y_new set_yjs) []) of None \<Rightarrow> False
    | Some q \<Rightarrow> sqlite_get (storage_key (js ''v'') (js ''team'')) (ps_store q) = None"
proof -
  let ?p = "new_persistence (js ''u'') (js ''team'') (y_new set_yjs) ([] :: kv_row list)"
  have "ps_run set_yjs sqlite_storage (\<lambda>_. False) [PsLoadRead, PsLoadFinish, PsEdit [7], PsTimer, PsWrite True] ?p \<noteq> None"
    by code_simp
  then obtain q where q: "ps_run set_yjs sqlite_storage (\<lambda>_. False)
      [PsLoadRead, PsLoadFinish, PsEdit [7], PsTimer, PsWrite True] ?p = Some q"
    by blast
  from local_documents_are_isolated[OF q, of "js ''v''" "js ''team''"] q show ?thesis
    by (simp add: new_persistence_def js_def)
qed

lemma legacy_document_decided_once_witness:
  "sqlite_get (storage_key [] (js ''team'')) (snd (migrate_legacy set_yjs sqlite_storage
     (should_adopt_legacy_doc (js ''v'')) (js ''v'') (js ''team'')
     [\<lparr>kr_key = storage_key [] (js ''team''), kr_value = uint8_to_base64 [0, 7]\<rparr>])) \<in> {None, Some []}"
  by (rule conjunct1[OF legacy_document_decided_once[OF _ _ prod.collapse[symmetric]]])
    (simp_all add: sqlite_storage_def storage_key_def js_def)

lemma discard_is_final_witness:
  "case ps_run set_yjs sqlite_storage (\<lambda>_. False) [PsDiscard, PsWrite True, PsRemove]
      ((new_persistence (js ''u'') (js ''team'') [7] ([] :: kv_row list))\<lparr>ps_loaded := True, ps_writes := [js ''AAc='']\<rparr>)
    of None \<Rightarrow> False | Some q \<Rightarrow> \<not> ps_discarding q \<and> sqlite_get (ps_key q) (ps_store q) = None"
proof -
  let ?p = "(new_persistence (js ''u'') (js ''team'') [7] ([] :: kv_row list))\<lparr>ps_loaded := True, ps_writes := [js ''AAc='']\<rparr>"
  have "case ps_run set_yjs sqlite_storage (\<lambda>_. False) [PsDiscard, PsWrite True, PsRemove] ?p of
      None \<Rightarrow> False | Some q \<Rightarrow> \<not> ps_discarding q"
    by code_simp
  then obtain q where q: "ps_run set_yjs sqlite_storage (\<lambda>_. False) [PsDiscard, PsWrite True, PsRemove] ?p = Some q"
    "\<not> ps_discarding q"
    by (auto split: option.splits)
  from discard_is_final[OF _ _ q(1)] q show ?thesis
    by (simp add: new_persistence_def)
qed

end
