(* ===== verification/Key_Flows.thy ===== *)
theory Key_Flows
  imports Content_Cipher Key_Store Room_Keys Http
begin

text \<open>
  \<open>crypto/keyFlows.ts\<close> and \<open>crypto/publicKeyFp.ts\<close>: publishing the identity, serving pending grants,
  loading one's own and minting a room key. The server is a record of requests on a state \<open>'w\<close> that
  may change between any two of them; libsodium is the parameter \<open>N\<close> and its randomness an input.
\<close>

section \<open>The server as the app sees it\<close>

record 'w key_api =
  ka_put_public_key :: "jstr \<Rightarrow> 'w \<Rightarrow> unit http \<times> 'w"
  ka_pending :: "jstr \<Rightarrow> 'w \<Rightarrow> pending_grant list http \<times> 'w"
  ka_my_grants :: "jstr \<Rightarrow> 'w \<Rightarrow> grant_row list http \<times> 'w"
  ka_members :: "jstr \<Rightarrow> 'w \<Rightarrow> (jstr \<times> jstr) list http \<times> 'w"
  ka_upload :: "jstr \<Rightarrow> nat option \<Rightarrow> grant_item list \<Rightarrow> 'w \<Rightarrow> nat http \<times> 'w"

definition compute_public_key_fp :: "sodium \<Rightarrow> jstr \<Rightarrow> jstr" where
  "compute_public_key_fp N publicKeyBase64 = sd_generichash N publicKeyBase64"

section \<open>Publishing the identity\<close>

definition ensure_identity_published ::
  "sodium \<Rightarrow> 's kv_ops \<Rightarrow> 'w key_api \<Rightarrow> bytes \<Rightarrow> 's \<Rightarrow> 'w \<Rightarrow> (flow_error + unit) \<times> 's \<times> 'w" where
  "ensure_identity_published N K A seed s w = (case get_identity K s of
     Inl _ \<Rightarrow> (Inl IdentityUnreadable, s, w)
   | Inr (Some _) \<Rightarrow> (Inr (), s, w)
   | Inr None \<Rightarrow>
       (case sd_box_keypair N seed of (pk, sk) \<Rightarrow>
         (case ka_put_public_key A (sd_to_base64 N pk) w of (res, w') \<Rightarrow>
           (case auth_fetch res of
              Inl e \<Rightarrow> (Inl e, s, w')
            | Inr _ \<Rightarrow> (Inr (), set_identity K \<lparr>ik_publicKey = sd_to_base64 N pk, ik_privateKey = sd_to_base64 N sk\<rparr> s, w')))))"

section \<open>Sealing\<close>

text \<open>\<open>crypto_box_seal\<close> throws unless the recipient's key has 32 bytes.\<close>

definition seal_for :: "sodium \<Rightarrow> bytes \<Rightarrow> bytes \<Rightarrow> jstr \<Rightarrow> jstr option" where
  "seal_for N eph key publicKey = (case sd_from_base64 N publicKey of
     None \<Rightarrow> None
   | Some pk \<Rightarrow> if length pk = 32 then Some (sd_seal N key pk eph) else None)"

definition sealed_grant :: "sodium \<Rightarrow> bytes \<Rightarrow> bytes \<Rightarrow> nat \<Rightarrow> jstr \<Rightarrow> jstr \<Rightarrow> grant_item option" where
  "sealed_grant N eph key keyId userId publicKey = map_option (\<lambda>wrapped.
     \<lparr>gi_userId = userId, gi_keyId = keyId, gi_wrappedKey = wrapped,
      gi_recipientKeyFp = compute_public_key_fp N publicKey\<rparr>) (seal_for N eph key publicKey)"

section \<open>Serving pending grants\<close>

fun grants_to_serve ::
  "sodium \<Rightarrow> 's kv_ops \<Rightarrow> jstr \<Rightarrow> (pending_grant \<Rightarrow> bytes) \<Rightarrow> 's \<Rightarrow> pending_grant list \<Rightarrow> grant_item list option" where
  "grants_to_serve N K roomId eph s [] = Some []"
| "grants_to_serve N K roomId eph s (p # ps) =
     (let keyBase64 = get_room_key K roomId (pg_keyId p) s
      in if keyBase64 = None \<or> keyBase64 = Some [] then grants_to_serve N K roomId eph s ps
         else (case Option.bind (sd_from_base64 N (the keyBase64))
                 (\<lambda>key. sealed_grant N (eph p) key (pg_keyId p) (pg_userId p) (pg_publicKey p)) of
             None \<Rightarrow> None
           | Some g \<Rightarrow> map_option ((#) g) (grants_to_serve N K roomId eph s ps)))"

definition serve_pending_grants ::
  "sodium \<Rightarrow> 's kv_ops \<Rightarrow> 'w key_api \<Rightarrow> jstr \<Rightarrow> (pending_grant \<Rightarrow> bytes) \<Rightarrow> 's \<Rightarrow> 'w \<Rightarrow> (flow_error + nat) \<times> 'w" where
  "serve_pending_grants N K A roomId eph s w = (case ka_pending A roomId w of (res, w) \<Rightarrow>
     (case auth_fetch res of
        Inl e \<Rightarrow> (Inl e, w)
      | Inr pending \<Rightarrow>
          if pending = [] then (Inr 0, w)
          else (case grants_to_serve N K roomId eph s pending of
              None \<Rightarrow> (Inl SodiumFailure, w)
            | Some grants \<Rightarrow>
                if grants = [] then (Inr 0, w)
                else (case ka_upload A roomId None grants w of (res, w) \<Rightarrow>
                    (case auth_fetch res of Inl e \<Rightarrow> (Inl e, w) | Inr _ \<Rightarrow> (Inr (length grants), w))))))"

section \<open>Loading one's own grants\<close>

text \<open>One turn of the loop; whatever throws leaves the other epochs alone.\<close>

definition load_grant ::
  "sodium \<Rightarrow> 's kv_ops \<Rightarrow> jstr \<Rightarrow> bytes \<Rightarrow> bytes \<Rightarrow> grant_row \<Rightarrow> 's \<times> cipher \<Rightarrow> 's \<times> cipher" where
  "load_grant N K roomId publicKey privateKey grant sc = (case sc of (s, c) \<Rightarrow>
     (let cached = get_room_key K roomId (gr_keyId grant) s
      in if cached \<noteq> None \<and> cached \<noteq> Some []
         then (case sd_from_base64 N (the cached) of
                 None \<Rightarrow> (s, c) | Some key \<Rightarrow> (s, set_key (gr_keyId grant) key c))
         else (case Option.bind (sd_from_base64 N (gr_wrappedKey grant))
                 (\<lambda>wrapped. sd_seal_open N wrapped publicKey privateKey) of
             None \<Rightarrow> (s, c)
           | Some key \<Rightarrow> (cache_room_key K roomId (gr_keyId grant) (sd_to_base64 N key) s,
                          set_key (gr_keyId grant) key c))))"

definition fetch_and_load_my_grants ::
  "sodium \<Rightarrow> 's kv_ops \<Rightarrow> 'w key_api \<Rightarrow> jstr \<Rightarrow> 's \<Rightarrow> cipher \<Rightarrow> 'w \<Rightarrow> (flow_error + unit) \<times> 's \<times> cipher \<times> 'w" where
  "fetch_and_load_my_grants N K A roomId s c w = (case get_identity K s of
     Inl _ \<Rightarrow> (Inl IdentityUnreadable, s, c, w)
   | Inr None \<Rightarrow> (Inr (), s, c, w)
   | Inr (Some identity) \<Rightarrow> (case ka_my_grants A roomId w of (res, w) \<Rightarrow>
       (case auth_fetch res of
          Inl e \<Rightarrow> (Inl e, s, c, w)
        | Inr myGrants \<Rightarrow>
            (case (sd_from_base64 N (ik_privateKey identity), sd_from_base64 N (ik_publicKey identity)) of
               (Some privateKey, Some publicKey) \<Rightarrow>
                 (case fold (load_grant N K roomId publicKey privateKey) myGrants (s, c) of
                    (s, c) \<Rightarrow> (Inr (), s, c, w))
             | _ \<Rightarrow> (Inl SodiumFailure, s, c, w)))))"

section \<open>Minting a room key\<close>

definition fetch_room_members :: "'w key_api \<Rightarrow> jstr \<Rightarrow> 'w \<Rightarrow> (flow_error + (jstr \<times> jstr) list) \<times> 'w" where
  "fetch_room_members A roomId w = (case ka_members A roomId w of (res, w) \<Rightarrow> (auth_fetch res, w))"

text \<open>\<open>roomKeyBytes\<close> are the 32 random bytes of \<open>crypto_aead_xchacha20poly1305_ietf_keygen\<close>.\<close>

definition enable_or_rotate_room_key ::
  "sodium \<Rightarrow> 's kv_ops \<Rightarrow> 'w key_api \<Rightarrow> bytes \<Rightarrow> (jstr \<Rightarrow> bytes) \<Rightarrow> jstr \<Rightarrow> nat \<Rightarrow> (jstr \<times> jstr) list
    \<Rightarrow> 's \<Rightarrow> cipher \<Rightarrow> 'w \<Rightarrow> (flow_error + nat) \<times> 's \<times> cipher \<times> 'w" where
  "enable_or_rotate_room_key N K A keygen eph roomId expectedCurrentKeyId members s c w =
     (let newKeyId = expectedCurrentKeyId + 1; roomKey = sd_to_base64 N keygen
      in (case sd_from_base64 N roomKey of
          None \<Rightarrow> (Inl SodiumFailure, s, c, w)
        | Some roomKeyBytes \<Rightarrow>
            (case all_some (map (\<lambda>(userId, publicKey).
                sealed_grant N (eph userId) roomKeyBytes newKeyId userId publicKey) members) of
               None \<Rightarrow> (Inl SodiumFailure, s, c, w)
             | Some grants \<Rightarrow>
                 (case ka_upload A roomId (Some expectedCurrentKeyId) grants w of (res, w) \<Rightarrow>
                   (case auth_fetch res of
                      Inl e \<Rightarrow> (Inl e, s, c, w)
                    | Inr result \<Rightarrow> (Inr result, cache_room_key K roomId newKeyId roomKey s,
                                     set_key newKeyId roomKeyBytes c, w))))))"

end
