(* ===== verification/Encryption.thy ===== *)
theory Encryption
  imports Content_Cipher Sync_Engine
begin

text \<open>
  What the cipher and the rendering of messages guarantee: which key is used, that what was sent is
  let in by the server's gate and read by the members, and that ciphertext is never shown as text.
\<close>

section \<open>Which key is used\<close>

text \<open>The cipher after the keys of a list have been registered in order, and the room's epoch is known.\<close>

definition loaded_cipher :: "(nat \<times> bytes) list \<Rightarrow> nat option \<Rightarrow> cipher" where
  "loaded_cipher ks expected = (fold (\<lambda>(k, b). set_key k b) ks new_cipher)\<lparr>ci_expectedCurrentEpoch := expected\<rparr>"

lemma set_key_fields [simp]:
  "ci_keysByEpoch (set_key k b c) = AList.update k b (ci_keysByEpoch c)"
  "ci_expectedCurrentEpoch (set_key k b c) = ci_expectedCurrentEpoch c"
  "ci_currentKeyId (set_key k b c) = Some (case ci_currentKeyId c of None \<Rightarrow> k | Some j \<Rightarrow> max j k)"
  by (simp_all add: set_key_def Let_def max_def split: option.split)

lemma fold_set_key:
  "map_of (ci_keysByEpoch (fold (\<lambda>(k, b). set_key k b) ks c)) = map_of (ci_keysByEpoch c) ++ map_of (rev ks)"
  by (induction ks arbitrary: c) (auto simp: map_add_upd_left[symmetric] map_add_assoc[symmetric] fun_eq_iff map_add_def
      split: option.split)

lemma fold_set_key_current:
  "ci_currentKeyId (fold (\<lambda>(k, b). set_key k b) ks c)
    = (if ks = [] then ci_currentKeyId c
       else Some (case ci_currentKeyId c of None \<Rightarrow> Max (fst ` set ks) | Some j \<Rightarrow> max j (Max (fst ` set ks))))"
proof (induction ks arbitrary: c)
  case (Cons x ks)
  show ?case
    by (cases x; cases "ks = []")
      (auto simp: Cons.IH max.assoc max.commute max.left_commute Max_insert split: option.split)
qed simp

lemma loaded_cipher_fields [simp]:
  "map_of (ci_keysByEpoch (loaded_cipher ks e)) = map_of (rev ks)"
  "ci_expectedCurrentEpoch (loaded_cipher ks e) = e"
  "ci_currentKeyId (loaded_cipher ks e) = (if ks = [] then None else Some (Max (fst ` set ks)))"
  by (simp_all add: loaded_cipher_def fold_set_key fold_set_key_current new_cipher_def)

text \<open>A message is encrypted under the newest key of the room or not at all: without a key it is
  refused, with a newest key of another epoch than the room's it is refused naming both, and
  otherwise the result is the envelope of that epoch, made with the last key registered for it.\<close>

theorem cipher_encrypt_contract:
  "cipher_encrypt N nonce (loaded_cipher ks expected) p ad =
     (if ks = [] then Inl NoCurrentKey
      else let k = Max (fst ` set ks)
           in if expected \<noteq> None \<and> expected \<noteq> Some k then Inl (StaleEpoch k (the expected))
              else Inr (build_envelope (int k) (sd_to_base64 N nonce)
                     (sd_encrypt N p (ad_to_json ad) nonce (the (map_of (rev ks) k)))))"
proof (cases "ks = []")
  case False
  then have "Max (fst ` set ks) \<in> fst ` set ks"
    by (intro Max_in) auto
  then obtain key where "map_of (rev ks) (Max (fst ` set ks)) = Some key"
    by (metis map_of_eq_None_iff option.exhaust set_rev)
  with False show ?thesis
    by (simp add: cipher_encrypt_def Let_def)
qed (simp add: cipher_encrypt_def)

section \<open>What was sent is read\<close>

lemma encrypt_envelope:
  assumes "cipher_encrypt N nonce c p ad = Inr content"
  obtains k key where "ci_currentKeyId c = Some k" "map_of (ci_keysByEpoch c) k = Some key"
    "content = build_envelope (int k) (sd_to_base64 N nonce) (sd_encrypt N p (ad_to_json ad) nonce key)"
  using assms by (auto simp: cipher_encrypt_def split: option.splits if_splits)

lemma cached_key_of_int [simp]: "cached_key c (dec_of_int (int k)) = map_of (ci_keysByEpoch c) k"
  by (simp add: cached_key_def epoch_of_decimal_def)

lemma decrypt_envelope:
  assumes "base64_laws N" and "aead_laws N" and "utf16_ok p" and "map_of (ci_keysByEpoch c) k = Some key"
  shows "cipher_decrypt N c (build_envelope (int k) (sd_to_base64 N nonce)
    (sd_encrypt N p (ad_to_json ad) nonce key)) ad = Inr p"
proof -
  from assms(2,3) have "\<exists>ct b. sd_from_base64 N (sd_encrypt N p (ad_to_json ad) nonce key) = Some ct
      \<and> sd_decrypt N ct (ad_to_json ad) nonce key = Some b \<and> sd_to_string N b = Some p"
    by (simp add: aead_laws_def)
  then obtain ct b where "sd_from_base64 N (sd_encrypt N p (ad_to_json ad) nonce key) = Some ct"
    "sd_decrypt N ct (ad_to_json ad) nonce key = Some b" "sd_to_string N b = Some p"
    by blast
  with assms(1,4) show ?thesis
    by (simp add: cipher_decrypt_def parse_build_envelope base64_laws_def)
qed

lemma encrypted_well_formed:
  assumes "base64_laws N" and "aead_laws N" and "length nonce = nonce_bytes" and "0 < k"
    and "p \<noteq> []" and "length p \<le> max_message_length"
  shows "is_well_formed_envelope (build_envelope (int k) (sd_to_base64 N nonce) (sd_encrypt N p ad nonce key))"
proof (rule built_envelope_well_formed)
  let ?n = "utf8_length p + 16"
  have "length (sd_encrypt N p ad nonce key) = b64_length ?n" "list_all base64url_char (sd_encrypt N p ad nonce key)"
    using assms(2) by (auto simp: aead_laws_def)
  moreover have "17 \<le> ?n" "?n \<le> 12016"
    using assms(5,6) utf8_length_bounds[of p] by (cases p; simp add: max_message_length_def)+
  then have "b64_length 17 \<le> b64_length ?n" "b64_length ?n \<le> b64_length 12016"
    by (auto intro: b64_length_mono)
  then have "23 \<le> b64_length ?n" "b64_length ?n \<le> 21355"
    by (simp_all add: b64_length_def)
  ultimately show "min_ciphertext_chars \<le> length (sd_encrypt N p ad nonce key)"
    "length (sd_encrypt N p ad nonce key) \<le> max_ciphertext_chars"
    "length (sd_encrypt N p ad nonce key) mod 4 \<noteq> 1" "list_all base64url_char (sd_encrypt N p ad nonce key)"
    using b64_length_not_1[of ?n] by (simp_all add: min_ciphertext_chars_def max_ciphertext_chars_def)
  show "length (sd_to_base64 N nonce) = nonce_chars" "list_all base64url_char (sd_to_base64 N nonce)"
    using assms(1,3) by (simp_all add: base64_laws_def b64_length_def nonce_bytes_def nonce_chars_def)
qed (use assms(4) in simp)

text \<open>C6. An encrypted message gets through and is read: whatever the engine sends with a cipher that
  holds the room's key is let in by the server's gate, and every member whose cipher holds that
  epoch's key is shown the trimmed text that was typed, also when it comes back as a refused draft.\<close>

theorem encrypted_message_end_to_end:
  assumes "base64_laws N" and "aead_laws N" and "length nonce = nonce_bytes"
    and "send_message Y cfg (Some (cipher_encrypt N nonce c)) mid now content d = Inr (msg, d')"
    and "ci_currentKeyId c = Some k" and "0 < k" and "utf16_ok (trim content)"
    and "map_of (ci_keysByEpoch reader) k = map_of (ci_keysByEpoch c) k"
  shows "check_enveloped_update (\<lambda>_. Some [YItem (ContentAny [message_value msg])]) u = GateOk
    \<and> resolve_message_render_state N msg (Some reader) pend True = RsDecrypted (trim content)
    \<and> rejected_draft_text [msg] (cfg_userId cfg) (Some (cipher_decrypt N reader)) = Some (trim content)"
proof -
  have ne: "trim content \<noteq> []" "length (trim content) \<le> max_message_length"
    and enc: "cipher_encrypt N nonce c (trim content) (compose_aad cfg mid now) = Inr (m_content msg)"
    and aad: "message_aad msg = compose_aad cfg mid now" and me: "m_userId msg = cfg_userId cfg"
    using assms(4) by (auto simp: send_message_def Let_def message_aad_def compose_aad_def split: sum.splits if_splits)
  from enc obtain key where key: "map_of (ci_keysByEpoch c) k = Some key"
    and content: "m_content msg = build_envelope (int k) (sd_to_base64 N nonce)
      (sd_encrypt N (trim content) (ad_to_json (message_aad msg)) nonce key)"
    using assms(5) by (auto simp: aad elim!: encrypt_envelope)
  have wf: "is_well_formed_envelope (m_content msg)"
    unfolding content by (rule encrypted_well_formed[OF assms(1-3,6) ne])
  have dec: "cipher_decrypt N reader (m_content msg) (message_aad msg) = Inr (trim content)"
    unfolding content using decrypt_envelope[OF assms(1,2,7)] key assms(8) by simp
  then have "resolve_message_render_state N msg (Some reader) pend True = RsDecrypted (trim content)"
    using key assms(8) unfolding resolve_message_render_state_def content by (simp add: parse_build_envelope)
  with wf dec me show ?thesis
    by (simp add: check_cases message_value_enveloped rejected_draft_text_def content)
qed

text \<open>Ciphertext is never shown as text: in an encrypted room what is rendered as plain text does
  not carry the envelope prefix, what is rendered as decrypted came out of a successful decryption
  with a key the device holds for the envelope's epoch, and a message that cannot be read is
  announced as waiting exactly when its grant is pending.\<close>

theorem render_states_exact:
  "case resolve_message_render_state N m cipher pend True of
     RsPlaintext t \<Rightarrow> t = m_content m \<and> \<not> starts_with t e2ee_prefix
   | RsDecrypted t \<Rightarrow> (case (cipher, parse_envelope (m_content m)) of
       (Some c, Inr (Some env)) \<Rightarrow> cached_key c (env_keyId env) \<noteq> None
         \<and> cipher_decrypt N c (m_content m) (message_aad m) = Inr t
     | _ \<Rightarrow> False)
   | RsWaitingForKey \<Rightarrow> (case parse_envelope (m_content m) of
       Inr (Some env) \<Rightarrow> pend (env_keyId env)
         \<and> (case cipher of None \<Rightarrow> True | Some c \<Rightarrow> cached_key c (env_keyId env) = None)
     | _ \<Rightarrow> False)
   | RsKeyUnavailable \<Rightarrow> starts_with (m_content m) e2ee_prefix"
  using parse_envelope_None[of "m_content m"]
  by (auto simp: resolve_message_render_state_def split: sum.splits option.splits)

section \<open>Witnesses\<close>

definition sample_cipher :: cipher where
  "sample_cipher = loaded_cipher [(1, [5]), (2, [6])] (Some 2)"

lemma encrypted_message_end_to_end_witness:
  "case send_message list_yjs sample_config (Some (cipher_encrypt sample_sodium (replicate 24 7) sample_cipher))
      (js ''m1'') 5 (js '' hi '') [] of Inl _ \<Rightarrow> False
   | Inr (msg, d) \<Rightarrow> resolve_message_render_state sample_sodium msg (Some sample_cipher) (\<lambda>_. False) True
       = RsDecrypted (js ''hi'')"
proof -
  have k: "ci_currentKeyId sample_cipher = Some 2"
    by (simp add: sample_cipher_def)
  have t: "trim (js '' hi '') = js ''hi''" "utf16_ok (js ''hi'')" "length (js ''hi'') \<le> max_message_length"
    "js ''hi'' \<noteq> []"
    by code_simp+
  have "succeeds (send_message list_yjs sample_config (Some (cipher_encrypt sample_sodium (replicate 24 7) sample_cipher))
      (js ''m1'') 5 (js '' hi '') [])"
    using t by (simp add: send_message_def Let_def sample_cipher_def cipher_encrypt_contract)
  then obtain msg d where s: "send_message list_yjs sample_config
      (Some (cipher_encrypt sample_sodium (replicate 24 7) sample_cipher)) (js ''m1'') 5 (js '' hi '') [] = Inr (msg, d)"
    by (auto simp: succeeds_iff)
  from encrypted_message_end_to_end[OF sample_base64_laws sample_aead_laws _ s k, of sample_cipher] s show ?thesis
    by (simp add: nonce_bytes_def t)
qed

end
