(* ===== verification/Key_Exchange.thy ===== *)
theory Key_Exchange
  imports Key_Flows Rest_Api Encryption
begin

text \<open>
  The key flows of the app run against the endpoints of the server: minted and served keys reach the
  recipients, identities are kept only once published, and who may ask for what.
\<close>

section \<open>One bad grant costs its own epoch only\<close>

definition loaded_key :: "sodium \<Rightarrow> 's kv_ops \<Rightarrow> jstr \<Rightarrow> bytes \<Rightarrow> bytes \<Rightarrow> 's \<Rightarrow> grant_row \<Rightarrow> bytes option" where
  "loaded_key N K roomId pk sk s g =
     (let cached = get_room_key K roomId (gr_keyId g) s
      in if cached \<noteq> None \<and> cached \<noteq> Some [] then sd_from_base64 N (the cached)
         else Option.bind (sd_from_base64 N (gr_wrappedKey g)) (\<lambda>w. sd_seal_open N w pk sk))"

lemma load_grant_cipher:
  "snd (load_grant N K roomId pk sk g (s, c)) =
     (case loaded_key N K roomId pk sk s g of None \<Rightarrow> c | Some key \<Rightarrow> set_key (gr_keyId g) key c)"
  by (auto simp: load_grant_def loaded_key_def Let_def split: option.split)

lemma load_grant_store:
  assumes "kv_store K" and "k \<noteq> gr_keyId g"
  shows "get_room_key K roomId k (fst (load_grant N K roomId pk sk g (s, c))) = get_room_key K roomId k s"
  using assms(2) by (auto simp: load_grant_def Let_def kv_store.cache_room_key_gets(1)[OF assms(1)] split: option.split)

lemma load_grants:
  assumes "kv_store K" and "distinct (map gr_keyId gs)"
  shows "map_of (ci_keysByEpoch (snd (fold (load_grant N K roomId pk sk) gs (s, c)))) k =
     (case find (\<lambda>g. gr_keyId g = k) gs of
        None \<Rightarrow> map_of (ci_keysByEpoch c) k
      | Some g \<Rightarrow> (case loaded_key N K roomId pk sk s g of None \<Rightarrow> map_of (ci_keysByEpoch c) k | Some key \<Rightarrow> Some key))"
  using assms(2)
proof (induction gs arbitrary: s c)
  case (Cons g gs)
  obtain s' c' where l: "load_grant N K roomId pk sk g (s, c) = (s', c')"
    by (cases "load_grant N K roomId pk sk g (s, c)")
  have c': "c' = (case loaded_key N K roomId pk sk s g of None \<Rightarrow> c | Some key \<Rightarrow> set_key (gr_keyId g) key c)"
    using load_grant_cipher[of N K roomId pk sk g s c] l by simp
  have other: "gr_keyId h \<noteq> gr_keyId g" if "h \<in> set gs" for h
    using that Cons.prems by (metis distinct.simps(2) image_eqI list.set_map list.simps(9))
  have same: "loaded_key N K roomId pk sk s' h = loaded_key N K roomId pk sk s h" if "h \<in> set gs" for h
    using load_grant_store[OF assms(1) other[OF that], of roomId N pk sk s c] l
    by (simp add: loaded_key_def)
  have none: "find (\<lambda>h. gr_keyId h = gr_keyId g) gs = None"
    using other by (simp add: find_None_iff)
  have mem: "find (\<lambda>h. gr_keyId h = k) gs = Some h \<Longrightarrow> h \<in> set gs" for h
    by (auto simp: find_Some_iff)
  show ?case
    using Cons.prems Cons.IH[of s' c'] l c' none
    by (auto simp: same mem split: option.splits)
qed simp

section \<open>The requests on the wire\<close>

definition grant_to_json :: "grant_item \<Rightarrow> json" where
  "grant_to_json g = JObj [(js ''userId'', JStr (gi_userId g)), (js ''keyId'', JNum (dec_of_int (int (gi_keyId g)))),
     (js ''wrappedKey'', JStr (gi_wrappedKey g)), (js ''recipientKeyFp'', JStr (gi_recipientKeyFp g))]"

definition upload_body :: "nat option \<Rightarrow> grant_item list \<Rightarrow> json" where
  "upload_body claim grants = JObj ((case claim of None \<Rightarrow> []
      | Some e \<Rightarrow> [(js ''claimEpoch'', JObj [(js ''expectedCurrentKeyId'', JNum (dec_of_int (int e)))])])
     @ [(js ''grants'', JArr (map grant_to_json grants))])"

definition public_key_body :: "jstr \<Rightarrow> json" where
  "public_key_body publicKey = JObj [(js ''publicKey'', JStr publicKey)]"

definition http_unit :: "'a http \<Rightarrow> unit http" where
  "http_unit res = (case res of NoResponse \<Rightarrow> NoResponse | HttpError st m \<Rightarrow> HttpError st m
     | Garbled \<Rightarrow> Garbled | HttpOk _ \<Rightarrow> HttpOk ())"

text \<open>The app of the holder of \<open>token\<close>, talking to this server.\<close>

definition server_key_api :: "rest_env \<Rightarrow> jstr \<Rightarrow> db key_api" where
  "server_key_api R token = \<lparr>
     ka_put_public_key = (\<lambda>pk d. case put_public_key R token (json_stringify (public_key_body pk)) d of
       (res, e) \<Rightarrow> (http_unit res, e)),
     ka_pending = get_keys_pending R token, ka_my_grants = get_keys R token, ka_members = get_keys_members R token,
     ka_upload = (\<lambda>roomId claim grants. post_keys R token roomId (json_stringify (upload_body claim grants)))\<rparr>"

text \<open>The same server over a network: what becomes of the request that publishes a key.\<close>

definition publish_over :: "delivery \<Rightarrow> 'w key_api \<Rightarrow> 'w key_api" where
  "publish_over w A = A\<lparr>ka_put_public_key := (\<lambda>pk. over_network w (ka_put_public_key A pk))\<rparr>"

text \<open>What the client relies on: the user of its token, and the fingerprint of the server.\<close>

definition server_laws :: "rest_env \<Rightarrow> sodium \<Rightarrow> bool" where
  "server_laws R N \<longleftrightarrow> vlen_law (re_vlen R) \<and> au_fp (re_auth R) = sd_generichash N"

definition token_of :: "rest_env \<Rightarrow> jstr \<Rightarrow> jstr \<Rightarrow> bool" where
  "token_of R token uid \<longleftrightarrow> (\<exists>name. re_verify R token = Some (uid, name))"

lemma wrapped_key_accepted:
  "list_all base64url_char w \<Longrightarrow> length w = b64_length 80 \<Longrightarrow> is_wrapped_room_key_base64 (Some (JStr w))"
proof -
  assume w: "list_all base64url_char w" "length w = b64_length 80"
  then have "filter (\<lambda>c. c \<noteq> 61) w = w" "list_all b64url_or_pad w"
    by (auto simp: list_all_iff base64url_char_def b64url_or_pad_def intro!: filter_True)
  with w(2) show ?thesis
    by (cases w) (simp_all add: is_wrapped_room_key_base64_def exact_decoded_length_def decoded_byte_length_def
        base64url_bytes_def b64_length_def)
qed

lemma public_key_accepted:
  assumes "list_all base64url_char w" and "length w = b64_length 32" and "vlen_law vlen"
  shows "set_public_key_dto vlen (public_key_body w) = Some w"
proof -
  have "filter (\<lambda>c. c \<noteq> 61) w = w" "list_all b64url_or_pad w" "list_all (\<lambda>c. c < 0xd800) w"
    using assms(1) by (auto simp: list_all_iff base64url_char_def b64url_or_pad_def word_le_nat_alt word_less_nat_alt
        intro!: filter_True)
  with assms(2,3) show ?thesis
    by (cases w) (simp_all add: set_public_key_dto_def public_key_body_def is_x25519_public_key_base64_def
        exact_decoded_length_def decoded_byte_length_def base64url_bytes_def b64_length_def vlen_law_def)
qed

definition item_ok :: "grant_item \<Rightarrow> bool" where
  "item_ok g \<longleftrightarrow> 1 \<le> gi_keyId g \<and> gi_keyId g \<le> 100000
     \<and> is_wrapped_room_key_base64 (Some (JStr (gi_wrappedKey g))) \<and> is_key_fp (gi_recipientKeyFp g)"

lemma grant_item_accepted: "item_ok g \<Longrightarrow> grant_item_dto (grant_to_json g) = Some g"
  by (simp add: item_ok_def grant_item_dto_def grant_to_json_def is_int_between_def max_key_id_def)

lemma all_some_map_Some: "(\<And>x. x \<in> set xs \<Longrightarrow> f x = Some (g x)) \<Longrightarrow> all_some (map f xs) = Some (map g xs)"
  by (induction xs) simp_all

lemma upload_accepted:
  assumes "\<forall>g \<in> set grants. item_ok g" and "length grants \<le> 1000" and "claim = None \<or> (\<exists>e \<le> 100000. claim = Some e)"
  shows "upload_keys_dto (upload_body claim grants) = Some \<lparr>up_claimEpoch = claim, up_grants = grants\<rparr>"
proof -
  have "all_some (map grant_item_dto (map grant_to_json grants)) = Some grants"
    unfolding map_map using all_some_map_Some[of grants "grant_item_dto \<circ> grant_to_json" id] assms(1)
    by (simp add: grant_item_accepted)
  with assms(2,3) show ?thesis
    by (auto simp: upload_keys_dto_def upload_body_def claim_epoch_dto_def is_int_between_def max_key_id_def
        max_grants_per_request_def)
qed

lemma upload_body_wire: "printable (upload_body claim grants)" "upload_keys_whitelist (upload_body claim grants)"
  by (cases claim; auto simp: upload_body_def grant_to_json_def upload_keys_whitelist_def only_keys_def list_all_iff)+

section \<open>What the server keeps of an upload\<close>

lemma upsert_grant_stored:
  assumes "upsert_grant g d = Inr e"
  shows "g \<in> set (db_grants e)" and "h \<in> set (db_grants d) \<Longrightarrow> grant_key h \<noteq> grant_key g \<Longrightarrow> h \<in> set (db_grants e)"
proof -
  have upd: "h\<lparr>gr_wrappedKey := gr_wrappedKey g, gr_recipientKeyFp := gr_recipientKeyFp g\<rparr> = g"
    if "grant_key h = grant_key g" for h
    using that by (cases h; cases g) (simp add: grant_key_def)
  show "g \<in> set (db_grants e)" "h \<in> set (db_grants d) \<Longrightarrow> grant_key h \<noteq> grant_key g \<Longrightarrow> h \<in> set (db_grants e)"
    using assms upd by (force simp: upsert_grant_def list_ex_iff split: if_splits)+
qed

lemma upsert_grants_stored:
  assumes "upsert_grants r gs d = (None, e)" and "distinct (map (\<lambda>g. (gi_userId g, gi_keyId g)) gs)"
  shows "(\<forall>g \<in> set gs. grant_of_item r g \<in> set (db_grants e))
    \<and> (\<forall>h \<in> set (db_grants d). (\<forall>g \<in> set gs. grant_key h \<noteq> grant_key (grant_of_item r g)) \<longrightarrow> h \<in> set (db_grants e))"
  using assms
proof (induction gs arbitrary: d)
  case (Cons g gs)
  then obtain f where f: "upsert_grant (grant_of_item r g) d = Inr f" "upsert_grants r gs f = (None, e)"
    by (auto split: sum.splits)
  from Cons.IH[OF f(2)] Cons.prems(2) upsert_grant_stored[OF f(1)] show ?case
    by (force simp: grant_key_def grant_of_item_def)
qed simp

lemma my_grants_key:
  assumes "keys_unique d" and "get_my_grants d r u = Inr gs" and "g \<in> set (db_grants d)"
    and "gr_roomId g = r" and "gr_userId g = u"
  shows "distinct (map gr_keyId gs)" and "find (\<lambda>h. gr_keyId h = gr_keyId g) gs = Some g"
proof -
  have gs: "gs = sort_key gr_keyId (filter (\<lambda>g. gr_userId g = u) (grants_of d r))"
    using assms(2) by (auto simp: get_my_grants_def bind_result_Inr)
  then have set: "set gs = {g \<in> set (db_grants d). gr_roomId g = r \<and> gr_userId g = u}"
    by (auto simp: grants_of_def)
  have "distinct (db_grants d)" "inj_on grant_key (set (db_grants d))"
    using assms(1) by (auto simp: keys_unique_def distinct_map)
  moreover from this(2) have "inj_on gr_keyId (set gs)"
    unfolding set by (auto simp: inj_on_def grant_key_def)
  ultimately show d: "distinct (map gr_keyId gs)"
    by (simp add: gs distinct_map grants_of_def)
  show "find (\<lambda>h. gr_keyId h = gr_keyId g) gs = Some g"
    using find_key_unique[OF d] assms(3-5) set by simp
qed

section \<open>A recipient loads a sealed key\<close>

definition identity_of_seed :: "sodium \<Rightarrow> bytes \<Rightarrow> identity_key_pair" where
  "identity_of_seed N seed = (case sd_box_keypair N seed of (pk, sk) \<Rightarrow>
     \<lparr>ik_publicKey = sd_to_base64 N pk, ik_privateKey = sd_to_base64 N sk\<rparr>)"

lemma sealed_grant_good:
  assumes "base64_laws N" and "seal_laws N" and "hash_laws N" and "length key = 32" and "1 \<le> k" and "k \<le> 100000"
    and "sealed_grant N eph key k u (ik_publicKey (identity_of_seed N seed)) = Some g"
  shows "item_ok g \<and> gi_userId g = u \<and> gi_keyId g = k
    \<and> gi_recipientKeyFp g = sd_generichash N (ik_publicKey (identity_of_seed N seed))
    \<and> (\<exists>w. sd_from_base64 N (gi_wrappedKey g) = Some w
         \<and> sd_seal_open N w (fst (sd_box_keypair N seed)) (snd (sd_box_keypair N seed)) = Some key)"
proof -
  obtain pk sk where p: "sd_box_keypair N seed = (pk, sk)" by (cases "sd_box_keypair N seed")
  have seal: "\<exists>w. sd_from_base64 N (sd_seal N key pk eph) = Some w \<and> sd_seal_open N w pk sk = Some key"
    "list_all base64url_char (sd_seal N key pk eph)" "length (sd_seal N key pk eph) = b64_length (length key + 48)"
    "length pk = 32"
    using assms(2)[unfolded seal_laws_def, THEN spec, THEN spec, THEN spec, of key eph seed] p by auto
  have "sd_from_base64 N (sd_to_base64 N pk) = Some pk"
    using assms(1) by (simp add: base64_laws_def)
  with assms(7) p seal(4) have g: "g = \<lparr>gi_userId = u, gi_keyId = k, gi_wrappedKey = sd_seal N key pk eph,
      gi_recipientKeyFp = sd_generichash N (sd_to_base64 N pk)\<rparr>"
    by (simp add: sealed_grant_def seal_for_def identity_of_seed_def compute_public_key_fp_def)
  have "is_key_fp (sd_generichash N (sd_to_base64 N pk))"
    using assms(3) by (auto simp: hash_laws_def is_key_fp_def hex_digit_def lower_hex_char_def list_all_iff)
  moreover have "is_wrapped_room_key_base64 (Some (JStr (sd_seal N key pk eph)))"
    using seal(2,3) assms(4) by (intro wrapped_key_accepted) simp_all
  ultimately show ?thesis
    using seal(1) p g assms(5,6) by (simp add: item_ok_def identity_of_seed_def)
qed

lemma recipient_loads:
  assumes "kv_store K" and "base64_laws N" and "db_inv d" and "token_of R token u"
    and "get_identity K s = Inr (Some (identity_of_seed N seed))"
    and "get_room_key K r (gr_keyId g) s = None" and "is_member_id d r u"
    and "g \<in> set (db_grants d)" and "gr_roomId g = r" and "gr_userId g = u"
    and "sd_from_base64 N (gr_wrappedKey g) = Some w"
    and "sd_seal_open N w (fst (sd_box_keypair N seed)) (snd (sd_box_keypair N seed)) = Some key"
  shows "case fetch_and_load_my_grants N K (server_key_api R token) r s c d of (res, s', c', d') \<Rightarrow>
    res = Inr () \<and> d' = d \<and> map_of (ci_keysByEpoch c') (gr_keyId g) = Some key"
proof -
  obtain pk sk where p: "sd_box_keypair N seed = (pk, sk)" by (cases "sd_box_keypair N seed")
  have "find_member d r u \<noteq> None"
    using assms(7) by (simp only: find_member_iff)
  then obtain gs where gs: "get_my_grants d r u = Inr gs"
    by (auto simp: get_my_grants_def assert_member_def)
  have ans: "ka_my_grants (server_key_api R token) r d = (HttpOk gs, d)"
    using assms(4) gs by (auto simp: server_key_api_def get_keys_def guarded_def jwt_validate_def token_of_def respond_def)
  have un: "keys_unique d" using assms(3) by (simp add: db_inv_def)
  note key = my_grants_key[OF un gs assms(8-10)]
  have "loaded_key N K r pk sk s g = Some key"
    using assms(6,11,12) p by (simp add: loaded_key_def)
  then have "map_of (ci_keysByEpoch (snd (fold (load_grant N K r pk sk) gs (s, c)))) (gr_keyId g) = Some key"
    using load_grants[OF assms(1) key(1), of N r pk sk s c "gr_keyId g"] key(2) by simp
  then obtain s' c' where "fold (load_grant N K r pk sk) gs (s, c) = (s', c')"
    "map_of (ci_keysByEpoch c') (gr_keyId g) = Some key"
    by (cases "fold (load_grant N K r pk sk) gs (s, c)") simp
  with assms(2,5) p ans show ?thesis
    by (simp add: fetch_and_load_my_grants_def auth_fetch_HttpOk identity_of_seed_def base64_laws_def)
qed

section \<open>Properties\<close>

lemma all_some_memD: "all_some (map f xs) = Some ys \<Longrightarrow> (\<forall>x \<in> set xs. \<exists>y \<in> set ys. f x = Some y)
    \<and> (\<forall>y \<in> set ys. \<exists>x \<in> set xs. f x = Some y) \<and> length ys = length xs"
proof (induction xs arbitrary: ys)
  case (Cons x xs)
  then obtain y zs where "f x = Some y" "all_some (map f xs) = Some zs" "ys = y # zs"
    by (cases "f x") auto
  with Cons.IH show ?case by auto
qed simp

lemma all_some_map_key:
  "all_some (map f xs) = Some ys \<Longrightarrow> (\<And>x y. x \<in> set xs \<Longrightarrow> f x = Some y \<Longrightarrow> k y = h x) \<Longrightarrow> map k ys = map h xs"
proof (induction xs arbitrary: ys)
  case (Cons x xs)
  then obtain y zs where "f x = Some y" "all_some (map f xs) = Some zs" "ys = y # zs"
    by (cases "f x") auto
  with Cons show ?case by auto
qed simp

lemma posted_upload:
  assumes "token_of R token a" and "\<forall>g \<in> set grants. item_ok g" and "length grants \<le> 1000"
    and "claim = None \<or> (\<exists>e \<le> 100000. claim = Some e)"
  shows "ka_upload (server_key_api R token) r claim grants d =
    (case upload_grants r a \<lparr>up_claimEpoch = claim, up_grants = grants\<rparr> d of (res, e, _) \<Rightarrow> (respond R res, e))"
proof -
  have "validated R upload_keys_whitelist upload_keys_dto (json_stringify (upload_body claim grants)) h d
      = h \<lparr>up_claimEpoch = claim, up_grants = grants\<rparr>" for h :: "upload_keys \<Rightarrow> nat http \<times> db"
    by (rule validated_printed) (fact upload_body_wire upload_accepted[OF assms(2-4)])+
  with assms(1) show ?thesis
    by (auto simp: server_key_api_def post_keys_def guarded_def token_of_def jwt_validate_def)
qed

lemma minted_grants:
  assumes "base64_laws N" and "seal_laws N" and "hash_laws N" and "length key = 32" and "1 \<le> k" and "k \<le> 100000"
    and pks: "\<forall>(v, pk) \<in> set members. \<exists>x. pk = ik_publicKey (identity_of_seed N x)"
    and grants: "all_some (map (\<lambda>(v, pk). sealed_grant N (eph v) key k v pk) members) = Some grants"
  shows "\<forall>g \<in> set grants. item_ok g"
    and "map (\<lambda>g. (gi_userId g, gi_keyId g)) grants = map (\<lambda>m. (fst m, k)) members"
proof -
  let ?f = "\<lambda>(v, pk). sealed_grant N (eph v) key k v pk"
  have good: "item_ok g \<and> gi_userId g = fst m \<and> gi_keyId g = k" if m: "m \<in> set members" and f: "?f m = Some g" for m g
  proof -
    obtain v x where x: "m = (v, ik_publicKey (identity_of_seed N x))"
      using bspec[OF pks m] by (cases m) auto
    have "sealed_grant N (eph v) key k v (ik_publicKey (identity_of_seed N x)) = Some g"
      using f unfolding x prod.case .
    from sealed_grant_good[OF assms(1-6) this] show ?thesis
      by (simp add: x)
  qed
  show "\<forall>g \<in> set grants. item_ok g"
    using all_some_memD[OF grants] good by blast
  show "map (\<lambda>g. (gi_userId g, gi_keyId g)) grants = map (\<lambda>m. (fst m, k)) members"
    by (rule all_some_map_key[OF grants]) (use good in simp)
qed

text \<open>A minted key reaches the members it was wrapped for.\<close>

lemma minted_key_reaches_members:
  assumes "kv_store K" and "base64_laws N" and "seal_laws N" and "hash_laws N" and "db_inv d"
    and "length keygen = 32" and "expected < 100000"
    and "token_of R admin a" and "distinct (map fst members)" and "length members \<le> 1000"
    and "enable_or_rotate_room_key N K (server_key_api R admin) keygen eph r expected members s c d
           = (Inr n, s1, c1, d1)"
    and "(u, ik_publicKey (identity_of_seed N seed)) \<in> set members"
    and "\<forall>(v, pk) \<in> set members. \<exists>x. pk = ik_publicKey (identity_of_seed N x)"
    and "token_of R token u" and "get_identity K s2 = Inr (Some (identity_of_seed N seed))"
    and "get_room_key K r (expected + 1) s2 = None"
  shows "n = expected + 1 \<and> (\<exists>room. room_by_id d r = Some room \<and> ro_currentKeyId room = expected)
    \<and> map_of (ci_keysByEpoch c1) n = Some keygen
    \<and> get_room_key K r n s1 = Some (sd_to_base64 N keygen)
    \<and> (case fetch_and_load_my_grants N K (server_key_api R token) r s2 c2 d1 of (res, s', c', d') \<Rightarrow>
         res = Inr () \<and> map_of (ci_keysByEpoch c') n = Some keygen)"
proof -
  let ?f = "\<lambda>(userId, publicKey). sealed_grant N (eph userId) keygen (expected + 1) userId publicKey"
  have b64: "sd_from_base64 N (sd_to_base64 N keygen) = Some keygen"
    using assms(2) by (simp add: base64_laws_def)
  from assms(11) b64 obtain grants where grants: "all_some (map ?f members) = Some grants"
    and up: "ka_upload (server_key_api R admin) r (Some expected) grants d = (HttpOk n, d1)"
    and dev: "s1 = cache_room_key K r (expected + 1) (sd_to_base64 N keygen) s" "c1 = set_key (expected + 1) keygen c"
    by (auto simp: enable_or_rotate_room_key_def Let_def split: option.splits prod.splits sum.splits)
  note mem = all_some_memD[OF grants]
  have len: "length grants \<le> 1000"
    using mem assms(10) by simp
  have k: "1 \<le> expected + 1" "expected + 1 \<le> 100000"
    using assms(7) by simp_all
  note ok = minted_grants(1)[OF assms(2-4,6) k assms(13) grants]
  note keys = minted_grants(2)[OF assms(2-4,6) k assms(13) grants]
  have dist: "distinct (map (\<lambda>g. (gi_userId g, gi_keyId g)) grants)"
    unfolding keys using assms(9) by (simp add: distinct_map inj_on_def)
  obtain ev where "upload_grants r a \<lparr>up_claimEpoch = Some expected, up_grants = grants\<rparr> d = (Inr n, d1, ev)"
    using up posted_upload[OF assms(8) ok len, of "Some expected" r d] assms(7) by (auto split: prod.splits)
  then have checks: "upload_checks d r a \<lparr>up_claimEpoch = Some expected, up_grants = grants\<rparr> = Inr (Claim expected)"
    and commit: "upload_commit r (Claim expected) grants d = (Inr n, d1, ev)"
    by (auto simp: upload_grants_def upload_checks_def bind_result_Inr split: sum.splits if_splits)
  note claim = claim_needs_expected_epoch[OF assms(5) commit]
  have uok: "upload_ok \<lparr>up_claimEpoch = Some expected, up_grants = grants\<rparr>"
    using ok len assms(7) by (auto simp: upload_ok_def item_ok_def is_key_fp_def list_all_iff)
  note plan = upload_checks_plan_ok[OF uok checks, simplified]
  have d1: "db_inv d1" "grows d d1"
    using upload_commit_inv[OF assms(5) plan commit] by simp_all
  obtain g where g: "?f (u, ik_publicKey (identity_of_seed N seed)) = Some g" "g \<in> set grants"
    using mem assms(12) by blast
  obtain w where gg: "gi_userId g = u" "gi_keyId g = expected + 1" "sd_from_base64 N (gi_wrappedKey g) = Some w"
    "sd_seal_open N w (fst (sd_box_keypair N seed)) (snd (sd_box_keypair N seed)) = Some keygen"
    using sealed_grant_good[OF assms(2-4,6), of "expected + 1" "eph u" u seed g] g(1) assms(7) by auto
  from commit obtain f where "upsert_grants r grants f = (None, d1)"
    by (auto simp: upload_commit_def split: prod.splits option.splits if_splits)
  from upsert_grants_stored[OF this dist] g(2) have stored: "grant_of_item r g \<in> set (db_grants d1)"
    by blast
  have "is_member_id d1 r u"
    using plan g(2) gg(1) growsD(2)[OF d1(2)] by (auto simp: plan_ok_def)
  from recipient_loads[OF assms(1,2) d1(1) assms(14,15) _ this stored, of w keygen c2] gg assms(16)
  have "case fetch_and_load_my_grants N K (server_key_api R token) r s2 c2 d1 of (res, s', c', d') \<Rightarrow>
    res = Inr () \<and> map_of (ci_keysByEpoch c') (expected + 1) = Some keygen"
    by (auto simp: grant_of_item_def)
  with claim dev show ?thesis
    by (simp add: kv_store.cache_room_key_gets(1)[OF assms(1)])
qed


lemma upsert_grant_total:
  "room_by_id d (gr_roomId g) \<noteq> None \<Longrightarrow> user_by_id d (gr_userId g) \<noteq> None \<Longrightarrow> \<exists>e. upsert_grant g d = Inr e"
  by (auto simp: upsert_grant_def)

lemma upsert_grants_total:
  assumes "room_by_id d r \<noteq> None" and "\<forall>g \<in> set gs. user_by_id d (gi_userId g) \<noteq> None"
  shows "fst (upsert_grants r gs d) = None"
  using assms
proof (induction gs arbitrary: d)
  case (Cons g gs)
  then obtain e where e: "upsert_grant (grant_of_item r g) d = Inr e"
    using upsert_grant_total[of d "grant_of_item r g"] by (auto simp: grant_of_item_def)
  from Cons.IH[of e] Cons.prems upsert_grant_tables[OF e] e show ?case
    by (simp add: room_by_id_def user_by_id_def)
qed simp

lemma sealed_grant_total:
  assumes "base64_laws N" and "seal_laws N"
  shows "\<exists>g. sealed_grant N eph key k u (ik_publicKey (identity_of_seed N seed)) = Some g"
proof -
  obtain pk sk where p: "sd_box_keypair N seed = (pk, sk)" by (cases "sd_box_keypair N seed")
  then have "length pk = 32"
    using assms(2)[unfolded seal_laws_def, THEN spec, THEN spec, THEN spec, of key eph seed] by auto
  with assms(1) p show ?thesis
    by (simp add: sealed_grant_def seal_for_def identity_of_seed_def base64_laws_def)
qed

text \<open>What \<open>setPublicKey\<close> keeps: the stored fingerprint is the one of the stored key.\<close>

definition fingerprints_ok :: "rest_env \<Rightarrow> db \<Rightarrow> bool" where
  "fingerprints_ok R d \<longleftrightarrow> (\<forall>u \<in> set (db_users d). case us_publicKey u of None \<Rightarrow> True
     | Some pk \<Rightarrow> us_publicKeyFp u = Some (au_fp (re_auth R) pk))"

lemma set_public_key_fingerprints:
  assumes "fingerprints_ok R d" and "set_public_key (re_auth R) u pk d = Inr (x, e)"
  shows "fingerprints_ok R e"
  using assms by (auto simp: fingerprints_ok_def set_public_key_def bind_result_Inr Let_def update_user_key_def
      delete_grants_of_user_def split: if_splits)





lemma members_are_users:
  assumes "db_inv d" and "is_member_id d r u"
  shows "user_by_id d u \<noteq> None"
proof -
  obtain m where "m \<in> set (db_members d)" "mb_userId m = u"
    using assms(2) by (auto simp: is_member_id_def)
  then have "u \<in> us_id ` set (db_users d)"
    using assms(1) unfolding db_inv_def references_ok_def by metis
  then show ?thesis
    by (simp only: user_by_id_None) simp
qed


lemma claim_accepted:
  assumes "db_inv d" and "room_by_id d r = Some room" and "find_member d r a = Some m" and "mb_role m = role_admin"
    and gs: "\<forall>g \<in> set gs. is_member_id d r (gi_userId g) \<and> gi_keyId g = ro_currentKeyId room + 1"
  obtains e where "upload_grants r a \<lparr>up_claimEpoch = Some (ro_currentKeyId room), up_grants = gs\<rparr> d
    = (Inr (ro_currentKeyId room + 1), e, Some (r, ro_currentKeyId room + 1))"
proof -
  let ?k = "ro_currentKeyId room"
  obtain f where f: "increment_epoch r ?k d = (1, f)"
    using increment_epoch_count[OF assms(1), of r ?k] assms(2) by (cases "increment_epoch r ?k d") simp
  have "db_inv f" "grows d f"
    using increment_epoch_inv[OF assms(1) f] by simp_all
  then have members: "\<forall>g \<in> set gs. user_by_id f (gi_userId g) \<noteq> None"
    using gs members_are_users growsD(2) by metis
  have "room_by_id f r \<noteq> None"
    using increment_epoch_reached[of r ?k d f] f room_by_id_None[of f r] by (auto simp: epoch_reached_iff)
  then obtain e where "upsert_grants r gs f = (None, e)"
    using upsert_grants_total[OF _ members] by (metis prod.collapse)
  moreover have "\<forall>g \<in> set gs. gi_userId g \<in> set (map mb_userId (members_of d r))"
    using gs by (force simp: is_member_id_def members_of_def)
  ultimately show thesis
    using assms(3,4) gs f
    by (intro that[of e]) (auto simp: upload_grants_def upload_checks_def assert_member_def list_all_iff list_ex_iff
        upload_commit_def)
qed



text \<open>Publishing a key: the user's row holds it with its fingerprint, and the other rows stay.\<close>

definition publishes :: "rest_env \<Rightarrow> jstr \<Rightarrow> jstr \<Rightarrow> db \<Rightarrow> db \<Rightarrow> bool" where
  "publishes R u pk d e \<longleftrightarrow> (\<exists>v \<in> set (db_users e). us_id v = u \<and> us_publicKey v = Some pk
       \<and> us_publicKeyFp v = Some (au_fp (re_auth R) pk))
     \<and> filter (\<lambda>v. us_id v \<noteq> u) (db_users e) = filter (\<lambda>v. us_id v \<noteq> u) (db_users d)"

lemma set_public_key_publishes:
  assumes "set_public_key (re_auth R) u pk d = Inr (x, e)"
  shows "publishes R u pk d e"
proof -
  have "filter (\<lambda>v. us_id v \<noteq> u) (db_users e) = filter (\<lambda>v. us_id v \<noteq> u) (db_users d)"
    using assms by (auto simp: set_public_key_def Let_def bind_result_Inr update_user_key_def
        delete_grants_of_user_def filter_map comp_def intro!: map_idI split: if_splits)
  then show ?thesis using set_public_key_effect(4)[OF assms] by (simp add: publishes_def)
qed

lemma set_public_key_fails: "set_public_key A u pk d = Inl err \<Longrightarrow> u \<notin> us_id ` set (db_users d)"
  using user_by_id_None[of "delete_grants_of_user u d" u]
  by (auto simp: set_public_key_def Let_def update_user_key_def db_result_def delete_grants_of_user_def
      bind_result_def split: if_splits sum.splits)

text \<open>The server's part of publishing: it refuses, changing nothing, or publishes for the token's user.\<close>

lemma put_public_key_outcomes:
  assumes "base64_laws N" and "vlen_law (re_vlen R)" and "length pk = 32"
  shows "case ka_put_public_key (server_key_api R token) (sd_to_base64 N pk) d of (res, e) \<Rightarrow>
    (if res = HttpOk () then \<exists>u. token_of R token u \<and> publishes R u (sd_to_base64 N pk) d e
     else e = d \<and> (\<forall>u. token_of R token u \<longrightarrow> u \<notin> us_id ` set (db_users d)))"
proof (cases "re_verify R token")
  case None
  then show ?thesis
    by (simp add: server_key_api_def put_public_key_def guarded_def token_of_def http_unit_def)
next
  case (Some p)
  have dto: "set_public_key_dto (re_vlen R) (public_key_body (sd_to_base64 N pk)) = Some (sd_to_base64 N pk)"
    using assms by (intro public_key_accepted) (simp_all add: base64_laws_def)
  have "validated R (only_keys [''publicKey'']) (set_public_key_dto (re_vlen R))
      (json_stringify (public_key_body (sd_to_base64 N pk))) h d = h (sd_to_base64 N pk)"
    for h :: "jstr \<Rightarrow> (jstr \<times> jstr) http \<times> db"
    by (rule validated_printed) (use dto in \<open>simp_all add: public_key_body_def only_keys_def\<close>)
  then have put: "ka_put_public_key (server_key_api R token) (sd_to_base64 N pk) d =
      (case respond_with R (set_public_key (re_auth R) (fst p) (sd_to_base64 N pk) d) d of (res, e) \<Rightarrow> (http_unit res, e))"
    using Some by (auto simp: server_key_api_def put_public_key_def guarded_def jwt_validate_def)
  have tok: "token_of R token u \<longleftrightarrow> u = fst p" for u
    using Some by (cases p) (auto simp: token_of_def)
  show ?thesis
  proof (cases "set_public_key (re_auth R) (fst p) (sd_to_base64 N pk) d")
    case (Inl err)
    then show ?thesis
      using put set_public_key_fails[OF Inl] by (simp add: tok respond_with_def http_unit_def)
  next
    case (Inr x)
    then show ?thesis
      using put set_public_key_publishes[of R "fst p" "sd_to_base64 N pk" d "fst x" "snd x"]
      by (cases x) (simp add: tok respond_with_def http_unit_def)
  qed
qed

text \<open>C32. An identity is kept only once it is published, whatever becomes of the request. When the call
  fails, because the network does, the server refuses the token or answers with an error, or its answer
  is lost, the device's store is as it was, and the server's too unless it had published and only the
  answer was lost; the next call that is delivered with a registered user's token succeeds, with a pair
  of its own. When it succeeds, the device holds the pair and the server exactly its public key with its
  fingerprint for the token's user, whatever it holds for other users.\<close>

theorem identity_kept_only_if_published:
  assumes "kv_store K" and "base64_laws N" and "seal_laws N" and "vlen_law (re_vlen R)" and "get_identity K s = Inr None"
  shows "case ensure_identity_published N K (publish_over w (server_key_api R token)) seed s d of (res, s', d') \<Rightarrow>
    (case res of
       Inl e \<Rightarrow> s' = s
         \<and> (d' = d \<or> (\<exists>f u. w = AnswerLost f \<and> token_of R token u
              \<and> publishes R u (ik_publicKey (identity_of_seed N seed)) d d'))
         \<and> (\<forall>token' u seed'. token_of R token' u \<longrightarrow> u \<in> us_id ` set (db_users d')
              \<longrightarrow> succeeds (fst (ensure_identity_published N K (publish_over Delivered (server_key_api R token')) seed' s' d')))
     | Inr _ \<Rightarrow> w = Delivered \<and> get_identity K s' = Inr (Some (identity_of_seed N seed))
         \<and> (\<exists>u. token_of R token u \<and> publishes R u (ik_publicKey (identity_of_seed N seed)) d d'))"
proof -
  have len: "length (fst (sd_box_keypair N x)) = 32" for x
    using assms(3)[unfolded seal_laws_def, THEN spec, THEN spec, THEN spec, of "[]" "[]" x] by (auto split: prod.splits)
  define A where "A = publish_over w (server_key_api R token)"
  define pub where "pub = sd_to_base64 N (fst (sd_box_keypair N seed))"
  have pub: "ik_publicKey (identity_of_seed N seed) = pub"
    by (simp add: pub_def identity_of_seed_def split: prod.split)
  obtain res e where send: "ka_put_public_key (server_key_api R token) pub d = (res, e)" by fastforce
  have out: "if res = HttpOk () then \<exists>u. token_of R token u \<and> publishes R u pub d e
     else e = d \<and> (\<forall>u. token_of R token u \<longrightarrow> u \<notin> us_id ` set (db_users d))"
    using put_public_key_outcomes[OF assms(2,4) len, of token seed d] send by (simp add: pub_def)
  obtain res' d' where net: "over_network w (ka_put_public_key (server_key_api R token) pub) d = (res', d')" by fastforce
  have run: "ensure_identity_published N K A seed s d = (case auth_fetch res' of
      Inl err \<Rightarrow> (Inl err, s, d') | Inr _ \<Rightarrow> (Inr (), set_identity K (identity_of_seed N seed) s, d'))"
    using net assms(5)
    by (cases "sd_box_keypair N seed") (simp add: ensure_identity_published_def A_def publish_over_def pub_def identity_of_seed_def auth_fetch_HttpOk split: sum.split)
  have retry: "succeeds (fst (ensure_identity_published N K (publish_over Delivered (server_key_api R token')) seed' s d'))"
    if "token_of R token' u" "u \<in> us_id ` set (db_users d')" for token' u seed'
    using put_public_key_outcomes[OF assms(2,4) len, of token' seed' d'] that assms(5)
    by (auto simp: ensure_identity_published_def publish_over_def succeeds_iff auth_fetch_HttpOk split: prod.splits if_splits)
  show ?thesis
  proof (cases "auth_fetch res'")
    case (Inl err)
    have "d' = d \<or> (\<exists>f u. w = AnswerLost f \<and> token_of R token u \<and> publishes R u pub d d')"
      using net send out Inl by (cases w) (auto simp: auth_fetch_HttpOk split: if_splits)
    then show ?thesis using run Inl retry by (simp add: A_def pub)
  next
    case (Inr y)
    then have "w = Delivered" "res' = HttpOk ()" "res = HttpOk ()" "d' = e"
      using net send by (auto simp: over_network_HttpOk)
    then show ?thesis
      using run Inr out kv_store.get_set_identity[OF assms(1)] by (simp add: A_def pub auth_fetch_HttpOk)
  qed
qed

text \<open>One bad grant costs its own epoch only: after loading, the key the cipher holds for an epoch is
  the one cached for it, or else the one its own grant opens to, and an epoch whose grant does not
  open keeps what the cipher had, whatever the other grants were.\<close>

theorem bad_grants_are_isolated:
  assumes "kv_store K" and "get_identity K s = Inr (Some i)"
    and "ka_my_grants A r w = (HttpOk gs, w')" and "distinct (map gr_keyId gs)"
    and "sd_from_base64 N (ik_privateKey i) = Some sk" and "sd_from_base64 N (ik_publicKey i) = Some pk"
  shows "case fetch_and_load_my_grants N K A r s c w of (res, s', c', w'') \<Rightarrow> res = Inr ()
    \<and> map_of (ci_keysByEpoch c') k = (case find (\<lambda>g. gr_keyId g = k) gs of
        None \<Rightarrow> map_of (ci_keysByEpoch c) k
      | Some g \<Rightarrow> (case (case get_room_key K r k s of
            Some b \<Rightarrow> if b \<noteq> [] then sd_from_base64 N b
              else Option.bind (sd_from_base64 N (gr_wrappedKey g)) (\<lambda>x. sd_seal_open N x pk sk)
          | None \<Rightarrow> Option.bind (sd_from_base64 N (gr_wrappedKey g)) (\<lambda>x. sd_seal_open N x pk sk)) of
            None \<Rightarrow> map_of (ci_keysByEpoch c) k | Some key \<Rightarrow> Some key))"
proof -
  obtain s' c' where f: "fold (load_grant N K r pk sk) gs (s, c) = (s', c')"
    by (cases "fold (load_grant N K r pk sk) gs (s, c)")
  have "gr_keyId g = k" if "find (\<lambda>g. gr_keyId g = k) gs = Some g" for g
    using that by (auto simp: find_Some_iff)
  then show ?thesis
    using load_grants[OF assms(1,4), of N r pk sk s c k] assms(2,3,5,6) f
    by (auto simp: fetch_and_load_my_grants_def auth_fetch_HttpOk loaded_key_def Let_def split: option.splits)
qed

lemma upload_grants_authorised:
  assumes "upload_grants r u dto d = (res, e, ev)" and "e \<noteq> d \<or> succeeds res"
  shows "is_member_id d r u" and "db_rooms e \<noteq> db_rooms d \<Longrightarrow> succeeds res \<and> (\<exists>m. find_member d r u = Some m \<and> mb_role m = role_admin)"
proof -
  obtain p where p: "upload_checks d r u dto = Inr p" "upload_commit r p (up_grants dto) d = (res, e, ev)"
    using assms by (auto simp: upload_grants_def split: sum.splits)
  then have "\<exists>m. find_member d r u = Some m"
    by (auto simp: upload_checks_def bind_result_Inr assert_member_def split: option.splits)
  then show "is_member_id d r u"
    using find_member_iff[of d r u] by blast
  assume changed: "db_rooms e \<noteq> db_rooms d"
  then have "\<exists>k. p = Claim k"
    using p(2) upsert_grants_tables[of r "up_grants dto" d]
    by (cases p) (auto simp: upload_commit_def split: prod.splits option.splits)
  then show "succeeds res \<and> (\<exists>m. find_member d r u = Some m \<and> mb_role m = role_admin)"
    using p changed
    by (auto simp: upload_checks_def bind_result_Inr assert_member_def upload_commit_def
        split: option.splits if_splits prod.splits)
qed

lemma find_member_Some: "(\<exists>m. find_member d r u = Some m) \<longleftrightarrow> is_member_id d r u"
  using find_member_iff[of d r u] by blast

lemma guarded_member_read:
  "fst (guarded R token (\<lambda>user. (respond R (bind_result (assert_member d r (ru_userId user)) (h (ru_userId user))), d)) d) = HttpOk x
    \<Longrightarrow> \<exists>u. token_of R token u \<and> is_member_id d r u"
  by (auto simp: guarded_def jwt_validate_def token_of_def bind_result_Inr assert_member_def find_member_Some[symmetric]
      split: option.splits prod.splits)

text \<open>Room keys are for members: a room's grants, pending list and member keys are handed only to the
  token of a member, an upload that is answered or that changes anything comes from a member, and one
  that raises the room's epoch was answered and comes from an admin.\<close>

theorem key_endpoints_authorised:
  assumes "post_keys R token r body d = (res, e)"
  shows "(\<forall>x. fst (get_keys R token r d) = HttpOk x \<longrightarrow> (\<exists>u. token_of R token u \<and> is_member_id d r u))
    \<and> (\<forall>x. fst (get_keys_pending R token r d) = HttpOk x \<longrightarrow> (\<exists>u. token_of R token u \<and> is_member_id d r u))
    \<and> (\<forall>x. fst (get_keys_members R token r d) = HttpOk x \<longrightarrow> (\<exists>u. token_of R token u \<and> is_member_id d r u))
    \<and> ((\<exists>n. res = HttpOk n) \<or> e \<noteq> d \<longrightarrow> (\<exists>u. token_of R token u \<and> is_member_id d r u))
    \<and> (db_rooms e \<noteq> db_rooms d \<longrightarrow> (\<exists>n. res = HttpOk n)
         \<and> (\<exists>u m. token_of R token u \<and> find_member d r u = Some m \<and> mb_role m = role_admin))"
proof -
  have pending: "fst (get_keys_pending R token r d) = HttpOk x \<Longrightarrow> \<exists>u. token_of R token u \<and> is_member_id d r u" for x
    by (auto simp: get_keys_pending_def guarded_def jwt_validate_def token_of_def get_pending_def bind_result_Inr
        assert_member_def find_member_Some[symmetric] split: option.splits prod.splits)
  have upload: "\<exists>u dto ev sr. token_of R token u \<and> upload_grants r u dto d = (sr, e, ev) \<and> res = respond R sr"
    if c: "(\<exists>n. res = HttpOk n) \<or> e \<noteq> d"
  proof -
    obtain u name dto where "re_verify R token = Some (u, name)"
      "(case upload_grants r u dto d of (sr, e', _) \<Rightarrow> (respond R sr, e')) = (res, e)"
      using c assms by (auto simp: post_keys_def guarded_def validated_def jwt_validate_def split: option.splits)
    then show ?thesis
      by (cases "upload_grants r u dto d") (auto simp: token_of_def)
  qed
  have "(\<exists>n. res = HttpOk n) \<or> e \<noteq> d \<Longrightarrow> \<exists>u. token_of R token u \<and> is_member_id d r u"
    using upload upload_grants_authorised(1) by (fastforce simp: succeeds_iff)
  moreover have "db_rooms e \<noteq> db_rooms d \<Longrightarrow> (\<exists>n. res = HttpOk n)
      \<and> (\<exists>u m. token_of R token u \<and> find_member d r u = Some m \<and> mb_role m = role_admin)"
    using upload upload_grants_authorised(2) by (fastforce simp: succeeds_iff)
  ultimately show ?thesis
    using pending guarded_member_read[of R token d r "\<lambda>u _. Inr (sort_key gr_keyId (filter (\<lambda>g. gr_userId g = u) (grants_of d r)))"]
      guarded_member_read[of R token d r "\<lambda>_ _. Inr (List.map_filter (\<lambda>m. case user_by_id d (mb_userId m) of None \<Rightarrow> None
              | Some user \<Rightarrow> (case us_publicKey user of None \<Rightarrow> None
                  | Some pk \<Rightarrow> if pk = [] then None else Some (mb_userId m, pk))) (members_of d r))"]
    by (auto simp: get_keys_def get_keys_members_def get_my_grants_def get_members_with_public_keys_def)
qed

section \<open>Witnesses\<close>

text \<open>Tokens are user ids; \<open>a\<close> is the admin and \<open>b\<close> a member of room \<open>1\<close>.\<close>

definition sample_rest :: rest_env where
  "sample_rest = \<lparr>re_auth = sample_auth\<lparr>au_fp := hex_digest\<rparr>, re_vlen = length, re_is_email = (\<lambda>_. True),
     re_verify = (\<lambda>t. if t = [] then None else Some (t, t)), re_explain = (\<lambda>_. NoMessage),
     re_invalid = NoMessage, re_unauthorized = NoMessage\<rparr>"

definition sample_identity :: "8 word \<Rightarrow> identity_key_pair" where
  "sample_identity n = identity_of_seed sample_sodium [n]"

definition sample_pair_db :: "nat \<Rightarrow> db" where
  "sample_pair_db k = empty_db\<lparr>
     db_users := map (\<lambda>(u, n). sample_user u (Some (ik_publicKey (sample_identity n)))
       (Some (hex_digest (ik_publicKey (sample_identity n))))) [(js ''a'', 1), (js ''b'', 2)],
     db_rooms := [\<lparr>ro_id = js ''1'', ro_name = js ''team'', ro_yjsState = None, ro_currentKeyId = k\<rparr>],
     db_members := [\<lparr>mb_roomId = js ''1'', mb_userId = js ''a'', mb_role = role_admin\<rparr>,
       \<lparr>mb_roomId = js ''1'', mb_userId = js ''b'', mb_role = role_member\<rparr>]\<rparr>"

definition sample_room_key :: bytes where "sample_room_key = replicate 32 9"

definition sample_members :: "(jstr \<times> jstr) list" where
  "sample_members = [(js ''a'', ik_publicKey (sample_identity 1)), (js ''b'', ik_publicKey (sample_identity 2))]"

lemma sample_pair_inv: "db_inv (sample_pair_db k)"
  by (simp add: sample_pair_db_def inv_defs sample_user_def empty_db_def)

lemma sample_tokens [simp]: "token_of sample_rest (js ''a'') (js ''a'')" "token_of sample_rest (js ''b'') (js ''b'')"
  by (simp_all add: token_of_def sample_rest_def)

lemma sample_server_laws [simp]: "server_laws sample_rest sample_sodium" "vlen_law (re_vlen sample_rest)"
  by (simp_all add: server_laws_def sample_rest_def sample_sodium_def vlen_law_def)


lemma sample_store_of: "get_identity memory_storage (set_identity memory_storage i s) = Inr (Some i)"
  "get_room_key memory_storage r k (set_identity memory_storage i []) = None"
proof -
  show "get_identity memory_storage (set_identity memory_storage i s) = Inr (Some i)"
    by (rule memory.get_set_identity)
  show "get_room_key memory_storage r k (set_identity memory_storage i []) = None"
    unfolding memory.set_identity_keeps by (simp add: get_room_key_def memory_storage_def memory_get_def)
qed

lemma sample_enable:
  obtains s1 c1 d1 where "enable_or_rotate_room_key sample_sodium memory_storage (server_key_api sample_rest (js ''a''))
    sample_room_key (\<lambda>_. []) (js ''1'') 0 sample_members s new_cipher (sample_pair_db 0) = (Inr 1, s1, c1, d1)"
proof -
  let ?f = "\<lambda>(userId, publicKey). sealed_grant sample_sodium [] sample_room_key 1 userId publicKey"
  have pks: "\<forall>(v, pk) \<in> set sample_members. \<exists>x. pk = ik_publicKey (identity_of_seed sample_sodium x)"
    by (auto simp: sample_members_def sample_identity_def)
  obtain g h where gh: "?f (js ''a'', ik_publicKey (sample_identity 1)) = Some g" "?f (js ''b'', ik_publicKey (sample_identity 2)) = Some h"
    using sealed_grant_total[OF sample_base64_laws sample_seal_laws] by (force simp: sample_identity_def)
  then have grants: "all_some (map ?f sample_members) = Some [g, h]"
    by (simp add: sample_members_def)
  have len: "length sample_room_key = 32" by (simp add: sample_room_key_def)
  have ok: "\<forall>x \<in> set [g, h]. item_ok x" and keys: "map (\<lambda>g. (gi_userId g, gi_keyId g)) [g, h] = map (\<lambda>m. (fst m, 1)) sample_members"
    using minted_grants[OF sample_base64_laws sample_seal_laws sample_hash_laws len _ _ pks, where k = 1 and eph = "\<lambda>_. []"] grants
    by simp_all
  have "\<forall>x \<in> set [g, h]. is_member_id (sample_pair_db 0) (js ''1'') (gi_userId x) \<and> gi_keyId x = 1"
    using keys by (auto simp: sample_pair_db_def sample_members_def is_member_id_def)
  then obtain e where "upload_grants (js ''1'') (js ''a'') \<lparr>up_claimEpoch = Some 0, up_grants = [g, h]\<rparr> (sample_pair_db 0)
      = (Inr 1, e, Some (js ''1'', 1))"
    using claim_accepted[OF sample_pair_inv, of 0 "js ''1''" "\<lparr>ro_id = js ''1'', ro_name = js ''team'', ro_yjsState = None, ro_currentKeyId = 0\<rparr>"
      "js ''a''" "\<lparr>mb_roomId = js ''1'', mb_userId = js ''a'', mb_role = role_admin\<rparr>" "[g, h]"]
    by (auto simp: sample_pair_db_def room_by_id_def find_member_def)
  with posted_upload[OF sample_tokens(1) ok, of "Some 0" "js ''1''" "sample_pair_db 0"]
  have "ka_upload (server_key_api sample_rest (js ''a'')) (js ''1'') (Some 0) [g, h] (sample_pair_db 0) = (HttpOk 1, e)"
    by (simp add: respond_def)
  with grants sample_base64_laws show thesis
    by (intro that) (simp add: enable_or_rotate_room_key_def base64_laws_def auth_fetch_HttpOk Let_def)
qed


lemma identity_kept_only_if_published_witness:
  "case ensure_identity_published sample_sodium memory_storage
      (publish_over (NotReached (ErrorStatus 503 NoMessage)) (server_key_api sample_rest (js ''b''))) [7] [] (sample_pair_db 1) of
     (res, s', d') \<Rightarrow> s' = [] \<and> d' = sample_pair_db 1
       \<and> succeeds (fst (ensure_identity_published sample_sodium memory_storage
           (publish_over Delivered (server_key_api sample_rest (js ''b''))) [8] s' d'))"
proof -
  have none: "get_identity memory_storage [] = Inr None"
    by (simp add: get_identity_def memory_storage_def memory_get_def)
  have user: "js ''b'' \<in> us_id ` set (db_users (sample_pair_db 1))"
    by (simp add: sample_pair_db_def sample_user_def)
  obtain res s' d' where run: "ensure_identity_published sample_sodium memory_storage
      (publish_over (NotReached (ErrorStatus 503 NoMessage)) (server_key_api sample_rest (js ''b''))) [7] [] (sample_pair_db 1) = (res, s', d')"
    by (metis prod_cases3)
  note C = identity_kept_only_if_published[OF memory.kv_store_axioms sample_base64_laws sample_seal_laws sample_server_laws(2) none,
      where w = "NotReached (ErrorStatus 503 NoMessage)" and token = "js ''b''" and seed = "[7]" and d = "sample_pair_db 1",
      unfolded run prod.case]
  have "\<exists>e. res = Inl e" using C by (cases res) simp_all
  then obtain e where e: "res = Inl e" by blast
  have same: "s' = []" "d' = sample_pair_db 1" using C e by auto
  have "succeeds (fst (ensure_identity_published sample_sodium memory_storage
           (publish_over Delivered (server_key_api sample_rest (js ''b''))) [8] s' d'))"
    using C sample_tokens(2) user unfolding e sum.case same(2) by blast
  then show ?thesis unfolding run prod.case using same by blast
qed

lemma bad_grants_are_isolated_witness:
  "case fetch_and_load_my_grants sample_sodium memory_storage (server_key_api sample_rest (js ''b'')) (js ''1'')
      (set_identity memory_storage (sample_identity 2) []) (set_key 4 [1] new_cipher) (sample_pair_db 1) of
     (res, s', c', d') \<Rightarrow> res = Inr () \<and> map_of (ci_keysByEpoch c') 4 = Some [1]"
proof -
  have api: "ka_my_grants (server_key_api sample_rest (js ''b'')) (js ''1'') (sample_pair_db 1) = (HttpOk [], sample_pair_db 1)"
    by (simp add: server_key_api_def get_keys_def guarded_def jwt_validate_def sample_rest_def get_my_grants_def
        assert_member_def find_member_def sample_pair_db_def grants_of_def respond_def empty_db_def)
  obtain pk sk where "sd_from_base64 sample_sodium (ik_privateKey (sample_identity 2)) = Some sk"
    "sd_from_base64 sample_sodium (ik_publicKey (sample_identity 2)) = Some pk"
    using sample_base64_laws by (cases "sd_box_keypair sample_sodium [2]")
      (simp add: sample_identity_def identity_of_seed_def base64_laws_def)
  from bad_grants_are_isolated[OF memory.kv_store_axioms sample_store_of(1)[where s = "[]"] api _ this, where c = "set_key 4 [1] new_cipher" and k = 4]
  show ?thesis by (simp add: new_cipher_def split: prod.splits)
qed

lemma key_endpoints_authorised_witness:
  "\<exists>u. token_of sample_rest (js ''b'') u \<and> is_member_id (sample_pair_db 1) (js ''1'') u"
proof -
  have "fst (get_keys sample_rest (js ''b'') (js ''1'') (sample_pair_db 1)) = HttpOk []"
    by (simp add: get_keys_def guarded_def jwt_validate_def sample_rest_def get_my_grants_def
        assert_member_def find_member_def sample_pair_db_def grants_of_def respond_def empty_db_def)
  moreover obtain res e where "post_keys sample_rest (js ''b'') (js ''1'') [] (sample_pair_db 1) = (res, e)"
    by (cases "post_keys sample_rest (js ''b'') (js ''1'') [] (sample_pair_db 1)")
  ultimately show ?thesis
    using key_endpoints_authorised by metis
qed

end
