(* ===== verification/Room_Session.thy ===== *)
theory Room_Session
  imports Encryption Persistence Rooms_Store Chat_Store
begin

text \<open>
  \<open>hooks/useSync.ts\<close>: what one mounted room screen keeps running. The engine's document, its local
  persistence and the provider are composed with the chat and rooms stores they report to, and the
  provider's callbacks are the handlers given here. The effect of the hook is cut at its awaits; the
  documents of screens that were torn down stay behind with the writes they still have in flight.
\<close>

section \<open>State\<close>

datatype membership_status = MsUnknown | MsOk | MsNotAMember

text \<open>
  A cipher is an object that the stores refer to: \<open>ss_ciphers\<close> holds them by address. \<open>ss_loggedOut\<close>
  is set by \<open>logout()\<close>; \<open>ss_generation\<close> is \<open>docGeneration\<close>; \<open>ss_store\<close> the rows of \<open>chat.db\<close>.
\<close>

record ('d, 'a, 's, 'k) session =
  ss_chat :: "nat chat_state"
  ss_ciphers :: "nat \<Rightarrow> cipher"
  ss_rooms :: "'k rooms_state"
  ss_refresher :: refresher
  ss_stash :: "jstr \<Rightarrow> message list option"
  ss_loggedOut :: bool
  ss_membership :: membership_status
  ss_generation :: nat
  ss_contentCipher :: "nat option"
  ss_mounted :: bool
  ss_listening :: bool
  ss_local :: "('d, 's) persistence"
  ss_provider :: "('d, 'a) provider option"
  ss_retired :: "('d, 's) persistence list"
  ss_store :: 's

record ('d, 'a, 's, 'k) session_env =
  se_pv :: "('d, 'a) provider_env"
  se_kv :: "'s kv_ops"
  se_secure :: "'k kv_ops"
  se_sodium :: sodium

type_synonym ('d, 'a, 's, 'k) session_update = "('d, 'a, 's, 'k) session \<Rightarrow> ('d, 'a, 's, 'k) session"

definition not_member_close_code :: nat where "not_member_close_code = 4003"

definition se_yjs :: "('d, 'a, 's, 'k) session_env \<Rightarrow> 'd yjs" where
  "se_yjs X = pe_yjs (se_pv X)"

definition se_room :: "('d, 'a, 's, 'k) session_env \<Rightarrow> jstr" where
  "se_room X = cfg_roomId (pe_cfg (se_pv X))"

definition se_user :: "('d, 'a, 's, 'k) session_env \<Rightarrow> jstr" where
  "se_user X = cfg_userId (pe_cfg (se_pv X))"

definition stash_key :: "('d, 'a, 's, 'k) session_env \<Rightarrow> jstr" where
  "stash_key X = se_user X @ js '':'' @ se_room X"

section \<open>The room's refresh\<close>

definition refresh_room :: "jstr \<Rightarrow> ('d, 'a, 's, 'k) session_update" where
  "refresh_room room s = (case refresh room (ss_refresher s) of (r, fx) \<Rightarrow>
     s\<lparr>ss_refresher := r, ss_rooms := fold apply_refresher_effect fx (ss_rooms s)\<rparr>)"

definition stop_room_refresh :: "jstr \<Rightarrow> ('d, 'a, 's, 'k) session_update" where
  "stop_room_refresh room s = (case stop room (ss_refresher s) of (r, fx) \<Rightarrow>
     s\<lparr>ss_refresher := r, ss_rooms := fold apply_refresher_effect fx (ss_rooms s)\<rparr>)"

definition enter_room :: "('d, 'a, 's, 'k) session_env \<Rightarrow> ('d, 'a, 's, 'k) session_update" where
  "enter_room X s = (if ss_loggedOut s \<or> se_room X = default_room then s else refresh_room (se_room X) s)"

definition leave_room :: "('d, 'a, 's, 'k) session_env \<Rightarrow> ('d, 'a, 's, 'k) session_update" where
  "leave_room X s = (if ss_loggedOut s \<or> se_room X = default_room then s else stop_room_refresh (se_room X) s)"

section \<open>The callbacks\<close>

definition fetch_rooms :: "('d, 'a, 's, 'k) session_update" where
  "fetch_rooms s = s\<lparr>ss_rooms := snd (fetch_rooms_begin (\<not> ss_loggedOut s) (ss_rooms s))\<rparr>"

text \<open>The subscription to the messages.\<close>

definition on_messages :: "('d, 'a, 's, 'k) session_env \<Rightarrow> message list \<Rightarrow> ('d, 'a, 's, 'k) session_update" where
  "on_messages X msgs s =
     (let s = s\<lparr>ss_chat := set_messages (se_room X) msgs (ss_chat s)\<rparr>
      in if se_room X = default_room then s
         else (case find (\<lambda>r. sm_name r = se_room X) (rm_rooms (ss_rooms s)) of
             None \<Rightarrow> s
           | Some summary \<Rightarrow>
               if sm_currentKeyId summary = 0 \<and> list_ex (\<lambda>m. starts_with (m_content m) e2ee_prefix) msgs
               then fetch_rooms s else s))"

definition on_status_change :: "('d, 'a, 's, 'k) session_env \<Rightarrow> status \<Rightarrow> ('d, 'a, 's, 'k) session_update" where
  "on_status_change X st s =
     (let s = s\<lparr>ss_chat := set_ws_status (se_room X) st (ss_chat s)\<rparr>
      in if st = StConnected \<and> se_room X \<noteq> default_room then refresh_room (se_room X) s else s)"

definition note_epoch :: "('d, 'a, 's, 'k) session_env \<Rightarrow> nat \<Rightarrow> ('d, 'a, 's, 'k) session_update" where
  "note_epoch X keyId s = s\<lparr>ss_rooms := note_room_epoch (se_secure X) (se_room X) keyId (ss_rooms s)\<rparr>"

definition on_room_epoch :: "('d, 'a, 's, 'k) session_env \<Rightarrow> nat \<Rightarrow> ('d, 'a, 's, 'k) session_update" where
  "on_room_epoch X keyId s = (if se_room X \<noteq> default_room then note_epoch X keyId s else s)"

text \<open>The cipher of the store, or the one the engine was built with.\<close>

definition current_cipher :: "('d, 'a, 's, 'k) session_env \<Rightarrow> ('d, 'a, 's, 'k) session \<Rightarrow> cipher option" where
  "current_cipher X s = map_option (ss_ciphers s)
     (case ch_roomCryptoByRoom (ss_chat s) (se_room X) of
        Some x \<Rightarrow> Some (rc_cipher x) | None \<Rightarrow> ss_contentCipher s)"

definition on_e2ee_rejected ::
  "('d, 'a, 's, 'k) session_env \<Rightarrow> nat \<Rightarrow> message list \<Rightarrow> ('d, 'a, 's, 'k) session_update" where
  "on_e2ee_rejected X keyId retracted s =
     (let s = note_epoch X keyId s;
          cipher = current_cipher X s;
          ours = filter (\<lambda>m. m_userId m = se_user X) retracted
      in if ours = [] then s
         else (case claim_restored_messages (map m_id ours) (ss_chat s) of (fresh, chat) \<Rightarrow>
           if fresh = [] then s\<lparr>ss_chat := chat\<rparr>
           else (let text = rejected_draft_text (filter (\<lambda>m. m_id m \<in> set fresh) ours) (se_user X)
                              (map_option (cipher_decrypt (se_sodium X)) cipher)
                 in s\<lparr>ss_chat := note_e2ee_rejection (se_room X)
                        (case text of None \<Rightarrow> [] | Some t \<Rightarrow> t) Restored chat\<rparr>)))"

definition on_unrecoverable :: "('d, 'a, 's, 'k) session_env \<Rightarrow> nat \<Rightarrow> ('d, 'a, 's, 'k) session_update" where
  "on_unrecoverable X keyId s =
     (let s = note_epoch X keyId s;
          ours = filter (\<lambda>m. m_userId m = se_user X \<and> starts_with (m_content m) e2ee_prefix)
                   (y_messages (se_yjs X) (ps_doc (ss_local s)));
          saved = (case ss_stash s (stash_key X) of None \<Rightarrow> [] | Some ms \<Rightarrow> ms)
      in s\<lparr>ss_stash := (ss_stash s)(stash_key X := Some (saved @ ours)),
           ss_chat := note_e2ee_rejection (se_room X) [] Resynced (ss_chat s),
           ss_local := ps_discard (ss_local s)\<rparr>)"

text \<open>
  The document of the engine has changed: the update event reaches the persistence, and the
  observers of the array are told when the messages changed.
\<close>

definition engine_changed :: "('d, 'a, 's, 'k) session_env \<Rightarrow> 'd \<Rightarrow> ('d, 'a, 's, 'k) session_update" where
  "engine_changed X d s =
     (let old = ps_doc (ss_local s);
          s = s\<lparr>ss_local := (if y_delta (se_yjs X) old d = None then (ss_local s)\<lparr>ps_doc := d\<rparr>
                             else doc_changed d (ss_local s))\<rparr>
      in if ss_listening s \<and> y_messages (se_yjs X) old \<noteq> y_messages (se_yjs X) d
         then on_messages X (y_messages (se_yjs X) d) s else s)"

text \<open>A transaction of the app itself, which the provider sends or queues.\<close>

definition engine_transaction :: "('d, 'a, 's, 'k) session_env \<Rightarrow> 'd \<Rightarrow> ('d, 'a, 's, 'k) session_update" where
  "engine_transaction X d s =
     engine_changed X d (s\<lparr>ss_provider := map_option (\<lambda>p. fst (local_transaction (se_pv X) d p)) (ss_provider s)\<rparr>)"

definition on_synced :: "('d, 'a, 's, 'k) session_env \<Rightarrow> ('d, 'a, 's, 'k) session_update" where
  "on_synced X s = (case ss_stash s (stash_key X) of
     None \<Rightarrow> s
   | Some stash \<Rightarrow>
       (let s = s\<lparr>ss_stash := (ss_stash s)(stash_key X := None)\<rparr>
        in engine_transaction X (fst (reinsert_messages (se_yjs X) stash (ps_doc (ss_local s)))) s))"

definition on_auth_error :: "nat \<Rightarrow> ('d, 'a, 's, 'k) session_update" where
  "on_auth_error code s =
     (if code = not_member_close_code then s\<lparr>ss_membership := MsNotAMember\<rparr>
      else s\<lparr>ss_loggedOut := True, ss_chat := clear_all_e2ee_rejections (ss_chat s)\<rparr>)"

text \<open>The configuration the provider is given: which callback each of its effects calls.\<close>

fun on_effect :: "('d, 'a, 's, 'k) session_env \<Rightarrow> effect \<Rightarrow> ('d, 'a, 's, 'k) session_update" where
  "on_effect X (StatusChange st) s = on_status_change X st s"
| "on_effect X (RoomEpoch k) s = on_room_epoch X k s"
| "on_effect X (E2eeRejected k ms) s = on_e2ee_rejected X k ms s"
| "on_effect X (Unrecoverable k) s = on_unrecoverable X k s"
| "on_effect X Synced s = on_synced X s"
| "on_effect X (AuthError code) s = on_auth_error code s"
| "on_effect X (Send b) s = s"
| "on_effect X OpenSocket s = s"
| "on_effect X CloseSocket s = s"

section \<open>The effect\<close>

definition mount_session :: "('d, 'a, 's, 'k) session_env \<Rightarrow> ('d, 'a, 's, 'k) session_update" where
  "mount_session X s =
     (if ss_loggedOut s then s
      else s\<lparr>ss_mounted := True, ss_listening := False, ss_provider := None,
             ss_chat := register_mount (se_room X) (ss_chat s),
             ss_local := new_persistence (se_user X) (se_room X) (y_new (se_yjs X)) (ss_store s)\<rparr>)"

definition cleanup_session :: "('d, 'a, 's, 'k) session_env \<Rightarrow> ('d, 'a, 's, 'k) session_update" where
  "cleanup_session X s =
     (if \<not> ss_mounted s then s
      else s\<lparr>ss_mounted := False, ss_listening := False, ss_provider := None,
             ss_chat := clear_room (se_room X) (ss_chat s),
             ss_retired := ss_retired s @ [ps_destroy (se_yjs X) (ss_local s)]\<rparr>)"

text \<open>What follows \<open>persistence.load()\<close>; a load that was rejected leaves the screen as it is.\<close>

definition loaded_session ::
  "('d, 'a, 's, 'k) session_env \<Rightarrow> ('d, 'a, 's, 'k) session \<Rightarrow> ('d, 'a, 's, 'k) session \<times> effect list" where
  "loaded_session X s = (case ps_loading (ss_local s) of
     None \<Rightarrow> (s, [])
   | Some raw \<Rightarrow> (case load_finish (se_yjs X) raw (ss_local s) of
       None \<Rightarrow> (s\<lparr>ss_local := (ss_local s)\<lparr>ps_loading := None\<rparr>\<rparr>, [])
     | Some l \<Rightarrow> (case construct (se_pv X) (ps_doc l) of (p, fx) \<Rightarrow>
         ((fold (on_effect X) fx (s\<lparr>ss_local := l, ss_listening := True, ss_provider := Some p,
             ss_chat := set_messages (se_room X) (y_messages (se_yjs X) (ps_doc l)) (ss_chat s)\<rparr>))
            \<lparr>ss_membership := MsOk\<rparr>, fx))))"

text \<open>\<open>sendMessage\<close> and \<open>sendTyping\<close>; an error of the engine is thrown to the caller.\<close>

definition session_send ::
  "('d, 'a, 's, 'k) session_env \<Rightarrow> jstr \<Rightarrow> int \<Rightarrow> bytes \<Rightarrow> jstr \<Rightarrow> ('d, 'a, 's, 'k) session
    \<Rightarrow> cipher_error send_error option \<times> ('d, 'a, 's, 'k) session" where
  "session_send X mid now nonce content s =
     (if \<not> ss_mounted s then (None, s)
      else (case send_message (se_yjs X) (pe_cfg (se_pv X))
              (map_option (\<lambda>a. cipher_encrypt (se_sodium X) nonce (ss_ciphers s a)) (ss_contentCipher s))
              mid now content (ps_doc (ss_local s)) of
          Inl e \<Rightarrow> (Some e, s)
        | Inr (_, d) \<Rightarrow> (None, engine_transaction X d s)))"

definition session_typing :: "('d, 'a, 's, 'k) session_env \<Rightarrow> bool \<Rightarrow> ('d, 'a, 's, 'k) session_update" where
  "session_typing X isTyping s = s\<lparr>ss_provider :=
     map_option (\<lambda>p. fst (send_awareness (se_pv X) [(js ''isTyping'', JBool isTyping)] p)) (ss_provider s)\<rparr>"

text \<open>An event of the provider's socket or timer: the document it leaves, then its callbacks.\<close>

definition provider_event ::
  "('d, 'a, 's, 'k) session_env \<Rightarrow> 'd event \<Rightarrow> ('d, 'a) provider \<Rightarrow> ('d, 'a, 's, 'k) session
    \<Rightarrow> ('d, 'a, 's, 'k) session \<times> effect list" where
  "provider_event X e p s = (case pv_step (se_pv X) e p of (q, fx) \<Rightarrow>
     (fold (on_effect X) fx (engine_changed X (p_doc q) (s\<lparr>ss_provider := Some q\<rparr>)), fx))"

text \<open>A document's persistence works on the shared rows.\<close>

definition local_step ::
  "('d, 'a, 's, 'k) session_env \<Rightarrow> 'd ps_event \<Rightarrow> ('d, 's) persistence \<Rightarrow> 's \<Rightarrow> (('d, 's) persistence \<times> 's) option" where
  "local_step X e p st = map_option (\<lambda>q. (q, ps_store q))
     (ps_step (se_yjs X) (se_kv X) (should_adopt_legacy_doc (se_user X)) e (p\<lparr>ps_store := st\<rparr>))"

section \<open>Steps\<close>

datatype 'd session_event =
    Enter
  | Leave
  | Mount
  | Unmount
  | Rerun "nat option"
  | LoadReads
  | Loaded
  | LocalTimer
  | LocalWrite bool
  | Discarded
  | RetiredStep nat "'d ps_event"
  | ProviderEvent "'d event"
  | SendMessage jstr int bytes jstr
  | SendTyping bool
  | RoomsEvent rooms_event
  | ChatEvent "nat chat_event"
  | CipherChanges nat cipher

text \<open>
  The socket and timer events of the provider; edits, typing and destruction go through the hook.
  Other parts of the app use the stores at any time, but not this room's messages, status and mounts.
\<close>

fun from_socket :: "'d event \<Rightarrow> bool" where
  "from_socket (LocalEdit d) \<longleftrightarrow> False"
| "from_socket (Typing fs) \<longleftrightarrow> False"
| "from_socket Destroy \<longleftrightarrow> False"
| "from_socket _ \<longleftrightarrow> True"

fun other_screen :: "jstr \<Rightarrow> nat chat_event \<Rightarrow> bool" where
  "other_screen room (SetMessages r ms) \<longleftrightarrow> r \<noteq> room"
| "other_screen room (SetWsStatus r w) \<longleftrightarrow> r \<noteq> room"
| "other_screen room (RegisterMount r) \<longleftrightarrow> r \<noteq> room"
| "other_screen room (ClearRoom r) \<longleftrightarrow> r \<noteq> room"
| "other_screen room _ \<longleftrightarrow> True"

definition own_local_step ::
  "('d, 'a, 's, 'k) session_env \<Rightarrow> 'd ps_event \<Rightarrow> ('d, 'a, 's, 'k) session \<Rightarrow> ('d, 'a, 's, 'k) session option" where
  "own_local_step X e s = (if \<not> ss_mounted s then None
     else map_option (\<lambda>(q, st). s\<lparr>ss_local := q, ss_store := st\<rparr>) (local_step X e (ss_local s) (ss_store s)))"

fun session_step ::
  "('d, 'a, 's, 'k) session_env \<Rightarrow> 'd session_event \<Rightarrow> ('d, 'a, 's, 'k) session
    \<Rightarrow> (('d, 'a, 's, 'k) session \<times> effect list) option" where
  "session_step X Enter s = Some (enter_room X s, [])"
| "session_step X Leave s = Some (leave_room X s, [])"
| "session_step X Mount s = (if ss_mounted s then None else Some (mount_session X s, []))"
| "session_step X Unmount s = Some (cleanup_session X s, [])"
| "session_step X (Rerun c) s = (if ss_mounted s
     then Some (mount_session X ((cleanup_session X s)\<lparr>ss_contentCipher := c\<rparr>), []) else None)"
| "session_step X LoadReads s = (if ss_provider s = None \<and> ps_loading (ss_local s) = None
     then map_option (\<lambda>t. (t, [])) (own_local_step X PsLoadRead s) else None)"
| "session_step X Loaded s = (if ss_mounted s \<and> ss_provider s = None then Some (loaded_session X s) else None)"
| "session_step X LocalTimer s = map_option (\<lambda>t. (t, [])) (own_local_step X PsTimer s)"
| "session_step X (LocalWrite ok) s = map_option (\<lambda>t. (t, [])) (own_local_step X (PsWrite ok) s)"
| "session_step X Discarded s = map_option (\<lambda>t. (t\<lparr>ss_generation := ss_generation t + 1\<rparr>, []))
     (own_local_step X PsRemove s)"
| "session_step X (RetiredStep i e) s = (if i < length (ss_retired s)
     then map_option (\<lambda>(q, st). (s\<lparr>ss_retired := (ss_retired s)[i := q], ss_store := st\<rparr>, []))
            (local_step X e (ss_retired s ! i) (ss_store s))
     else None)"
| "session_step X (ProviderEvent e) s = (case ss_provider s of
     None \<Rightarrow> None
   | Some p \<Rightarrow> if enabled e p \<and> from_socket e then Some (provider_event X e p s) else None)"
| "session_step X (SendMessage mid now nonce content) s = Some (snd (session_send X mid now nonce content s), [])"
| "session_step X (SendTyping b) s = Some (session_typing X b s, [])"
| "session_step X (RoomsEvent e) s = Some (s\<lparr>ss_rooms := rooms_step (se_secure X) e (ss_rooms s)\<rparr>, [])"
| "session_step X (ChatEvent e) s = (if other_screen (se_room X) e
     then Some (s\<lparr>ss_chat := fst (chat_step e (ss_chat s))\<rparr>, []) else None)"
| "session_step X (CipherChanges a c) s = Some (s\<lparr>ss_ciphers := (ss_ciphers s)(a := c)\<rparr>, [])"

fun session_run ::
  "('d, 'a, 's, 'k) session_env \<Rightarrow> 'd session_event list \<Rightarrow> ('d, 'a, 's, 'k) session
    \<Rightarrow> (('d, 'a, 's, 'k) session \<times> effect list) option" where
  "session_run X [] s = Some (s, [])"
| "session_run X (e # es) s = (case session_step X e s of
     None \<Rightarrow> None
   | Some (t, fx) \<Rightarrow> map_option (\<lambda>(u, gx). (u, fx @ gx)) (session_run X es t))"

definition idle_session :: "'k rooms_state \<Rightarrow> 's \<Rightarrow> 'd \<Rightarrow> ('d, 'a, 's, 'k) session" where
  "idle_session rooms st d = \<lparr>ss_chat = new_chat_state, ss_ciphers = (\<lambda>_. new_cipher), ss_rooms = rooms,
     ss_refresher = new_refresher, ss_stash = (\<lambda>_. None), ss_loggedOut = False, ss_membership = MsUnknown,
     ss_generation = 0, ss_contentCipher = None, ss_mounted = False, ss_listening = False,
     ss_local = new_persistence [] [] d st, ss_provider = None, ss_retired = [], ss_store = st\<rparr>"

section \<open>Lemmas\<close>

text \<open>The status last announced by a list of effects.\<close>

fun status_after :: "effect \<Rightarrow> status \<Rightarrow> status" where
  "status_after (StatusChange st) w = st"
| "status_after _ w = w"

lemma status_kept: "(\<And>st. StatusChange st \<notin> set fx) \<Longrightarrow> fold status_after fx w = w"
proof (induction fx arbitrary: w)
  case (Cons x fx)
  then have "status_after x w = w" by (cases x) auto
  with Cons show ?case by simp
qed simp

lemma message_status: "p_status (fst (on_message E m p)) = p_status p"
  by (rule on_message_cases[of E m p])
    (auto simp: handle_sync_def handle_rejection_def local_transaction_eq andThen_def pv_send_def Let_def
      split: option.splits prod.splits)

lemma message_announces_no_status: "StatusChange st \<notin> set (snd (on_message E m p))"
  by (rule on_message_cases[of E m p])
    (auto simp: handle_sync_effects split: option.splits dest: handle_rejection_effects)

lemma announced_status: "fold status_after (snd (pv_step E e p)) (p_status p) = p_status (fst (pv_step E e p))"
proof (cases e)
  case (SocketMessage m)
  then show ?thesis
    by (simp add: pv_step_def message_status status_kept[OF message_announces_no_status])
next
  case SocketOpen
  have "fold status_after (map (\<lambda>u. Send (f u)) us) w = w" for f us w
    by (rule status_kept) auto
  with SocketOpen show ?thesis
    by (simp add: pv_step_def pv_ops flush_loop_eq)
qed (auto simp: pv_step_def pv_ops flush_loop_eq Let_def split: option.splits)

text \<open>What the callbacks leave alone, and what a change of the engine's document shows.\<close>

lemma chat_fields [simp]:
  "ch_messagesByRoom (note_e2ee_rejection r t k c) = ch_messagesByRoom c"
  "ch_wsStatusByRoom (note_e2ee_rejection r t k c) = ch_wsStatusByRoom c"
  "ch_mountCounts (note_e2ee_rejection r t k c) = ch_mountCounts c"
  "ch_messagesByRoom (clear_all_e2ee_rejections c) = ch_messagesByRoom c"
  "ch_wsStatusByRoom (clear_all_e2ee_rejections c) = ch_wsStatusByRoom c"
  "ch_mountCounts (clear_all_e2ee_rejections c) = ch_mountCounts c"
  "ch_messagesByRoom (snd (claim_restored_messages ids c)) = ch_messagesByRoom c"
  "ch_wsStatusByRoom (snd (claim_restored_messages ids c)) = ch_wsStatusByRoom c"
  "ch_mountCounts (snd (claim_restored_messages ids c)) = ch_mountCounts c"
  by (simp_all add: chat_defs)

definition view where
  "view s = (ch_messagesByRoom (ss_chat s), ch_wsStatusByRoom (ss_chat s), ch_mountCounts (ss_chat s),
     ss_provider s, ps_doc (ss_local s), ss_mounted s, ss_listening s)"

lemma refresh_room_view [simp]: "view (refresh_room r s) = view s"
  by (simp add: refresh_room_def view_def split: prod.split)

lemma rejected_view [simp]: "view (on_e2ee_rejected X k ms s) = view s"
proof -
  have *: "ch_messagesByRoom c = ch_messagesByRoom (ss_chat s)" "ch_wsStatusByRoom c = ch_wsStatusByRoom (ss_chat s)"
    "ch_mountCounts c = ch_mountCounts (ss_chat s)"
    if "claim_restored_messages ids (ss_chat s) = (fresh, c)" for ids fresh c
    using that by (auto simp: chat_defs)
  show ?thesis
    by (auto simp: on_e2ee_rejected_def view_def note_epoch_def Let_def split: prod.split dest: *)
qed

lemma effect_view:
  assumes "x \<noteq> Synced" and "\<And>st. x \<noteq> StatusChange st"
  shows "view (on_effect X x s) = view s"
proof (cases x)
  case (E2eeRejected k ms)
  then show ?thesis by simp
qed (use assms in \<open>simp_all add: on_room_epoch_def note_epoch_def on_unrecoverable_def on_auth_error_def view_def
      ps_discard_def Let_def\<close>)


lemma on_messages_view:
  "view (on_messages X msgs s) = view (s\<lparr>ss_chat := set_messages (se_room X) msgs (ss_chat s)\<rparr>)"
  by (simp add: on_messages_def fetch_rooms_def view_def Let_def split: option.split)

definition showing where
  "showing X w0 w s \<longleftrightarrow> ss_mounted s \<and> ss_listening s \<and> ch_mountCounts (ss_chat s) (se_room X) = Some 1
     \<and> ch_messagesByRoom (ss_chat s) (se_room X) = Some (y_messages (se_yjs X) (ps_doc (ss_local s)))
     \<and> ch_wsStatusByRoom (ss_chat s) (se_room X) = Some w
     \<and> (\<exists>p. ss_provider s = Some p \<and> provider_inv p \<and> p_doc p = ps_doc (ss_local s) \<and> p_status p = w0)"

lemma showing_view: "view s = view t \<Longrightarrow> showing X w0 w s = showing X w0 w t"
  by (simp add: view_def showing_def)

text \<open>A document of the engine that is shown stays shown when it changes.\<close>

lemma engine_changed_showing:
  assumes "ss_mounted s" and "ss_listening s" and "ch_mountCounts (ss_chat s) (se_room X) = Some 1"
    and "ch_messagesByRoom (ss_chat s) (se_room X) = Some (y_messages (se_yjs X) (ps_doc (ss_local s)))"
    and "ch_wsStatusByRoom (ss_chat s) (se_room X) = Some w"
    and "ss_provider s = Some p" and "provider_inv p" and "p_doc p = d" and "p_status p = w0"
  shows "showing X w0 w (engine_changed X d s)"
proof -
  define t where "t = s\<lparr>ss_local := (if y_delta (se_yjs X) (ps_doc (ss_local s)) d = None
    then (ss_local s)\<lparr>ps_doc := d\<rparr> else doc_changed d (ss_local s))\<rparr>"
  have t: "ps_doc (ss_local t) = d" "ss_chat t = ss_chat s" "ss_provider t = ss_provider s"
    "ss_mounted t" "ss_listening t"
    using assms(1,2) by (simp_all add: t_def doc_changed_def)
  have e: "engine_changed X d s = (if y_messages (se_yjs X) (ps_doc (ss_local s)) \<noteq> y_messages (se_yjs X) d
      then on_messages X (y_messages (se_yjs X) d) t else t)"
    using assms(2) by (simp add: engine_changed_def t_def Let_def)
  show ?thesis
  proof (cases "y_messages (se_yjs X) (ps_doc (ss_local s)) = y_messages (se_yjs X) d")
    case True
    with e t assms show ?thesis by (simp add: showing_def)
  next
    case False
    with e have "view (engine_changed X d s) = view (t\<lparr>ss_chat := set_messages (se_room X) (y_messages (se_yjs X) d) (ss_chat t)\<rparr>)"
      by (simp add: on_messages_view)
    then have "showing X w0 w (engine_changed X d s)
        = showing X w0 w (t\<lparr>ss_chat := set_messages (se_room X) (y_messages (se_yjs X) d) (ss_chat t)\<rparr>)"
      by (rule showing_view)
    also have "\<dots>"
      using t assms by (simp add: showing_def chat_defs)
    finally show ?thesis .
  qed
qed

lemma transaction_showing:
  assumes "showing X w0 w s"
  shows "showing X w0 w (engine_transaction X d s)"
proof -
  obtain p where p: "ss_provider s = Some p" "provider_inv p" "p_status p = w0"
    using assms by (auto simp: showing_def)
  let ?q = "fst (local_transaction (se_pv X) d p)"
  have "provider_inv ?q" by (rule inv_local_transaction[OF p(2)])
  moreover have "p_doc ?q = d" "p_status ?q = w0"
    using p(3) by (simp_all add: local_transaction_eq)
  ultimately show ?thesis
    unfolding engine_transaction_def using assms p
    by (intro engine_changed_showing[where p = ?q]) (simp_all add: showing_def)
qed

lemma effect_showing:
  assumes "showing X w0 w s"
  shows "showing X w0 (status_after x w) (on_effect X x s)"
proof (cases x)
  case (StatusChange st)
  have "view (on_effect X x s) = view (s\<lparr>ss_chat := set_ws_status (se_room X) st (ss_chat s)\<rparr>)"
    by (simp add: StatusChange on_status_change_def Let_def)
  then have "showing X w0 st (on_effect X x s) = showing X w0 st (s\<lparr>ss_chat := set_ws_status (se_room X) st (ss_chat s)\<rparr>)"
    by (rule showing_view)
  with StatusChange assms show ?thesis by (simp add: showing_def chat_defs)
next
  case Synced
  have "showing X w0 w (s\<lparr>ss_stash := f\<rparr>)" for f
    using assms by (simp add: showing_def)
  with Synced assms show ?thesis
    by (auto simp: on_synced_def Let_def intro: transaction_showing split: option.split)
qed (use assms showing_view[OF effect_view[of x X s], where X = X] in simp_all)

lemma effects_showing:
  "showing X w0 w s \<Longrightarrow> showing X w0 (fold status_after fx w) (fold (on_effect X) fx s)"
  by (induction fx arbitrary: w s) (simp_all add: effect_showing)


text \<open>The invariant of the screen.\<close>

definition mirrors :: "('d, 'a, 's, 'k) session_env \<Rightarrow> ('d, 'a, 's, 'k) session \<Rightarrow> bool" where
  "mirrors X s \<longleftrightarrow> ch_mountCounts (ss_chat s) (se_room X) = (if ss_mounted s then Some 1 else None)
     \<and> (\<forall>p. ss_provider s = Some p \<longrightarrow> showing X (p_status p) (p_status p) s)"

lemma mirrorsI: "showing X w w s \<Longrightarrow> mirrors X s"
  by (auto simp: mirrors_def showing_def)

lemma mirrors_view: "view s = view t \<Longrightarrow> mirrors X s = mirrors X t"
  by (simp add: mirrors_def view_def showing_def)

lemma mirrors_idle: "mirrors X (idle_session rooms st d)"
  by (simp add: mirrors_def idle_session_def new_chat_state_def)

lemma mirrors_cleanup: "mirrors X s \<Longrightarrow> mirrors X (cleanup_session X s)"
  by (auto simp: cleanup_session_def mirrors_def chat_defs)

lemma mirrors_mount: "mirrors X s \<Longrightarrow> \<not> ss_mounted s \<Longrightarrow> mirrors X (mount_session X s)"
  by (auto simp: mount_session_def mirrors_def chat_defs)

lemma cleanup_unmounted: "\<not> ss_mounted (cleanup_session X s)"
  by (simp add: cleanup_session_def)

lemma mirrors_loaded:
  assumes "mirrors X s" and "ss_mounted s" and "ss_provider s = None"
  shows "mirrors X (fst (loaded_session X s))"
proof (cases "ps_loading (ss_local s)")
  case None
  with assms show ?thesis by (simp add: loaded_session_def)
next
  case (Some raw)
  show ?thesis
  proof (cases "load_finish (se_yjs X) raw (ss_local s)")
    case None
    have "view (s\<lparr>ss_local := (ss_local s)\<lparr>ps_loading := None\<rparr>\<rparr>) = view s" by (simp add: view_def)
    from mirrors_view[OF this, of X] Some None assms show ?thesis by (simp add: loaded_session_def)
  next
    case (Some l)
    obtain p fx where p: "construct (se_pv X) (ps_doc l) = (p, fx)"
      by (cases "construct (se_pv X) (ps_doc l)")
    then have c: "p_doc p = ps_doc l" "p_status p = StConnecting" "fx = [StatusChange StConnecting, OpenSocket]"
      by (auto simp: construct_def pv_connect_def set_status_def)
    let ?t = "s\<lparr>ss_local := l, ss_listening := True, ss_provider := Some p,
      ss_chat := set_ws_status (se_room X) StConnecting
        (set_messages (se_room X) (y_messages (se_yjs X) (ps_doc l)) (ss_chat s))\<rparr>"
    have "showing X StConnecting StConnecting ?t"
      using assms c inv_construct[OF p] by (simp add: showing_def chat_defs mirrors_def)
    moreover have "view (fst (loaded_session X s)) = view ?t"
      using Some \<open>ps_loading (ss_local s) = Some raw\<close> p c
      by (simp add: loaded_session_def on_status_change_def view_def)
    ultimately show ?thesis
      using mirrorsI mirrors_view by blast
  qed
qed

lemma local_step_doc:
  "local_step X e p st = Some (q, st') \<Longrightarrow> e \<in> {PsLoadRead, PsTimer, PsRemove} \<union> range PsWrite \<Longrightarrow> ps_doc q = ps_doc p"
  by (auto simp: local_step_def ps_step_def ps_op_defs migrate_legacy_def Let_def
      split: option.splits if_splits prod.splits list.splits)

lemma own_local_view:
  "own_local_step X e s = Some t \<Longrightarrow> e \<in> {PsLoadRead, PsTimer, PsRemove} \<union> range PsWrite \<Longrightarrow> view t = view s"
  using local_step_doc by (fastforce simp: own_local_step_def view_def split: if_splits)

lemma mirrors_provider:
  assumes "mirrors X s" and "ss_provider s = Some p" and "enabled e p"
  shows "mirrors X (fst (provider_event X e p s))"
proof -
  obtain q fx where q: "pv_step (se_pv X) e p = (q, fx)" by (cases "pv_step (se_pv X) e p")
  from assms(1,2) have sh: "showing X (p_status p) (p_status p) s" by (simp add: mirrors_def)
  have "provider_inv q"
    using inv_step[of p e "se_pv X"] sh assms(2,3) q by (simp add: showing_def)
  with sh have "showing X (p_status q) (p_status p) (engine_changed X (p_doc q) (s\<lparr>ss_provider := Some q\<rparr>))"
    by (intro engine_changed_showing[where p = q]) (simp_all add: showing_def)
  from effects_showing[OF this, of fx] announced_status[of "se_pv X" e p] q
  have "showing X (p_status q) (p_status q) (fst (provider_event X e p s))"
    by (simp add: provider_event_def)
  then show ?thesis by (rule mirrorsI)
qed


lemma typing_view: "p_doc (fst (send_awareness E fs p)) = p_doc p" "p_status (fst (send_awareness E fs p)) = p_status p"
  "provider_inv p \<Longrightarrow> provider_inv (fst (send_awareness E fs p))"
  using inv_step[of p "Typing fs" E]
  by (simp_all add: send_awareness_def broadcast_local_awareness_def pv_send_def enabled_def pv_step_def)

lemma mirrors_send: "mirrors X s \<Longrightarrow> mirrors X (snd (session_send X mid now nonce content s))"
proof (cases "ss_provider s")
  case (Some p)
  assume m: "mirrors X s"
  with Some have "showing X (p_status p) (p_status p) s" by (simp add: mirrors_def)
  then show ?thesis
    using m by (auto simp: session_send_def split: sum.split prod.split intro: mirrorsI transaction_showing)
next
  case None
  have "mirrors X (engine_transaction X d s)" if m: "mirrors X s" "ss_mounted s" for d
  proof -
    have "ss_provider (engine_transaction X d s) = None"
      "ch_mountCounts (ss_chat (engine_transaction X d s)) = ch_mountCounts (ss_chat s)"
      "ss_mounted (engine_transaction X d s) = ss_mounted s"
      using None by (simp_all add: engine_transaction_def engine_changed_def on_messages_def fetch_rooms_def Let_def
          chat_defs split: option.split)
    with m show ?thesis by (simp add: mirrors_def)
  qed
  then show "mirrors X s \<Longrightarrow> ?thesis"
    by (auto simp: session_send_def split: sum.split prod.split)
qed

lemma other_screen_view:
  assumes "mirrors X s" and "other_screen (se_room X) e"
  shows "mirrors X (s\<lparr>ss_chat := fst (chat_step e (ss_chat s))\<rparr>)"
proof -
  have "ch_messagesByRoom (fst (chat_step e c)) (se_room X) = ch_messagesByRoom c (se_room X)"
    "ch_wsStatusByRoom (fst (chat_step e c)) (se_room X) = ch_wsStatusByRoom c (se_room X)"
    "ch_mountCounts (fst (chat_step e c)) (se_room X) = ch_mountCounts c (se_room X)" for c
    using assms(2) by (cases e; auto simp: chat_defs split: option.split)+
  with assms(1) show ?thesis by (simp add: mirrors_def showing_def)
qed

lemma mirrors_step:
  assumes "session_step X e s = Some (t, fx)" and "mirrors X s"
  shows "mirrors X t"
proof -
  have same: "view s = view u \<Longrightarrow> mirrors X u" for u
    using assms(2) mirrors_view by blast
  show ?thesis
  proof (cases e)
    case Enter
    with assms same[of t] show ?thesis by (auto simp: enter_room_def)
  next
    case Leave
    with assms(1) have "view s = view t"
      by (auto simp: leave_room_def stop_room_refresh_def view_def split: prod.splits if_splits)
    then show ?thesis by (rule same)
  next
    case Mount
    with assms show ?thesis by (auto intro: mirrors_mount split: if_splits)
  next
    case Unmount
    with assms show ?thesis by (auto intro: mirrors_cleanup)
  next
    case (Rerun c)
    have "mirrors X ((cleanup_session X s)\<lparr>ss_contentCipher := c\<rparr>)"
      using mirrors_cleanup[OF assms(2)] by (simp add: mirrors_def showing_def)
    with Rerun assms show ?thesis
      by (auto intro!: mirrors_mount simp: cleanup_unmounted split: if_splits)
  next
    case Loaded
    with assms show ?thesis using mirrors_loaded[of X s] by (auto split: if_splits)
  next
    case (ProviderEvent ev)
    with assms show ?thesis using mirrors_provider[of X s] by (fastforce split: option.splits if_splits)
  next
    case (SendMessage mid now nonce content)
    with assms show ?thesis using mirrors_send[of X s] by auto
  next
    case (SendTyping b)
    with assms show ?thesis by (auto simp: session_typing_def mirrors_def showing_def typing_view)
  next
    case (ChatEvent ev)
    with assms show ?thesis using other_screen_view by (fastforce split: if_splits)
  next
    case LoadReads
    with assms(1) have "view t = view s" by (auto split: if_splits dest: own_local_view)
    then show ?thesis using same by simp
  next
    case LocalTimer
    with assms(1) have "view t = view s" by (auto dest: own_local_view)
    then show ?thesis using same by simp
  next
    case (LocalWrite ok)
    with assms(1) have "view t = view s" by (auto dest: own_local_view)
    then show ?thesis using same by simp
  next
    case Discarded
    with assms(1) obtain u where u: "own_local_step X PsRemove s = Some u" "t = u\<lparr>ss_generation := ss_generation u + 1\<rparr>"
      by auto
    then have "view t = view s" using own_local_view[OF u(1)] by (simp add: view_def)
    then show ?thesis using same by simp
  qed (use assms in \<open>auto simp: mirrors_def showing_def split: if_splits\<close>)
qed


section \<open>What is saved, and what is known of the room\<close>

definition saved :: "('d, 'a, 's, 'k) session_env \<Rightarrow> message set \<Rightarrow> ('d, 'a, 's, 'k) session \<Rightarrow> bool" where
  "saved X M s \<longleftrightarrow> (\<exists>ms. ss_stash s (stash_key X) = Some ms \<and> M \<subseteq> set ms)"

definition known_e2ee :: "('d, 'a, 's, 'k) session_env \<Rightarrow> ('d, 'a, 's, 'k) session \<Rightarrow> bool" where
  "known_e2ee X s \<longleftrightarrow> rm_everE2eeByRoom (ss_rooms s) (se_room X) = Some True"

lemma ever_refresher: "rm_everE2eeByRoom r n = Some True
    \<Longrightarrow> rm_everE2eeByRoom (fold apply_refresher_effect fx r) n = Some True"
  by (induction fx arbitrary: r) (simp_all add: apply_refresher_effect_def split: refresher_effect.split)

lemma ever_note: "rm_everE2eeByRoom r n = Some True \<Longrightarrow> rm_everE2eeByRoom (note_room_epoch K m k r) n = Some True"
  using ever_step[of r n undefined "NoteRoomEpoch m k"] by (simp add: note_room_epoch_def Let_def)

lemma ever_fetch: "rm_everE2eeByRoom r n = Some True \<Longrightarrow> rm_everE2eeByRoom (snd (fetch_rooms_begin b r)) n = Some True"
  using ever_step[of r n undefined "FetchRooms b"] by simp

lemmas kept_defs = saved_def known_e2ee_def refresh_room_def stop_room_refresh_def on_messages_def fetch_rooms_def
  on_status_change_def on_room_epoch_def note_epoch_def on_auth_error_def engine_changed_def engine_transaction_def
  ever_refresher ever_note ever_fetch

lemma kept_changed:
  "known_e2ee X s \<Longrightarrow> known_e2ee X (engine_changed X d s)"
  "saved X M s \<Longrightarrow> saved X M (engine_changed X d s)"
  by (auto simp: kept_defs Let_def split: option.split)

lemma kept_rejected:
  "ss_stash (on_e2ee_rejected X k ms s) = ss_stash s"
  "ss_rooms (on_e2ee_rejected X k ms s) = note_room_epoch (se_secure X) (se_room X) k (ss_rooms s)"
  by (simp_all add: on_e2ee_rejected_def note_epoch_def Let_def split: prod.split)

lemma kept_effect:
  "known_e2ee X s \<Longrightarrow> known_e2ee X (on_effect X x s)"
  "saved X M s \<Longrightarrow> x \<noteq> Synced \<Longrightarrow> saved X M (on_effect X x s)"
proof (induction x)
  case Synced
  { case 1 then show ?case
      by (auto simp: on_synced_def Let_def engine_transaction_def intro!: kept_changed split: option.split)
        (simp add: known_e2ee_def)
  next
    case 2 then show ?case by simp }
qed (auto simp: kept_rejected on_unrecoverable_def kept_defs Let_def split: prod.split option.split)

lemma kept_effects:
  "known_e2ee X s \<Longrightarrow> known_e2ee X (fold (on_effect X) fx s)"
  "saved X M s \<Longrightarrow> Synced \<notin> set fx \<Longrightarrow> saved X M (fold (on_effect X) fx s)"
  by (induction fx arbitrary: s) (auto simp: kept_effect)

lemma kept_step:
  assumes "session_step X e s = Some (t, fx)"
  shows "known_e2ee X s \<Longrightarrow> known_e2ee X t" and "saved X M s \<Longrightarrow> Synced \<notin> set fx \<Longrightarrow> saved X M t"
proof -
  have own: "ss_stash u = ss_stash s \<and> ss_rooms u = ss_rooms s" if "own_local_step X ev s = Some u" for ev u
    using that by (auto simp: own_local_step_def split: if_splits)
  show "known_e2ee X t" if "known_e2ee X s"
  proof (cases e)
    case Loaded
    have "known_e2ee X ((s\<lparr>ss_local := l, ss_listening := True, ss_provider := p, ss_chat := c\<rparr>))" for l p c
      using that by (simp add: known_e2ee_def)
    from kept_effects(1)[OF this] that Loaded assms show ?thesis
      by (auto simp: loaded_session_def known_e2ee_def split: option.splits prod.splits if_splits)
  next
    case (ProviderEvent ev)
    have "known_e2ee X (s\<lparr>ss_provider := p\<rparr>)" for p
      using that by (simp add: known_e2ee_def)
    from kept_effects(1)[OF kept_changed(1)[OF this]] ProviderEvent assms show ?thesis
      by (auto simp: provider_event_def split: option.splits prod.splits if_splits)
  next
    case (SendMessage mid now nonce content)
    have "known_e2ee X (s\<lparr>ss_provider := p\<rparr>)" for p
      using that by (simp add: known_e2ee_def)
    from kept_changed(1)[OF this] that SendMessage assms show ?thesis
      by (auto simp: session_send_def engine_transaction_def split: sum.splits prod.splits)
  qed (use assms that in \<open>auto simp: enter_room_def leave_room_def mount_session_def cleanup_session_def session_typing_def
      kept_defs ever_step dest!: own split: prod.splits if_splits\<close>)
  show "saved X M t" if "saved X M s" "Synced \<notin> set fx"
  proof (cases e)
    case Loaded
    have "saved X M ((s\<lparr>ss_local := l, ss_listening := True, ss_provider := p, ss_chat := c\<rparr>))" for l p c
      using that by (simp add: saved_def)
    from kept_effects(2)[OF this] that Loaded assms show ?thesis
      by (auto simp: loaded_session_def saved_def split: option.splits prod.splits if_splits)
  next
    case (ProviderEvent ev)
    have "saved X M (s\<lparr>ss_provider := p\<rparr>)" for p
      using that by (simp add: saved_def)
    from kept_effects(2)[OF kept_changed(2)[OF this]] that ProviderEvent assms show ?thesis
      by (auto simp: provider_event_def split: option.splits prod.splits if_splits)
  next
    case (SendMessage mid now nonce content)
    have "saved X M (s\<lparr>ss_provider := p\<rparr>)" for p
      using that by (simp add: saved_def)
    from kept_changed(2)[OF this] that SendMessage assms show ?thesis
      by (auto simp: session_send_def engine_transaction_def split: sum.splits prod.splits)
  qed (use assms that in \<open>auto simp: enter_room_def leave_room_def mount_session_def cleanup_session_def session_typing_def
      kept_defs dest!: own split: prod.splits if_splits\<close>)
qed


lemma session_kept_run:
  assumes "session_run X es s = Some (t, fx)"
  shows "known_e2ee X s \<Longrightarrow> known_e2ee X t" and "saved X M s \<Longrightarrow> Synced \<notin> set fx \<Longrightarrow> saved X M t"
proof -
  have "(known_e2ee X s \<longrightarrow> known_e2ee X t) \<and> (saved X M s \<longrightarrow> Synced \<notin> set fx \<longrightarrow> saved X M t)"
    using assms
  proof (induction es arbitrary: s fx)
    case (Cons e es)
    from Cons.prems obtain u fx1 fx2 where u: "session_step X e s = Some (u, fx1)"
      and r: "session_run X es u = Some (t, fx2)" "fx = fx1 @ fx2"
      by (auto split: option.splits)
    from Cons.IH[OF r(1)] kept_step[OF u] r(2) show ?case by auto
  qed simp
  then show "known_e2ee X s \<Longrightarrow> known_e2ee X t" and "saved X M s \<Longrightarrow> Synced \<notin> set fx \<Longrightarrow> saved X M t"
    by blast+
qed

definition own_encrypted :: "('d, 'a, 's, 'k) session_env \<Rightarrow> ('d, 'a, 's, 'k) session \<Rightarrow> message list" where
  "own_encrypted X s = filter (\<lambda>m. m_userId m = se_user X \<and> starts_with (m_content m) e2ee_prefix)
     (y_messages (se_yjs X) (ps_doc (ss_local s)))"

lemma engine_changed_doc: "ps_doc (ss_local (engine_changed X d s)) = d"
  by (simp add: engine_changed_def on_messages_def fetch_rooms_def doc_changed_def Let_def split: option.split)

lemma effect_doc: "x \<noteq> Synced \<Longrightarrow> ps_doc (ss_local (on_effect X x s)) = ps_doc (ss_local s)"
proof (cases "\<exists>st. x = StatusChange st")
  case True
  then show ?thesis by (auto simp: on_status_change_def refresh_room_def Let_def split: prod.split)
next
  case False
  assume "x \<noteq> Synced"
  with False have "view (on_effect X x s) = view s" by (intro effect_view) auto
  then show ?thesis by (simp add: view_def)
qed

lemma effects_doc: "Synced \<notin> set fx \<Longrightarrow> ps_doc (ss_local (fold (on_effect X) fx s)) = ps_doc (ss_local s)"
  by (induction fx arbitrary: s) (auto simp: effect_doc)

lemma synced_doc:
  assumes "array_laws (se_yjs X)"
  shows "y_messages (se_yjs X) (ps_doc (ss_local (on_synced X s))) = y_messages (se_yjs X) (ps_doc (ss_local s))
    @ (case ss_stash s (stash_key X) of None \<Rightarrow> []
       | Some ms \<Rightarrow> filter (\<lambda>m. m_id m \<notin> m_id ` set (y_messages (se_yjs X) (ps_doc (ss_local s)))) ms)"
  by (simp add: on_synced_def engine_transaction_def engine_changed_doc reinsert_messages_spec[OF assms] Let_def
      split: option.split)

lemma effects_grow:
  assumes "array_laws (se_yjs X)"
  shows "set (y_messages (se_yjs X) (ps_doc (ss_local s)))
    \<subseteq> set (y_messages (se_yjs X) (ps_doc (ss_local (fold (on_effect X) fx s))))"
proof (induction fx arbitrary: s)
  case (Cons x fx)
  have "set (y_messages (se_yjs X) (ps_doc (ss_local s)))
      \<subseteq> set (y_messages (se_yjs X) (ps_doc (ss_local (on_effect X x s))))"
    by (cases "x = Synced") (auto simp: effect_doc synced_doc[OF assms])
  with Cons[of "on_effect X x s"] show ?case by simp
qed simp

lemma synced_reinserts:
  assumes "array_laws (se_yjs X)" and "saved X M s" and "Synced \<in> set fx"
  shows "m_id ` M \<subseteq> m_id ` set (y_messages (se_yjs X) (ps_doc (ss_local (fold (on_effect X) fx s))))"
proof -
  obtain as bs where fx: "fx = as @ Synced # bs" "Synced \<notin> set as"
    using split_list_first[OF assms(3)] by blast
  define u where "u = fold (on_effect X) as s"
  have "saved X M u" unfolding u_def by (rule kept_effects(2)[OF assms(2) fx(2)])
  then obtain ms where ms: "ss_stash u (stash_key X) = Some ms" "M \<subseteq> set ms" by (auto simp: saved_def)
  have "m_id ` M \<subseteq> m_id ` set (y_messages (se_yjs X) (ps_doc (ss_local (on_synced X u))))"
    using ms by (auto simp: synced_doc[OF assms(1)])
  also have "\<dots> \<subseteq> m_id ` set (y_messages (se_yjs X) (ps_doc (ss_local (fold (on_effect X) bs (on_synced X u)))))"
    by (rule image_mono[OF effects_grow[OF assms(1)]])
  finally show ?thesis by (simp add: fx u_def)
qed

lemma unrecoverable_alone:
  "Unrecoverable k \<in> set (snd (pv_step E e p)) \<Longrightarrow> Synced \<notin> set (snd (pv_step E e p))"
proof (cases e)
  case (SocketMessage m)
  then show "Unrecoverable k \<in> set (snd (pv_step E e p)) \<Longrightarrow> ?thesis"
    by (cases rule: on_message_cases[of E m p])
      (auto simp: pv_step_def handle_sync_effects split: option.splits if_splits dest: handle_rejection_effects)
qed (auto simp: pv_step_def pv_ops Let_def flush_loop_eq split: option.splits if_splits)

lemma unrecoverable_effects:
  assumes "Unrecoverable k \<in> set fx" and "Synced \<notin> set fx"
  shows "saved X (set (own_encrypted X s)) (fold (on_effect X) fx s)"
    and "0 < k \<Longrightarrow> known_e2ee X (fold (on_effect X) fx s)"
proof -
  obtain as bs where fx: "fx = as @ Unrecoverable k # bs" using assms(1) by (meson split_list)
  define u where "u = fold (on_effect X) as s"
  have doc: "ps_doc (ss_local u) = ps_doc (ss_local s)"
    using effects_doc[of as X s] assms(2) fx by (simp add: u_def)
  have "saved X (set (own_encrypted X s)) (on_unrecoverable X k u)"
    by (auto simp: saved_def on_unrecoverable_def own_encrypted_def note_epoch_def doc Let_def)
  then show "saved X (set (own_encrypted X s)) (fold (on_effect X) fx s)"
    using kept_effects(2)[of X _ "on_unrecoverable X k u" bs] assms(2) by (simp add: fx u_def)
  have "known_e2ee X (on_unrecoverable X k u)" if "0 < k"
    using that by (simp add: known_e2ee_def on_unrecoverable_def note_epoch_def note_room_epoch_def Let_def)
  then show "0 < k \<Longrightarrow> known_e2ee X (fold (on_effect X) fx s)"
    using kept_effects(1)[of X "on_unrecoverable X k u" bs] by (simp add: fx u_def)
qed

section \<open>Properties\<close>

text \<open>C11. The screen mirrors the engine: whatever the order of socket events, edits, timers, reloads and
  rebuilds, and whatever other parts of the app do with the stores, a screen with a provider shows
  exactly the messages of its engine's document and the status of its provider, both work on the same
  document, and a screen that was left holds no mount and no provider.\<close>

theorem screen_mirrors_engine:
  assumes "session_run X es (idle_session rooms st d) = Some (s, fx)"
  shows "(\<forall>p. ss_provider s = Some p \<longrightarrow> ss_mounted s
      \<and> use_room_messages (se_room X) (ss_chat s) = y_messages (se_yjs X) (p_doc p)
      \<and> use_room_ws_status (se_room X) (ss_chat s) = p_status p
      \<and> use_room_loaded (se_room X) (ss_chat s)
      \<and> ps_doc (ss_local s) = p_doc p \<and> provider_inv p)
    \<and> ch_mountCounts (ss_chat s) (se_room X) = (if ss_mounted s then Some 1 else None)"
proof -
  have "mirrors X s'" if "session_run X es s0 = Some (s', fx)" "mirrors X s0" for es s0 s' fx
    using that
  proof (induction es arbitrary: s0 fx)
    case (Cons e es)
    then show ?case by (auto split: option.splits dest: mirrors_step)
  qed simp
  from this[OF assms mirrors_idle] show ?thesis
    by (auto simp: mirrors_def showing_def use_room_messages_def use_room_ws_status_def use_room_loaded_def)
qed

text \<open>C10. A resync loses none of the user's encrypted messages: when the server refused the local state, and
  after whatever the screen went through, reloads and rebuilds included, it first syncs with the
  server again, the document holds every encrypted message the user had in it at the refusal, besides
  everything the server sent, and from the refusal on the room never reads as plaintext again.\<close>

theorem own_messages_survive_resync:
  assumes "array_laws (se_yjs X)"
    and "session_step X (ProviderEvent e) s0 = Some (s1, fx1)" and "Unrecoverable k \<in> set fx1"
    and "session_run X es s1 = Some (s2, fx2)" and "Synced \<notin> set fx2"
    and "ss_provider s2 = Some p" and "session_step X (ProviderEvent e') s2 = Some (s3, fx3)" and "Synced \<in> set fx3"
  shows "m_id ` set (own_encrypted X s1) \<subseteq> m_id ` set (y_messages (se_yjs X) (ps_doc (ss_local s3)))
    \<and> set (y_messages (se_yjs X) (p_doc (fst (pv_step (se_pv X) e' p))))
        \<subseteq> set (y_messages (se_yjs X) (ps_doc (ss_local s3)))
    \<and> (0 < k \<and> se_room X \<noteq> default_room \<longrightarrow>
         use_room_e2ee_state (se_room X) (ss_rooms s1) = StE2ee \<and> use_room_e2ee_state (se_room X) (ss_rooms s3) = StE2ee)"
proof -
  obtain p1 where ev: "provider_event X e p1 s0 = (s1, fx1)"
    using assms(2) by (auto split: option.splits if_splits)
  then have p1: "s1 = fst (provider_event X e p1 s0)" "fx1 = snd (pv_step (se_pv X) e p1)"
    by (auto simp: provider_event_def split: prod.splits)
  define t where "t = engine_changed X (p_doc (fst (pv_step (se_pv X) e p1))) (s0\<lparr>ss_provider := Some (fst (pv_step (se_pv X) e p1))\<rparr>)"
  have s1: "s1 = fold (on_effect X) fx1 t" by (simp add: p1 t_def provider_event_def split: prod.split)
  have nosync: "Synced \<notin> set fx1" using unrecoverable_alone assms(3) p1(2) by blast
  have "own_encrypted X s1 = own_encrypted X t"
    using effects_doc[OF nosync, of X t] by (simp add: own_encrypted_def s1)
  with unrecoverable_effects[OF assms(3) nosync, of X t] s1
  have at1: "saved X (set (own_encrypted X s1)) s1" "0 < k \<longrightarrow> known_e2ee X s1" by simp_all
  have at2: "saved X (set (own_encrypted X s1)) s2" by (rule session_kept_run(2)[OF assms(4) at1(1) assms(5)])
  have at3: "0 < k \<longrightarrow> known_e2ee X s3"
    using at1(2) session_kept_run(1)[OF assms(4)] kept_step(1)[OF assms(7)] by blast
  define v where "v = engine_changed X (p_doc (fst (pv_step (se_pv X) e' p))) (s2\<lparr>ss_provider := Some (fst (pv_step (se_pv X) e' p))\<rparr>)"
  have s3: "s3 = fold (on_effect X) fx3 v"
    using assms(6,7) by (auto simp: v_def provider_event_def split: prod.splits if_splits)
  have "saved X (set (own_encrypted X s1)) v"
    unfolding v_def by (rule kept_changed(2)) (use at2 in \<open>simp add: saved_def\<close>)
  from synced_reinserts[OF assms(1) this assms(8)] effects_grow[OF assms(1), of v fx3] at1(2) at3
  show ?thesis
    by (auto simp: s3 v_def engine_changed_doc known_e2ee_def use_room_e2ee_state_def resolve_room_e2ee_state_def)
qed

section \<open>Witnesses\<close>

definition sample_session_env :: "(message list, nat list, (jstr \<times> jstr) list, (jstr \<times> jstr) list) session_env" where
  "sample_session_env = \<lparr>se_pv = sample_env, se_kv = memory_storage, se_secure = memory_storage, se_sodium = sample_sodium\<rparr>"

definition sample_idle :: "(message list, nat list, (jstr \<times> jstr) list, (jstr \<times> jstr) list) session" where
  "sample_idle = idle_session (new_rooms_state []) [] []"

lemma sample_session_yjs [simp]: "se_yjs sample_session_env = list_yjs" "se_pv sample_session_env = sample_env"
  "se_room sample_session_env = js ''r''" "se_user sample_session_env = js ''u''" "se_kv sample_session_env = memory_storage"
  by (simp_all add: sample_session_env_def se_yjs_def se_room_def se_user_def sample_env_def sample_config_def)

lemma load_empty: "local_step sample_session_env PsLoadRead (new_persistence (js ''u'') (js ''r'') [] st) []
    = Some (new_persistence (js ''u'') (js ''r'') [] []\<lparr>ps_loading := Some None\<rparr>, [])"
  by (simp add: local_step_def ps_step_def load_read_def new_persistence_def migrate_legacy_def memory_storage_def
      memory_get_def Let_def)

lemma finish_empty: "load_finish Y None (new_persistence u r d st\<lparr>ps_loading := Some None\<rparr>)
   = Some (new_persistence u r d st\<lparr>ps_subscribed := True, ps_loaded := True\<rparr>)"
  by (simp add: load_finish_def new_persistence_def Let_def)

lemma new_persistence_fields [simp]: "ps_loading (new_persistence u r d st) = None" "ps_doc (new_persistence u r d st) = d"
  by (simp_all add: new_persistence_def)

lemma session_run_append: "session_run X (es @ gs) s = (case session_run X es s of None \<Rightarrow> None
    | Some (t, fx) \<Rightarrow> map_option (\<lambda>(u, gx). (u, fx @ gx)) (session_run X gs t))"
  by (induction es arbitrary: s) (auto simp: map_option_case split: option.split prod.split)

text \<open>A mounted screen over an empty store loads, constructs its provider and connects.\<close>

lemma opening_run:
  assumes "ss_mounted s" and "ss_provider s = None" and "ss_local s = new_persistence (js ''u'') (js ''r'') [] st"
    and "ss_store s = []"
  shows "\<exists>t fx q. session_run sample_session_env [LoadReads, Loaded, ProviderEvent SocketOpen] s = Some (t, fx)
    \<and> Synced \<notin> set fx \<and> ss_provider t = Some q \<and> p_ws q = Some Open \<and> p_doc q = []
    \<and> p_stateRefused q = False \<and> p_synced q = False"
proof -
  let ?on = "on_open sample_env sample_start"
  have 1: "session_run sample_session_env [LoadReads, Loaded] s = Some (s\<lparr>ss_store := [],
      ss_local := new_persistence (js ''u'') (js ''r'') [] []\<lparr>ps_subscribed := True, ps_loaded := True\<rparr>,
      ss_listening := True, ss_provider := Some sample_start,
      ss_chat := set_ws_status (js ''r'') StConnecting (set_messages (js ''r'') [] (ss_chat s)),
      ss_membership := MsOk\<rparr>, [StatusChange StConnecting, OpenSocket])"
    using assms by (simp add: own_local_step_def load_empty loaded_session_def finish_empty sample_start_def construct_def
        pv_connect_def set_status_def on_status_change_def)
  define u where "u = fst (the (session_run sample_session_env [LoadReads, Loaded] s))"
  have prov: "ss_provider u = Some sample_start" "ps_doc (ss_local u) = []"
    by (simp_all only: u_def 1 option.sel fst_conv) simp_all
  let ?t = "fst (provider_event sample_session_env SocketOpen sample_start u)"
  have opened: "session_step sample_session_env (ProviderEvent SocketOpen) u = Some (?t, snd ?on)"
    using prov by (simp add: enabled_def sample_start_simps provider_event_def pv_step_def split: prod.split)
  have q: "\<exists>q. ss_provider ?t = Some q \<and> p_ws q = Some Open \<and> p_doc q = [] \<and> p_stateRefused q = False \<and> p_synced q = False"
    using prov by (simp add: provider_event_def pv_step_def on_open_eq sample_start_simps engine_changed_def doc_changed_def
        on_status_change_def refresh_room_def Let_def split: prod.split) (simp add: sample_start_def construct_def pv_connect_def set_status_def)
  have "Synced \<notin> set (snd ?on)"
    by (auto dest: on_open_effects)
  with q show ?thesis
    using session_run_append[of sample_session_env "[LoadReads, Loaded]" "[ProviderEvent SocketOpen]" s] 1 opened
    by (intro exI[of _ ?t]) (simp only: append.simps u_def option.sel fst_conv, simp)
qed

lemma screen_mirrors_engine_witness:
  "\<exists>s fx p. session_run sample_session_env [Mount, LoadReads, Loaded, ProviderEvent SocketOpen] sample_idle = Some (s, fx)
    \<and> ss_provider s = Some p \<and> use_room_ws_status (js ''r'') (ss_chat s) = p_status p"
proof -
  let ?m = "mount_session sample_session_env sample_idle"
  have "\<exists>t fx q. session_run sample_session_env [LoadReads, Loaded, ProviderEvent SocketOpen] ?m = Some (t, fx)
      \<and> Synced \<notin> set fx \<and> ss_provider t = Some q \<and> p_ws q = Some Open \<and> p_doc q = []
      \<and> p_stateRefused q = False \<and> p_synced q = False"
    by (rule opening_run[where st = "[]"]) (simp_all add: mount_session_def sample_idle_def idle_session_def list_yjs_def)
  then obtain t fx q where run: "session_run sample_session_env [LoadReads, Loaded, ProviderEvent SocketOpen] ?m = Some (t, fx)"
    and q: "ss_provider t = Some q"
    by blast
  have "session_step sample_session_env Mount sample_idle = Some (?m, [])"
    by (simp add: sample_idle_def idle_session_def)
  then have all: "session_run sample_session_env [Mount, LoadReads, Loaded, ProviderEvent SocketOpen] sample_idle = Some (t, fx)"
    unfolding session_run.simps(2)[of _ Mount] using run by simp
  with q screen_mirrors_engine[OF all[unfolded sample_idle_def]] show ?thesis by auto
qed

text \<open>A screen whose document holds an encrypted message of the user when the server refuses it.\<close>

definition sample_refused :: "(message list, nat list, (jstr \<times> jstr) list, (jstr \<times> jstr) list) session" where
  "sample_refused = sample_idle\<lparr>ss_mounted := True, ss_listening := True,
     ss_local := new_persistence (js ''u'') (js ''r'') [sample_message (js ''i'') (js ''u'') (js ''E2E1x'')] [],
     ss_provider := Some (sample_start\<lparr>p_ws := Some Open, p_status := StConnected,
        p_doc := [sample_message (js ''i'') (js ''u'') (js ''E2E1x'')]\<rparr>)\<rparr>"

lemma sample_refused_step:
  "\<exists>s1 fx. session_step sample_session_env (ProviderEvent (SocketMessage (Inr [20, 3, 0]))) sample_refused = Some (s1, fx)
    \<and> Unrecoverable 3 \<in> set fx \<and> ss_mounted s1 \<and> \<not> ss_loggedOut s1 \<and> ss_store s1 = []
    \<and> ss_local s1 = ps_discard (new_persistence (js ''u'') (js ''r'') [sample_message (js ''i'') (js ''u'') (js ''E2E1x'')] [])
    \<and> own_encrypted sample_session_env s1 = [sample_message (js ''i'') (js ''u'') (js ''E2E1x'')]"
proof -
  have m: "on_message sample_env (Inr [20, 3, 0]) p = handle_rejection sample_env 3 [] p" for p
    by (simp add: on_message_def handle_server_message_def sample_env_def sample_lib0_def msg_type_defs
        read_rejection_def)
  have r: "handle_rejection sample_env 3 [] p = (p\<lparr>p_stateRefused := True, p_pendingUpdates := []\<rparr>, [Unrecoverable 3])"
    if "p_doc p = [x]" for p x
    using that by (simp add: handle_rejection_def retract_messages_def local_transaction_def sample_env_def list_yjs_def)
  show ?thesis
    by (simp add: sample_refused_def enabled_def provider_event_def pv_step_def m r engine_changed_def on_unrecoverable_def
        Let_def own_encrypted_def sample_message_def list_yjs_def note_epoch_def)
      (simp add: ps_discard_def sample_idle_def idle_session_def js_def starts_with_def e2ee_prefix_def)
qed


lemma rebuild_step:
  assumes "ss_mounted s" and "\<not> ss_loggedOut s" and "ss_store s = []" and "ss_local s = ps_discard (new_persistence u r d [])"
  shows "\<exists>t. session_run sample_session_env [Discarded, Rerun None] s = Some (t, []) \<and> ss_mounted t \<and> ss_provider t = None
    \<and> ss_local t = new_persistence (js ''u'') (js ''r'') [] [] \<and> ss_store t = []"
  using assms by (simp add: own_local_step_def local_step_def ps_step_def ps_discard_def new_persistence_def
      discard_removes_def memory_storage_def memory_remove_def mount_session_def cleanup_session_def list_yjs_def)

lemma own_messages_survive_resync_witness:
  "\<exists>es s fx. session_run sample_session_env es sample_refused = Some (s, fx)
    \<and> js ''i'' \<in> m_id ` set (ps_doc (ss_local s)) \<and> Rerun None \<in> set es"
proof -
  obtain s1 fx1 where s1: "session_step sample_session_env (ProviderEvent (SocketMessage (Inr [20, 3, 0]))) sample_refused = Some (s1, fx1)"
    "Unrecoverable 3 \<in> set fx1" "ss_mounted s1" "\<not> ss_loggedOut s1" "ss_store s1 = []"
    "ss_local s1 = ps_discard (new_persistence (js ''u'') (js ''r'') [sample_message (js ''i'') (js ''u'') (js ''E2E1x'')] [])"
    "own_encrypted sample_session_env s1 = [sample_message (js ''i'') (js ''u'') (js ''E2E1x'')]"
    using sample_refused_step by blast
  obtain s' where s': "session_run sample_session_env [Discarded, Rerun None] s1 = Some (s', [])" "ss_mounted s'"
    "ss_provider s' = None" "ss_local s' = new_persistence (js ''u'') (js ''r'') [] []" "ss_store s' = []"
    using rebuild_step[OF s1(3-6)] by blast
  obtain s2 fx2 q where s2: "session_run sample_session_env [LoadReads, Loaded, ProviderEvent SocketOpen] s' = Some (s2, fx2)"
    "Synced \<notin> set fx2" "ss_provider s2 = Some q" "p_ws q = Some Open" "p_doc q = []" "p_synced q = False"
    using opening_run[OF s'(2-5)] by blast
  let ?es = "[Discarded, Rerun None] @ [LoadReads, Loaded, ProviderEvent SocketOpen]"
  have "session_run sample_session_env ?es s1 = Some (s2, fx2)"
    unfolding session_run_append s'(1) by (simp only: option.case prod.case s2(1)) simp
  then obtain es where run2: "session_run sample_session_env es s1 = Some (s2, fx2)" and es: "Rerun None \<in> set es"
    by (metis in_set_conv_decomp append_Cons append_Nil)
  let ?sync = "ProviderEvent (SocketMessage (Inr [0, 1, 0]))"
  have m: "on_message sample_env (Inr [0, 1, 0]) q = (q\<lparr>p_synced := True\<rparr>, [Synced])"
    using s2(6) by (simp add: on_message_def handle_server_message_def sample_env_def sample_lib0_def msg_type_defs
        handle_sync_def sync_type_defs get_varbytes_def list_yjs_def put_varuint.simps[of 0])
  obtain s3 fx3 where s3: "session_step sample_session_env ?sync s2 = Some (s3, fx3)" "Synced \<in> set fx3"
    using s2(3,4) by (simp add: enabled_def provider_event_def pv_step_def m)
  from own_messages_survive_resync[OF _ s1(1,2) run2 s2(2,3) s3]
  have "js ''i'' \<in> m_id ` set (ps_doc (ss_local s3))"
    by (simp add: s1(7) sample_message_def)
  moreover have "session_run sample_session_env (es @ [?sync]) s1 = Some (s3, fx2 @ fx3)"
    unfolding session_run_append run2 using s3(1) by simp
  then have "session_run sample_session_env (ProviderEvent (SocketMessage (Inr [20, 3, 0])) # es @ [?sync]) sample_refused
      = Some (s3, fx1 @ fx2 @ fx3)"
    unfolding session_run.simps(2) s1(1) by simp
  ultimately show ?thesis
    using es by (intro exI[of _ "ProviderEvent (SocketMessage (Inr [20, 3, 0])) # es @ [?sync]"]) auto
qed

end
