(* ===== verification/Use_E2ee.thy ===== *)
theory Use_E2ee
  imports Key_Exchange Rooms_Store Chat_Store
begin

text \<open>
  \<open>hooks/useE2ee.ts\<close>: when a room screen has a cipher, how the cipher gets its keys, and the
  enablement of a room by its admin, on the stores of one device and a server that is a parameter.
\<close>

section \<open>State\<close>

text \<open>
  The chat store refers to ciphers by address. The key store and the sticky flags share the secure
  store, which is \<open>rm_sticky\<close> of the rooms store.
\<close>

record 'k device =
  dv_chat :: "nat chat_state"
  dv_ciphers :: "nat \<Rightarrow> cipher"
  dv_rooms :: "'k rooms_state"

definition dv_store :: "'k device \<Rightarrow> 'k" where
  "dv_store v = rm_sticky (dv_rooms v)"

definition set_store :: "'k \<Rightarrow> 'k device \<Rightarrow> 'k device" where
  "set_store s v = v\<lparr>dv_rooms := (dv_rooms v)\<lparr>rm_sticky := s\<rparr>\<rparr>"

definition room_summary_of :: "jstr \<Rightarrow> 'k rooms_state \<Rightarrow> room_summary option" where
  "room_summary_of room s = find (\<lambda>r. sm_name r = room) (rm_rooms s)"

section \<open>The cipher of a room\<close>

text \<open>\<open>currentKeyId\<close>, and the memo: whether a cipher exists.\<close>

definition current_key_id :: "jstr \<Rightarrow> 'k rooms_state \<Rightarrow> nat" where
  "current_key_id room s = (case room_summary_of room s of None \<Rightarrow> 0 | Some r \<Rightarrow> sm_currentKeyId r)"

definition has_cipher :: "bool \<Rightarrow> bool \<Rightarrow> jstr \<Rightarrow> 'k rooms_state \<Rightarrow> bool" where
  "has_cipher token user room s =
     (if \<not> token \<or> \<not> user then False else if room = default_room then False else current_key_id room s > 0)"

text \<open>
  The effect for the cipher at address \<open>c\<close>; \<open>c1\<close>, \<open>c2\<close> and \<open>c3\<close> tell whether the effect was cleaned up
  by the time each of its awaits returned.
\<close>

definition load_room_keys ::
  "sodium \<Rightarrow> 'k kv_ops \<Rightarrow> 'w key_api \<Rightarrow> bytes \<Rightarrow> (pending_grant \<Rightarrow> bytes) \<Rightarrow> jstr \<Rightarrow> jstr \<Rightarrow> nat
    \<Rightarrow> bool \<Rightarrow> bool \<Rightarrow> bool \<Rightarrow> 'k device \<Rightarrow> 'w \<Rightarrow> 'k device \<times> 'w" where
  "load_room_keys N K A seed eph userId room c c1 c2 c3 v w = (case room_summary_of room (dv_rooms v) of
     None \<Rightarrow> (v, w)
   | Some summary \<Rightarrow>
       (let v = v\<lparr>dv_ciphers := (dv_ciphers v)(c := set_expected_current_epoch (sm_currentKeyId summary) (dv_ciphers v c)),
                  dv_chat := set_room_cipher room c (dv_chat v)\<rparr>
        in case ensure_identity_published N K A seed (dv_store v) w of (res, s, w) \<Rightarrow>
          (let v = set_store s v
           in if \<not> succeeds res \<or> c1 then (v, w)
              else (case fetch_and_load_my_grants N K A (sm_id summary) (dv_store v) (dv_ciphers v c) w of
                  (res, s, ci, w) \<Rightarrow>
                    (let v = (set_store s v)\<lparr>dv_ciphers := (dv_ciphers v)(c := ci)\<rparr>
                     in if \<not> succeeds res \<or> c2 then (v, w)
                        else (let v = v\<lparr>dv_chat := bump_room_crypto room (dv_chat v)\<rparr>
                          in case serve_pending_grants N K A (sm_id summary) eph (dv_store v) w of (_, w) \<Rightarrow>
                            (case ka_pending A (sm_id summary) w of (res, w) \<Rightarrow>
                              if c3 then (v, w)
                              else (case res of
                                  HttpOk pending \<Rightarrow>
                                    (v\<lparr>dv_chat := set_pending_epochs_for_me room
                                        (set (map pg_keyId (filter (\<lambda>p. pg_userId p = userId) pending))) (dv_chat v)\<rparr>, w)
                                | _ \<Rightarrow> (v, w)))))))))"

section \<open>Enabling a room\<close>

datatype enable_error = NotAuthenticated | UnknownRoom | NoMemberKeys | EnableFlow flow_error

definition enable_room_e2ee ::
  "sodium \<Rightarrow> 'k kv_ops \<Rightarrow> 'w key_api \<Rightarrow> bytes \<Rightarrow> bytes \<Rightarrow> (jstr \<Rightarrow> bytes) \<Rightarrow> bool \<Rightarrow> jstr \<Rightarrow> 'k device \<Rightarrow> 'w
    \<Rightarrow> enable_error option \<times> 'k device \<times> 'w" where
  "enable_room_e2ee N K A seed keygen eph token room v w =
     (if \<not> token then (Some NotAuthenticated, v, w)
      else (case room_summary_of room (dv_rooms v) of
          None \<Rightarrow> (Some UnknownRoom, v, w)
        | Some summary \<Rightarrow>
            (case ensure_identity_published N K A seed (dv_store v) w of (res, s, w) \<Rightarrow>
              (let v = set_store s v
               in case res of
                 Inl e \<Rightarrow> (Some (EnableFlow e), v, w)
               | Inr _ \<Rightarrow> (case fetch_room_members A (sm_id summary) w of (res, w) \<Rightarrow>
                   (case res of
                      Inl e \<Rightarrow> (Some (EnableFlow e), v, w)
                    | Inr members \<Rightarrow>
                        if members = [] then (Some NoMemberKeys, v, w)
                        else (case enable_or_rotate_room_key N K A keygen eph (sm_id summary) (sm_currentKeyId summary)
                                members (dv_store v) new_cipher w of (res, s, _, w) \<Rightarrow>
                            (let v = set_store s v
                             in case res of
                               Inl e \<Rightarrow> (Some (EnableFlow e), v, w)
                             | Inr _ \<Rightarrow> (None, v\<lparr>dv_rooms := snd (fetch_rooms_begin token (dv_rooms v))\<rparr>, w)))))))))"

lemma set_store_simps [simp]:
  "dv_store (set_store s v) = s" "dv_ciphers (set_store s v) = dv_ciphers v" "dv_chat (set_store s v) = dv_chat v"
  by (simp_all add: dv_store_def set_store_def)

section \<open>Properties\<close>

text \<open>Every public key of the database was generated by \<open>crypto_box_keypair\<close>.\<close>

definition keys_generated :: "sodium \<Rightarrow> db \<Rightarrow> bool" where
  "keys_generated N d \<longleftrightarrow> (\<forall>u \<in> set (db_users d). \<forall>pk. us_publicKey u = Some pk
     \<longrightarrow> (\<exists>x. pk = ik_publicKey (identity_of_seed N x)))"

lemma user_by_id_member: "user_by_id d u = Some x \<Longrightarrow> x \<in> set (db_users d)"
  by (simp add: user_by_id_def find_Some_iff) (metis nth_mem)

lemma members_list:
  assumes "db_inv d" and "get_members_with_public_keys d r a = Inr members"
  shows "distinct (map fst members)" and "length members \<le> length (db_members d)"
    and "keys_generated N d \<Longrightarrow> \<forall>(v, pk) \<in> set members. \<exists>x. pk = ik_publicKey (identity_of_seed N x)"
    and "is_member_id d r u \<Longrightarrow> user_by_id d u = Some usr \<Longrightarrow> us_publicKey usr = Some pk \<Longrightarrow> pk \<noteq> []
      \<Longrightarrow> (u, pk) \<in> set members"
proof -
  define f where "f = (\<lambda>m :: member_row. case user_by_id d (mb_userId m) of None \<Rightarrow> None
     | Some user \<Rightarrow> (case us_publicKey user of None \<Rightarrow> None | Some pk \<Rightarrow> if pk = [] then None else Some (mb_userId m, pk)))"
  have mem: "members = List.map_filter f (members_of d r)"
    using assms(2) by (auto simp: get_members_with_public_keys_def bind_result_Inr f_def)
  have fst: "fst y = mb_userId m" if "f m = Some y" for m y
    using that by (auto simp: f_def split: option.splits if_splits)
  have sub: "set (map fst (List.map_filter f ms)) \<subseteq> set (map mb_userId ms)" for ms
    using fst by (force simp: List.map_filter_def)
  have dist: "distinct (map mb_userId ms) \<Longrightarrow> distinct (map fst (List.map_filter f ms))" for ms
  proof (induction ms)
    case (Cons m ms)
    then show ?case
      using sub[of ms] fst[of m] by (cases "f m") (auto simp: List.map_filter_simps)
  qed (simp add: List.map_filter_simps)
  have "distinct (map mb_userId (members_of d r))"
    using assms(1) by (auto simp: db_inv_def keys_unique_def members_of_def distinct_map inj_on_def)
  from dist[OF this] show "distinct (map fst members)" by (simp add: mem)
  have "length members \<le> length (members_of d r)"
    by (simp add: mem List.map_filter_def)
  also have "\<dots> \<le> length (db_members d)" by (simp add: members_of_def)
  finally show "length members \<le> length (db_members d)" .
  show "\<forall>(v, pk) \<in> set members. \<exists>x. pk = ik_publicKey (identity_of_seed N x)" if "keys_generated N d"
    using that user_by_id_member
    by (fastforce simp: mem List.map_filter_def f_def keys_generated_def split: option.splits if_splits)
  show "(u, pk) \<in> set members" if "is_member_id d r u" "user_by_id d u = Some usr" "us_publicKey usr = Some pk" "pk \<noteq> []"
  proof -
    from that(1) obtain m where "m \<in> set (db_members d)" "mb_roomId m = r" "mb_userId m = u"
      unfolding is_member_id_def by blast
    then have m: "m \<in> set (members_of d r)" "mb_userId m = u"
      by (simp_all add: members_of_def)
    then have "f m = Some (u, pk)" using that by (simp add: f_def)
    with m(1) show ?thesis by (force simp: mem List.map_filter_def)
  qed
qed

lemma loaded_room_keys:
  assumes "room_summary_of room (dv_rooms v) = Some summary" and "get_identity K (dv_store v) = Inr (Some i)"
    and "case fetch_and_load_my_grants N K A (sm_id summary) (dv_store v)
        (set_expected_current_epoch (sm_currentKeyId summary) (dv_ciphers v c)) w of (res, s', c', w') \<Rightarrow>
      res = Inr () \<and> map_of (ci_keysByEpoch c') n = Some key"
  shows "map_of (ci_keysByEpoch (dv_ciphers (fst (load_room_keys N K A seed eph uid room c False False c3 v w)) c)) n = Some key"
proof -
  obtain s' c' w' where load: "fetch_and_load_my_grants N K A (sm_id summary) (dv_store v)
      (set_expected_current_epoch (sm_currentKeyId summary) (dv_ciphers v c)) w = (Inr (), s', c', w')"
    "map_of (ci_keysByEpoch c') n = Some key"
    using assms(3) by (auto split: prod.splits)
  have st: "dv_store (v\<lparr>dv_ciphers := ci, dv_chat := ch\<rparr>) = dv_store v" for ci ch
    by (simp add: dv_store_def)
  show ?thesis
    using assms(1,2) load
    by (simp add: load_room_keys_def ensure_identity_published_def Let_def st split: prod.split http.split)
qed

text \<open>C12. An enabled room becomes usable on every member's device: when the admin's enablement, or rotation,
  of a room succeeds, the epoch the admin's list showed was claimed and its device holds the new key,
  and when a member that had published a key opens the room with the new epoch in its list, its
  cipher gets the same key and the composer of the room is ready.\<close>

theorem enabled_room_becomes_usable:
  assumes "kv_store K" and "base64_laws N" and "seal_laws N" and "hash_laws N" and "db_inv d"
    and "length keygen = 32" and "token_of R admin a" and "length (db_members d) \<le> 1000" and "keys_generated N d"
    and "room_summary_of room (dv_rooms va) = Some summary" and "sm_currentKeyId summary < 100000"
    and "get_identity K (dv_store va) = Inr (Some i)"
    and "enable_room_e2ee N K (server_key_api R admin) s0 keygen eph tok room va d = (None, va', d1)"
    and "token_of R token u" and "is_member_id d (sm_id summary) u" and "user_by_id d u = Some usr"
    and "us_publicKey usr = Some (ik_publicKey (identity_of_seed N seed))" and "ik_publicKey (identity_of_seed N seed) \<noteq> []"
    and "room_summary_of room (dv_rooms vm) = Some (summary\<lparr>sm_currentKeyId := sm_currentKeyId summary + 1\<rparr>)"
    and "get_identity K (dv_store vm) = Inr (Some (identity_of_seed N seed))"
    and "get_room_key K (sm_id summary) (sm_currentKeyId summary + 1) (dv_store vm) = None"
  shows "let n = sm_currentKeyId summary + 1;
             vm' = fst (load_room_keys N K (server_key_api R token) s1 eph1 u room c False False c3 vm d1)
    in (\<exists>r. room_by_id d (sm_id summary) = Some r \<and> ro_currentKeyId r = sm_currentKeyId summary)
      \<and> get_room_key K (sm_id summary) n (dv_store va') = Some (sd_to_base64 N keygen)
      \<and> map_of (ci_keysByEpoch (dv_ciphers vm' c)) n = Some keygen
      \<and> is_composer_ready StE2ee n (Some (dv_ciphers vm' c))"
proof -
  let ?id = "sm_id summary" and ?k = "sm_currentKeyId summary"
  obtain members s1' c1 m where fetch: "fetch_room_members (server_key_api R admin) ?id d = (Inr members, d)"
    and run: "enable_or_rotate_room_key N K (server_key_api R admin) keygen eph ?id ?k members (dv_store va) new_cipher d
       = (Inr m, s1', c1, d1)" and va': "dv_store va' = s1'"
    using assms(10,12,13)
    by (auto simp: enable_room_e2ee_def ensure_identity_published_def Let_def fetch_room_members_def server_key_api_def
        get_keys_members_def guarded_def set_store_def dv_store_def fetch_rooms_begin_def request_rooms_begin_def
        split: if_splits sum.splits prod.splits option.splits)
  have list: "get_members_with_public_keys d ?id a = Inr members"
    using fetch assms(7) by (auto simp: fetch_room_members_def server_key_api_def get_keys_members_def guarded_def
        jwt_validate_def token_of_def respond_def split: sum.splits)
  note ml = members_list[OF assms(5) list]
  have len: "length members \<le> 1000" using ml(2) assms(8) by simp
  have u: "(u, ik_publicKey (identity_of_seed N seed)) \<in> set members"
    using ml(4) assms(15-18) by blast
  note minted = minted_key_reaches_members[OF assms(1-6,11,7) ml(1) len run u ml(3)[OF assms(9)] assms(14,20,21),
    where ?c2.0 = "set_expected_current_epoch (?k + 1) (dv_ciphers vm c)"]
  have "map_of (ci_keysByEpoch (dv_ciphers (fst (load_room_keys N K (server_key_api R token) s1 eph1 u room c False False c3 vm d1)) c))
      (?k + 1) = Some keygen"
    using minted by (intro loaded_room_keys[OF assms(19,20)]) (auto split: prod.splits)
  moreover have m: "m = ?k + 1" using minted by blast
  ultimately show ?thesis
    using minted[unfolded m] va' by (simp add: Let_def is_composer_ready_def has_key_def)
qed

section \<open>Witnesses\<close>

definition sample_device :: "8 word \<Rightarrow> nat \<Rightarrow> memory device" where
  "sample_device n k = \<lparr>dv_chat = new_chat_state, dv_ciphers = (\<lambda>_. new_cipher),
     dv_rooms = (new_rooms_state (set_identity memory_storage (sample_identity n) []))\<lparr>rm_rooms :=
       [\<lparr>sm_id = js ''1'', sm_name = js ''team'', sm_role = role_member, sm_currentKeyId = k\<rparr>]\<rparr>\<rparr>"

lemma sample_device_facts [simp]:
  "room_summary_of (js ''team'') (dv_rooms (sample_device n k)) =
     Some \<lparr>sm_id = js ''1'', sm_name = js ''team'', sm_role = role_member, sm_currentKeyId = k\<rparr>"
  "dv_store (sample_device n k) = set_identity memory_storage (sample_identity n) []"
  "get_identity memory_storage (dv_store (sample_device n k)) = Inr (Some (sample_identity n))"
  by (simp_all add: sample_device_def room_summary_of_def dv_store_def new_rooms_state_def sample_store_of)

lemma sample_public_key: "ik_publicKey (sample_identity n) \<noteq> []"
proof -
  have "length (ik_publicKey (sample_identity n)) = 43"
    using sample_base64_laws
    by (simp add: sample_identity_def identity_of_seed_def base64_laws_def sample_sodium_def b64_length_def)
  then show ?thesis by auto
qed

lemma sample_members_read:
  "fetch_room_members (server_key_api sample_rest (js ''a'')) (js ''1'') (sample_pair_db 0) = (Inr sample_members, sample_pair_db 0)"
  using sample_public_key[of 1] sample_public_key[of 2]
  by (simp add: fetch_room_members_def server_key_api_def get_keys_members_def guarded_def jwt_validate_def sample_rest_def
      get_members_with_public_keys_def assert_member_def find_member_def sample_pair_db_def sample_members_def members_of_def
      user_by_id_def sample_user_def respond_def auth_fetch_HttpOk bind_result_def List.map_filter_simps js_def empty_db_def)

lemma enabled_room_becomes_usable_witness:
  "\<exists>va' d1. enable_room_e2ee sample_sodium memory_storage (server_key_api sample_rest (js ''a'')) [] sample_room_key (\<lambda>_. [])
      True (js ''team'') (sample_device 1 0) (sample_pair_db 0) = (None, va', d1)
    \<and> is_composer_ready StE2ee 1 (Some (dv_ciphers (fst (load_room_keys sample_sodium memory_storage
        (server_key_api sample_rest (js ''b'')) [] (\<lambda>_. []) (js ''b'') (js ''team'') 0 False False False (sample_device 2 1) d1)) 0))"
proof -
  let ?A = "server_key_api sample_rest (js ''a'')" and ?s = "set_identity memory_storage (sample_identity 1) []"
  obtain s1 c1 d1 where run: "enable_or_rotate_room_key sample_sodium memory_storage ?A sample_room_key (\<lambda>_. []) (js ''1'') 0
      sample_members ?s new_cipher (sample_pair_db 0) = (Inr 1, s1, c1, d1)"
    by (rule sample_enable)
  then have "\<exists>va'. enable_room_e2ee sample_sodium memory_storage ?A [] sample_room_key (\<lambda>_. []) True (js ''team'')
      (sample_device 1 0) (sample_pair_db 0) = (None, va', d1)"
    by (simp add: enable_room_e2ee_def ensure_identity_published_def sample_store_of sample_members_read Let_def)
      (simp add: sample_members_def)
  then obtain va' where en: "enable_room_e2ee sample_sodium memory_storage ?A [] sample_room_key (\<lambda>_. []) True (js ''team'')
      (sample_device 1 0) (sample_pair_db 0) = (None, va', d1)" by blast
  have gen: "keys_generated sample_sodium (sample_pair_db 0)"
    by (auto simp: keys_generated_def sample_pair_db_def sample_user_def sample_identity_def)
  have mem: "is_member_id (sample_pair_db 0) (js ''1'') (js ''b'')"
    by (simp add: is_member_id_def sample_pair_db_def)
  have usr: "user_by_id (sample_pair_db 0) (js ''b'') = Some (sample_user (js ''b'') (Some (ik_publicKey (sample_identity 2)))
      (Some (hex_digest (ik_publicKey (sample_identity 2)))))"
    by (simp add: user_by_id_def sample_pair_db_def sample_user_def js_def)
  let ?sm = "\<lparr>sm_id = js ''1'', sm_name = js ''team'', sm_role = role_member, sm_currentKeyId = 0\<rparr>"
  have two: "sample_identity 2 = identity_of_seed sample_sodium [2]"
    by (simp add: sample_identity_def)
  note use = enabled_room_becomes_usable[OF memory.kv_store_axioms sample_base64_laws sample_seal_laws sample_hash_laws
      sample_pair_inv _ sample_tokens(1) _ gen _ _ _ en sample_tokens(2) _ usr, where summary = ?sm and seed = "[2]"
      and vm = "sample_device 2 1" and i = "sample_identity 1"
      and ?s1.0 = "[]" and ?eph1.0 = "\<lambda>_. []" and c = 0 and ?c3.0 = False]
  show ?thesis
    using use mem sample_public_key[of 2] en
    by (simp add: sample_room_key_def sample_pair_db_def sample_user_def two sample_store_of Let_def)
qed

end
