(* ===== verification/Raw_Ws_Socket.thy ===== *)
theory Raw_Ws_Socket
  imports Prelude
begin

text \<open>
  \<open>bench/raw-ws-socket.ts\<close>: the WebSocket client of the latency bench after its handshake. Frames are
  read from and written to a TCP stream that arrives in chunks of any size; a close reason is kept
  as its UTF-8 bytes.
\<close>

unbundle bit_operations_syntax

section \<open>Frames\<close>

definition opcode_text :: nat where "opcode_text = 1"
definition opcode_binary :: nat where "opcode_binary = 2"
definition opcode_close :: nat where "opcode_close = 8"
definition opcode_ping :: nat where "opcode_ping = 9"
definition opcode_pong :: nat where "opcode_pong = 10"

lemmas opcode_defs = opcode_text_def opcode_binary_def opcode_close_def opcode_ping_def opcode_pong_def

text \<open>\<open>readUInt16BE\<close> and \<open>readBigUInt64BE\<close>, and the writers.\<close>

definition read_be :: "bytes \<Rightarrow> nat" where
  "read_be bs = foldl (\<lambda>n b. n * 256 + unat b) 0 bs"

fun write_be :: "nat \<Rightarrow> nat \<Rightarrow> bytes" where
  "write_be 0 n = []"
| "write_be (Suc k) n = write_be k (n div 256) @ [word_of_nat (n mod 256)]"

text \<open>Payload byte \<open>i\<close> is xored with byte \<open>i mod 4\<close> of the key, when masking and when unmasking.\<close>

definition apply_mask :: "bytes \<Rightarrow> bytes \<Rightarrow> bytes" where
  "apply_mask key payload = map (\<lambda>i. payload ! i XOR key ! (i mod 4)) [0..<length payload]"

text \<open>The length of the payload and the offset of what follows it, \<open>None\<close> when more bytes are needed.\<close>

definition read_length :: "bytes \<Rightarrow> (nat \<times> nat) option" where
  "read_length buf =
     (let payloadLen = unat (buf ! 1 AND 0x7f)
      in if payloadLen = 126 then (if length buf < 2 + 2 then None else Some (read_be (take 2 (drop 2 buf)), 4))
         else if payloadLen = 127 then (if length buf < 2 + 8 then None else Some (read_be (take 8 (drop 2 buf)), 10))
         else Some (payloadLen, 2))"

text \<open>One turn of the loop of \<open>processBuffer\<close>: the opcode, the payload and the rest of the buffer.\<close>

definition read_frame :: "bytes \<Rightarrow> (nat \<times> bytes \<times> bytes) option" where
  "read_frame buf =
     (if length buf < 2 then None
      else let opcode = unat (buf ! 0 AND 0x0f); masked = (buf ! 1 AND 0x80 \<noteq> 0)
        in case read_length buf of
             None \<Rightarrow> None
           | Some (payloadLen, offset) \<Rightarrow>
               if masked \<and> length buf < offset + 4 then None
               else let maskKey = take 4 (drop offset buf); start = (if masked then offset + 4 else offset)
                 in if length buf < start + payloadLen then None
                    else let payload = take payloadLen (drop start buf)
                      in Some (opcode, if masked then apply_mask maskKey payload else payload,
                               drop (start + payloadLen) buf))"

definition frame_bytes :: "nat \<Rightarrow> bytes \<Rightarrow> bytes \<Rightarrow> bytes" where
  "frame_bytes opcode maskKey payload =
     (let len = length payload;
          lengthBytes = (if len < 126 then [0x80 OR word_of_nat len]
                         else if len < 65536 then (0x80 OR 126) # write_be 2 len
                         else (0x80 OR 127) # write_be 8 len)
      in (0x80 OR word_of_nat opcode) # lengthBytes @ maskKey @ apply_mask maskKey payload)"

section \<open>The socket\<close>

text \<open>Which handlers \<open>on\<close> was given.\<close>

record raw_events =
  rv_onMessage :: bool
  rv_onClose :: bool
  rv_onError :: bool

record 'e raw_socket =
  rw_connected :: bool
  rw_recvBuffer :: bytes
  rw_closed :: bool
  rw_events :: raw_events
  rw_attached :: bool
  rw_pendingMessages :: "bytes list"
  rw_pendingClose :: "(nat \<times> bytes) option"
  rw_pendingError :: "'e option"

datatype 'e raw_effect =
    RwWrite bytes
  | RwDestroy
  | RwOnMessage bytes
  | RwOnClose nat bytes
  | RwOnError 'e

type_synonym 'e raw_outcome = "'e raw_socket \<times> 'e raw_effect list"

definition new_raw_socket :: "bytes \<Rightarrow> 'e raw_socket" where
  "new_raw_socket rest = \<lparr>rw_connected = True, rw_recvBuffer = rest, rw_closed = False,
     rw_events = \<lparr>rv_onMessage = False, rv_onClose = False, rv_onError = False\<rparr>, rw_attached = False,
     rw_pendingMessages = [], rw_pendingClose = None, rw_pendingError = None\<rparr>"

definition emit_message :: "bytes \<Rightarrow> 'e raw_socket \<Rightarrow> 'e raw_outcome" where
  "emit_message data s = (if rw_attached s then (s, if rv_onMessage (rw_events s) then [RwOnMessage data] else [])
     else (s\<lparr>rw_pendingMessages := rw_pendingMessages s @ [data]\<rparr>, []))"

definition emit_close :: "nat \<Rightarrow> bytes \<Rightarrow> 'e raw_socket \<Rightarrow> 'e raw_outcome" where
  "emit_close code reason s = (if rw_attached s then (s, if rv_onClose (rw_events s) then [RwOnClose code reason] else [])
     else (s\<lparr>rw_pendingClose := Some (code, reason)\<rparr>, []))"

definition emit_error :: "'e \<Rightarrow> 'e raw_socket \<Rightarrow> 'e raw_outcome" where
  "emit_error err s = (if rw_attached s then (s, if rv_onError (rw_events s) then [RwOnError err] else [])
     else (s\<lparr>rw_pendingError := Some err\<rparr>, []))"

definition raw_on :: "raw_events \<Rightarrow> 'e raw_socket \<Rightarrow> 'e raw_outcome" where
  "raw_on ev s =
     (let events = \<lparr>rv_onMessage = rv_onMessage (rw_events s) \<or> rv_onMessage ev,
                    rv_onClose = rv_onClose (rw_events s) \<or> rv_onClose ev,
                    rv_onError = rv_onError (rw_events s) \<or> rv_onError ev\<rparr>
      in (s\<lparr>rw_events := events, rw_attached := True, rw_pendingMessages := [], rw_pendingClose := None,
            rw_pendingError := None\<rparr>,
          (if rv_onMessage events then map RwOnMessage (rw_pendingMessages s) else [])
          @ (case rw_pendingClose s of Some (code, reason) \<Rightarrow> if rv_onClose events then [RwOnClose code reason] else []
             | None \<Rightarrow> [])
          @ (case rw_pendingError s of Some err \<Rightarrow> if rv_onError events then [RwOnError err] else [] | None \<Rightarrow> [])))"

definition raw_handle_close :: "nat \<Rightarrow> bytes \<Rightarrow> 'e raw_socket \<Rightarrow> 'e raw_outcome" where
  "raw_handle_close code reason s =
     (if rw_closed s then (s, [])
      else andThen (s\<lparr>rw_closed := True\<rparr>, if rw_connected s then [RwDestroy] else []) (emit_close code reason))"

text \<open>The four random bytes of the mask are an input.\<close>

definition write_frame :: "nat \<Rightarrow> bytes \<Rightarrow> bytes \<Rightarrow> 'e raw_socket \<Rightarrow> 'e raw_outcome" where
  "write_frame opcode maskKey payload s =
     (if rw_closed s \<or> \<not> rw_connected s then (s, []) else (s, [RwWrite (frame_bytes opcode maskKey payload)]))"

definition handle_frame :: "bytes \<Rightarrow> nat \<Rightarrow> bytes \<Rightarrow> 'e raw_socket \<Rightarrow> 'e raw_outcome" where
  "handle_frame maskKey opcode payload s =
     (if opcode = opcode_binary \<or> opcode = opcode_text then emit_message payload s
      else if opcode = opcode_close then
        raw_handle_close (if 2 \<le> length payload then read_be (take 2 payload) else 1005)
          (if 2 < length payload then drop 2 payload else []) s
      else if opcode = opcode_ping then write_frame opcode_pong maskKey payload s
      else (s, []))"

lemma read_frame_shorter: "read_frame buf = Some (opcode, payload, rest) \<Longrightarrow> length rest < length buf"
  by (auto simp: read_frame_def read_length_def Let_def split: if_splits option.splits)

text \<open>The loop; \<open>rnd\<close> gives the random bytes of a pong written with \<open>n\<close> bytes left in the buffer.\<close>

lemma handle_frame_buffer [simp]: "rw_recvBuffer (fst (handle_frame k opcode payload s)) = rw_recvBuffer s"
  by (simp add: handle_frame_def emit_message_def emit_close_def raw_handle_close_def write_frame_def)

lemma handled_buffer: "(t, es) = handle_frame k opcode payload (s\<lparr>rw_recvBuffer := rest\<rparr>) \<Longrightarrow> rw_recvBuffer t = rest"
  using handle_frame_buffer[of k opcode payload "s\<lparr>rw_recvBuffer := rest\<rparr>"] by (metis fst_conv raw_socket.select_convs(2) raw_socket.surjective raw_socket.update_convs(2))

function process_buffer :: "(nat \<Rightarrow> bytes) \<Rightarrow> 'e raw_socket \<Rightarrow> 'e raw_outcome" where
  "process_buffer rnd s = (case read_frame (rw_recvBuffer s) of
     None \<Rightarrow> (s, [])
   | Some (opcode, payload, rest) \<Rightarrow>
       (case handle_frame (rnd (length rest)) opcode payload (s\<lparr>rw_recvBuffer := rest\<rparr>) of
          (t, es) \<Rightarrow> (case process_buffer rnd t of (u, fs) \<Rightarrow> (u, es @ fs))))"
  by pat_completeness auto

termination
  by (relation "measure (\<lambda>(rnd, s). length (rw_recvBuffer s))")
    (auto dest!: read_frame_shorter simp: handled_buffer)

declare process_buffer.simps [simp del]

definition on_data :: "(nat \<Rightarrow> bytes) \<Rightarrow> bytes \<Rightarrow> 'e raw_socket \<Rightarrow> 'e raw_outcome" where
  "on_data rnd chunk s = process_buffer rnd (s\<lparr>rw_recvBuffer := rw_recvBuffer s @ chunk\<rparr>)"

definition raw_send :: "bytes \<Rightarrow> bytes \<Rightarrow> 'e raw_socket \<Rightarrow> 'e raw_outcome" where
  "raw_send maskKey data s = write_frame opcode_binary maskKey data s"

text \<open>\<open>close\<close>: a code above 65535 makes \<open>writeUInt16BE\<close> throw.\<close>

definition raw_close :: "bytes \<Rightarrow> nat \<Rightarrow> bytes \<Rightarrow> 'e raw_socket \<Rightarrow> 'e raw_outcome option" where
  "raw_close maskKey code reason s =
     (if rw_closed s \<or> \<not> rw_connected s then Some (s, [])
      else if 65535 < code then None
      else Some (andThen (write_frame opcode_close maskKey (write_be 2 code @ reason) s) (raw_handle_close code reason)))"

section \<open>Lemmas\<close>

lemma length_write_be [simp]: "length (write_be k n) = k"
  by (induction k n rule: write_be.induct) simp_all

lemma read_be_snoc: "read_be (bs @ [b]) = read_be bs * 256 + unat b"
  by (simp add: read_be_def)

lemma read_write_be: "n < 256 ^ k \<Longrightarrow> read_be (write_be k n) = n"
proof (induction k n rule: write_be.induct)
  case (1 n)
  then show ?case by (simp add: read_be_def)
next
  case (2 k n)
  have "unat (word_of_nat (n mod 256) :: 8 word) = n mod 256"
    by (simp add: unat_of_nat)
  moreover have "n div 256 < 256 ^ k"
    using 2(2) by (simp add: less_mult_imp_div_less mult.commute)
  ultimately show ?case
    using 2(1) by (simp add: read_be_snoc)
qed

lemma length_apply_mask [simp]: "length (apply_mask key payload) = length payload"
  by (simp add: apply_mask_def)

lemma apply_mask_twice: "apply_mask key (apply_mask key payload) = payload"
  by (rule nth_equalityI) (simp_all add: apply_mask_def xor.assoc)

lemma high_bit_masked: "(0x80 OR w :: 8 word) AND 0x80 \<noteq> 0"
proof
  assume "(0x80 OR w) AND 0x80 = 0"
  then have "bit ((0x80 OR w) AND 0x80 :: 8 word) 7" by (simp add: bit_simps)
  with \<open>(0x80 OR w) AND 0x80 = 0\<close> show False by simp
qed

lemma low_bits: "n < 128 \<Longrightarrow> unat ((0x80 OR word_of_nat n :: 8 word) AND 0x7f) = n"
proof -
  assume n: "n < 128"
  have "(0x80 OR word_of_nat n :: 8 word) AND 0x7f = take_bit 7 (0x80 OR word_of_nat n)"
    by (simp add: take_bit_eq_mask mask_eq_exp_minus_1)
  also have "\<dots> = take_bit 7 (word_of_nat n)" by (simp add: take_bit_or)
  finally show ?thesis
    using n by (simp add: unsigned_take_bit_eq unat_of_nat take_bit_nat_eq_self)
qed

lemma low_opcode: "n < 16 \<Longrightarrow> unat ((0x80 OR word_of_nat n :: 8 word) AND 0x0f) = n"
proof -
  assume n: "n < 16"
  have "(0x80 OR word_of_nat n :: 8 word) AND 0x0f = take_bit 4 (0x80 OR word_of_nat n)"
    by (simp add: take_bit_eq_mask mask_eq_exp_minus_1)
  also have "\<dots> = take_bit 4 (word_of_nat n)" by (simp add: take_bit_or)
  finally show ?thesis
    using n by (simp add: unsigned_take_bit_eq unat_of_nat take_bit_nat_eq_self)
qed

lemma read_length_frame:
  assumes "length payload < 2 ^ 64"
  shows "\<exists>lengthBytes. frame_bytes opcode key payload = (0x80 OR word_of_nat opcode) # lengthBytes @ key @ apply_mask key payload
    \<and> lengthBytes \<noteq> [] \<and> hd lengthBytes AND 0x80 \<noteq> 0
    \<and> (\<forall>b rest. read_length (b # lengthBytes @ rest) = Some (length payload, Suc (length lengthBytes)))"
proof -
  have n: "length payload < 256 ^ 8" using assms by simp
  consider "length payload < 126" | "\<not> length payload < 126" "length payload < 65536" | "\<not> length payload < 65536"
    by linarith
  then show ?thesis
  proof cases
    case 1
    then show ?thesis
      using high_bit_masked low_bits[of "length payload"]
      by (intro exI[of _ "[0x80 OR word_of_nat (length payload)]"]) (simp add: frame_bytes_def read_length_def Let_def)
  next
    case 2
    then show ?thesis
      using high_bit_masked[of 126] low_bits[of 126] read_write_be[of "length payload" 2]
      by (intro exI[of _ "(0x80 OR 126) # write_be 2 (length payload)"]) (simp add: frame_bytes_def read_length_def Let_def)
  next
    case 3
    then show ?thesis
      using high_bit_masked[of 127] low_bits[of 127] read_write_be[OF n]
      by (intro exI[of _ "(0x80 OR 127) # write_be 8 (length payload)"]) (simp add: frame_bytes_def read_length_def Let_def)
  qed
qed

lemma read_frame_bytes:
  assumes "length payload < 2 ^ 64" and "opcode < 16" and "length key = 4"
  shows "read_frame (frame_bytes opcode key payload @ rest) = Some (opcode, payload, rest)"
proof -
  obtain lb where lb: "frame_bytes opcode key payload = (0x80 OR word_of_nat opcode) # lb @ key @ apply_mask key payload"
    "lb \<noteq> []" "hd lb AND 0x80 \<noteq> 0"
    "\<And>b r. read_length (b # lb @ r) = Some (length payload, Suc (length lb))"
    using read_length_frame[OF assms(1)] by metis
  have "(lb @ r) ! 0 = hd lb" for r using lb(2) by (cases lb) simp_all
  moreover have d: "drop (5 + length lb) (x # lb @ key @ zs) = zs" for x zs
  proof -
    have "drop (length (x # lb @ key)) ((x # lb @ key) @ zs) = zs" by (rule append_eq_conv_conj[THEN iffD1, THEN conjunct2, symmetric, OF refl])
    then show ?thesis using assms(3) by (simp add: add.commute)
  qed
  moreover have "drop (5 + length lb + n) (x # lb @ key @ zs) = drop n zs" for x zs n
    using d[of x zs] by (metis drop_drop add.commute)
  ultimately show ?thesis
    using lb assms(3) low_opcode[OF assms(2)]
    by (simp add: read_frame_def Let_def apply_mask_twice)
qed

text \<open>What was read does not depend on the bytes that follow.\<close>

lemma read_length_append:
  "read_length a = Some x \<Longrightarrow> 2 \<le> length a \<Longrightarrow> read_length (a @ b) = Some x"
  by (auto simp: read_length_def Let_def nth_append split: if_splits)

lemma read_frame_append:
  assumes "read_frame a = Some (opcode, payload, rest)"
  shows "read_frame (a @ b) = Some (opcode, payload, rest @ b)"
proof -
  have two: "2 \<le> length a" using assms by (simp add: read_frame_def split: if_splits)
  obtain n offset where l: "read_length a = Some (n, offset)"
    using assms by (auto simp: read_frame_def Let_def split: if_splits option.splits)
  have nth: "(a @ b) ! 0 = a ! 0" "(a @ b) ! 1 = a ! 1"
    using two by (simp_all add: nth_append) (auto simp: not_less)
  show ?thesis
    using assms two l read_length_append[OF l two, of b]
    by (auto simp: read_frame_def Let_def nth[simplified] split: if_splits)
qed

text \<open>The stream as a whole: its complete frames, and what is left.\<close>

function split_stream :: "bytes \<Rightarrow> (nat \<times> bytes) list \<times> bytes" where
  "split_stream buf = (case read_frame buf of
     None \<Rightarrow> ([], buf)
   | Some (opcode, payload, rest) \<Rightarrow> (case split_stream rest of (fs, r) \<Rightarrow> ((opcode, payload) # fs, r)))"
  by pat_completeness auto

termination
  by (relation "measure length") (auto dest: read_frame_shorter)

declare split_stream.simps [simp del]

lemma split_stream_append:
  "split_stream a = (fs, r) \<Longrightarrow> split_stream (a @ b) = (case split_stream (r @ b) of (gs, r') \<Rightarrow> (fs @ gs, r'))"
proof (induction a arbitrary: fs r rule: split_stream.induct)
  case (1 a)
  show ?case
  proof (cases "read_frame a")
    case None
    with 1(2) show ?thesis by (simp add: split_stream.simps[of a] split: prod.split)
  next
    case (Some x)
    then obtain opcode payload rest where f: "read_frame a = Some (opcode, payload, rest)" by (metis prod_cases3)
    obtain gs r' where g: "split_stream rest = (gs, r')" by (cases "split_stream rest")
    with f 1(2) have "fs = (opcode, payload) # gs" "r = r'" by (simp_all add: split_stream.simps[of a])
    with 1(1)[OF f refl refl g] show ?thesis
      by (simp add: split_stream.simps[of "a @ b"] read_frame_append[OF f] split: prod.split)
  qed
qed

lemma split_stream_rest: "split_stream a = (fs, r) \<Longrightarrow> read_frame r = None"
proof (induction a arbitrary: fs r rule: split_stream.induct)
  case (1 a)
  then show ?case
    by (cases "read_frame a") (auto simp: split_stream.simps[of a] split: prod.splits)
qed

section \<open>The socket over the stream\<close>

lemma new_raw_socket_fields [simp]:
  "rw_recvBuffer (new_raw_socket b) = b" "rw_attached (new_raw_socket b) = False"
  "rw_pendingMessages (new_raw_socket b) = []" "rw_closed (new_raw_socket b) = False"
  by (simp_all add: new_raw_socket_def)

lemma process_nothing: "process_buffer rnd (new_raw_socket []) = (new_raw_socket [], [])"
  by (simp add: process_buffer.simps[of rnd "new_raw_socket []"] read_frame_def)

text \<open>The payloads of the data frames, and the messages handed to the consumer.\<close>

definition data_payloads :: "(nat \<times> bytes) list \<Rightarrow> bytes list" where
  "data_payloads fs = map snd (filter (\<lambda>f. fst f = opcode_binary \<or> fst f = opcode_text) fs)"

definition messages_in :: "'e raw_effect list \<Rightarrow> bytes list" where
  "messages_in es = concat (map (\<lambda>e. case e of RwOnMessage d \<Rightarrow> [d] | _ \<Rightarrow> []) es)"

lemma messages_in_append [simp]: "messages_in (es @ fs) = messages_in es @ messages_in fs"
  by (simp add: messages_in_def)

text \<open>A frame delivers its payload when a consumer listens, and queues it otherwise.\<close>

definition listens :: "'e raw_socket \<Rightarrow> bool" where
  "listens s \<longleftrightarrow> rw_attached s \<and> rv_onMessage (rw_events s)"

definition delivered :: "bytes list \<Rightarrow> 'e raw_socket \<Rightarrow> 'e raw_outcome \<Rightarrow> bool" where
  "delivered ds s out \<longleftrightarrow> rw_attached (fst out) = rw_attached s \<and> rw_events (fst out) = rw_events s
     \<and> (rw_attached s \<longrightarrow> rw_pendingMessages (fst out) = rw_pendingMessages s)
     \<and> (\<not> rw_attached s \<longrightarrow> rw_pendingMessages (fst out) = rw_pendingMessages s @ ds \<and> messages_in (snd out) = [])
     \<and> (listens s \<longrightarrow> messages_in (snd out) = ds)"

lemma handle_frame_delivers: "delivered (data_payloads [(opcode, payload)]) s (handle_frame k opcode payload s)"
  by (auto simp: delivered_def listens_def data_payloads_def handle_frame_def emit_message_def raw_handle_close_def
      emit_close_def write_frame_def opcode_defs messages_in_def)

lemma delivered_trans:
  "delivered ds s (t, es) \<Longrightarrow> delivered gs t (u, fs) \<Longrightarrow> delivered (ds @ gs) s (u, es @ fs)"
  by (auto simp: delivered_def listens_def)

lemma delivered_buffer: "delivered ds (s\<lparr>rw_recvBuffer := b\<rparr>) out \<longleftrightarrow> delivered ds s out"
  by (simp add: delivered_def listens_def)

text \<open>The loop hands over exactly the complete frames of the buffer and keeps the rest.\<close>

lemma process_buffer_stream:
  assumes "split_stream (rw_recvBuffer s) = (fs, r)"
  shows "rw_recvBuffer (fst (process_buffer rnd s)) = r \<and> delivered (data_payloads fs) s (process_buffer rnd s)"
  using assms
proof (induction rnd s arbitrary: fs rule: process_buffer.induct)
  case (1 rnd s)
  show ?case
  proof (cases "read_frame (rw_recvBuffer s)")
    case None
    with 1(2) show ?thesis
      by (auto simp: process_buffer.simps[of rnd s] split_stream.simps[of "rw_recvBuffer s"] delivered_def data_payloads_def
          messages_in_def)
  next
    case (Some x)
    then obtain opcode payload rest where f: "read_frame (rw_recvBuffer s) = Some (opcode, payload, rest)"
      by (metis prod_cases3)
    obtain t es where h: "handle_frame (rnd (length rest)) opcode payload (s\<lparr>rw_recvBuffer := rest\<rparr>) = (t, es)"
      by (cases "handle_frame (rnd (length rest)) opcode payload (s\<lparr>rw_recvBuffer := rest\<rparr>)")
    obtain gs where g: "split_stream rest = (gs, r)" "fs = (opcode, payload) # gs"
      using 1(2) f by (auto simp: split_stream.simps[of "rw_recvBuffer s"] split: prod.splits)
    have b: "rw_recvBuffer t = rest" using handled_buffer[OF h[symmetric]] .
    obtain u es' where p: "process_buffer rnd t = (u, es')" by (cases "process_buffer rnd t")
    have whole: "process_buffer rnd s = (u, es @ es')"
      by (simp add: process_buffer.simps[of rnd s] f h p)
    have ih: "rw_recvBuffer u = r" "delivered (data_payloads gs) t (u, es')"
      using 1(1)[OF f refl refl h[symmetric], of gs] g(1) b p by simp_all
    have "delivered (data_payloads [(opcode, payload)]) s (t, es)"
      using handle_frame_delivers[of opcode payload "s\<lparr>rw_recvBuffer := rest\<rparr>" "rnd (length rest)"]
      by (simp add: h delivered_buffer)
    moreover have "data_payloads fs = data_payloads [(opcode, payload)] @ data_payloads gs"
      by (simp add: g(2) data_payloads_def)
    ultimately show ?thesis
      using delivered_trans[OF _ ih(2)] ih(1) by (simp only: whole fst_conv simp_thms)
  qed
qed

text \<open>
  The chunks that reach the socket. Once it has destroyed its end of the connection, node emits no more of
  them; the loop over the chunk that held the close frame still runs to its end.
\<close>

definition data_event :: "(nat \<Rightarrow> bytes) \<Rightarrow> bytes \<Rightarrow> 'e raw_socket \<Rightarrow> 'e raw_outcome" where
  "data_event rnd chunk s = (if rw_closed s then (s, []) else on_data rnd chunk s)"

fun feed :: "(nat \<Rightarrow> bytes) \<Rightarrow> bytes list \<Rightarrow> 'e raw_socket \<Rightarrow> 'e raw_outcome" where
  "feed rnd [] s = (s, [])"
| "feed rnd (c # cs) s = andThen (data_event rnd c s) (feed rnd cs)"

definition frames_of :: "bytes \<Rightarrow> (nat \<times> bytes) list" where
  "frames_of b = fst (split_stream b)"

definition has_close :: "(nat \<times> bytes) list \<Rightarrow> bool" where
  "has_close fs \<longleftrightarrow> list_ex (\<lambda>f. fst f = opcode_close) fs"

definition until_close :: "(nat \<times> bytes) list \<Rightarrow> (nat \<times> bytes) list" where
  "until_close fs = takeWhile (\<lambda>f. fst f \<noteq> opcode_close) fs"

text \<open>The part of the stream that is read: up to the end of the chunk that completes the first close frame.\<close>

fun heard :: "bytes \<Rightarrow> bytes list \<Rightarrow> bytes" where
  "heard b [] = b"
| "heard b (c # cs) = (if has_close (frames_of b) then b else heard (b @ c) cs)"

lemma heard_closed: "has_close (frames_of b) \<Longrightarrow> heard b cs = b"
  by (cases cs) simp_all

lemma heard_append: "heard b (xs @ ys) = heard (heard b xs) ys"
  by (induction xs arbitrary: b) (simp_all add: heard_closed)

lemma has_close_append [simp]: "has_close (xs @ ys) \<longleftrightarrow> has_close xs \<or> has_close ys"
  by (simp add: has_close_def)

lemma frames_of_append: "\<exists>gs. frames_of (a @ b) = frames_of a @ gs"
  using split_stream_append[of a "fst (split_stream a)" "snd (split_stream a)" b]
  by (simp add: frames_of_def split_def)

lemma heard_frames:
  "\<exists>gs. frames_of (b @ concat cs) = frames_of (heard b cs) @ gs
    \<and> (has_close (frames_of (heard b cs)) \<or> heard b cs = b @ concat cs)"
proof (induction cs arbitrary: b)
  case (Cons c cs)
  then show ?case
    using Cons.IH[of "b @ c"] frames_of_append[of b "c @ concat cs"] by (cases "has_close (frames_of b)") auto
qed simp

text \<open>The loop notes a close frame.\<close>

lemma handle_frame_closed:
  "rw_closed (fst (handle_frame k opcode payload s)) \<longleftrightarrow> rw_closed s \<or> opcode = opcode_close"
  by (auto simp: handle_frame_def emit_message_def emit_close_def raw_handle_close_def write_frame_def opcode_defs)

lemma process_buffer_closed:
  "rw_closed (fst (process_buffer rnd s)) \<longleftrightarrow> rw_closed s \<or> has_close (frames_of (rw_recvBuffer s))"
proof (induction rnd s rule: process_buffer.induct)
  case (1 rnd s)
  show ?case
  proof (cases "read_frame (rw_recvBuffer s)")
    case None
    then show ?thesis
      by (simp add: process_buffer.simps[of rnd s] frames_of_def split_stream.simps[of "rw_recvBuffer s"] has_close_def)
  next
    case (Some x)
    then obtain opcode payload rest where f: "read_frame (rw_recvBuffer s) = Some (opcode, payload, rest)"
      by (metis prod_cases3)
    obtain t es where h: "handle_frame (rnd (length rest)) opcode payload (s\<lparr>rw_recvBuffer := rest\<rparr>) = (t, es)"
      by (cases "handle_frame (rnd (length rest)) opcode payload (s\<lparr>rw_recvBuffer := rest\<rparr>)")
    have t: "rw_recvBuffer t = rest" "rw_closed t \<longleftrightarrow> rw_closed s \<or> opcode = opcode_close"
      using handled_buffer[OF h[symmetric]] handle_frame_closed[of "rnd (length rest)" opcode payload "s\<lparr>rw_recvBuffer := rest\<rparr>"]
      by (simp_all add: h)
    have "frames_of (rw_recvBuffer s) = (opcode, payload) # frames_of rest"
      by (simp add: frames_of_def split_stream.simps[of "rw_recvBuffer s"] f split_def)
    with 1[OF f refl refl h[symmetric]] t show ?thesis
      by (simp add: process_buffer.simps[of rnd s] f h split_def has_close_def)
  qed
qed

text \<open>Having read the stream \<open>b\<close>, the socket goes on with what it still hears of the chunks.\<close>

definition has_read :: "bytes \<Rightarrow> 'e raw_socket \<Rightarrow> bool" where
  "has_read b s \<longleftrightarrow> rw_recvBuffer s = snd (split_stream b) \<and> (rw_closed s \<longleftrightarrow> has_close (frames_of b))"

lemma process_has_read:
  assumes "\<not> rw_closed s"
  shows "has_read (rw_recvBuffer s) (fst (process_buffer rnd s))
    \<and> delivered (data_payloads (frames_of (rw_recvBuffer s))) s (process_buffer rnd s)"
  using assms process_buffer_stream[of s "frames_of (rw_recvBuffer s)" "snd (split_stream (rw_recvBuffer s))" rnd]
  by (simp add: has_read_def process_buffer_closed frames_of_def)

lemma delivered_nothing: "delivered [] s (s, [])"
  by (simp add: delivered_def messages_in_def)

lemma feed_hears:
  assumes "has_read b s"
  shows "has_read (heard b cs) (fst (feed rnd cs s))
    \<and> (\<exists>gs. frames_of (heard b cs) = frames_of b @ gs \<and> delivered (data_payloads gs) s (feed rnd cs s))"
  using assms
proof (induction cs arbitrary: b s)
  case Nil
  then show ?case using delivered_nothing[of s] by (auto simp: data_payloads_def intro!: exI[of _ "[]"])
next
  case (Cons c cs)
  show ?case
  proof (cases "rw_closed s")
    case True
    then have "heard b (c # cs) = heard b cs" "feed rnd (c # cs) s = feed rnd cs s"
      using Cons.prems by (simp_all add: has_read_def heard_closed data_event_def)
    with Cons.IH[OF Cons.prems] show ?thesis by simp
  next
    case False
    let ?s = "s\<lparr>rw_recvBuffer := rw_recvBuffer s @ c\<rparr>"
    obtain t es where o: "process_buffer rnd ?s = (t, es)" by (cases "process_buffer rnd ?s")
    obtain u es' where f: "feed rnd cs t = (u, es')" by (cases "feed rnd cs t")
    have fed: "feed rnd (c # cs) s = (u, es @ es')"
      using False by (simp add: data_event_def on_data_def o f)
    let ?hs = "frames_of (rw_recvBuffer s @ c)"
    have whole: "frames_of (b @ c) = frames_of b @ ?hs" "snd (split_stream (b @ c)) = snd (split_stream (rw_recvBuffer s @ c))"
      using Cons.prems split_stream_append[of b "frames_of b" "rw_recvBuffer s" c]
      by (simp_all add: has_read_def frames_of_def split_def)
    have open_: "\<not> has_close (frames_of b)" using False Cons.prems by (simp add: has_read_def)
    have t: "has_read (b @ c) t" "delivered (data_payloads ?hs) s (t, es)"
      using process_has_read[of ?s rnd] False whole open_ by (simp_all add: has_read_def o delivered_buffer)
    from Cons.IH[OF t(1)] obtain gs where gs: "has_read (heard (b @ c) cs) u"
      "frames_of (heard (b @ c) cs) = frames_of (b @ c) @ gs" "delivered (data_payloads gs) t (u, es')"
      by (auto simp: f)
    have "delivered (data_payloads (?hs @ gs)) s (u, es @ es')"
      using delivered_trans[OF t(2) gs(3)] by (simp add: data_payloads_def)
    with gs(1,2) open_ fed whole(1) show ?thesis by auto
  qed
qed

lemma raw_on_has_read: "has_read b s \<Longrightarrow> has_read b (fst (raw_on ev s))"
  by (simp add: raw_on_def has_read_def Let_def)

lemma data_payloads_append [simp]: "data_payloads (xs @ ys) = data_payloads xs @ data_payloads ys"
  by (simp add: data_payloads_def)

lemma payloads_until_close:
  assumes "fs = gs @ hs" and "has_close gs \<or> hs = []"
  shows "prefix (data_payloads (until_close fs)) (data_payloads gs)" "prefix (data_payloads gs) (data_payloads fs)"
proof -
  have "until_close fs = until_close gs"
    using assms by (auto simp: until_close_def has_close_def list_ex_iff takeWhile_append1)
  then have "gs = until_close fs @ dropWhile (\<lambda>f. fst f \<noteq> opcode_close) gs"
    by (simp add: until_close_def)
  then show "prefix (data_payloads (until_close fs)) (data_payloads gs)"
    by (metis data_payloads_append prefixI)
  show "prefix (data_payloads gs) (data_payloads fs)" by (simp add: assms(1))
qed

section \<open>Properties\<close>

text \<open>A frame the client writes is read back whole: for every payload shorter than 2^64 bytes, across
  the three encodings of the length, the reader finds the opcode, the unmasked payload and exactly
  the bytes that followed the frame, and one byte less of the frame is never taken for a frame.\<close>

theorem frame_roundtrip:
  assumes "length payload < 2 ^ 64" and "opcode < 16" and "length key = 4"
  shows "read_frame (frame_bytes opcode key payload @ rest) = Some (opcode, payload, rest)
    \<and> (\<forall>n < length (frame_bytes opcode key payload). read_frame (take n (frame_bytes opcode key payload)) = None)"
proof -
  let ?f = "frame_bytes opcode key payload"
  have "read_frame (take n ?f) = None" if n: "n < length ?f" for n
  proof (rule ccontr)
    assume "read_frame (take n ?f) \<noteq> None"
    then obtain a b c where s: "read_frame (take n ?f) = Some (a, b, c)" by auto
    from read_frame_append[OF s, of "drop n ?f"] read_frame_bytes[OF assms, of "[]"] n show False by simp
  qed
  with read_frame_bytes[OF assms] show ?thesis by blast
qed

text \<open>C28. The stream is delivered in order. Whatever way TCP cuts the server's stream into chunks, and at
  whichever point the consumer attaches its handlers, it is handed the payloads of the data frames, each
  once and in the order of the stream: all of those before the first close frame, and after it only those
  that ended in the same chunk as that close frame. Without a close frame the cuts make no difference at
  all, and an incomplete frame at the end stays in the buffer.\<close>

theorem stream_delivered_in_order:
  fixes first :: bytes and before after :: "bytes list"
  assumes "rv_onMessage ev"
  defines "stream \<equiv> frames_of (first @ concat (before @ after))"
  shows "case process_buffer rnd (new_raw_socket first :: 'e raw_socket) of (s0, es0) \<Rightarrow>
      (case feed rnd before s0 of (s1, es1) \<Rightarrow>
        (case raw_on ev s1 of (s2, es2) \<Rightarrow>
          (case feed rnd after s2 of (s3, es3) \<Rightarrow>
             (let msgs = messages_in (es0 @ es1 @ es2 @ es3)
              in msgs = data_payloads (frames_of (heard first (before @ after)))
               \<and> prefix (data_payloads (until_close stream)) msgs \<and> prefix msgs (data_payloads stream)
               \<and> (\<not> has_close stream \<longrightarrow> msgs = data_payloads stream
                    \<and> rw_recvBuffer s3 = snd (split_stream (first @ concat (before @ after))))))))"
proof -
  let ?h = "heard first (before @ after)"
  obtain s0 es0 where s0: "process_buffer rnd (new_raw_socket first :: 'e raw_socket) = (s0, es0)"
    by (cases "process_buffer rnd (new_raw_socket first :: 'e raw_socket)")
  obtain s1 es1 where s1: "feed rnd before s0 = (s1, es1)" by (cases "feed rnd before s0")
  obtain s2 es2 where s2: "raw_on ev s1 = (s2, es2)" by (cases "raw_on ev s1")
  obtain s3 es3 where s3: "feed rnd after s2 = (s3, es3)" by (cases "feed rnd after s2")
  have a0: "has_read first s0" "delivered (data_payloads (frames_of first)) (new_raw_socket first) (s0, es0)"
    using process_has_read[of "new_raw_socket first :: 'e raw_socket" rnd] by (simp_all add: s0)
  obtain f1 where a1: "has_read (heard first before) s1" "frames_of (heard first before) = frames_of first @ f1"
    "delivered (data_payloads f1) s0 (s1, es1)"
    using feed_hears[OF a0(1), of before rnd] by (auto simp: s1)
  have q: "\<not> rw_attached s1" "rw_pendingMessages s1 = data_payloads (frames_of (heard first before))"
    "messages_in es0 = []" "messages_in es1 = []"
    using a0(2) a1(2,3) by (auto simp: delivered_def)
  have each: "messages_in (map RwOnMessage ds) = ds" for ds :: "bytes list"
    by (induction ds) (simp_all add: messages_in_def)
  have a2: "has_read (heard first before) s2" "listens s2" "messages_in es2 = data_payloads (frames_of (heard first before))"
    using raw_on_has_read[OF a1(1), of ev] s2 q assms(1)
    by (auto simp: raw_on_def Let_def listens_def each messages_in_def[of "[RwOnClose a b]" for a b]
        messages_in_def[of "[RwOnError a]" for a] messages_in_def[of "[]"] split: option.splits)
  obtain f2 where a3: "has_read ?h s3" "frames_of ?h = frames_of (heard first before) @ f2"
    "delivered (data_payloads f2) s2 (s3, es3)"
    using feed_hears[OF a2(1), of after rnd] by (auto simp: s3 heard_append)
  have msgs: "messages_in (es0 @ es1 @ es2 @ es3) = data_payloads (frames_of ?h)"
    using a2(2,3) a3(2,3) q by (simp add: delivered_def)
  obtain gs where gs: "stream = frames_of ?h @ gs" "has_close (frames_of ?h) \<or> ?h = first @ concat (before @ after)"
    using heard_frames[of first "before @ after"] by (auto simp: stream_def)
  have "has_close (frames_of ?h) \<or> gs = []"
    using gs by (auto simp: stream_def)
  note order = payloads_until_close[OF gs(1) this]
  have "data_payloads (frames_of ?h) = data_payloads stream \<and> rw_recvBuffer s3 = snd (split_stream (first @ concat (before @ after)))"
    if n: "\<not> has_close stream"
  proof -
    have "?h = first @ concat (before @ after)" using n gs by auto
    then show ?thesis using a3(1) by (simp add: stream_def has_read_def)
  qed
  with order show ?thesis unfolding s0 prod.case s1 s2 s3 Let_def msgs by blast
qed

section \<open>Witnesses\<close>

lemma frame_roundtrip_witness:
  "read_frame (frame_bytes opcode_ping [1, 2, 3, 4] [9, 8] @ [7]) = Some (opcode_ping, [9, 8], [7])"
  using frame_roundtrip[of "[9, 8]" opcode_ping "[1, 2, 3, 4]" "[7]"] by (simp add: opcode_ping_def)

text \<open>
  Two messages around a consumer that attaches late; and a close frame: the message behind it in its chunk
  is delivered, the one in the next chunk is not.
\<close>

lemma stream_delivered_in_order_witness:
  "case feed (\<lambda>_. [0, 0, 0, 0]) [[0x82], [1, 5, 0x82]] (new_raw_socket [] :: nat raw_socket) of (s1, es1) \<Rightarrow>
    (case raw_on \<lparr>rv_onMessage = True, rv_onClose = True, rv_onError = True\<rparr> s1 of (s2, es2) \<Rightarrow>
      (case feed (\<lambda>_. [0, 0, 0, 0]) [[1, 6, 0x88, 0, 0x82, 1, 7], [0x82, 1, 8]] s2 of (s3, es3) \<Rightarrow>
         messages_in (es1 @ es2 @ es3) = [[5], [6], [7]]))"
proof -
  have "heard [] [[0x82], [1, 5, 0x82], [1, 6, 0x88, 0, 0x82, 1, 7], [0x82, 1, 8]] = [0x82, 1, 5, 0x82, 1, 6, 0x88, 0, 0x82, 1, 7]"
    "data_payloads (frames_of [0x82, 1, 5, 0x82, 1, 6, 0x88, 0, 0x82, 1, 7]) = [[5], [6], [7]]"
    by (simp_all add: frames_of_def split_stream.simps read_frame_def read_length_def has_close_def data_payloads_def
        opcode_defs Let_def)
  then show ?thesis
    using stream_delivered_in_order[of "\<lparr>rv_onMessage = True, rv_onClose = True, rv_onError = True\<rparr>", where rnd = "\<lambda>_. [0, 0, 0, 0]"
        and first = "[]" and before = "[[0x82], [1, 5, 0x82]]" and after = "[[1, 6, 0x88, 0, 0x82, 1, 7], [0x82, 1, 8]]" and 'e = nat]
    by (simp add: process_nothing Let_def del: feed.simps messages_in_append heard.simps split: prod.splits)
qed

end
