(* ===== verification/Conversation.thy ===== *)
theory Conversation
  imports Complex_Main Json Shared_Types
begin

text \<open>
  The pure helpers of the chat screen: \<open>src/apps/mobile/src/chat/*.ts\<close>,
  \<open>src/apps/mobile/src/utils/orderDigest.ts\<close> and \<open>src/apps/mobile/src/qa/qaReadout.ts\<close>. Hashing, grouping,
  the typing line, the header's labels and the list's scroll rules are each one definition. Layout
  lengths are rational numbers; the rounding of their sums to doubles is not modelled.
\<close>

unbundle bit_operations_syntax

section \<open>FNV-1a: author colours and the order digest\<close>

definition fnv_offset :: "32 word" where "fnv_offset = 0x811c9dc5"
definition fnv_prime :: "32 word" where "fnv_prime = 0x01000193"
definition color_slots :: nat where "color_slots = 8"

definition fnv_step :: "jchar \<Rightarrow> 32 word \<Rightarrow> 32 word" where
  "fnv_step c hash = (hash XOR ucast c) * fnv_prime"

definition fnv1a32 :: "jstr \<Rightarrow> 32 word" where
  "fnv1a32 input = fold fnv_step input fnv_offset"

definition author_color_index :: "jstr \<Rightarrow> nat" where
  "author_color_index userId = unat (fnv1a32 userId) mod color_slots"

definition author_colors :: "jstr \<Rightarrow> 'a list \<Rightarrow> 'a" where
  "author_colors userId palette = palette ! (author_color_index userId mod length palette)"

text \<open>\<open>toString(16)\<close> and \<open>padStart\<close>.\<close>

fun hex_nat :: "nat \<Rightarrow> jstr" where
  "hex_nat n = (if n < 16 then [hex_char n] else hex_nat (n div 16) @ [hex_char (n mod 16)])"

declare hex_nat.simps [simp del]

definition pad_start :: "nat \<Rightarrow> jchar \<Rightarrow> jstr \<Rightarrow> jstr" where
  "pad_start n c s = replicate (n - length s) c @ s"

definition compute_order_digest :: "jstr list \<Rightarrow> jstr" where
  "compute_order_digest orderedContents = pad_start 8 48 (hex_nat (unat (fnv1a32 (join [124] orderedContents))))"

definition is_qa_readout_enabled :: "jstr option \<Rightarrow> bool" where
  "is_qa_readout_enabled flag \<longleftrightarrow> flag = Some (js ''1'')"

section \<open>Groups of messages\<close>

definition group_gap_ms :: int where "group_gap_ms = 5 * 60000"

record group_position =
  gp_showAuthor :: bool
  gp_isFirst :: bool
  gp_isLast :: bool

definition same_group :: "message \<Rightarrow> message \<Rightarrow> int \<Rightarrow> bool" where
  "same_group a b gapMs \<longleftrightarrow> m_userId a = m_userId b \<and> \<bar>m_createdAt b - m_createdAt a\<bar> \<le> gapMs"

definition group_position_of ::
  "message option \<Rightarrow> message \<Rightarrow> message option \<Rightarrow> int \<Rightarrow> jstr option \<Rightarrow> group_position" where
  "group_position_of prev cur nxt gapMs myUserId =
     (let isFirst = (case prev of None \<Rightarrow> True | Some p \<Rightarrow> \<not> same_group p cur gapMs);
          isLast = (case nxt of None \<Rightarrow> True | Some n \<Rightarrow> \<not> same_group cur n gapMs)
      in \<lparr>gp_showAuthor = isFirst \<and> Some (m_userId cur) \<noteq> myUserId, gp_isFirst = isFirst, gp_isLast = isLast\<rparr>)"

section \<open>Greeting and typing line\<close>

definition ellipsis :: jchar where "ellipsis = 0x2026"

definition greeting :: "jstr option \<Rightarrow> jstr" where
  "greeting username = (case map_option trim username of
       None \<Rightarrow> js ''Welcome back''
     | Some name \<Rightarrow> if name \<noteq> [] then js ''Welcome back, '' @ name else js ''Welcome back'')"

fun typing_label :: "jstr list \<Rightarrow> jstr" where
  "typing_label [] = []"
| "typing_label [a] = a @ js '' is typing'' @ [ellipsis]"
| "typing_label [a, b] = a @ js '' and '' @ b @ js '' are typing'' @ [ellipsis]"
| "typing_label (a # b # users) =
     a @ js '', '' @ b @ js '' and '' @ dec_nat (length users) @ js '' ''
       @ (if length users = 1 then js ''other'' else js ''others'') @ js '' are typing'' @ [ellipsis]"

text \<open>The awareness states in their order, each a JSON object under its client's number.\<close>

fun typing_loop :: "(nat \<times> json) list \<Rightarrow> nat \<Rightarrow> jstr option \<Rightarrow> jstr list \<Rightarrow> jstr list" where
  "typing_loop [] selfClientId selfUsername peers = peers"
| "typing_loop ((clientId, s) # states) selfClientId selfUsername peers =
     typing_loop states selfClientId selfUsername
       (if clientId = selfClientId \<or> json_get s (js ''isTyping'') \<noteq> Some (JBool True) then peers
        else (case json_get s (js ''username'') of
            Some (JStr u) \<Rightarrow> if Some u = selfUsername then peers else set_add u peers
          | _ \<Rightarrow> peers))"

definition typing_peers :: "(nat \<times> json) list \<Rightarrow> nat \<Rightarrow> jstr option \<Rightarrow> jstr list" where
  "typing_peers states selfClientId selfUsername = typing_loop states selfClientId selfUsername []"

text \<open>\<open>usePresence\<close>: what an awareness change leaves in the hook's state.\<close>

definition update_presence :: "(nat \<times> json) list \<Rightarrow> nat \<Rightarrow> jstr option \<Rightarrow> jstr list \<times> nat" where
  "update_presence states clientID selfUsername = (typing_peers states clientID selfUsername, length states)"

definition show_empty_room :: "bool \<Rightarrow> nat \<Rightarrow> jstr \<Rightarrow> bool" where
  "show_empty_room loaded messageCount wsStatus \<longleftrightarrow> loaded \<and> messageCount = 0 \<and> wsStatus = js ''connected''"

section \<open>The header's pill\<close>

datatype status_tone = ToneConnected | ToneConnecting | ToneOffline
datatype back_action = BackPop | BackReplaceRooms

definition room_label :: "jstr \<Rightarrow> jstr" where
  "room_label roomId = (if roomId = js ''default'' then js ''# general'' else js ''# '' @ roomId)"

definition presence_label :: "nat \<Rightarrow> jstr" where
  "presence_label onlineCount = dec_nat onlineCount @ js '' online''"

definition status_tone_of :: "jstr \<Rightarrow> status_tone" where
  "status_tone_of wsStatus =
     (if wsStatus = js ''connected'' then ToneConnected
      else if wsStatus = js ''connecting'' then ToneConnecting else ToneOffline)"

fun tone_text :: "status_tone \<Rightarrow> jstr" where
  "tone_text ToneConnected = js ''connected''"
| "tone_text ToneConnecting = js ''connecting''"
| "tone_text ToneOffline = js ''offline''"

definition header_pill_a11y_label :: "jstr \<Rightarrow> jstr \<Rightarrow> nat \<Rightarrow> jstr" where
  "header_pill_a11y_label roomId wsStatus onlineCount =
     room_label roomId @ js '', '' @ tone_text (status_tone_of wsStatus) @ js '', '' @ presence_label onlineCount"

definition back_action_of :: "bool \<Rightarrow> back_action" where
  "back_action_of canGoBack = (if canGoBack then BackPop else BackReplaceRooms)"

definition disc_side :: rat where "disc_side = 62"
definition pill_slot_max :: rat where "pill_slot_max = 280"
definition pill_chrome :: rat where "pill_chrome = 124"
definition room_char_w :: rat where "room_char_w = 86 / 10"
definition min_room_chars :: int where "min_room_chars = 6"

definition pill_slot_width :: "rat \<Rightarrow> rat" where
  "pill_slot_width screenWidth = max 0 (min (screenWidth - 2 * disc_side) pill_slot_max)"

text \<open>\<open>slice(0, end)\<close>: a negative end counts from the end of the string.\<close>

definition slice0 :: "int \<Rightarrow> jstr \<Rightarrow> jstr" where
  "slice0 e s = take (nat (if e < 0 then int (length s) + e else e)) s"

definition truncate_label :: "jstr \<Rightarrow> int \<Rightarrow> jstr" where
  "truncate_label label maxChars =
     (if int (length label) \<le> maxChars then label else slice0 (maxChars - 1) label @ [ellipsis])"

definition room_char_budget :: "rat \<Rightarrow> int" where
  "room_char_budget slotWidth = max min_room_chars \<lfloor>(slotWidth - pill_chrome) / room_char_w\<rfloor>"

definition pill_room_label :: "jstr \<Rightarrow> rat \<Rightarrow> jstr" where
  "pill_room_label roomId slotWidth = truncate_label (room_label roomId) (room_char_budget slotWidth)"

section \<open>Keeping the list at its end\<close>

definition settled_composer_min_height :: rat where "settled_composer_min_height = 40"
definition at_end_threshold :: rat where "at_end_threshold = 20"

datatype scroll_action = ScrollNone | ScrollSnap | ScrollAnimate

definition composer_resize_scroll :: "bool \<Rightarrow> bool \<Rightarrow> rat \<Rightarrow> rat \<Rightarrow> scroll_action" where
  "composer_resize_scroll atEnd snapped prevHeight nextHeight =
     (if \<not> snapped then (if nextHeight \<ge> settled_composer_min_height then ScrollSnap else ScrollNone)
      else if \<not> atEnd \<or> \<bar>nextHeight - prevHeight\<bar> < 1 then ScrollNone
      else ScrollAnimate)"

definition should_follow_new_messages :: "bool \<Rightarrow> nat \<Rightarrow> nat \<Rightarrow> bool \<Rightarrow> bool" where
  "should_follow_new_messages atEnd prevCount nextCount sentByMe \<longleftrightarrow>
     (if nextCount \<le> prevCount then False else sentByMe \<or> atEnd)"

record scroll_metrics =
  sm_offset :: rat
  sm_visibleHeight :: rat
  sm_contentHeight :: rat
  sm_bottomInset :: rat

definition is_at_list_end :: "scroll_metrics \<Rightarrow> bool" where
  "is_at_list_end m \<longleftrightarrow>
     (if sm_visibleHeight m \<le> 0 \<or> sm_contentHeight m \<le> 0 then False
      else sm_offset m + sm_visibleHeight m \<ge> sm_contentHeight m + sm_bottomInset m - at_end_threshold)"

section \<open>The composer's visual state\<close>

datatype composer_mode = ModePill | ModeCard
datatype send_button_state = SbEmpty | SbReady | SbGated

definition composer_mode_of :: "bool \<Rightarrow> bool \<Rightarrow> composer_mode" where
  "composer_mode_of focused hasDraft = (if focused \<or> hasDraft then ModeCard else ModePill)"

definition send_button_state_of :: "bool \<Rightarrow> bool \<Rightarrow> send_button_state" where
  "send_button_state_of hasText gated = (if gated then SbGated else if hasText then SbReady else SbEmpty)"

definition e2ee_chip_label :: "bool \<Rightarrow> jstr option" where
  "e2ee_chip_label encrypted = (if encrypted then Some (js ''Encrypted'') else None)"

text \<open>A measured height: \<open>None\<close> is a number that is not finite.\<close>

definition composer_height_step :: "rat option \<Rightarrow> rat option \<Rightarrow> (rat \<times> bool) option" where
  "composer_height_step prev measured = (case measured of
       None \<Rightarrow> None
     | Some h \<Rightarrow>
         (if h \<le> 0 then None
          else (case prev of
              None \<Rightarrow> Some (h, False)
            | Some p \<Rightarrow> if \<bar>h - p\<bar> < 1 then None else Some (h, True))))"

section \<open>Hashing\<close>

lemma fnv_prime_unit: "fnv_prime * 0x359c449b = 1"
  by (simp add: fnv_prime_def)

lemma mult_fnv_prime_inject: "a * fnv_prime = b * fnv_prime \<longleftrightarrow> a = b"
proof
  assume "a * fnv_prime = b * fnv_prime"
  then have "a * (fnv_prime * 0x359c449b) = b * (fnv_prime * 0x359c449b)"
    by (simp only: mult.assoc[symmetric])
  then show "a = b" by (simp add: fnv_prime_unit)
qed simp

lemma xor_right_inject: "a XOR c = b XOR c \<longleftrightarrow> a = (b :: 'a::len word)"
  by (metis xor.assoc xor.right_neutral xor_self_eq)

lemma fnv_step_state_inject: "fnv_step c h = fnv_step c k \<longleftrightarrow> h = k"
  by (simp add: fnv_step_def mult_fnv_prime_inject xor_right_inject)

lemma fnv_step_char_inject: "fnv_step c h = fnv_step d h \<longleftrightarrow> c = d"
proof -
  have "fnv_step c h = fnv_step d h \<longleftrightarrow> h XOR ucast c = h XOR (ucast d :: 32 word)"
    by (simp add: fnv_step_def mult_fnv_prime_inject)
  also have "\<dots> \<longleftrightarrow> (ucast c :: 32 word) = ucast d"
    by (metis xor.commute xor_right_inject)
  also have "\<dots> \<longleftrightarrow> c = d"
  proof -
    have small: "take_bit 32 (unat e) = unat e" for e :: jchar
    proof -
      have "unat e < 2 ^ LENGTH(16)" by (rule unsigned_less)
      then show ?thesis by (simp add: take_bit_nat_eq_self_iff)
    qed
    show ?thesis by (simp add: unsigned_ucast_eq word_unat_eq_iff small)
  qed
  finally show ?thesis .
qed

lemma fold_fnv_inject: "fold fnv_step s h = fold fnv_step s k \<longleftrightarrow> h = k"
  by (induction s arbitrary: h k) (simp_all add: fnv_step_state_inject)

lemma fnv_one_unit: "fnv1a32 (p @ c # s) = fnv1a32 (p @ d # s) \<longleftrightarrow> c = d"
  by (simp add: fnv1a32_def fold_fnv_inject fnv_step_char_inject)

section \<open>Hexadecimal numerals\<close>

definition hex_digit_val :: "jchar \<Rightarrow> nat" where
  "hex_digit_val c = (if unat c < 58 then unat c - 48 else unat c - 87)"

definition hex_value :: "jstr \<Rightarrow> nat" where
  "hex_value s = foldl (\<lambda>a c. 16 * a + hex_digit_val c) 0 s"

definition is_lower_hex :: "jchar \<Rightarrow> bool" where
  "is_lower_hex c \<longleftrightarrow> c \<in> set (js ''0123456789abcdef'')"

lemma hex_chars: "n < 16 \<Longrightarrow> hex_digit_val (hex_char n) = n \<and> is_lower_hex (hex_char n)"
proof -
  have "list_all (\<lambda>n. hex_digit_val (hex_char n) = n \<and> is_lower_hex (hex_char n)) [0..<16]"
    by (simp add: upt_rec hex_digit_val_def hex_char_def is_lower_hex_def js_eval)
  then show "n < 16 \<Longrightarrow> ?thesis"
    by (simp add: list_all_iff)
qed

lemma hex_value_nat: "hex_value (hex_nat n) = n"
proof (induction n rule: hex_nat.induct)
  case (1 n)
  then show ?case
    by (cases "n < 16") (simp_all add: hex_nat.simps[of n] hex_value_def hex_chars)
qed

lemma hex_nat_digits: "list_all is_lower_hex (hex_nat n)"
proof (induction n rule: hex_nat.induct)
  case (1 n)
  then show ?case
    by (cases "n < 16") (simp_all add: hex_nat.simps[of n] hex_chars)
qed

lemma length_hex_nat: "n < 16 ^ Suc k \<Longrightarrow> length (hex_nat n) \<le> Suc k"
proof (induction k arbitrary: n)
  case 0
  then show ?case by (simp add: hex_nat.simps[of n])
next
  case (Suc k)
  show ?case
  proof (cases "n < 16")
    case False
    have "n div 16 < 16 ^ Suc k"
      using Suc.prems by (simp add: less_mult_imp_div_less mult.commute)
    with Suc.IH[of "n div 16"] False show ?thesis
      by (simp add: hex_nat.simps[of n])
  qed (simp add: hex_nat.simps[of n])
qed

lemma hex_value_padded: "hex_value (pad_start k 48 s) = hex_value s"
proof -
  have "foldl (\<lambda>a c. 16 * a + hex_digit_val c) 0 (replicate m 48) = 0" for m
    by (induction m) (simp_all add: hex_digit_val_def)
  then show ?thesis
    by (simp add: hex_value_def pad_start_def)
qed

lemma hex_value_digest:
  "hex_value (compute_order_digest cs) = unat (fnv1a32 (join [124] cs))"
  by (simp add: compute_order_digest_def hex_value_padded hex_value_nat)

lemma length_digest: "length (compute_order_digest cs) = 8"
proof -
  have "unat (fnv1a32 (join [124] cs)) < 16 ^ Suc 7"
    using unsigned_less[of "fnv1a32 (join [124] cs)"] by simp
  from length_hex_nat[OF this] show ?thesis
    by (simp add: compute_order_digest_def pad_start_def)
qed

lemma digest_digits: "list_all is_lower_hex (compute_order_digest cs)"
proof -
  have "list_all is_lower_hex (replicate m 48)" for m
    by (induction m) (simp_all add: is_lower_hex_def js_eval)
  then show ?thesis
    by (simp add: compute_order_digest_def pad_start_def hex_nat_digits)
qed

lemma digest_eq_iff:
  "compute_order_digest as = compute_order_digest bs
    \<longleftrightarrow> fnv1a32 (join [124] as) = fnv1a32 (join [124] bs)"
  by (metis hex_value_digest compute_order_digest_def word_unat_eq_iff)

lemma join_snoc: "join sep (xs @ [y]) = (if xs = [] then y else join sep xs @ sep @ y)"
  by (induction sep xs rule: join.induct) auto

lemma join_at:
  "\<exists>p s. \<forall>x. join sep (xs @ x # ys) = p @ x @ s"
proof (induction xs rule: list.induct)
  case Nil
  show ?case
  proof (cases ys)
    case Nil
    have "\<forall>x. join sep ([] @ x # ys) = [] @ x @ []" using Nil by simp
    then show ?thesis by blast
  next
    case (Cons y zs)
    have "\<forall>x. join sep ([] @ x # ys) = [] @ x @ (sep @ join sep ys)" using Cons by simp
    then show ?thesis by blast
  qed
next
  case (Cons a xs)
  then obtain p s where "\<forall>x. join sep (xs @ x # ys) = p @ x @ s" by blast
  moreover have "join sep ((a # xs) @ x # ys) = a @ sep @ join sep (xs @ x # ys)" for x
    by (cases xs) simp_all
  ultimately have "\<forall>x. join sep ((a # xs) @ x # ys) = (a @ sep @ p) @ x @ s" by simp
  then show ?case by blast
qed

lemma digest_one_unit:
  "compute_order_digest (xs @ (p @ c # s) # ys) = compute_order_digest (xs @ (p @ d # s) # ys) \<longleftrightarrow> c = d"
proof -
  obtain l r where "\<forall>x. join [124] (xs @ x # ys) = l @ x @ r"
    using join_at by blast
  then show ?thesis
    unfolding digest_eq_iff using fnv_one_unit[of "l @ p" c "s @ r" d] by simp
qed

text \<open>The order digest of a list of messages is always eight lower-case hexadecimal digits, whose
  value is the FNV-1a hash of the contents joined in order, and two lists that differ in a single
  code unit of one message never share a digest.\<close>
theorem order_digest_contract:
  "length (compute_order_digest cs) = 8 \<and> list_all is_lower_hex (compute_order_digest cs)
    \<and> hex_value (compute_order_digest cs) = unat (fnv1a32 (join [124] cs))
    \<and> (compute_order_digest (xs @ (p @ c # s) # ys) = compute_order_digest (xs @ (p @ d # s) # ys)
        \<longleftrightarrow> c = d)"
  by (intro conjI length_digest digest_digits hex_value_digest digest_one_unit)

lemma author_color_index_bound: "author_color_index u < 8"
  by (simp add: author_color_index_def color_slots_def)

lemma author_color_in_palette: "palette \<noteq> [] \<Longrightarrow> author_colors u palette \<in> set palette"
  by (simp add: author_colors_def)


section \<open>Groups of messages\<close>

text \<open>The positions the list passes to its items, and a reference: messages cut into runs.\<close>

definition positions :: "int \<Rightarrow> jstr option \<Rightarrow> message list \<Rightarrow> group_position list" where
  "positions gapMs me ms = map (\<lambda>i. group_position_of (if i = 0 then None else Some (ms ! (i - 1))) (ms ! i)
     (if Suc i < length ms then Some (ms ! Suc i) else None) gapMs me) [0..<length ms]"

fun runs :: "int \<Rightarrow> message list \<Rightarrow> message list list" where
  "runs gapMs [] = []"
| "runs gapMs [m] = [[m]]"
| "runs gapMs (a # b # ms) =
     (case runs gapMs (b # ms) of
        r # rs \<Rightarrow> if same_group a b gapMs then (a # r) # rs else [a] # r # rs
      | [] \<Rightarrow> [])"

definition run_position :: "jstr option \<Rightarrow> message list \<Rightarrow> nat \<Rightarrow> group_position" where
  "run_position me r i = \<lparr>gp_showAuthor = i = 0 \<and> Some (m_userId (r ! i)) \<noteq> me, gp_isFirst = i = 0,
     gp_isLast = Suc i = length r\<rparr>"

definition run_positions :: "jstr option \<Rightarrow> message list \<Rightarrow> group_position list" where
  "run_positions me r = map (run_position me r) [0..<length r]"

fun positions_from :: "int \<Rightarrow> jstr option \<Rightarrow> message option \<Rightarrow> message list \<Rightarrow> group_position list" where
  "positions_from gapMs me prev [] = []"
| "positions_from gapMs me prev [m] = [group_position_of prev m None gapMs me]"
| "positions_from gapMs me prev (m # n # ms) =
     group_position_of prev m (Some n) gapMs me # positions_from gapMs me (Some m) (n # ms)"

lemma length_positions_from [simp]: "length (positions_from gapMs me prev ms) = length ms"
  by (induction gapMs me prev ms rule: positions_from.induct) simp_all

lemma nth_positions_from:
  "i < length ms \<Longrightarrow> positions_from gapMs me prev ms ! i = group_position_of (if i = 0 then prev else Some (ms ! (i - 1)))
     (ms ! i) (if Suc i < length ms then Some (ms ! Suc i) else None) gapMs me"
proof (induction gapMs me prev ms arbitrary: i rule: positions_from.induct)
  case (3 gapMs me prev m n ms)
  show ?case
  proof (cases i)
    case (Suc j)
    with 3 have "j < length (n # ms)" by simp
    from "3.IH"[OF this] Suc show ?thesis by (cases j) simp_all
  qed simp
qed simp_all

lemma positions_eq_from: "positions gapMs me ms = positions_from gapMs me None ms"
  by (rule nth_equalityI) (simp_all add: positions_def nth_positions_from)

lemma runs_Cons: "\<exists>r rs. runs gapMs (a # ms) = (a # r) # rs"
proof (induction ms arbitrary: a)
  case (Cons b ms)
  then obtain r rs where "runs gapMs (b # ms) = (b # r) # rs" by blast
  then show ?case by (cases "same_group a b gapMs") simp_all
qed simp

lemma concat_runs: "concat (runs gapMs ms) = ms"
proof (induction gapMs ms rule: runs.induct)
  case (3 gapMs a b ms)
  obtain r rs where "runs gapMs (b # ms) = (b # r) # rs" using runs_Cons by blast
  with 3 show ?case by (cases "same_group a b gapMs") simp_all
qed simp_all

text \<open>Positions inside a run that is entered with the flag \<open>first\<close> of its head.\<close>

definition tail_positions :: "jstr option \<Rightarrow> bool \<Rightarrow> message list \<Rightarrow> group_position list" where
  "tail_positions me isFirst r = map (\<lambda>i. \<lparr>gp_showAuthor = (i = 0 \<and> isFirst) \<and> Some (m_userId (r ! i)) \<noteq> me,
     gp_isFirst = (i = 0 \<and> isFirst), gp_isLast = Suc i = length r\<rparr>) [0..<length r]"

lemma tail_positions_Cons:
  "tail_positions me f (a # b # r) =
     \<lparr>gp_showAuthor = f \<and> Some (m_userId a) \<noteq> me, gp_isFirst = f, gp_isLast = False\<rparr> # tail_positions me False (b # r)"
  "tail_positions me f [a] = [\<lparr>gp_showAuthor = f \<and> Some (m_userId a) \<noteq> me, gp_isFirst = f, gp_isLast = True\<rparr>]"
  by (rule nth_equalityI; auto simp: tail_positions_def nth_Cons' simp del: upt_Suc)
    (simp add: tail_positions_def)

lemma run_positions_tail: "run_positions me r = tail_positions me True r"
  by (simp add: run_positions_def run_position_def tail_positions_def)

lemma positions_from_runs:
  assumes "runs gapMs (a # ms) = r # rs"
  shows "positions_from gapMs me prev (a # ms)
    = tail_positions me (case prev of None \<Rightarrow> True | Some p \<Rightarrow> \<not> same_group p a gapMs) r
        @ concat (map (run_positions me) rs)"
  using assms
proof (induction ms arbitrary: prev a r rs)
  case Nil
  then show ?case
    by (auto simp: tail_positions_Cons group_position_of_def Let_def)
next
  case (Cons b ms)
  obtain r' rs' where b: "runs gapMs (b # ms) = (b # r') # rs'" using runs_Cons by blast
  show ?case
    using Cons.IH[OF b, of "Some a"] Cons.prems
    by (cases "same_group a b gapMs")
      (auto simp: b tail_positions_Cons run_positions_tail group_position_of_def Let_def)
qed

text \<open>The positions computed message by message from its neighbours are exactly those of cutting
  the list into maximal runs of one author without a pause longer than the gap: every run shows its
  author once, at its first message and never for one's own, and its time once, at its last.\<close>
theorem grouping_is_by_runs:
  "positions gapMs me ms = concat (map (run_positions me) (runs gapMs ms)) \<and> concat (runs gapMs ms) = ms"
proof (cases ms)
  case Nil
  then show ?thesis by (simp add: positions_def)
next
  case (Cons a ms')
  then obtain r rs where "runs gapMs ms = r # rs" using runs_Cons by blast
  then show ?thesis
    using Cons positions_from_runs[of gapMs a ms' r rs me None] concat_runs[of gapMs ms]
    by (simp add: positions_eq_from run_positions_tail)
qed


section \<open>Who is typing\<close>

definition typing_as :: "json \<Rightarrow> jstr \<Rightarrow> bool" where
  "typing_as s u \<longleftrightarrow> json_get s (js ''isTyping'') = Some (JBool True) \<and> json_get s (js ''username'') = Some (JStr u)"

lemma typing_loop_exact:
  "set (typing_loop states me self peers) =
     set peers \<union> {u. Some u \<noteq> self \<and> (\<exists>(c, s) \<in> set states. c \<noteq> me \<and> typing_as s u)}"
  by (induction states me self peers rule: typing_loop.induct)
    (auto simp: typing_as_def split: option.splits json.splits)

lemma distinct_typing_loop: "distinct peers \<Longrightarrow> distinct (typing_loop states me self peers)"
  by (induction states me self peers rule: typing_loop.induct) (auto split: option.splits json.splits)

lemma typing_label_empty: "typing_label us = [] \<longleftrightarrow> us = []"
  by (cases us rule: typing_label.cases) auto

text \<open>The typing line names exactly the users other than oneself of whom some other client says
  that they are typing, each once however many devices they type on, and is empty exactly when
  there is none.\<close>
theorem typing_line_exact:
  "distinct (typing_peers states me self)
    \<and> set (typing_peers states me self) = {u. Some u \<noteq> self \<and> (\<exists>(c, s) \<in> set states. c \<noteq> me \<and> typing_as s u)}
    \<and> (typing_label (typing_peers states me self) = [] \<longleftrightarrow> typing_peers states me self = [])"
  by (auto simp: typing_peers_def typing_loop_exact distinct_typing_loop typing_label_empty)

section \<open>The room label fits its pill\<close>

lemma budget_min: "6 \<le> room_char_budget w"
  by (simp add: room_char_budget_def min_room_chars_def)

lemma length_truncate: "1 \<le> n \<Longrightarrow> int (length (truncate_label l n)) \<le> n"
  by (auto simp: truncate_label_def slice0_def)

lemma budget_fits: "room_char_budget w = 6 \<or> pill_chrome + room_char_w * of_int (room_char_budget w) \<le> w"
proof -
  have pos: "0 < room_char_w" by (simp add: room_char_w_def)
  let ?f = "\<lfloor>(w - pill_chrome) / room_char_w\<rfloor>"
  have "of_int ?f \<le> (w - pill_chrome) / room_char_w" by simp
  then have "of_int ?f * room_char_w \<le> w - pill_chrome"
    using pos by (simp only: pos_le_divide_eq)
  then show ?thesis
    by (auto simp: room_char_budget_def min_room_chars_def max_def algebra_simps)
qed

lemma pill_slot_bounds: "0 \<le> pill_slot_width sw \<and> pill_slot_width sw \<le> 280"
  by (simp add: pill_slot_width_def pill_slot_max_def)

lemma room_label_prefix: "starts_with (room_label r) (js ''# '')"
proof -
  have "js ''# general'' = js ''# '' @ js ''general''" by (simp add: js_def)
  then show ?thesis by (simp add: room_label_def)
qed

lemma starts_with_truncate:
  assumes "starts_with l p" and "int (length p) < n"
  shows "starts_with (truncate_label l n) p"
proof -
  obtain r where r: "l = p @ r" using assms(1) by (auto simp: starts_with_iff)
  have "take (nat (n - 1)) (p @ r) = p @ take (nat (n - 1) - length p) r"
    using assms(2) by simp
  then show ?thesis
    using assms(2) r by (auto simp: truncate_label_def slice0_def starts_with_iff)
qed

text \<open>Whatever the screen's width and the room's name, the pill's slot is between 0 and 280, the
  label has at most as many characters as fit beside the status run (but never fewer than six are
  allowed), a longer name is cut to exactly that many with an ellipsis at its end, and the leading
  hash of the room name stays.\<close>
theorem room_label_fits_pill:
  "0 \<le> pill_slot_width sw \<and> pill_slot_width sw \<le> 280
    \<and> int (length (pill_room_label r w)) \<le> room_char_budget w
    \<and> (room_char_budget w = 6 \<or> pill_chrome + room_char_w * of_int (room_char_budget w) \<le> w)
    \<and> pill_room_label r w = (if int (length (room_label r)) \<le> room_char_budget w then room_label r
         else take (nat (room_char_budget w) - 1) (room_label r) @ [ellipsis])
    \<and> starts_with (pill_room_label r w) (js ''# '')"
proof (intro conjI)
  show "int (length (pill_room_label r w)) \<le> room_char_budget w"
    using budget_min[of w] by (simp add: pill_room_label_def length_truncate)
  show "pill_room_label r w = (if int (length (room_label r)) \<le> room_char_budget w then room_label r
         else take (nat (room_char_budget w) - 1) (room_label r) @ [ellipsis])"
    using budget_min[of w] by (simp add: pill_room_label_def truncate_label_def slice0_def nat_diff_distrib)
  show "starts_with (pill_room_label r w) (js ''# '')"
    using budget_min[of w] unfolding pill_room_label_def
    by (intro starts_with_truncate room_label_prefix) simp
qed (use pill_slot_bounds budget_fits in auto)

end
