(* ===== verification/Chat_Theme.thy ===== *)
theory Chat_Theme
  imports Conversation
begin

text \<open>
  \<open>src/apps/mobile/src/ui/chatTheme.ts\<close>, \<open>ui/contrast.ts\<close> and \<open>chat/bubbleStyle.ts\<close>: the palettes of the chat
  screen and the WCAG contrast they are chosen for. Luminance is over the real numbers, so the
  rounding of doubles is not modelled; a blended channel is rounded half up from its exact value.
\<close>

section \<open>Themes\<close>

record author_color =
  au_bubble :: jstr
  au_name :: jstr
  au_text :: jstr

record glass_fallback =
  gf_fill :: jstr
  gf_border :: jstr

record status_colors =
  sc_connected :: jstr
  sc_connecting :: jstr
  sc_offline :: jstr

record radii =
  ra_sm :: nat
  ra_md :: nat
  ra_lg :: nat
  ra_bubble :: nat
  ra_pill :: nat

record chat_theme =
  ct_bg :: jstr
  ct_surface :: jstr
  ct_surfaceRaised :: jstr
  ct_bubbleOwn :: jstr
  ct_textPrimary :: jstr
  ct_textSecondary :: jstr
  ct_placeholder :: jstr
  ct_border :: jstr
  ct_accent :: jstr
  ct_accentOn :: jstr
  ct_glassFallback :: glass_fallback
  ct_status :: status_colors
  ct_radius :: radii
  ct_authors :: "author_color list"

definition theme_status :: status_colors where
  "theme_status = \<lparr>sc_connected = js ''#22c55e'', sc_connecting = js ''#f59e0b'', sc_offline = js ''#ef4444''\<rparr>"

definition theme_radius :: radii where
  "theme_radius = \<lparr>ra_sm = 6, ra_md = 12, ra_lg = 20, ra_bubble = 20, ra_pill = 24\<rparr>"

definition author_palette :: "author_color list" where
  "author_palette = [
     \<lparr>au_bubble = js ''#4A2C2A'', au_name = js ''#F2A39A'', au_text = js ''#F5F4EF''\<rparr>,
     \<lparr>au_bubble = js ''#4A3524'', au_name = js ''#F0B486'', au_text = js ''#F5F4EF''\<rparr>,
     \<lparr>au_bubble = js ''#463C22'', au_name = js ''#E6C77A'', au_text = js ''#F5F4EF''\<rparr>,
     \<lparr>au_bubble = js ''#2C4130'', au_name = js ''#98D3A0'', au_text = js ''#F5F4EF''\<rparr>,
     \<lparr>au_bubble = js ''#22403F'', au_name = js ''#86D1CC'', au_text = js ''#F5F4EF''\<rparr>,
     \<lparr>au_bubble = js ''#26364F'', au_name = js ''#93B4EE'', au_text = js ''#F5F4EF''\<rparr>,
     \<lparr>au_bubble = js ''#3A2E4F'', au_name = js ''#BCA6F0'', au_text = js ''#F5F4EF''\<rparr>,
     \<lparr>au_bubble = js ''#4A2A3E'', au_name = js ''#EE9CC8'', au_text = js ''#F5F4EF''\<rparr>]"

definition author_palette_light :: "author_color list" where
  "author_palette_light = [
     \<lparr>au_bubble = js ''#F9DEDB'', au_name = js ''#A63A2E'', au_text = js ''#1F1E1C''\<rparr>,
     \<lparr>au_bubble = js ''#FBE5D3'', au_name = js ''#9A4F1B'', au_text = js ''#1F1E1C''\<rparr>,
     \<lparr>au_bubble = js ''#F6ECCB'', au_name = js ''#7D6212'', au_text = js ''#1F1E1C''\<rparr>,
     \<lparr>au_bubble = js ''#DCEFDF'', au_name = js ''#2F7A3D'', au_text = js ''#1F1E1C''\<rparr>,
     \<lparr>au_bubble = js ''#D5EEEC'', au_name = js ''#1E7570'', au_text = js ''#1F1E1C''\<rparr>,
     \<lparr>au_bubble = js ''#DCE6F7'', au_name = js ''#2F5FA8'', au_text = js ''#1F1E1C''\<rparr>,
     \<lparr>au_bubble = js ''#E7DFF8'', au_name = js ''#6A49B5'', au_text = js ''#1F1E1C''\<rparr>,
     \<lparr>au_bubble = js ''#F8DDEB'', au_name = js ''#A63A78'', au_text = js ''#1F1E1C''\<rparr>]"

definition chat_dark_theme :: chat_theme where
  "chat_dark_theme = \<lparr>
     ct_bg = js ''#1F1E1C'',
     ct_surface = js ''#2A2927'',
     ct_surfaceRaised = js ''#353431'',
     ct_bubbleOwn = js ''#3A3936'',
     ct_textPrimary = js ''#F5F4EF'',
     ct_textSecondary = js ''#A3A19A'',
     ct_placeholder = js ''#8A8880'',
     ct_border = js ''#3D3C38'',
     ct_accent = js ''#D97757'',
     ct_accentOn = js ''#FFFFFF'',
     ct_glassFallback = \<lparr>gf_fill = js ''#FFFFFF1F'', gf_border = js ''#FFFFFF24''\<rparr>,
     ct_status = theme_status, ct_radius = theme_radius, ct_authors = author_palette\<rparr>"

definition chat_light_theme :: chat_theme where
  "chat_light_theme = \<lparr>
     ct_bg = js ''#FAF9F5'',
     ct_surface = js ''#F0EEE6'',
     ct_surfaceRaised = js ''#FFFFFF'',
     ct_bubbleOwn = js ''#EAE7DD'',
     ct_textPrimary = js ''#1F1E1C'',
     ct_textSecondary = js ''#6B6962'',
     ct_placeholder = js ''#8F8C84'',
     ct_border = js ''#E3E0D6'',
     ct_accent = js ''#C6613F'',
     ct_accentOn = js ''#FFFFFF'',
     ct_glassFallback = \<lparr>gf_fill = js ''#0000000F'', gf_border = js ''#0000001A''\<rparr>,
     ct_status = theme_status, ct_radius = theme_radius, ct_authors = author_palette_light\<rparr>"

text \<open>The scheme is a string, null or undefined; the last two are \<open>None\<close>.\<close>

definition chat_colors :: "jstr option \<Rightarrow> chat_theme" where
  "chat_colors scheme = (if scheme = Some (js ''dark'') then chat_dark_theme else chat_light_theme)"

section \<open>The send button\<close>

datatype button_icon = ArrowUp | LockFill

record send_button_visual =
  sv_icon :: button_icon
  sv_tint :: jstr
  sv_enabled :: bool
  sv_a11yLabel :: jstr

fun send_button_visual_of :: "send_button_state \<Rightarrow> chat_theme \<Rightarrow> send_button_visual" where
  "send_button_visual_of SbReady t = \<lparr>sv_icon = ArrowUp, sv_tint = ct_accent t, sv_enabled = True, sv_a11yLabel = js ''Up''\<rparr>"
| "send_button_visual_of SbEmpty t =
     \<lparr>sv_icon = ArrowUp, sv_tint = ct_surfaceRaised t, sv_enabled = False, sv_a11yLabel = js ''Up''\<rparr>"
| "send_button_visual_of SbGated t =
     \<lparr>sv_icon = LockFill, sv_tint = ct_surfaceRaised t, sv_enabled = False, sv_a11yLabel = js ''Send locked''\<rparr>"

section \<open>Contrast\<close>

definition muted_text_opacity :: rat where "muted_text_opacity = 7 / 10"

text \<open>A digit of either case; a character that is none makes the colour invalid.\<close>

definition hex_digit_of :: "jchar \<Rightarrow> nat option" where
  "hex_digit_of c = (if 48 \<le> c \<and> c \<le> 57 then Some (unat c - 48)
     else if 97 \<le> c \<and> c \<le> 102 then Some (unat c - 87)
     else if 65 \<le> c \<and> c \<le> 70 then Some (unat c - 55) else None)"

type_synonym rgb = "nat \<times> nat \<times> nat"

definition hex_pair :: "nat \<Rightarrow> nat \<Rightarrow> nat" where
  "hex_pair h l = 16 * h + l"

text \<open>The digits after the hash, once the regular expression has matched.\<close>

definition hex_digits_of :: "jstr \<Rightarrow> nat list option" where
  "hex_digits_of s = those (map hex_digit_of s)"

fun rgb_of_digits :: "nat list \<Rightarrow> rgb option" where
  "rgb_of_digits [r, g, b] = Some (hex_pair r r, hex_pair g g, hex_pair b b)"
| "rgb_of_digits [r1, r0, g1, g0, b1, b0] = Some (hex_pair r1 r0, hex_pair g1 g0, hex_pair b1 b0)"
| "rgb_of_digits _ = None"

definition parse_hex :: "jstr \<Rightarrow> jstr + rgb" where
  "parse_hex hex =
     (let s = (if length hex = 9 then take 7 hex else hex);
          m = (case s of c # ds \<Rightarrow> if c = 35 then Option.bind (hex_digits_of ds) rgb_of_digits else None | [] \<Rightarrow> None)
      in case m of None \<Rightarrow> Inl (js ''Invalid hex color: '' @ hex) | Some x \<Rightarrow> Inr x)"

definition channel :: "nat \<Rightarrow> real" where
  "channel c8 = (let c = real c8 / 255 in
     if c \<le> 4045 / 100000 then c / (1292 / 100) else ((c + 55 / 1000) / (1055 / 1000)) powr (24 / 10))"

definition rgb_luminance :: "rgb \<Rightarrow> real" where
  "rgb_luminance x = (case x of (r, g, b) \<Rightarrow>
     2126 / 10000 * channel r + 7152 / 10000 * channel g + 722 / 10000 * channel b)"

definition relative_luminance :: "jstr \<Rightarrow> jstr + real" where
  "relative_luminance hex = map_sum id rgb_luminance (parse_hex hex)"

definition contrast_ratio :: "jstr \<Rightarrow> jstr \<Rightarrow> jstr + real" where
  "contrast_ratio a b = bind_result (relative_luminance a) (\<lambda>la. bind_result (relative_luminance b) (\<lambda>lb.
     Inr ((max la lb + 5 / 100) / (min la lb + 5 / 100))))"

definition blend_channel :: "rat \<Rightarrow> nat \<Rightarrow> nat \<Rightarrow> nat" where
  "blend_channel alpha f b = nat \<lfloor>of_nat f * alpha + of_nat b * (1 - alpha) + 1 / 2\<rfloor>"

definition blend_over :: "jstr \<Rightarrow> jstr \<Rightarrow> rat \<Rightarrow> jstr + jstr" where
  "blend_over fg bg alpha = bind_result (parse_hex fg) (\<lambda>f. bind_result (parse_hex bg) (\<lambda>b.
     Inr (case (f, b) of ((fr, fg, fb), (br, bg, bb)) \<Rightarrow>
       [35] @ concat (map (\<lambda>x. pad_start 2 48 (hex_nat x))
         [blend_channel alpha fr br, blend_channel alpha fg bg, blend_channel alpha fb bb]))))"

section \<open>Bounds of the luminance\<close>

text \<open>The channels that occur in the palettes, each in thousandths, rounded down.\<close>

definition channel_table :: "(int \<times> int) list" where
  "channel_table = [
     (18, 6), (27, 10), (28, 11), (30, 12), (31, 13), (34, 15), (36, 17), (38, 19), (42, 23), (44, 25),
     (46, 27), (47, 28), (48, 29), (53, 35), (54, 36), (57, 40), (58, 42), (60, 45), (61, 46), (62, 48),
     (63, 49), (64, 51), (65, 52), (70, 61), (73, 66), (74, 68), (79, 78), (81, 82), (83, 86), (85, 90),
     (86, 93), (87, 95), (88, 97), (90, 102), (91, 104), (92, 107), (93, 109), (94, 111), (95, 114), (96,
     116), (97, 119), (98, 122), (106, 144), (112, 162), (117, 177), (119, 184), (120, 187), (122, 194),
     (125, 205), (134, 238), (147, 291), (152, 313), (154, 323), (156, 332), (160, 351), (163, 366),
     (166, 381), (168, 391), (178, 445), (180, 456), (181, 462), (182, 467), (183, 473), (184, 479),
     (185, 485), (186, 491), (187, 496), (188, 502), (189, 508), (190, 514), (191, 520), (193, 533),
     (194, 539), (198, 564), (199, 571), (200, 577), (203, 597), (204, 603), (209, 637), (211, 651),
     (213, 665), (217, 693), (219, 708), (220, 715), (221, 723), (222, 730), (223, 737), (229, 783),
     (230, 791), (231, 799), (234, 822), (235, 830), (236, 838), (238, 854), (239, 863), (240, 871),
     (242, 887), (244, 904), (245, 913), (246, 921), (247, 930), (248, 938), (249, 947), (250, 955),
     (251, 964), (255, 1000)]"

definition int_square :: "int \<Rightarrow> int" where "int_square x = x * x"
definition pow5 :: "int \<Rightarrow> int" where "pow5 x = int_square (int_square x) * x"
definition int_cube :: "int \<Rightarrow> int" where "int_cube x = int_square x * x"
definition pow12 :: "int \<Rightarrow> int" where "pow12 x = int_square (int_square (int_cube x))"

lemma pow_eq: "pow5 x = x ^ 5" "pow12 x = x ^ 12"
  by (simp_all add: pow5_def pow12_def int_cube_def int_square_def eval_nat_numeral algebra_simps)

definition scaled :: "int \<Rightarrow> int" where
  "scaled c = pow12 (40 * c + 561) * 1000000000000000"

definition between :: "int \<Rightarrow> int \<Rightarrow> int \<Rightarrow> bool" where
  "between s lo hi \<longleftrightarrow> lo * 2411190793574749699868207333899670437295870570721 \<le> s \<and> s \<le> hi * 2411190793574749699868207333899670437295870570721"

definition channel_entry_ok :: "int \<times> int \<Rightarrow> bool" where
  "channel_entry_ok e = (case e of (c, k) \<Rightarrow> 10 < c \<and> 0 \<le> k \<and> between (scaled c) (pow5 k) (pow5 (k + 1)))"

lemma channel_table_ok: "list_all channel_entry_ok channel_table"
  by code_simp

lemma table_entry: "map_of channel_table c = Some k \<Longrightarrow> channel_entry_ok (c, k)"
  using channel_table_ok by (auto simp: list_all_iff dest: map_of_SomeD)

lemma powr_12_5: "0 \<le> (x :: real) \<Longrightarrow> (x powr (24 / 10)) ^ 5 = x ^ 12"
proof (cases "x = 0")
  case False
  assume "0 \<le> x"
  with False have x: "0 < x" by simp
  then have "(x powr (24 / 10)) ^ 5 = (x powr (24 / 10)) powr real 5"
    by (simp only: powr_realpow powr_gt_zero)
  also have "\<dots> = x powr real 12" by (simp add: powr_powr)
  also have "\<dots> = x ^ 12" using x by (rule powr_realpow)
  finally show ?thesis .
qed simp

lemma channel_upper_part:
  assumes "10 < c"
  shows "channel c = (real (40 * c + 561) / 10761) powr (24 / 10)"
proof -
  have "11 \<le> real c" using assms by simp
  then have big: "(real c / 255 \<le> 4045 / 100000) = False" by simp
  have eq: "(real c / 255 + 55 / 1000) / (1055 / 1000) = real (40 * c + 561) / 10761"
    by (simp add: field_simps)
  show ?thesis unfolding channel_def Let_def big if_False eq ..
qed

lemma channel_between:
  assumes "map_of channel_table (int c) = Some k"
  shows "real_of_int k / 1000 \<le> channel c" and "channel c \<le> (real_of_int k + 1) / 1000"
proof -
  have e: "channel_entry_ok (int c, k)" by (rule table_entry[OF assms])
  then have c: "10 < c" by (simp add: channel_entry_ok_def)
  let ?x = "real (40 * c + 561) / 10761"
  have nn: "0 \<le> channel c"
    by (simp only: channel_upper_part[OF c] powr_ge_zero)
  have x5: "channel c ^ 5 = ?x ^ 12"
    unfolding channel_upper_part[OF c] by (rule powr_12_5) simp
  have s: "real_of_int (scaled (int c)) = channel c ^ 5 * 10761 ^ 12 * 1000 ^ 5"
    unfolding x5 scaled_def pow_eq by (simp add: power_divide)
  from e have k: "0 \<le> k" and lo: "k ^ 5 * 10761 ^ 12 \<le> scaled (int c)"
    and hi: "scaled (int c) \<le> (k + 1) ^ 5 * 10761 ^ 12"
    by (simp_all add: channel_entry_ok_def between_def pow_eq)
  from lo have lo: "real_of_int (k ^ 5 * 10761 ^ 12) \<le> real_of_int (scaled (int c))"
    unfolding of_int_le_iff .
  from hi have hi: "real_of_int (scaled (int c)) \<le> real_of_int ((k + 1) ^ 5 * 10761 ^ 12)"
    unfolding of_int_le_iff .
  have "(real_of_int k / 1000) ^ 5 \<le> channel c ^ 5"
    using lo unfolding s by (simp add: power_divide)
  then show "real_of_int k / 1000 \<le> channel c"
    using nn power_le_imp_le_base[of "real_of_int k / 1000" 4 "channel c"] by simp
  have "channel c ^ 5 \<le> ((real_of_int k + 1) / 1000) ^ 5"
    using hi unfolding s by (simp add: power_divide)
  then show "channel c \<le> (real_of_int k + 1) / 1000"
    using k power_le_imp_le_base[of "channel c" 4 "(real_of_int k + 1) / 1000"] by simp
qed

text \<open>Luminance in ten-millionths, from below; the true value is less than 10000 of them above.\<close>

type_synonym irgb = "int \<times> int \<times> int"

definition rgb_int :: "rgb \<Rightarrow> irgb" where
  "rgb_int x = (case x of (r, g, b) \<Rightarrow> (int r, int g, int b))"

definition luminance_floor :: "irgb \<Rightarrow> int option" where
  "luminance_floor x = (case x of (r, g, b) \<Rightarrow>
     Option.bind (map_of channel_table r) (\<lambda>lr. Option.bind (map_of channel_table g) (\<lambda>lg.
       Option.bind (map_of channel_table b) (\<lambda>lb. Some (2126 * lr + 7152 * lg + 722 * lb)))))"

lemma luminance_between:
  assumes "luminance_floor (rgb_int x) = Some l"
  shows "real_of_int l \<le> 10000000 * rgb_luminance x"
    and "10000000 * rgb_luminance x \<le> real_of_int l + 10000"
    and "0 \<le> l"
proof -
  obtain r g b where x: "x = (r, g, b)" by (cases x)
  with assms obtain lr lg lb where m: "map_of channel_table (int r) = Some lr" "map_of channel_table (int g) = Some lg"
    "map_of channel_table (int b) = Some lb" and l: "l = 2126 * lr + 7152 * lg + 722 * lb"
    by (auto simp: luminance_floor_def rgb_int_def Option.bind_eq_Some_conv)
  show "real_of_int l \<le> 10000000 * rgb_luminance x"
    using channel_between(1)[OF m(1)] channel_between(1)[OF m(2)] channel_between(1)[OF m(3)]
    by (simp add: x l rgb_luminance_def)
  show "10000000 * rgb_luminance x \<le> real_of_int l + 10000"
    using channel_between(2)[OF m(1)] channel_between(2)[OF m(2)] channel_between(2)[OF m(3)]
    by (simp add: x l rgb_luminance_def)
  show "0 \<le> l"
    using table_entry[OF m(1)] table_entry[OF m(2)] table_entry[OF m(3)] by (simp add: l channel_entry_ok_def)
qed

text \<open>Contrast at least a number of tenths, decided on the bounds.\<close>

definition brighter_by :: "int \<Rightarrow> irgb \<Rightarrow> irgb \<Rightarrow> bool" where
  "brighter_by tenths x y = (case luminance_floor x of None \<Rightarrow> False | Some lx \<Rightarrow>
     (case luminance_floor y of None \<Rightarrow> False | Some ly \<Rightarrow>
        tenths * (ly + 10000 + 500000) \<le> 10 * (lx + 500000)))"

lemma brighter_ratio:
  assumes "brighter_by n (rgb_int x) (rgb_int y)" "0 \<le> n"
  shows "0 \<le> rgb_luminance x" and "0 \<le> rgb_luminance y"
    and "real_of_int n / 10 \<le> (rgb_luminance x + 5 / 100) / (rgb_luminance y + 5 / 100)"
proof -
  let ?a = "rgb_luminance x" and ?b = "rgb_luminance y"
  from assms(1) obtain lx ly where l: "luminance_floor (rgb_int x) = Some lx" "luminance_floor (rgb_int y) = Some ly"
    and le: "n * (ly + 10000 + 500000) \<le> 10 * (lx + 500000)"
    by (auto simp: brighter_by_def split: option.splits)
  show a: "0 \<le> ?a"
    using luminance_between(1,3)[OF l(1)] by (smt (verit) of_int_0_le_iff)
  show b: "0 \<le> ?b"
    using luminance_between(1,3)[OF l(2)] by (smt (verit) of_int_0_le_iff)
  have "real_of_int n * (10000000 * ?b + 500000) \<le> real_of_int n * (real_of_int ly + 10000 + 500000)"
    using luminance_between(2)[OF l(2)] assms(2) by (intro mult_left_mono) auto
  also have "\<dots> = real_of_int (n * (ly + 10000 + 500000))" by simp
  also have "\<dots> \<le> real_of_int (10 * (lx + 500000))"
    using le unfolding of_int_le_iff .
  also have "\<dots> \<le> 10 * (10000000 * ?a + 500000)"
    using luminance_between(1)[OF l(1)] by simp
  finally have "real_of_int n / 10 * (?b + 5 / 100) \<le> ?a + 5 / 100"
    by (simp add: algebra_simps)
  with b show "real_of_int n / 10 \<le> (?a + 5 / 100) / (?b + 5 / 100)"
    by (simp add: pos_le_divide_eq)
qed

lemma ratio_max_min:
  assumes "0 \<le> a" "0 \<le> (b :: real)"
  shows "(a + 5 / 100) / (b + 5 / 100) \<le> (max a b + 5 / 100) / (min a b + 5 / 100)"
  using assms by (intro frac_le) auto

definition apart :: "int \<Rightarrow> irgb \<Rightarrow> irgb \<Rightarrow> bool" where
  "apart n x y \<longleftrightarrow> brighter_by n x y \<or> brighter_by n y x"

definition legible :: "real \<Rightarrow> jstr \<Rightarrow> jstr \<Rightarrow> bool" where
  "legible t a b \<longleftrightarrow> (case contrast_ratio a b of Inl _ \<Rightarrow> False | Inr r \<Rightarrow> t \<le> r)"

lemma brighter_legible:
  assumes "parse_hex a = Inr x" "parse_hex b = Inr y" "apart n (rgb_int x) (rgb_int y)" "0 \<le> n"
  shows "legible (real_of_int n / 10) a b"
proof -
  let ?a = "rgb_luminance x" and ?b = "rgb_luminance y"
  have r: "contrast_ratio a b = Inr ((max ?a ?b + 5 / 100) / (min ?a ?b + 5 / 100))"
    by (simp add: contrast_ratio_def relative_luminance_def assms)
  from assms(3) have "brighter_by n (rgb_int x) (rgb_int y) \<or> brighter_by n (rgb_int y) (rgb_int x)"
    by (simp add: apart_def)
  then have "real_of_int n / 10 \<le> (max ?a ?b + 5 / 100) / (min ?a ?b + 5 / 100)"
  proof
    assume "brighter_by n (rgb_int x) (rgb_int y)"
    note h = brighter_ratio[OF this assms(4)]
    from order_trans[OF h(3) ratio_max_min[OF h(1,2)]] show ?thesis .
  next
    assume "brighter_by n (rgb_int y) (rgb_int x)"
    note h = brighter_ratio[OF this assms(4)]
    from order_trans[OF h(3) ratio_max_min[OF h(1,2)]]
    show ?thesis by (simp add: max.commute min.commute)
  qed
  then show ?thesis by (simp add: legible_def r)
qed

section \<open>Blended colours\<close>

fun blend_rgb :: "rgb \<Rightarrow> rgb \<Rightarrow> rgb" where
  "blend_rgb (fr, fg, fb) (r, g, b) = ((14 * fr + 6 * r + 10) div 20, (14 * fg + 6 * g + 10) div 20, (14 * fb + 6 * b + 10) div 20)"

fun blend_int :: "irgb \<Rightarrow> irgb \<Rightarrow> irgb" where
  "blend_int (fr, fg, fb) (r, g, b) = ((14 * fr + 6 * r + 10) div 20, (14 * fg + 6 * g + 10) div 20, (14 * fb + 6 * b + 10) div 20)"

lemma rgb_int_blend: "rgb_int (blend_rgb x y) = blend_int (rgb_int x) (rgb_int y)"
  by (cases x; cases y) (simp add: rgb_int_def zdiv_int)

lemma blend_channel_muted: "blend_channel muted_text_opacity f b = (14 * f + 6 * b + 10) div 20"
proof -
  have "of_nat f * muted_text_opacity + of_nat b * (1 - muted_text_opacity) + 1 / 2
      = of_nat (14 * f + 6 * b + 10) / (of_nat 20 :: rat)"
    by (simp add: muted_text_opacity_def field_simps)
  then show ?thesis
    by (simp only: blend_channel_def floor_divide_of_nat_eq nat_int)
qed

lemma hex_byte: "n < 256 \<Longrightarrow> pad_start 2 48 (hex_nat n) = [hex_char (n div 16), hex_char (n mod 16)]"
  by (simp add: pad_start_def hex_nat.simps[of n] hex_nat.simps[of "n div 16"] hex_char_def)

lemma hex_digit_of_char: "n < 16 \<Longrightarrow> hex_digit_of (hex_char n) = Some n"
proof -
  have "list_all (\<lambda>n. hex_digit_of (hex_char n) = Some n) [0..<16]"
    by (simp add: upt_rec hex_digit_of_def hex_char_def)
  then show "n < 16 \<Longrightarrow> ?thesis" by (simp add: list_all_iff)
qed

text \<open>The written colour reads back as its channels.\<close>

lemma parse_written:
  assumes "r < 256" "g < 256" "b < 256"
  shows "parse_hex ([35] @ concat (map (\<lambda>x. pad_start 2 48 (hex_nat x)) [r, g, b])) = Inr (r, g, b)"
  using assms
  by (simp add: parse_hex_def hex_byte hex_digits_of_def hex_digit_of_char hex_pair_def)

text \<open>The text of an encrypted message that cannot be read is shown muted over its bubble.\<close>

definition muted_on :: "jstr \<Rightarrow> jstr \<Rightarrow> jstr" where
  "muted_on text bubble = (case blend_over text bubble muted_text_opacity of Inl _ \<Rightarrow> [] | Inr h \<Rightarrow> h)"

fun byte_rgb :: "rgb \<Rightarrow> bool" where
  "byte_rgb (r, g, b) \<longleftrightarrow> r < 256 \<and> g < 256 \<and> b < 256"

lemma parse_muted:
  assumes "parse_hex text = Inr x" "parse_hex bubble = Inr y" "byte_rgb x" "byte_rgb y"
  shows "parse_hex (muted_on text bubble) = Inr (blend_rgb x y)"
proof -
  obtain r g b where x: "x = (r, g, b)" by (cases x)
  obtain r' g' b' where y: "y = (r', g', b')" by (cases y)
  have "(14 * c + 6 * d + 10) div 20 < 256" if "c < 256" "d < 256" for c d :: nat
    using that by simp
  then show ?thesis
    using assms(3,4) unfolding muted_on_def blend_over_def assms(1,2)
    by (simp only: x y bind_result_simps prod.case sum.case blend_channel_muted blend_rgb.simps byte_rgb.simps
        parse_written)
qed

section \<open>The palettes\<close>

text \<open>Text, bubble and name of every author as channels.\<close>

fun colors_are :: "author_color \<Rightarrow> rgb \<times> rgb \<times> rgb \<Rightarrow> bool" where
  "colors_are a (x, y, n) \<longleftrightarrow> parse_hex (au_text a) = Inr x \<and> parse_hex (au_bubble a) = Inr y
     \<and> parse_hex (au_name a) = Inr n \<and> byte_rgb x \<and> byte_rgb y"

definition dark_rgb :: "(rgb \<times> rgb \<times> rgb) list" where
  "dark_rgb = [
     ((245, 244, 239), (74, 44, 42), (242, 163, 154)),
     ((245, 244, 239), (74, 53, 36), (240, 180, 134)),
     ((245, 244, 239), (70, 60, 34), (230, 199, 122)),
     ((245, 244, 239), (44, 65, 48), (152, 211, 160)),
     ((245, 244, 239), (34, 64, 63), (134, 209, 204)),
     ((245, 244, 239), (38, 54, 79), (147, 180, 238)),
     ((245, 244, 239), (58, 46, 79), (188, 166, 240)),
     ((245, 244, 239), (74, 42, 62), (238, 156, 200))]"

definition light_rgb :: "(rgb \<times> rgb \<times> rgb) list" where
  "light_rgb = [
     ((31, 30, 28), (249, 222, 219), (166, 58, 46)),
     ((31, 30, 28), (251, 229, 211), (154, 79, 27)),
     ((31, 30, 28), (246, 236, 203), (125, 98, 18)),
     ((31, 30, 28), (220, 239, 223), (47, 122, 61)),
     ((31, 30, 28), (213, 238, 236), (30, 117, 112)),
     ((31, 30, 28), (220, 230, 247), (47, 95, 168)),
     ((31, 30, 28), (231, 223, 248), (106, 73, 181)),
     ((31, 30, 28), (248, 221, 235), (166, 58, 120))]"

lemmas color_eval = parse_hex_def js_def hex_digits_of_def hex_digit_of_def hex_pair_def

lemma dark_colors: "list_all2 colors_are author_palette dark_rgb"
  by (simp add: author_palette_def dark_rgb_def color_eval)

lemma light_colors: "list_all2 colors_are author_palette_light light_rgb"
  by (simp add: author_palette_light_def light_rgb_def color_eval)

fun author_apart :: "irgb \<Rightarrow> irgb \<times> irgb \<times> irgb \<Rightarrow> bool" where
  "author_apart bg (x, y, n) \<longleftrightarrow> apart 45 x y \<and> apart 45 n bg \<and> apart 45 (blend_int x y) y"

definition ints :: "rgb \<times> rgb \<times> rgb \<Rightarrow> irgb \<times> irgb \<times> irgb" where
  "ints c = (case c of (x, y, n) \<Rightarrow> (rgb_int x, rgb_int y, rgb_int n))"

definition dark_ints :: "(irgb \<times> irgb \<times> irgb) list" where
  "dark_ints = [
     ((245, 244, 239), (74, 44, 42), (242, 163, 154)),
     ((245, 244, 239), (74, 53, 36), (240, 180, 134)),
     ((245, 244, 239), (70, 60, 34), (230, 199, 122)),
     ((245, 244, 239), (44, 65, 48), (152, 211, 160)),
     ((245, 244, 239), (34, 64, 63), (134, 209, 204)),
     ((245, 244, 239), (38, 54, 79), (147, 180, 238)),
     ((245, 244, 239), (58, 46, 79), (188, 166, 240)),
     ((245, 244, 239), (74, 42, 62), (238, 156, 200))]"

definition light_ints :: "(irgb \<times> irgb \<times> irgb) list" where
  "light_ints = [
     ((31, 30, 28), (249, 222, 219), (166, 58, 46)),
     ((31, 30, 28), (251, 229, 211), (154, 79, 27)),
     ((31, 30, 28), (246, 236, 203), (125, 98, 18)),
     ((31, 30, 28), (220, 239, 223), (47, 122, 61)),
     ((31, 30, 28), (213, 238, 236), (30, 117, 112)),
     ((31, 30, 28), (220, 230, 247), (47, 95, 168)),
     ((31, 30, 28), (231, 223, 248), (106, 73, 181)),
     ((31, 30, 28), (248, 221, 235), (166, 58, 120))]"

lemma ints_eq: "map ints dark_rgb = dark_ints" "map ints light_rgb = light_ints"
  by (simp_all add: dark_rgb_def light_rgb_def dark_ints_def light_ints_def ints_def rgb_int_def)

lemma dark_apart: "list_all (author_apart (31, 30, 28)) dark_ints"
  by code_simp

lemma light_apart: "list_all (author_apart (250, 249, 245)) light_ints"
  by code_simp

definition author_legible :: "jstr \<Rightarrow> author_color \<Rightarrow> bool" where
  "author_legible bg a \<longleftrightarrow> legible (9 / 2) (au_text a) (au_bubble a) \<and> legible (9 / 2) (au_name a) bg
     \<and> legible (9 / 2) (muted_on (au_text a) (au_bubble a)) (au_bubble a)"

definition theme_legible :: "chat_theme \<Rightarrow> bool" where
  "theme_legible t \<longleftrightarrow> list_all (author_legible (ct_bg t)) (ct_authors t)
     \<and> legible (9 / 2) (ct_textPrimary t) (ct_bubbleOwn t) \<and> legible (9 / 2) (ct_textPrimary t) (ct_bg t)
     \<and> legible (9 / 2) (muted_on (ct_textPrimary t) (ct_bubbleOwn t)) (ct_bubbleOwn t)
     \<and> legible 3 (ct_accentOn t) (ct_accent t)"

lemma apart_45: "parse_hex a = Inr x \<Longrightarrow> parse_hex b = Inr y \<Longrightarrow> apart 45 (rgb_int x) (rgb_int y) \<Longrightarrow> legible (9 / 2) a b"
  using brighter_legible[of a x b y 45] by simp

lemma apart_30: "parse_hex a = Inr x \<Longrightarrow> parse_hex b = Inr y \<Longrightarrow> apart 30 (rgb_int x) (rgb_int y) \<Longrightarrow> legible 3 a b"
  using brighter_legible[of a x b y 30] by simp

lemma author_legibleI:
  assumes "colors_are a c" "author_apart (rgb_int g) (ints c)" "parse_hex bg = Inr g"
  shows "author_legible bg a"
proof -
  obtain x y n where c: "c = (x, y, n)" by (cases c)
  show ?thesis
    using assms unfolding author_legible_def
    by (auto simp: c ints_def rgb_int_blend[symmetric] intro!: apart_45 parse_muted)
qed

lemma authors_legible:
  assumes "list_all2 colors_are as cs" "list_all (author_apart (rgb_int g)) (map ints cs)" "parse_hex bg = Inr g"
  shows "list_all (author_legible bg) as"
  using assms(1,2)
  by (induction rule: list_all2_induct) (auto intro: author_legibleI[OF _ _ assms(3)])

lemma dark_legible: "theme_legible chat_dark_theme"
  unfolding theme_legible_def
proof (intro conjI)
  show "list_all (author_legible (ct_bg chat_dark_theme)) (ct_authors chat_dark_theme)"
    using authors_legible[OF dark_colors, of "(31, 30, 28)" "ct_bg chat_dark_theme"] dark_apart
    by (simp add: ints_eq rgb_int_def chat_dark_theme_def color_eval)
  have parses: "parse_hex (ct_bg chat_dark_theme) = Inr (31, 30, 28)" "parse_hex (ct_bubbleOwn chat_dark_theme) = Inr (58, 57, 54)"
    "parse_hex (ct_textPrimary chat_dark_theme) = Inr (245, 244, 239)" "parse_hex (ct_accent chat_dark_theme) = Inr (217, 119, 87)"
    "parse_hex (ct_accentOn chat_dark_theme) = Inr (255, 255, 255)"
    by (simp_all add: chat_dark_theme_def color_eval)
  have "apart 45 (245, 244, 239) (58, 57, 54)" "apart 45 (245, 244, 239) (31, 30, 28)" "apart 45 (189, 188, 184) (58, 57, 54)" "apart 30 (255, 255, 255) (217, 119, 87)"
    by code_simp+
  then have a: "apart 45 (rgb_int (245, 244, 239)) (rgb_int (58, 57, 54))" "apart 45 (rgb_int (245, 244, 239)) (rgb_int (31, 30, 28))"
    "apart 45 (rgb_int (blend_rgb (245, 244, 239) (58, 57, 54))) (rgb_int (58, 57, 54))" "apart 30 (rgb_int (255, 255, 255)) (rgb_int (217, 119, 87))"
    by (simp_all add: rgb_int_def)
  show "legible (9 / 2) (ct_textPrimary chat_dark_theme) (ct_bubbleOwn chat_dark_theme)"
    by (rule apart_45[OF parses(3,2) a(1)])
  show "legible (9 / 2) (ct_textPrimary chat_dark_theme) (ct_bg chat_dark_theme)"
    by (rule apart_45[OF parses(3,1) a(2)])
  show "legible (9 / 2) (muted_on (ct_textPrimary chat_dark_theme) (ct_bubbleOwn chat_dark_theme)) (ct_bubbleOwn chat_dark_theme)"
    by (rule apart_45[OF parse_muted[OF parses(3,2)] parses(2) a(3)]) simp_all
  show "legible 3 (ct_accentOn chat_dark_theme) (ct_accent chat_dark_theme)"
    by (rule apart_30[OF parses(5,4) a(4)])
qed

lemma light_legible: "theme_legible chat_light_theme"
  unfolding theme_legible_def
proof (intro conjI)
  show "list_all (author_legible (ct_bg chat_light_theme)) (ct_authors chat_light_theme)"
    using authors_legible[OF light_colors, of "(250, 249, 245)" "ct_bg chat_light_theme"] light_apart
    by (simp add: ints_eq rgb_int_def chat_light_theme_def color_eval)
  have parses: "parse_hex (ct_bg chat_light_theme) = Inr (250, 249, 245)" "parse_hex (ct_bubbleOwn chat_light_theme) = Inr (234, 231, 221)"
    "parse_hex (ct_textPrimary chat_light_theme) = Inr (31, 30, 28)" "parse_hex (ct_accent chat_light_theme) = Inr (198, 97, 63)"
    "parse_hex (ct_accentOn chat_light_theme) = Inr (255, 255, 255)"
    by (simp_all add: chat_light_theme_def color_eval)
  have "apart 45 (31, 30, 28) (234, 231, 221)" "apart 45 (31, 30, 28) (250, 249, 245)" "apart 45 (92, 90, 86) (234, 231, 221)" "apart 30 (255, 255, 255) (198, 97, 63)"
    by code_simp+
  then have a: "apart 45 (rgb_int (31, 30, 28)) (rgb_int (234, 231, 221))" "apart 45 (rgb_int (31, 30, 28)) (rgb_int (250, 249, 245))"
    "apart 45 (rgb_int (blend_rgb (31, 30, 28) (234, 231, 221))) (rgb_int (234, 231, 221))" "apart 30 (rgb_int (255, 255, 255)) (rgb_int (198, 97, 63))"
    by (simp_all add: rgb_int_def)
  show "legible (9 / 2) (ct_textPrimary chat_light_theme) (ct_bubbleOwn chat_light_theme)"
    by (rule apart_45[OF parses(3,2) a(1)])
  show "legible (9 / 2) (ct_textPrimary chat_light_theme) (ct_bg chat_light_theme)"
    by (rule apart_45[OF parses(3,1) a(2)])
  show "legible (9 / 2) (muted_on (ct_textPrimary chat_light_theme) (ct_bubbleOwn chat_light_theme)) (ct_bubbleOwn chat_light_theme)"
    by (rule apart_45[OF parse_muted[OF parses(3,2)] parses(2) a(3)]) simp_all
  show "legible 3 (ct_accentOn chat_light_theme) (ct_accent chat_light_theme)"
    by (rule apart_30[OF parses(5,4) a(4)])
qed

lemma eight_authors: "length (ct_authors (chat_colors s)) = 8"
  by (simp add: chat_colors_def chat_dark_theme_def chat_light_theme_def author_palette_def author_palette_light_def)

text \<open>Under every system scheme the chat's colours keep their promised contrast: every author's
  text on their bubble, their name on the canvas and the muted text of an unreadable encrypted
  message reach 4.5:1, as does one's own text, and the send arrow reaches 3:1. Every user is given
  the author colour of their hash's slot, the same slot in both palettes.\<close>
theorem palettes_are_legible:
  "theme_legible (chat_colors scheme)
    \<and> author_color_index userId < length (ct_authors (chat_colors scheme))
    \<and> author_colors userId (ct_authors (chat_colors scheme)) = ct_authors (chat_colors scheme) ! author_color_index userId
    \<and> author_legible (ct_bg (chat_colors scheme)) (author_colors userId (ct_authors (chat_colors scheme)))"
proof -
  let ?t = "chat_colors scheme"
  have ok: "theme_legible ?t"
    using dark_legible light_legible by (simp add: chat_colors_def)
  have i: "author_color_index userId < length (ct_authors ?t)"
    using author_color_index_bound by (simp add: eight_authors)
  then have c: "author_colors userId (ct_authors ?t) = ct_authors ?t ! author_color_index userId"
    by (simp add: author_colors_def)
  have "author_legible (ct_bg ?t) (ct_authors ?t ! author_color_index userId)"
    using ok i by (simp add: theme_legible_def list_all_length)
  with ok i c show ?thesis by simp
qed

end
