(* ===== verification/Composer.thy ===== *)
theory Composer
  imports Chat_Theme Chat_Store
begin

text \<open>
  \<open>components/Composer.tsx\<close> with \<open>utils/draftRestore.ts\<close> and \<open>chat/composerState.ts\<close>: the draft and the
  flags that mirror it, typing signals, sending, and putting refused text back. Each handler is a
  function of the state and returns what it calls: \<open>onSend\<close> with whether it returned, \<open>sendTyping\<close>.
  The native text field writes the draft before it calls \<open>onChangeText\<close>.
\<close>

section \<open>Restoring refused text\<close>

definition draft_after_restore :: "jstr \<Rightarrow> e2ee_rejection option \<Rightarrow> nat option \<Rightarrow> (jstr \<times> nat) option" where
  "draft_after_restore current restore lastSeq = (case restore of
       None \<Rightarrow> None
     | Some r \<Rightarrow>
         (if Some (rj_seq r) = lastSeq then None
          else if rj_text r = [] then Some (current, rj_seq r)
          else let typed = trim current
               in Some (if typed \<noteq> [] then typed @ [10] @ rj_text r else rj_text r, rj_seq r)))"

record draft_target =
  dt_draft :: jstr
  dt_hasText :: bool

definition apply_draft_restore ::
  "draft_target \<Rightarrow> e2ee_rejection option \<Rightarrow> nat option \<Rightarrow> nat option \<times> draft_target" where
  "apply_draft_restore target restore lastSeq =
     (case draft_after_restore (dt_draft target) restore lastSeq of
        None \<Rightarrow> (None, target)
      | Some (draft, n) \<Rightarrow>
          let target = (if draft \<noteq> dt_draft target then target\<lparr>dt_draft := draft\<rparr> else target);
              active = trim draft \<noteq> []
          in (Some n, if active \<noteq> dt_hasText target then target\<lparr>dt_hasText := active\<rparr> else target))"

section \<open>State and handlers\<close>

definition typing_throttle_ms :: int where "typing_throttle_ms = 300"

record composer =
  co_draft :: jstr
  co_lastTypingAt :: int
  co_lastActive :: bool
  co_hasText :: bool
  co_hasTextRef :: bool
  co_focused :: bool
  co_restoredSeq :: "nat option"

definition new_composer :: composer where
  "new_composer = \<lparr>co_draft = [], co_lastTypingAt = 0, co_lastActive = False, co_hasText = False,
     co_hasTextRef = False, co_focused = False, co_restoredSeq = None\<rparr>"

datatype composer_effect = OnSend jstr bool | SendTyping bool

text \<open>The target of a restore is the draft and both copies of \<open>hasText\<close>.\<close>

definition restore_draft :: "e2ee_rejection option \<Rightarrow> composer \<Rightarrow> composer" where
  "restore_draft restoreDraft s =
     (case apply_draft_restore \<lparr>dt_draft = co_draft s, dt_hasText = co_hasTextRef s\<rparr> restoreDraft (co_restoredSeq s) of
        (applied, t) \<Rightarrow>
          let s = s\<lparr>co_draft := dt_draft t\<rparr>;
              s = (if dt_hasText t \<noteq> co_hasTextRef s
                   then s\<lparr>co_hasTextRef := dt_hasText t, co_hasText := dt_hasText t\<rparr> else s)
          in (case applied of None \<Rightarrow> s | Some n \<Rightarrow> s\<lparr>co_restoredSeq := Some n\<rparr>))"

definition handle_change :: "jstr \<Rightarrow> int \<Rightarrow> composer \<Rightarrow> composer \<times> composer_effect list" where
  "handle_change text now s =
     (let active = trim text \<noteq> [];
          s = (if active \<noteq> co_hasTextRef s then s\<lparr>co_hasTextRef := active, co_hasText := active\<rparr> else s)
      in if active \<noteq> co_lastActive s \<or> now - co_lastTypingAt s > typing_throttle_ms
         then (s\<lparr>co_lastActive := active, co_lastTypingAt := now\<rparr>, [SendTyping active])
         else (s, []))"

text \<open>\<open>accepts content\<close>: \<open>onSend(content)\<close> returns; otherwise it throws.\<close>

definition handle_press :: "bool \<Rightarrow> (jstr \<Rightarrow> bool) \<Rightarrow> composer \<Rightarrow> composer \<times> composer_effect list" where
  "handle_press disabled accepts s =
     (if disabled then (s, [])
      else let content = trim (co_draft s)
           in if content = [] then (s, [])
              else if \<not> accepts content then (s, [OnSend content False])
              else (s\<lparr>co_draft := [], co_hasTextRef := False, co_hasText := False, co_lastActive := False\<rparr>,
                    [OnSend content True, SendTyping False]))"

record composer_view =
  cv_expanded :: bool
  cv_send :: send_button_visual
  cv_chip :: "jstr option"

definition render_composer :: "bool \<Rightarrow> bool \<Rightarrow> chat_theme \<Rightarrow> composer \<Rightarrow> composer_view" where
  "render_composer disabled encrypted chat s =
     \<lparr>cv_expanded = (composer_mode_of (co_focused s) (co_hasText s) = ModeCard),
      cv_send = send_button_visual_of (send_button_state_of (co_hasText s) disabled) chat,
      cv_chip = e2ee_chip_label encrypted\<rparr>"

section \<open>Runs\<close>

datatype composer_event =
  Typed jstr int
| Press bool bool
| Restore "e2ee_rejection option"
| Focus bool

fun composer_step :: "composer_event \<Rightarrow> composer \<Rightarrow> composer \<times> composer_effect list" where
  "composer_step (Typed text now) s = handle_change text now (s\<lparr>co_draft := text\<rparr>)"
| "composer_step (Press disabled ok) s = handle_press disabled (\<lambda>_. ok) s"
| "composer_step (Restore r) s = (restore_draft r s, [])"
| "composer_step (Focus b) s = (s\<lparr>co_focused := b\<rparr>, [])"

fun composer_run :: "composer_event list \<Rightarrow> composer \<Rightarrow> composer \<times> composer_effect list" where
  "composer_run [] s = (s, [])"
| "composer_run (e # es) s =
     (case composer_step e s of (s, fx) \<Rightarrow> case composer_run es s of (s, fx') \<Rightarrow> (s, fx @ fx'))"

section \<open>The flags mirror the draft\<close>

definition mirrors_draft :: "composer \<Rightarrow> bool" where
  "mirrors_draft s \<longleftrightarrow> co_hasText s = (trim (co_draft s) \<noteq> []) \<and> co_hasTextRef s = (trim (co_draft s) \<noteq> [])"

definition typing_after :: "composer_effect list \<Rightarrow> bool \<Rightarrow> bool" where
  "typing_after fx b = fold (\<lambda>e b. case e of SendTyping c \<Rightarrow> c | OnSend _ _ \<Rightarrow> b) fx b"

lemma trim_Nil [simp]: "trim [] = []"
  by (simp add: trim_def)

lemma mirrors_draft_step: "mirrors_draft s \<Longrightarrow> mirrors_draft (fst (composer_step e s))"
  by (cases e)
    (auto simp: mirrors_draft_def handle_change_def handle_press_def restore_draft_def apply_draft_restore_def
      draft_after_restore_def Let_def split: option.splits)

lemma typing_after_step: "typing_after (snd (composer_step e s)) (co_lastActive s) = co_lastActive (fst (composer_step e s))"
  by (cases e)
    (auto simp: typing_after_def handle_change_def handle_press_def restore_draft_def Let_def split: option.splits prod.splits)

lemma composer_run_Cons:
  "fst (composer_run (e # es) s) = fst (composer_run es (fst (composer_step e s)))"
  "snd (composer_run (e # es) s) = snd (composer_step e s) @ snd (composer_run es (fst (composer_step e s)))"
  by (simp_all add: split_def)

lemma composer_run_inv:
  "mirrors_draft s \<Longrightarrow> mirrors_draft (fst (composer_run es s))"
  "typing_after (snd (composer_run es s)) (co_lastActive s) = co_lastActive (fst (composer_run es s))"
proof (induction es arbitrary: s)
  case (Cons e es)
  {
    case 1
    from Cons.IH(1)[OF mirrors_draft_step[OF 1, of e]] show ?case by (simp only: composer_run_Cons)
  next
    case 2
    from Cons.IH(2)[of "fst (composer_step e s)"] typing_after_step[of e s] show ?case
      by (simp add: typing_after_def composer_run_Cons del: composer_run.simps)
  }
qed (simp_all add: typing_after_def)

definition holds_text :: "composer \<Rightarrow> bool" where
  "holds_text s \<longleftrightarrow> trim (co_draft s) \<noteq> []"

text \<open>Whatever is typed, restored, focused and sent in any order, the button, the card and the typing
  signal tell the truth: the send button is enabled exactly when the room is not gated and the draft
  holds text, the composer is a card exactly while focused or holding text, and the last signal the
  peers were sent is the one the composer remembers.\<close>
theorem composer_tells_truth:
  "let (s, fx) = composer_run es new_composer; v = render_composer disabled encrypted chat s
   in (sv_enabled (cv_send v) \<longleftrightarrow> \<not> disabled \<and> holds_text s)
     \<and> (sv_icon (cv_send v) = LockFill \<longleftrightarrow> disabled)
     \<and> (cv_expanded v \<longleftrightarrow> co_focused s \<or> holds_text s)
     \<and> typing_after fx False = co_lastActive s"
proof -
  obtain s fx where r: "composer_run es new_composer = (s, fx)" by (cases "composer_run es new_composer")
  have "mirrors_draft new_composer" by (simp add: mirrors_draft_def new_composer_def)
  from composer_run_inv(1)[OF this, of es] r have m: "mirrors_draft s" by simp
  have t: "typing_after fx False = co_lastActive s"
    using composer_run_inv(2)[of es new_composer] r by (simp add: new_composer_def)
  show ?thesis
    using m t by (cases disabled; cases "co_hasText s")
      (auto simp: r holds_text_def render_composer_def mirrors_draft_def composer_mode_of_def send_button_state_of_def)
qed

section \<open>No text is lost\<close>

lemma trim_prefix_kept:
  assumes "t \<noteq> []" and "trim t = t"
  shows "starts_with (trim (t @ r)) t"
proof -
  have h: "\<not> is_ws (hd t)" and l: "\<not> is_ws (last t)"
    using trim_hd[of t] trim_last[of t] assms by simp_all
  have "dropWhile is_ws (t @ r) = t @ r"
    using h assms(1) by (intro dropWhile_no) auto
  moreover have "\<exists>q. dropWhile is_ws (rev r @ rev t) = q @ rev t"
  proof (cases "dropWhile is_ws (rev r) = []")
    case True
    then have "dropWhile is_ws (rev r @ rev t) = rev t"
      using l assms(1) by (subst dropWhile_append2) (auto simp: dropWhile_eq_Nil_conv dropWhile_no hd_rev)
    then show ?thesis by (metis append_Nil)
  next
    case False
    then have "\<exists>x \<in> set (rev r). \<not> is_ws x"
      by (simp add: dropWhile_eq_Nil_conv)
    then show ?thesis by (metis dropWhile_append1)
  qed
  ultimately show ?thesis
    by (auto simp: trim_def starts_with_iff)
qed

lemma starts_with_trans: "starts_with a b \<Longrightarrow> starts_with b c \<Longrightarrow> starts_with a c"
  by (auto simp: starts_with_iff)

lemma restore_keeps:
  assumes "trim (co_draft s) \<noteq> []"
  shows "starts_with (trim (co_draft (restore_draft r s))) (trim (co_draft s))"
proof -
  have "starts_with (trim (trim (co_draft s) @ q)) (trim (co_draft s))" for q
    using assms by (intro trim_prefix_kept) simp_all
  then show ?thesis
    using assms
    by (auto simp: restore_draft_def apply_draft_restore_def draft_after_restore_def Let_def starts_with_def
        split: option.splits)
qed

lemma run_keeps_text:
  assumes "t \<noteq> []" and "starts_with (trim (co_draft s)) t"
    and "list_all (\<lambda>e. case e of Typed _ _ \<Rightarrow> False | _ \<Rightarrow> True) es"
  shows "starts_with (trim (co_draft (fst (composer_run es s)))) t
    \<or> (\<exists>u. OnSend u True \<in> set (snd (composer_run es s)) \<and> starts_with u t)"
  using assms(2,3)
proof (induction es arbitrary: s)
  case (Cons e es)
  have ne: "trim (co_draft s) \<noteq> []"
    using Cons.prems(1) assms(1) by (auto simp: starts_with_def)
  obtain s1 fx1 where st: "composer_step e s = (s1, fx1)" by (cases "composer_step e s")
  have "starts_with (trim (co_draft s1)) t \<or> (\<exists>u. OnSend u True \<in> set fx1 \<and> starts_with u t)"
    using st Cons.prems ne restore_keeps[OF ne] starts_with_trans
    by (cases e) (auto simp: handle_press_def Let_def split: if_splits)
  with Cons.IH[of s1] Cons.prems(2) st show ?case
    by (auto split: prod.splits)
qed simp

text \<open>C38. Text in the composer waits until it was sent: as long as the user does not edit it, it stays
  at the front of the draft through failed and gated sends, focus changes and restores of refused
  text, unless an onSend that returned was handed it.\<close>
theorem draft_waits_until_sent:
  assumes "trim (co_draft s) \<noteq> []"
    and "list_all (\<lambda>e. case e of Typed _ _ \<Rightarrow> False | _ \<Rightarrow> True) es"
  shows "starts_with (trim (co_draft (fst (composer_run es s)))) (trim (co_draft s))
    \<or> (\<exists>u. OnSend u True \<in> set (snd (composer_run es s)) \<and> starts_with u (trim (co_draft s)))"
  using assms by (intro run_keeps_text) (simp_all add: starts_with_def)

section \<open>A rejection is restored once\<close>

definition other_rejection :: "nat \<Rightarrow> composer_event \<Rightarrow> bool" where
  "other_rejection n e \<longleftrightarrow> (case e of Restore (Some r) \<Rightarrow> rj_seq r \<noteq> n | _ \<Rightarrow> False)"

lemma restored_seq_step:
  "co_restoredSeq s = Some n \<Longrightarrow> \<not> other_rejection n e \<Longrightarrow> co_restoredSeq (fst (composer_step e s)) = Some n"
  by (cases e) (auto simp: other_rejection_def handle_change_def handle_press_def restore_draft_def apply_draft_restore_def
      draft_after_restore_def Let_def split: option.splits)

lemma restored_seq_run:
  "co_restoredSeq s = Some n \<Longrightarrow> list_all (\<lambda>e. \<not> other_rejection n e) es
    \<Longrightarrow> co_restoredSeq (fst (composer_run es s)) = Some n"
proof (induction es arbitrary: s)
  case (Cons e es)
  then have "co_restoredSeq (fst (composer_step e s)) = Some n" by (simp add: restored_seq_step)
  with Cons show ?case by (simp add: composer_run_Cons del: composer_run.simps)
qed simp

lemma restore_seen: "co_restoredSeq s = Some (rj_seq r) \<Longrightarrow> restore_draft (Some r) s = s"
  by (simp add: restore_draft_def apply_draft_restore_def draft_after_restore_def)

text \<open>A refused text comes back into the composer exactly once: the first time its rejection is seen
  the text is appended under what is being typed and Send is unlocked for it, and however often the
  effect runs again, whatever the user did meanwhile, the same rejection changes nothing.\<close>
theorem refused_text_restored_once:
  assumes "mirrors_draft s" and "co_restoredSeq s \<noteq> Some (rj_seq r)" and "trim (rj_text r) \<noteq> []"
    and "list_all (\<lambda>e. \<not> other_rejection (rj_seq r) e) es"
  shows "let s1 = restore_draft (Some r) s; s2 = fst (composer_run es s1)
    in co_draft s1 = (if trim (co_draft s) = [] then rj_text r else trim (co_draft s) @ [10] @ rj_text r)
      \<and> co_hasText s1 \<and> restore_draft (Some r) s2 = s2"
proof -
  let ?s1 = "restore_draft (Some r) s"
  have t: "rj_text r \<noteq> []" using assms(3) by auto
  have d: "co_draft ?s1 = (if trim (co_draft s) = [] then rj_text r else trim (co_draft s) @ [10] @ rj_text r)"
    and q: "co_restoredSeq ?s1 = Some (rj_seq r)"
    using assms(2) t
    by (auto simp: restore_draft_def apply_draft_restore_def draft_after_restore_def Let_def)
  have "trim (co_draft s) \<noteq> [] \<Longrightarrow> trim (trim (co_draft s) @ [10] @ rj_text r) \<noteq> []"
    using trim_prefix_kept[of "trim (co_draft s)" "[10] @ rj_text r"] by (auto simp: starts_with_def)
  moreover have "mirrors_draft ?s1"
    using mirrors_draft_step[OF assms(1), of "Restore (Some r)"] by simp
  ultimately have "co_hasText ?s1"
    using d assms(3) by (auto simp: mirrors_draft_def split: if_splits)
  moreover have "restore_draft (Some r) (fst (composer_run es ?s1)) = fst (composer_run es ?s1)"
    by (rule restore_seen[OF restored_seq_run[OF q assms(4)]])
  ultimately show ?thesis using d by (simp add: Let_def)
qed

section \<open>Witnesses\<close>

definition sample_typed :: composer where
  "sample_typed = fst (composer_step (Typed (js ''hi '') 1000) new_composer)"

definition sample_restore :: e2ee_rejection where
  "sample_restore = \<lparr>rj_text = js ''no'', rj_seq = 1, rj_kind = Restored\<rparr>"

lemma sample_typed_draft: "co_draft sample_typed = js ''hi ''" "trim (js ''hi '') = js ''hi''" "trim (js ''no'') = js ''no''"
  "co_restoredSeq sample_typed = None" "mirrors_draft sample_typed"
  by (simp_all add: sample_typed_def handle_change_def new_composer_def Let_def trim_def is_ws_def js_def mirrors_draft_def)

lemma draft_waits_until_sent_witness:
  "let r = composer_run [Press True True, Restore (Some sample_restore), Press False True] sample_typed
   in starts_with (trim (co_draft (fst r))) (js ''hi'') \<or> (\<exists>u. OnSend u True \<in> set (snd r) \<and> starts_with u (js ''hi''))"
  using draft_waits_until_sent[of sample_typed "[Press True True, Restore (Some sample_restore), Press False True]"]
  by (simp add: sample_typed_draft Let_def del: composer_run.simps)

lemma refused_text_restored_once_witness:
  "let s1 = restore_draft (Some sample_restore) sample_typed; s2 = fst (composer_run [Typed (js ''x'') 1100, Press False True] s1)
    in co_draft s1 = js ''hi'' @ [10] @ js ''no'' \<and> co_hasText s1 \<and> restore_draft (Some sample_restore) s2 = s2"
  using refused_text_restored_once[of sample_typed sample_restore "[Typed (js ''x'') 1100, Press False True]"]
  by (simp add: sample_typed_draft Let_def sample_restore_def other_rejection_def del: composer_run.simps)

end
