(* ===== verification/Chat_Screen.thy ===== *)
theory Chat_Screen
  imports Composer Room_Session Use_E2ee
begin

text \<open>
  \<open>app/(chat)/[roomId].tsx\<close> with \<open>components/MessageItem.tsx\<close>: the screen of one room over the stores
  and the room session. The list's scroll state is a machine whose handlers return the scrolls they
  request (\<open>True\<close> for an animated one); sending goes from the composer's button through the screen to
  the engine; what is shown is computed from the stores. Pixel layout and styles are left out.
\<close>

section \<open>Keeping the list at its end\<close>

text \<open>The refs of the screen, and \<open>composerHeight\<close>.\<close>

record list_state =
  ls_metrics :: scroll_metrics
  ls_atEnd :: bool
  ls_lastComposerHeight :: rat
  ls_composerHeight :: rat
  ls_snapped :: bool
  ls_pendingEnd :: "bool option"
  ls_sentByMe :: bool
  ls_prevCount :: nat

definition new_list :: "nat \<Rightarrow> list_state" where
  "new_list count = \<lparr>ls_metrics = \<lparr>sm_offset = 0, sm_visibleHeight = 0, sm_contentHeight = 0, sm_bottomInset = 0\<rparr>,
     ls_atEnd = False, ls_lastComposerHeight = 0, ls_composerHeight = 0, ls_snapped = False, ls_pendingEnd = None,
     ls_sentByMe = False, ls_prevCount = count\<rparr>"













section \<open>The encryption banner\<close>

datatype banner_state = BnIdle | BnEnabling | BnError

record banner =
  bn_state :: banner_state
  bn_error :: "jstr option"

datatype banner_effect = CallEnable | GoBack | NavigateRoom jstr

definition banner_press :: "banner \<Rightarrow> banner \<times> banner_effect list" where
  "banner_press b = (if bn_state b = BnEnabling then (b, [])
     else (b\<lparr>bn_state := BnEnabling, bn_error := None\<rparr>, [CallEnable]))"

text \<open>\<open>enableRoomE2ee\<close> settles; a rejection that is no \<open>Error\<close> is \<open>None\<close>.\<close>

definition banner_settled :: "jstr \<Rightarrow> jstr option option \<Rightarrow> banner \<Rightarrow> banner \<times> banner_effect list" where
  "banner_settled roomId outcome b = (case outcome of
       None \<Rightarrow> (b, [GoBack, NavigateRoom (js ''/(chat)/'' @ roomId)])
     | Some err \<Rightarrow> (b\<lparr>bn_state := BnError, bn_error := Some (case err of
           None \<Rightarrow> js ''Failed to enable encryption'' | Some m \<Rightarrow> m)\<rparr>, []))"

section \<open>Sending\<close>

record ('d, 'a, 's, 'k) screen =
  sn_session :: "('d, 'a, 's, 'k) session"
  sn_list :: list_state
  sn_composer :: composer
  sn_sendError :: "cipher_error send_error option"

definition room_cipher :: "('d, 'a, 's, 'k) session_env \<Rightarrow> ('d, 'a, 's, 'k) session \<Rightarrow> cipher option" where
  "room_cipher X s = map_option (\<lambda>x. ss_ciphers s (rc_cipher x)) (ch_roomCryptoByRoom (ss_chat s) (se_room X))"

definition composer_ready :: "('d, 'a, 's, 'k) session_env \<Rightarrow> ('d, 'a, 's, 'k) session \<Rightarrow> bool" where
  "composer_ready X s = is_composer_ready (use_room_e2ee_state (se_room X) (ss_rooms s))
     (current_key_id (se_room X) (ss_rooms s)) (room_cipher X s)"

text \<open>The screen's \<open>handleSend\<close>; the first component is whether it returned.\<close>

definition handle_send ::
  "('d, 'a, 's, 'k) session_env \<Rightarrow> jstr \<Rightarrow> int \<Rightarrow> bytes \<Rightarrow> jstr \<Rightarrow> ('d, 'a, 's, 'k) screen \<Rightarrow> bool \<times> ('d, 'a, 's, 'k) screen" where
  "handle_send X mid now nonce content n = (case session_send X mid now nonce content (sn_session n) of
     (None, s) \<Rightarrow> (True, n\<lparr>sn_session := s\<lparr>ss_chat := clear_e2ee_rejection (se_room X) (ss_chat s)\<rparr>,
        sn_list := (sn_list n)\<lparr>ls_sentByMe := True\<rparr>, sn_sendError := None\<rparr>)
   | (Some e, s) \<Rightarrow> (False, n\<lparr>sn_session := s, sn_sendError := Some e\<rparr>))"

text \<open>
  A press of Send: the composer calls \<open>handleSend\<close> with the trimmed draft, then clears itself and
  signals that typing has stopped.
\<close>

definition press_send ::
  "('d, 'a, 's, 'k) session_env \<Rightarrow> jstr \<Rightarrow> int \<Rightarrow> bytes \<Rightarrow> ('d, 'a, 's, 'k) screen \<Rightarrow> ('d, 'a, 's, 'k) screen" where
  "press_send X mid now nonce n =
     (let (c, fx) = handle_press (\<not> composer_ready X (sn_session n))
            (\<lambda>content. fst (handle_send X mid now nonce content n)) (sn_composer n);
          n = fold (\<lambda>e n. case e of
                OnSend content _ \<Rightarrow> snd (handle_send X mid now nonce content n)
              | composer_effect.SendTyping b \<Rightarrow> n\<lparr>sn_session := session_typing X b (sn_session n)\<rparr>) fx n
      in n\<lparr>sn_composer := c\<rparr>)"

section \<open>What is shown\<close>

definition can_enable_e2ee :: "jstr \<Rightarrow> 'k rooms_state \<Rightarrow> bool" where
  "can_enable_e2ee roomId rs \<longleftrightarrow> roomId \<noteq> default_room
     \<and> (case room_summary_of roomId rs of None \<Rightarrow> False | Some r \<Rightarrow> sm_role r = role_admin)
     \<and> use_room_e2ee_state roomId rs = StPlaintext"

datatype display_text = DtText jstr | DtWaiting | DtUnavailable

record item_view =
  iv_text :: display_text
  iv_muted :: bool
  iv_author :: "jstr option"
  iv_bubbleColor :: jstr
  iv_textColor :: jstr
  iv_topRadius :: nat
  iv_bottomRadius :: nat
  iv_showTime :: bool

fun display_text_of :: "render_state \<Rightarrow> display_text" where
  "display_text_of (RsPlaintext t) = DtText t"
| "display_text_of (RsDecrypted t) = DtText t"
| "display_text_of RsWaitingForKey = DtWaiting"
| "display_text_of RsKeyUnavailable = DtUnavailable"

fun is_plain :: "render_state \<Rightarrow> bool" where
  "is_plain (RsPlaintext t) = True"
| "is_plain (RsDecrypted t) = True"
| "is_plain RsWaitingForKey = False"
| "is_plain RsKeyUnavailable = False"

text \<open>
  One message over the stores; \<open>iv_topRadius\<close> and \<open>iv_bottomRadius\<close> are the corners on its author's side.
\<close>

definition message_item ::
  "sodium \<Rightarrow> chat_theme \<Rightarrow> nat chat_state \<Rightarrow> (nat \<Rightarrow> cipher) \<Rightarrow> 'k rooms_state \<Rightarrow> bool \<Rightarrow> group_position \<Rightarrow> message
    \<Rightarrow> item_view" where
  "message_item N c chat ciphers rs isOwn g m =
     (let author = author_colors (m_userId m) (ct_authors c);
          cipher = map_option (\<lambda>x. ciphers (rc_cipher x)) (ch_roomCryptoByRoom chat (m_roomId m));
          pending = use_room_pending_epochs_for_me (m_roomId m) chat;
          roomIsE2eeEnabled = (use_room_e2ee_state (m_roomId m) rs \<noteq> StPlaintext);
          r = resolve_message_render_state N m cipher
                (\<lambda>d. case epoch_of_decimal d of None \<Rightarrow> False | Some k \<Rightarrow> k \<in> pending) roomIsE2eeEnabled
      in \<lparr>iv_text = display_text_of r, iv_muted = \<not> is_plain r,
          iv_author = (if gp_showAuthor g \<and> \<not> isOwn then Some (m_username m) else None),
          iv_bubbleColor = (if isOwn then ct_bubbleOwn c else au_bubble author),
          iv_textColor = (if isOwn then ct_textPrimary c else au_text author),
          iv_topRadius = (if gp_isFirst g then ra_bubble (ct_radius c) else ra_sm (ct_radius c)),
          iv_bottomRadius = (if gp_isLast g then ra_bubble (ct_radius c) else ra_sm (ct_radius c)),
          iv_showTime = gp_isLast g\<rparr>)"

datatype gate_banner = CheckingEncryption | WaitingForKey

record screen_view =
  vw_items :: "item_view list"
  vw_emptyRoom :: bool
  vw_canEnable :: bool
  vw_gate :: "gate_banner option"
  vw_rejection :: "rejection_kind option"
  vw_composer :: composer_view

fun status_text :: "status \<Rightarrow> jstr" where
  "status_text StConnected = js ''connected''"
| "status_text StConnecting = js ''connecting''"
| "status_text StDisconnected = js ''disconnected''"

definition screen_messages :: "('d, 'a, 's, 'k) session_env \<Rightarrow> ('d, 'a, 's, 'k) session \<Rightarrow> message list" where
  "screen_messages X s = use_room_messages (se_room X) (ss_chat s)"

definition screen_items ::
  "('d, 'a, 's, 'k) session_env \<Rightarrow> jstr option \<Rightarrow> chat_theme \<Rightarrow> ('d, 'a, 's, 'k) session \<Rightarrow> item_view list" where
  "screen_items X myUserId t s =
     (let messages = screen_messages X s
      in map (\<lambda>(g, m). message_item (se_sodium X) t (ss_chat s) (ss_ciphers s) (ss_rooms s) (Some (m_userId m) = myUserId) g m)
           (zip (positions group_gap_ms myUserId messages) messages))"

definition screen_empty_room :: "('d, 'a, 's, 'k) session_env \<Rightarrow> ('d, 'a, 's, 'k) session \<Rightarrow> bool" where
  "screen_empty_room X s = show_empty_room (use_room_loaded (se_room X) (ss_chat s)) (length (screen_messages X s))
     (status_text (use_room_ws_status (se_room X) (ss_chat s)))"

definition screen_gate :: "('d, 'a, 's, 'k) session_env \<Rightarrow> ('d, 'a, 's, 'k) session \<Rightarrow> gate_banner option" where
  "screen_gate X s = (if composer_ready X s then None
     else Some (if use_room_e2ee_state (se_room X) (ss_rooms s) = StUnknown then CheckingEncryption else WaitingForKey))"

definition screen_rejection :: "('d, 'a, 's, 'k) session_env \<Rightarrow> ('d, 'a, 's, 'k) session \<Rightarrow> rejection_kind option" where
  "screen_rejection X s = map_option rj_kind (ch_e2eeRejectionByRoom (ss_chat s) (se_room X))"

definition screen_composer ::
  "('d, 'a, 's, 'k) session_env \<Rightarrow> chat_theme \<Rightarrow> ('d, 'a, 's, 'k) screen \<Rightarrow> composer_view" where
  "screen_composer X t n = render_composer (\<not> composer_ready X (sn_session n))
     (use_room_e2ee_state (se_room X) (ss_rooms (sn_session n)) = StE2ee) t (sn_composer n)"

text \<open>The readout of the end-to-end builds: message count, order digest, connection status.\<close>

definition qa_readout ::
  "('d, 'a, 's, 'k) session_env \<Rightarrow> jstr option \<Rightarrow> ('d, 'a, 's, 'k) session \<Rightarrow> (jstr \<times> jstr \<times> jstr) option" where
  "qa_readout X flag s = (if is_qa_readout_enabled flag
     then Some (dec_nat (length (screen_messages X s)) @ js '' msgs'', compute_order_digest (map m_content (screen_messages X s)),
                status_text (use_room_ws_status (se_room X) (ss_chat s)))
     else None)"

text \<open>\<open>None\<close> is the page of a user who is not a member.\<close>

definition chat_screen ::
  "('d, 'a, 's, 'k) session_env \<Rightarrow> jstr option \<Rightarrow> chat_theme \<Rightarrow> ('d, 'a, 's, 'k) screen \<Rightarrow> screen_view option" where
  "chat_screen X myUserId t n =
     (let s = sn_session n
      in if ss_membership s = MsNotAMember then None
         else Some \<lparr>vw_items = screen_items X myUserId t s, vw_emptyRoom = screen_empty_room X s,
              vw_canEnable = can_enable_e2ee (se_room X) (ss_rooms s), vw_gate = screen_gate X s,
              vw_rejection = screen_rejection X s, vw_composer = screen_composer X t n\<rparr>)"

text \<open>\<open>HeaderRoomPill\<close>: the screen reader's label and the spans with their colours.\<close>

fun tone_color :: "status_colors \<Rightarrow> status_tone \<Rightarrow> jstr" where
  "tone_color c ToneConnected = sc_connected c"
| "tone_color c ToneConnecting = sc_connecting c"
| "tone_color c ToneOffline = sc_offline c"

definition header_room_pill :: "chat_theme \<Rightarrow> rat \<Rightarrow> jstr \<Rightarrow> jstr \<Rightarrow> nat \<Rightarrow> jstr \<times> (jstr \<times> jstr) list" where
  "header_room_pill t width roomId wsStatus onlineCount =
     (let slot = pill_slot_width width
      in (header_pill_a11y_label roomId wsStatus onlineCount,
          [(pill_room_label roomId slot, ct_textPrimary t), (js ''  '' @ [0xb7] @ js ''  '', ct_textSecondary t),
           ([0x25cf], tone_color (ct_status t) (status_tone_of wsStatus)),
           (js '' '' @ presence_label onlineCount, ct_textSecondary t)]))"

section \<open>A reader who scrolled up is left alone\<close>








section \<open>Pressing Send\<close>

lemma engine_transaction_doc: "ps_doc (ss_local (engine_transaction X d s)) = d"
  by (simp add: engine_transaction_def engine_changed_doc)

lemma session_typing_local [simp]: "ss_local (session_typing X b s) = ss_local s"
  "ss_chat (session_typing X b s) = ss_chat s"
  by (simp_all add: session_typing_def)

definition engine_encryptor ::
  "('d, 'a, 's, 'k) session_env \<Rightarrow> bytes \<Rightarrow> ('d, 'a, 's, 'k) session \<Rightarrow> (jstr \<Rightarrow> aad \<Rightarrow> cipher_error + jstr) option" where
  "engine_encryptor X nonce s = map_option (\<lambda>a. cipher_encrypt (se_sodium X) nonce (ss_ciphers s a)) (ss_contentCipher s)"

lemma press_send_ignored:
  "\<not> composer_ready X (sn_session n) \<or> trim (co_draft (sn_composer n)) = [] \<Longrightarrow> press_send X mid now nonce n = n"
  by (auto simp: press_send_def handle_press_def Let_def)

lemma press_send_thrown:
  assumes "composer_ready X (sn_session n)" and "trim (co_draft (sn_composer n)) \<noteq> []"
    and "session_send X mid now nonce (trim (co_draft (sn_composer n))) (sn_session n) = (Some e, s)"
  shows "press_send X mid now nonce n = n\<lparr>sn_session := s, sn_sendError := Some e\<rparr>"
  using assms by (simp add: press_send_def handle_press_def handle_send_def Let_def)

lemma press_send_accepted:
  assumes "composer_ready X (sn_session n)" and "trim (co_draft (sn_composer n)) \<noteq> []"
    and "session_send X mid now nonce (trim (co_draft (sn_composer n))) (sn_session n) = (None, s)"
  shows "press_send X mid now nonce n = n\<lparr>
    sn_session := session_typing X False (s\<lparr>ss_chat := clear_e2ee_rejection (se_room X) (ss_chat s)\<rparr>),
    sn_list := (sn_list n)\<lparr>ls_sentByMe := True\<rparr>, sn_sendError := None,
    sn_composer := (sn_composer n)\<lparr>co_draft := [], co_hasTextRef := False, co_hasText := False, co_lastActive := False\<rparr>\<rparr>"
  using assms by (simp add: press_send_def handle_press_def handle_send_def Let_def)

text \<open>C25. Pressing Send has exactly three outcomes. Gated or blank, nothing happens. When the engine
  refuses, the document and the draft stay as they are and the error is shown. Otherwise exactly one
  message is appended to the document, holding the trimmed draft or what the room's cipher made of
  it, the draft and the error are cleared, and a notice of an earlier rejection goes away.\<close>
theorem press_send_outcomes:
  fixes X :: "('d, 'a, 's, 'k) session_env" and n :: "('d, 'a, 's, 'k) screen" and mid :: jstr and now :: int and nonce :: bytes
  assumes "array_laws (se_yjs X)" and "ss_mounted (sn_session n)"
  defines "doc \<equiv> \<lambda>n :: ('d, 'a, 's, 'k) screen. y_messages (se_yjs X) (ps_doc (ss_local (sn_session n)))"
    and "text \<equiv> trim (co_draft (sn_composer n))"
    and "n' \<equiv> press_send X mid now nonce n"
  shows "if \<not> composer_ready X (sn_session n) \<or> text = [] then n' = n
    else case sn_sendError n' of
      Some e \<Rightarrow> doc n' = doc n \<and> sn_composer n' = sn_composer n
        \<and> send_message (se_yjs X) (pe_cfg (se_pv X)) (engine_encryptor X nonce (sn_session n)) mid now text
            (ps_doc (ss_local (sn_session n))) = Inl e
    | None \<Rightarrow> co_draft (sn_composer n') = [] \<and> ch_e2eeRejectionByRoom (ss_chat (sn_session n')) (se_room X) = None
        \<and> (\<exists>m. doc n' = doc n @ [m] \<and> m_id m = mid \<and> m_userId m = se_user X
             \<and> (case engine_encryptor X nonce (sn_session n) of
                  None \<Rightarrow> m_content m = text
                | Some enc \<Rightarrow> enc text (message_aad m) = Inr (m_content m)))"
proof (cases "\<not> composer_ready X (sn_session n) \<or> text = []")
  case True
  then show ?thesis using press_send_ignored[of X n mid now nonce] by (auto simp: n'_def text_def)
next
  case False
  then have ready: "composer_ready X (sn_session n)" and ne: "trim (co_draft (sn_composer n)) \<noteq> []"
    by (simp_all add: text_def)
  let ?d = "ps_doc (ss_local (sn_session n))" and ?enc = "engine_encryptor X nonce (sn_session n)"
  let ?r = "send_message (se_yjs X) (pe_cfg (se_pv X)) ?enc mid now text ?d"
  show ?thesis
  proof (cases ?r)
    case (Inl e)
    then have "session_send X mid now nonce text (sn_session n) = (Some e, sn_session n)"
      using assms(2) by (simp add: session_send_def engine_encryptor_def)
    from press_send_thrown[OF ready ne this[unfolded text_def]]
    have n': "n' = n\<lparr>sn_session := sn_session n, sn_sendError := Some e\<rparr>" by (simp add: n'_def)
    show ?thesis using False Inl by (simp add: n' doc_def)
  next
    case (Inr md)
    then obtain m d where md: "?r = Inr (m, d)" by (cases md) simp
    then have "session_send X mid now nonce text (sn_session n) = (None, engine_transaction X d (sn_session n))"
      using assms(2) by (simp add: session_send_def engine_encryptor_def)
    note n' = press_send_accepted[OF ready ne this[unfolded text_def], folded n'_def]
    have t: "trim text = text" by (simp add: text_def)
    note sent = send_message_Inr[OF md]
    have "doc n' = doc n @ [m]"
      using array_lawsD(1)[OF assms(1)] by (simp add: n' doc_def engine_transaction_doc sent(3))
    moreover have "case ?enc of None \<Rightarrow> m_content m = text | Some enc \<Rightarrow> enc text (message_aad m) = Inr (m_content m)"
      using sent(7,8) t by (cases ?enc) simp_all
    ultimately show ?thesis
      using False sent(4,5) by (auto simp: n' se_user_def clear_e2ee_rejection_def)
  qed
qed

definition sample_screen :: "(message list, nat list, (jstr \<times> jstr) list, (jstr \<times> jstr) list) screen" where
  "sample_screen = \<lparr>sn_session = sample_idle\<lparr>ss_mounted := True,
       ss_rooms := (new_rooms_state [])\<lparr>rm_refreshByRoom := (\<lambda>_. Some (RfOk 0))\<rparr>\<rparr>,
     sn_list = new_list 0, sn_composer = sample_typed, sn_sendError = None\<rparr>"

lemma sample_screen_ready: "composer_ready sample_session_env (sn_session sample_screen)"
  by (simp add: composer_ready_def is_composer_ready_def use_room_e2ee_state_def resolve_room_e2ee_state_def
      sample_screen_def new_rooms_state_def default_room_def)

lemma press_send_outcomes_witness:
  "let n = press_send sample_session_env (js ''i'') 7 [] sample_screen
   in sn_sendError n = None \<and> co_draft (sn_composer n) = []
     \<and> (\<exists>m. ps_doc (ss_local (sn_session n)) = [m] \<and> m_content m = js ''hi'')"
proof -
  let ?s = "sn_session sample_screen"
  have "array_laws (se_yjs sample_session_env)" "ss_mounted ?s"
    by (simp_all add: sample_screen_def)
  moreover have "engine_encryptor sample_session_env [] ?s = None" "ps_doc (ss_local ?s) = []"
    and c: "sn_composer sample_screen = sample_typed"
    by (simp_all add: sample_screen_def sample_idle_def idle_session_def engine_encryptor_def)
  moreover have "send_message list_yjs cfg (None :: cipher_error encryptor option) mid now (js ''hi'') [] \<noteq> Inl e"
    for cfg mid now e
    using sample_typed_draft(2) trim_trim[of "js ''hi ''"] by (simp add: send_message_def max_message_length_def Let_def)
  ultimately show ?thesis
    using press_send_outcomes[of sample_session_env sample_screen "js ''i''" 7 "[]"] sample_screen_ready
    by (auto simp: sample_typed_draft Let_def split: option.splits)
qed

section \<open>What an encrypted room shows\<close>

lemma length_positions: "length (positions g me ms) = length ms"
  by (simp add: positions_def)

lemma message_item_text:
  "case iv_text (message_item N c chat ciphers rs own g m) of
      DtText t \<Rightarrow> t = m_content m \<and> (parse_envelope (m_content m) = Inr None \<or> use_room_e2ee_state (m_roomId m) rs = StPlaintext)
        \<or> (\<exists>x. ch_roomCryptoByRoom chat (m_roomId m) = Some x
              \<and> cipher_decrypt N (ciphers (rc_cipher x)) (m_content m) (message_aad m) = Inr t)
    | _ \<Rightarrow> iv_muted (message_item N c chat ciphers rs own g m) \<and> use_room_e2ee_state (m_roomId m) rs \<noteq> StPlaintext"
  by (auto simp: message_item_def resolve_message_render_state_def Let_def split: option.splits sum.splits)

text \<open>C26. In a room that is not known to be plaintext the screen lists every message of the document once,
  and each row shows a text that is no envelope, or what the cipher of the message's room authenticated and
  decrypted, or a muted placeholder. The one way to ciphertext is a message that names another room: it is
  shown as it is when that other room is known to be plaintext, as the lobby always is.\<close>
theorem encrypted_screen_shows_no_ciphertext:
  assumes "use_room_e2ee_state (se_room X) (ss_rooms s) \<noteq> StPlaintext" and "i < length (screen_messages X s)"
  shows "length (screen_items X me t s) = length (screen_messages X s)
    \<and> (let m = screen_messages X s ! i; v = screen_items X me t s ! i
       in case iv_text v of
            DtText x \<Rightarrow> x = m_content m \<and> (parse_envelope (m_content m) = Inr None
                  \<or> m_roomId m \<noteq> se_room X \<and> use_room_e2ee_state (m_roomId m) (ss_rooms s) = StPlaintext)
              \<or> (\<exists>c. ch_roomCryptoByRoom (ss_chat s) (m_roomId m) = Some c
                   \<and> cipher_decrypt (se_sodium X) (ss_ciphers s (rc_cipher c)) (m_content m) (message_aad m) = Inr x)
          | _ \<Rightarrow> iv_muted v)"
proof -
  let ?m = "screen_messages X s ! i"
  have v: "screen_items X me t s ! i = message_item (se_sodium X) t (ss_chat s) (ss_ciphers s) (ss_rooms s)
      (Some (m_userId ?m) = me) (positions group_gap_ms me (screen_messages X s) ! i) ?m"
    using assms(2) by (simp add: screen_items_def length_positions Let_def)
  note row = message_item_text[where N = "se_sodium X" and c = t and chat = "ss_chat s" and ciphers = "ss_ciphers s"
      and rs = "ss_rooms s" and own = "Some (m_userId ?m) = me" and g = "positions group_gap_ms me (screen_messages X s) ! i" and m = ?m]
  show ?thesis
    unfolding Let_def v using row assms(1)
    by (auto simp: screen_items_def length_positions Let_def split: display_text.splits)
qed

definition sample_shown :: "(message list, nat list, (jstr \<times> jstr) list, (jstr \<times> jstr) list) session" where
  "sample_shown = sample_idle\<lparr>ss_chat := set_messages (js ''r'')
     [\<lparr>m_id = js ''i'', m_roomId = js ''r'', m_userId = js ''v'', m_username = js ''V'', m_content = js ''hi'', m_createdAt = 7\<rparr>]
     new_chat_state\<rparr>"

lemma encrypted_screen_shows_no_ciphertext_witness:
  "length (screen_items sample_session_env None chat_dark_theme sample_shown) = 1"
proof -
  have "use_room_e2ee_state (se_room sample_session_env) (ss_rooms sample_shown) \<noteq> StPlaintext"
    by (simp add: use_room_e2ee_state_def resolve_room_e2ee_state_def sample_shown_def sample_idle_def idle_session_def
        new_rooms_state_def default_room_def)
  moreover have m: "screen_messages sample_session_env sample_shown =
     [\<lparr>m_id = js ''i'', m_roomId = js ''r'', m_userId = js ''v'', m_username = js ''V'', m_content = js ''hi'', m_createdAt = 7\<rparr>]"
    by (simp add: screen_messages_def use_room_messages_def sample_shown_def set_messages_def)
  ultimately show ?thesis
    using encrypted_screen_shows_no_ciphertext[of sample_session_env sample_shown 0 None chat_dark_theme] by simp
qed

text \<open>
  The gate checks that a message names a room, not which: an envelope whose \<open>roomId\<close> is that of the lobby
  is shown raw, whatever the room it was sent to.
\<close>

theorem envelope_naming_the_lobby_is_shown:
  assumes "m_roomId m = default_room"
  shows "iv_text (message_item N c chat ciphers rs own g m) = DtText (m_content m)"
  using assms by (simp add: message_item_def resolve_message_render_state_def use_room_e2ee_state_def Let_def)

end
