(* ===== verification/Spec2Isabelle.thy ===== *)
theory Spec2Isabelle
  imports Convergence Build_Guards Env_Validation Bench_Setup Engine_Subscriptions Gateway_Limits Room_Keys Accounts Ws_Provider Persistence Key_Exchange Rooms_Store Auth_Store Room_Session Use_E2ee Raw_Ws_Socket Chat_Screen App_Shell Bench_Client
begin

text \<open>
  Verification of chat-crdt, an end-to-end encrypted, offline-first chat over Yjs documents: a NestJS
  server (\<open>apps/server\<close>), a client sync engine (\<open>packages/sync-engine\<close>), shared wire types
  (\<open>packages/shared\<close>) and a React Native client (\<open>apps/mobile\<close>), with the server's latency bench
  (\<open>apps/server/bench\<close>). Paths below are relative to \<open>src/\<close>.

  \<^bold>\<open>The program.\<close> A room is a Yjs document. A client keeps a replica, edits it offline, and exchanges
  updates with the server over a WebSocket; the server keeps a replica for each loaded room, merges,
  fans out to the room's sockets and, through Redis, to its other instances, and saves the document.
  Rooms, members, sealed room keys and accounts are rows behind REST endpoints. In an encrypted room
  the content of a message is an envelope that only members can open; the server checks the envelopes
  without opening them. Keys are minted in epochs, sealed to the members' public keys, and served by
  whoever already has them.

  \<^bold>\<open>Ground.\<close> \<open>Prelude\<close> (insertion-ordered sets, outcomes, rule collections, the capped backoff),
  \<open>JString\<close> (strings as UTF-16 code units, numerals), \<open>Json\<close> (\<open>JSON.parse\<close> and \<open>stringify\<close>),
  \<open>Base64\<close> (\<open>polyfills/base64.ts\<close> on 32-bit words), \<open>Shared_Types\<close> (\<open>packages/shared\<close>),
  \<open>Http\<close> (outcomes of a \<open>fetch\<close> and what the network does to one), \<open>Storage\<close> (key-value stores), \<open>Yjs\<close> and \<open>Sodium\<close> (the libraries).

  \<^bold>\<open>Server.\<close> \<open>Database\<close> is the Prisma schema and each query the services make; \<open>Rooms_Service\<close>,
  \<open>Room_Keys\<close> and \<open>Accounts\<close> are the services (\<open>rooms\<close>, \<open>users\<close>, \<open>auth\<close>); \<open>Dto_Validation\<close> and
  \<open>Rest_Api\<close> the bodies and controllers; \<open>Env_Validation\<close> the environment at boot; \<open>Metrics\<close> the gauges.
  \<open>Update_Gate\<close> is \<open>sync/e2ee-update-gate.ts\<close>, \<open>Gateway\<close> is \<open>sync/sync.gateway.ts\<close> with \<open>room-state.ts\<close>:
  a record of the class's fields, a heap of room objects that timers and listeners capture, and one
  step for each stretch of an async handler between two awaits. Its lemmas are in \<open>Gateway_Inv\<close> (the
  invariant over all interleavings), \<open>Gateway_Properties\<close> (membership, gate, epochs, gauge),
  \<open>Gateway_Limits\<close> (rate limit, heartbeats), \<open>Gateway_Kept\<close> and \<open>Gateway_Sync\<close> (what every step leaves
  alone, and what it does for one socket's view of its room) and \<open>Room_Registry\<close> (a room's name stands
  for one object as long as timers collect only registered rooms).

  \<^bold>\<open>Sync engine.\<close> \<open>Sync_Engine\<close> and \<open>Engine_Subscriptions\<close> are \<open>SyncEngine.ts\<close>, \<open>Ws_Provider\<close> is
  \<open>WebSocketProvider.ts\<close> as a state machine over the socket's events, with \<open>Provider_Sync\<close> for what each
  event does to the document; \<open>Persistence\<close> is \<open>SQLitePersistence.ts\<close>. \<open>Convergence\<close> composes the gateway
  with a provider at the other end of every socket.

  \<^bold>\<open>Client.\<close> \<open>Envelope\<close>, \<open>Content_Cipher\<close>, \<open>Key_Store\<close>, \<open>Key_Flows\<close> and \<open>Room_Refresher\<close> are
  \<open>src/crypto\<close>; \<open>Encryption\<close> and \<open>Key_Exchange\<close> prove what they give together with the server.
  \<open>Chat_Store\<close>, \<open>Rooms_Store\<close> and \<open>Auth_Store\<close> are \<open>src/store\<close>; \<open>Room_Session\<close> and \<open>Use_E2ee\<close> the hooks
  \<open>useSync\<close> and \<open>useE2ee\<close>, which compose engine, provider, persistence, keys and stores for one screen;
  \<open>Conversation\<close>, \<open>Chat_Theme\<close>, \<open>Composer\<close>, \<open>Chat_Screen\<close> and \<open>App_Shell\<close> the screens as machines over
  the user's actions. \<open>Build_Guards\<close> is \<open>config\<close>: what keeps test features out of a release.

  \<^bold>\<open>Bench.\<close> \<open>Raw_Ws_Socket\<close> (framing over a TCP stream), \<open>Bench_Client\<close>, \<open>Bench_Setup\<close> and
  \<open>Bench_Report\<close>.

  \<^bold>\<open>How code becomes definitions.\<close> A class or store is a record of its fields, a method a function from
  the state to the state and the effects in the order the code causes them. A thrown error is a value
  of a sum or option. An async method is cut at each await, its continuation a later step, so a
  theorem about reachable states holds for every order in which handlers, timers, answers and writes
  can interleave. Timers are fields that say what is armed; time is an argument where it matters, as
  for the claims of a token, which say when it was issued and when it expires. A request is composed
  with the server's handler and with what becomes of it on the way (\<open>delivery\<close>: delivered, not reached,
  or the answer lost); writes that a handler made before an error stay made.
  Objects shared by reference are entries of a heap.

  \<^bold>\<open>Libraries.\<close> Yjs, y-protocols, lib0, awareness (\<open>Yjs\<close>), libsodium (\<open>Sodium\<close>), bcrypt, JWT and
  SHA-256 (fields of \<open>auth_env\<close>, \<open>rest_env\<close>, \<open>gateway_env\<close>), class-validator's length and email checks and
  the schema library's URL check are arguments of the definitions; what the code relies on is a
  predicate on them (\<open>lib0_laws\<close>, \<open>sync_laws\<close>, \<open>array_laws\<close>, \<open>state_laws\<close>, \<open>crdt_laws\<close>, \<open>aead_laws\<close>,
  \<open>bcrypt_law\<close>, \<dots>), satisfied by a concrete instance in each witness.

  \<^bold>\<open>What is shown.\<close> First of all eventual consistency (\<open>Convergence\<close>): over every order of connections,
  reconnections, offline edits, deliveries, rejections, rate limits and garbage collections, nothing a
  replica knows is lost on the way (\<open>nothing_is_lost\<close>), so clients joined to the room of one name with
  nothing in flight show the same messages as the server (\<open>settled_clients_agree\<close>), in all runs in which
  no timer collects a room object that another has replaced; \<open>collected_twice_splits_the_room\<close> is a run
  with such a timer, after which they differ. Then confidentiality: the gate lets in exactly
  the enveloped updates, what a client sends passes it and is read by the members, an encrypted room
  never falls back to plain text and never shows ciphertext. Keys: epochs are claimed by one winner,
  served keys reach whoever should have them and nobody else, a newly published key requeues every
  epoch. Access: only members are in a room, opened rooms admit. Liveness: a provider retries or gives
  up, a silent socket is terminated, an enabled room becomes usable. And the state machines of
  provider, gateway, refresher, session, composer and screens keep their invariants.

  \<^bold>\<open>Interfaces.\<close> \<open>retry_delay\<close> (\<open>Prelude\<close>) is the contract of the three backoffs, interpreted for the
  provider, the gateway's resync and the refresher; \<open>kv_store\<close> (\<open>Storage\<close>) that of \<open>IStorage\<close>,
  interpreted for the memory and the SQLite store and used by persistence, key store and auth store.

  \<^bold>\<open>Bounds and loops.\<close> \<open>json_parse\<close> recurses on fuel, one unit for a nested value and one more than the
  input's length, which \<open>json_roundtrip\<close> shows to be enough for whatever the program prints. The
  receive loop of the raw socket is a \<open>function\<close> with its termination proof, the wait for a server's
  readiness a \<open>partial_function\<close> proved to return, and redirects between screens are at most three.
  Machine integers are words where the code computes with 32-bit operators; lengths and counters are
  natural numbers, as \<open>Number\<close> represents them exactly in the ranges used.

  \<^bold>\<open>Idealised.\<close> JSON numbers and the numbers of \<open>Number(s)\<close> are exact decimals, latencies and layout
  lengths rationals, luminance real; the rounding of doubles is left out. In \<open>crdt_laws\<close> a document is
  judged by the set of operations it has; an update that arrives before one it depends on counts as
  applied when that one arrives. Sockets deliver in order and lose nothing while they are open.

  \<^bold>\<open>Not modelled.\<close> The wiring of Nest modules and the construction of clients (\<open>*.module.ts\<close>,
  \<open>prisma.service.ts\<close>), which are declarations for the framework; logging; the throttler and the text of
  metrics, which belong to packages; native widgets, styles, animations and React's rendering
  (\<open>src/ui\<close>, JSX), which keep no state of the program; the router's own stack; the Maestro flows and
  their scripts (\<open>.maestro\<close>), which test the built app; the plugin wrappers of Expo; Docker, Kubernetes
  and patch files. Of the bench: the HTTP handshake of its socket, the publish and drain loops (timers
  around modelled calls) and the spawning of processes.
\<close>

end
